(* ===== verification/Prelude.thy ===== *)
theory Prelude
  imports Main "HOL-Library.AList"
begin

text \<open>
  Shared vocabulary of the development: the Python string operations the source
  uses, on strings of Latin-1 characters (an Isabelle \<open>char\<close> is one
  of the code points 0 to 255), Python's insertion-ordered dictionaries as
  association lists, and the collections of rewrite rules the component
  theories feed to the simplifier.
\<close>

named_theorems py_string \<open>Python string operations, unfolded on literals\<close>
named_theorems dict_simps \<open>lookup, update and deletion on dictionaries\<close>
named_theorems guard_simps \<open>unfolding of the guards of the operations\<close>

section \<open>Characters and strings\<close>

abbreviation char_code :: "char \<Rightarrow> nat" where
  "char_code c \<equiv> of_char c"

definition py_isspace :: "char \<Rightarrow> bool" where
  "py_isspace c = (char_code c \<in> {9, 10, 11, 12, 13, 28, 29, 30, 31, 32, 133, 160})"

definition is_line_break :: "char \<Rightarrow> bool" where
  "is_line_break c = (char_code c \<in> {10, 11, 12, 13, 28, 29, 30, 133})"

definition is_ascii_digit :: "char \<Rightarrow> bool" where
  "is_ascii_digit c = (48 \<le> char_code c \<and> char_code c \<le> 57)"

definition lower_char :: "char \<Rightarrow> char" where
  "lower_char c =
     (let n = char_code c in
      if (65 \<le> n \<and> n \<le> 90) \<or> (192 \<le> n \<and> n \<le> 222 \<and> n \<noteq> 215)
      then char_of (n + 32) else c)"

definition py_lower :: "string \<Rightarrow> string" where
  "py_lower s = map lower_char s"

definition py_lstrip :: "string \<Rightarrow> string" where
  "py_lstrip s = dropWhile py_isspace s"

definition py_strip :: "string \<Rightarrow> string" where
  "py_strip s = rev (dropWhile py_isspace (rev (dropWhile py_isspace s)))"

definition py_startswith :: "string \<Rightarrow> string \<Rightarrow> bool" where
  "py_startswith s p = (take (length p) s = p)"

definition py_endswith :: "string \<Rightarrow> string \<Rightarrow> bool" where
  "py_endswith s p = (length p \<le> length s \<and> drop (length s - length p) s = p)"

text \<open>\<open>needle in s\<close>.\<close>

fun py_contains :: "string \<Rightarrow> string \<Rightarrow> bool" where
  "py_contains [] p = (p = [])"
| "py_contains (c # s) p = (py_startswith (c # s) p \<or> py_contains s p)"

text \<open>\<open>s.split(sep, 1)\<close> for a one-character separator: the part before the
  first separator, and the part after it when there is one.\<close>

fun split_once :: "char \<Rightarrow> string \<Rightarrow> string \<times> string option" where
  "split_once d [] = ([], None)"
| "split_once d (c # s) =
     (if c = d then ([], Some s)
      else (case split_once d s of (a, b) \<Rightarrow> (c # a, b)))"

text \<open>\<open>s.split(sep)\<close> for a one-character separator.\<close>

fun py_split :: "char \<Rightarrow> string \<Rightarrow> string list" where
  "py_split d [] = [[]]"
| "py_split d (c # s) =
     (if c = d then [] # py_split d s
      else (case py_split d s of [] \<Rightarrow> [[c]] | w # ws \<Rightarrow> (c # w) # ws))"

fun py_join :: "string \<Rightarrow> string list \<Rightarrow> string" where
  "py_join sep [] = []"
| "py_join sep [x] = x"
| "py_join sep (x # y # ys) = x @ sep @ py_join sep (y # ys)"

text \<open>\<open>s.splitlines()\<close>: a carriage return followed by a line feed is one
  break, and a trailing break opens no further line.\<close>

fun splitlines_go :: "string \<Rightarrow> string \<Rightarrow> string list" where
  "splitlines_go acc [] = (if acc = [] then [] else [rev acc])"
| "splitlines_go acc [c] = (if is_line_break c then [rev acc] else [rev (c # acc)])"
| "splitlines_go acc (c # d # s) =
     (if is_line_break c
      then (if char_code c = 13 \<and> char_code d = 10
            then rev acc # splitlines_go [] s
            else rev acc # splitlines_go [] (d # s))
      else splitlines_go (c # acc) (d # s))"

definition py_splitlines :: "string \<Rightarrow> string list" where
  "py_splitlines s = splitlines_go [] s"

text \<open>\<open>text.replace(value, by)\<close> for a non-empty value.\<close>

function py_replace :: "string \<Rightarrow> string \<Rightarrow> string \<Rightarrow> string" where
  "py_replace v r [] = []"
| "py_replace v r (c # s) =
     (if v \<noteq> [] \<and> py_startswith (c # s) v then r @ py_replace v r (drop (length v) (c # s))
      else c # py_replace v r s)"
  by pat_completeness auto

termination
  by (relation "measure (\<lambda>(v, r, s). length s)") (auto simp: neq_Nil_conv)

text \<open>\<open>s.isidentifier()\<close> on Latin-1.\<close>

definition id_start :: "char \<Rightarrow> bool" where
  "id_start c =
     (let n = char_code c in
      (65 \<le> n \<and> n \<le> 90) \<or> (97 \<le> n \<and> n \<le> 122) \<or> n = 95 \<or> n = 170 \<or> n = 181 \<or> n = 186 \<or>
      (192 \<le> n \<and> n \<le> 214) \<or> (216 \<le> n \<and> n \<le> 246) \<or> (248 \<le> n \<and> n \<le> 255))"

definition id_continue :: "char \<Rightarrow> bool" where
  "id_continue c = (id_start c \<or> is_ascii_digit c \<or> char_code c = 183)"

fun py_isidentifier :: "string \<Rightarrow> bool" where
  "py_isidentifier [] = False"
| "py_isidentifier (c # s) = (id_start c \<and> list_all id_continue s)"

text \<open>\<open>str(n)\<close> for a non-negative int.\<close>

fun decimal :: "nat \<Rightarrow> string" where
  "decimal n = (if n < 10 then [char_of (48 + n)] else decimal (n div 10) @ [char_of (48 + n mod 10)])"

declare decimal.simps [simp del]

lemmas py_string_defs [py_string] =
  py_isspace_def is_line_break_def is_ascii_digit_def lower_char_def py_lower_def
  py_lstrip_def py_strip_def py_startswith_def py_endswith_def py_splitlines_def
  id_start_def id_continue_def

lemma py_startswith_Nil [simp]: "py_startswith s []"
  by (simp add: py_startswith_def)

lemma py_startswith_append [simp]: "py_startswith (p @ s) p"
  by (simp add: py_startswith_def)

lemma py_startswith_iff: "py_startswith s p \<longleftrightarrow> (\<exists>t. s = p @ t)"
proof
  assume "py_startswith s p"
  then have "take (length p) s = p" by (simp add: py_startswith_def)
  then have "s = p @ drop (length p) s" by (metis append_take_drop_id)
  then show "\<exists>t. s = p @ t" ..
qed (auto simp: py_startswith_def)

lemma py_contains_iff: "py_contains s p \<longleftrightarrow> (\<exists>a b. s = a @ p @ b)"
proof (induction s)
  case (Cons c s)
  have "(\<exists>a b. c # s = a @ p @ b) \<longleftrightarrow>
        (\<exists>b. c # s = p @ b) \<or> (\<exists>a b. s = a @ p @ b)"
    by (metis append_Cons append_Nil list.exhaust list.inject)
  then show ?case using Cons by (simp add: py_startswith_iff)
qed simp

lemma split_once_append:
  "split_once d s = (a, Some b) \<Longrightarrow> s = a @ d # b \<and> d \<notin> set a"
  by (induction s arbitrary: a) (auto split: if_splits prod.splits)

lemma split_once_None_iff: "snd (split_once d s) = None \<longleftrightarrow> d \<notin> set s"
  by (induction s) (auto split: prod.splits)

lemma split_once_fst: "d \<notin> set (fst (split_once d s))"
  by (induction s) (auto split: prod.splits)

lemma length_dropWhile_le': "length (dropWhile P xs) \<le> length xs"
  by (simp add: length_dropWhile_le)

lemma length_py_strip: "length (py_strip s) \<le> length s"
proof -
  have "length (py_strip s) \<le> length (dropWhile py_isspace s)"
    by (metis length_dropWhile_le' length_rev py_strip_def)
  also have "\<dots> \<le> length s" by (rule length_dropWhile_le')
  finally show ?thesis .
qed

lemma splitlines_go_size:
  "sum_list (map length (splitlines_go acc s)) + length (splitlines_go acc s)
     \<le> length acc + length s + 1"
  by (induction acc s rule: splitlines_go.induct) (auto split: if_splits)

lemma splitlines_size:
  "sum_list (map length (py_splitlines s)) + length (py_splitlines s) \<le> length s + 1"
  using splitlines_go_size [of "[]" s] by (simp add: py_splitlines_def)

section \<open>Sorted lists\<close>

lemma sorted_split:
  "sorted (map f xs) \<Longrightarrow> xs = filter (\<lambda>y. f y < k) xs @ filter (\<lambda>y. \<not> f y < k) xs"
proof (induction xs)
  case (Cons a xs)
  show ?case
  proof (cases "f a < k")
    case False
    then have none: "filter (\<lambda>y. f y < k) xs = []" using Cons.prems by (auto simp: filter_empty_conv)
    then have "filter (\<lambda>y. \<not> f y < k) xs = xs" using Cons by simp
    then show ?thesis using none False by simp
  qed (use Cons in simp)
qed simp

section \<open>Dictionaries\<close>

text \<open>A Python \<open>dict\<close> iterates in insertion order, and assigning to a key that
  is there keeps its place; \<^const>\<open>AList.update\<close> behaves the same way.
  \<^const>\<open>AList.delete\<close> is \<open>d.pop(k, None)\<close>.\<close>

type_synonym ('k, 'v) dict = "('k \<times> 'v) list"

abbreviation dict_get :: "('k, 'v) dict \<Rightarrow> 'k \<Rightarrow> 'v option" where
  "dict_get d k \<equiv> map_of d k"

abbreviation dict_keys :: "('k, 'v) dict \<Rightarrow> 'k list" where
  "dict_keys d \<equiv> map fst d"

abbreviation dict_put :: "'k \<Rightarrow> 'v \<Rightarrow> ('k, 'v) dict \<Rightarrow> ('k, 'v) dict" where
  "dict_put k v d \<equiv> AList.update k v d"

abbreviation dict_del :: "'k \<Rightarrow> ('k, 'v) dict \<Rightarrow> ('k, 'v) dict" where
  "dict_del k d \<equiv> AList.delete k d"

abbreviation dict_ok :: "('k, 'v) dict \<Rightarrow> bool" where
  "dict_ok d \<equiv> distinct (map fst d)"

declare map_of_eq_Some_iff [simp del] and Some_eq_map_of_iff [simp del]

lemma dict_get_put [dict_simps]:
  "dict_get (dict_put k v d) k' = (if k' = k then Some v else dict_get d k')"
  by (simp add: update_conv')

lemma dict_get_del [dict_simps]:
  "dict_get (dict_del k d) k' = (if k' = k then None else dict_get d k')"
  by (simp add: delete_conv')

lemma dict_ok_put [simp, intro]: "dict_ok d \<Longrightarrow> dict_ok (dict_put k v d)"
  by (rule distinct_update)

lemma dict_ok_del [simp, intro]: "dict_ok d \<Longrightarrow> dict_ok (dict_del k d)"
  by (rule distinct_delete)

lemma dict_put_keys:
  "set (dict_keys (dict_put k v d)) = insert k (set (dict_keys d))"
  by (induction d) auto

lemma length_dict_put:
  "length (dict_put k v d) =
     (if k \<in> set (dict_keys d) then length d else Suc (length d))"
  by (induction d) auto

lemma length_dict_del: "length (dict_del k d) \<le> length d"
  by (rule length_delete_le)

lemma dict_put_preserves_set:
  "set (dict_put k v d) \<subseteq> insert (k, v) (set d)"
  by (induction d) auto

end
