(* ===== verification/Shlex.thy ===== *)
theory Shlex
  imports Prelude
begin

text \<open>
  The lexer behind \<open>_tokenize\<close> (\<open>src/boxxkite/command_whitelist.py\<close>): Python's
  \<open>shlex.shlex(command, posix=True, punctuation_chars=True)\<close> with
  \<open>whitespace_split = True\<close>. One equation per lexer state, in the order in which
  \<open>read_token\<close> tests the next character. A result of \<^const>\<open>None\<close> is the
  \<open>ValueError\<close> of an unclosed quotation or a trailing escape.
\<close>

definition is_lex_space :: "char \<Rightarrow> bool" where
  "is_lex_space c = (c \<in> {CHR '' '', CHR 0x09, CHR 0x0D, CHR 0x0A})"

definition is_lex_punct :: "char \<Rightarrow> bool" where
  "is_lex_punct c = (c \<in> set ''();<>|&'')"

definition is_lex_quote :: "char \<Rightarrow> bool" where
  "is_lex_quote c = (c = CHR 0x27 \<or> c = CHR 0x22)"

lemmas lex_char_defs [py_string] = is_lex_space_def is_lex_punct_def is_lex_quote_def

text \<open>The states carry the token read so far and whether part of it was quoted.
  \<open>InEscape\<close> remembers the quote to go back to, if the backslash stood in one.\<close>

datatype lex_state =
    Start
  | InWord string bool
  | InPunct string
  | InQuote char string
  | InEscape string bool "char option"

definition skip_line :: "string \<Rightarrow> string" where
  "skip_line s = drop 1 (dropWhile (\<lambda>c. c \<noteq> CHR 0x0A) s)"

definition emit :: "string \<Rightarrow> bool \<Rightarrow> string list option \<Rightarrow> string list option" where
  "emit tok quoted rest =
     (if tok \<noteq> [] \<or> quoted then map_option (Cons tok) rest else rest)"

lemma length_skip_line: "length (skip_line s) \<le> length s"
  using length_dropWhile_le [of "\<lambda>c. c \<noteq> CHR 0x0A" s] by (simp add: skip_line_def)

lemma skip_line_bounds:
  "2 * length (skip_line s) \<le> Suc (2 * length s)"
  "2 * length (skip_line s) \<le> Suc (Suc (2 * length s))"
  using length_skip_line [of s] by linarith+

function shlex_go :: "lex_state \<Rightarrow> string \<Rightarrow> string list option" where
  "shlex_go Start [] = Some []"
| "shlex_go Start (c # s) =
     (if is_lex_space c then shlex_go Start s
      else if c = CHR ''#'' then shlex_go Start (skip_line s)
      else if c = CHR 0x5C then shlex_go (InEscape [] False None) s
      else if is_lex_punct c then shlex_go (InPunct [c]) s
      else if is_lex_quote c then shlex_go (InQuote c []) s
      else shlex_go (InWord [c] False) s)"
| "shlex_go (InWord tok q) [] = emit tok q (Some [])"
| "shlex_go (InWord tok q) (c # s) =
     (if is_lex_space c then emit tok q (shlex_go Start s)
      else if c = CHR ''#'' then emit tok q (shlex_go Start (skip_line s))
      else if is_lex_quote c then shlex_go (InQuote c tok) s
      else if c = CHR 0x5C then shlex_go (InEscape tok q None) s
      else if \<not> is_lex_punct c then shlex_go (InWord (tok @ [c]) q) s
      else emit tok q (shlex_go Start (c # s)))"
| "shlex_go (InPunct tok) [] = emit tok False (Some [])"
| "shlex_go (InPunct tok) (c # s) =
     (if is_lex_space c then emit tok False (shlex_go Start s)
      else if c = CHR ''#'' then emit tok False (shlex_go Start (skip_line s))
      else if is_lex_punct c then shlex_go (InPunct (tok @ [c])) s
      else emit tok False (shlex_go Start (c # s)))"
| "shlex_go (InQuote d tok) [] = None"
| "shlex_go (InQuote d tok) (c # s) =
     (if c = d then shlex_go (InWord tok True) s
      else if c = CHR 0x5C \<and> d = CHR 0x22 then shlex_go (InEscape tok True (Some d)) s
      else shlex_go (InQuote d (tok @ [c])) s)"
| "shlex_go (InEscape tok q back) [] = None"
| "shlex_go (InEscape tok q back) (c # s) =
     (case back of
        None \<Rightarrow> shlex_go (InWord (tok @ [c]) q) s
      | Some d \<Rightarrow>
          shlex_go (InQuote d
            (if c \<noteq> CHR 0x5C \<and> c \<noteq> d then tok @ [CHR 0x5C, c] else tok @ [c])) s)"
  by pat_completeness auto

termination
  by (relation "measure (\<lambda>(st, s). 2 * length s + (if st = Start then 0 else 1))")
     (auto simp: less_Suc_eq_le skip_line_bounds)

definition shlex_split :: "string \<Rightarrow> string list option" where
  "shlex_split s = shlex_go Start s"

section \<open>Words, quotations and comments\<close>

text \<open>Characters that have no meaning to the lexer.\<close>

definition plain_char :: "char \<Rightarrow> bool" where
  "plain_char c = (\<not> is_lex_space c \<and> \<not> is_lex_punct c \<and> \<not> is_lex_quote c \<and>
     c \<noteq> CHR ''#'' \<and> c \<noteq> CHR 0x5C)"

lemma plain_charD:
  "plain_char c \<Longrightarrow> \<not> is_lex_space c" "plain_char c \<Longrightarrow> \<not> is_lex_punct c"
  "plain_char c \<Longrightarrow> \<not> is_lex_quote c" "plain_char c \<Longrightarrow> c \<noteq> CHR ''#''"
  "plain_char c \<Longrightarrow> c \<noteq> CHR 0x5C"
  by (simp_all add: plain_char_def)

lemma shlex_word_plain:
  "list_all plain_char w \<Longrightarrow>
     shlex_go (InWord tok q) (w @ s) = shlex_go (InWord (tok @ w) q) s"
  by (induction w arbitrary: tok) (auto simp: plain_charD)

lemma shlex_start_plain:
  assumes "list_all plain_char w" "w \<noteq> []"
  shows "shlex_go Start (w @ s) = shlex_go (InWord w False) s"
  using assms by (cases w) (auto simp: plain_charD shlex_word_plain [where tok = "[_]", simplified])

lemma shlex_word_end:
  assumes "w \<noteq> [] \<or> q"
  shows "shlex_go (InWord w q) [] = Some [w]"
    "is_lex_space c \<Longrightarrow>
       shlex_go (InWord w q) (c # s) = map_option (Cons w) (shlex_go Start s)"
    "is_lex_punct c \<Longrightarrow>
       shlex_go (InWord w q) (c # s) = map_option (Cons w) (shlex_go Start (c # s))"
  using assms
  by (auto simp: emit_def is_lex_punct_def is_lex_space_def is_lex_quote_def)

lemma shlex_quote_body:
  "d = CHR 0x27 \<Longrightarrow> d \<notin> set w \<Longrightarrow>
     shlex_go (InQuote d tok) (w @ d # s) = shlex_go (InWord (tok @ w) True) s"
  by (induction w arbitrary: tok) auto

lemma shlex_start_space [simp]:
  "is_lex_space c \<Longrightarrow> shlex_go Start (c # s) = shlex_go Start s"
  by simp

text \<open>\<open>shlex.quote(s)\<close> for a string that needs quoting: single quotes around it,
  each inner single quote written \<open>'"'"'\<close>.\<close>

fun quote_body :: "string \<Rightarrow> string" where
  "quote_body [] = []"
| "quote_body (c # s) =
     (if c = CHR 0x27
      then [CHR 0x27, CHR 0x22, CHR 0x27, CHR 0x22, CHR 0x27] @ quote_body s
      else c # quote_body s)"

definition shlex_quote :: "string \<Rightarrow> string" where
  "shlex_quote s = CHR 0x27 # quote_body s @ [CHR 0x27]"

lemma shlex_quote_body_go:
  "shlex_go (InQuote (CHR 0x27) tok) (quote_body w @ CHR 0x27 # s)
     = shlex_go (InWord (tok @ w) True) s"
  by (induction w arbitrary: tok) (auto simp: is_lex_space_def is_lex_quote_def is_lex_punct_def)

lemma shlex_quote_start:
  "shlex_go Start (shlex_quote w @ s) = shlex_go (InWord w True) s"
  by (simp add: shlex_quote_def is_lex_space_def is_lex_punct_def is_lex_quote_def
      shlex_quote_body_go)

text \<open>Quoting each word and joining with spaces is undone by the lexer, whatever
  characters the words hold.\<close>

lemma shlex_quote_roundtrip:
  "shlex_split (py_join '' '' (map shlex_quote ws)) = Some ws"
proof -
  have "shlex_go Start (py_join '' '' (map shlex_quote ws)) = Some ws"
  proof (induction ws rule: induct_list012)
    case (2 w)
    show ?case using shlex_quote_start [of w "[]"] by (simp add: shlex_word_end emit_def)
  next
    case (3 w v ws)
    have "shlex_go Start (shlex_quote w @ '' '' @ py_join '' '' (map shlex_quote (v # ws)))
        = shlex_go (InWord w True) (CHR '' '' # py_join '' '' (map shlex_quote (v # ws)))"
      by (simp only: shlex_quote_start append_Cons append_Nil)
    also have "\<dots> = map_option (Cons w)
        (shlex_go Start (py_join '' '' (map shlex_quote (v # ws))))"
      by (simp add: emit_def is_lex_space_def)
    also have "\<dots> = Some (w # v # ws)" using 3 by simp
    finally show ?case by simp
  qed simp
  then show ?thesis by (simp add: shlex_split_def)
qed

text \<open>A number sign ends the token it touches and hides the rest of the line,
  even in the middle of a word, where a POSIX shell takes it literally.\<close>

lemma skip_line_no_newline: "CHR 0x0A \<notin> set t \<Longrightarrow> skip_line t = []"
  by (induction t) (auto simp: skip_line_def)

text \<open>The lexer's answer does not depend on what follows a number sign read
  outside quotations.\<close>

lemma shlex_hash_tail:
  assumes "st = Start \<or> (\<exists>w q. st = InWord w q) \<or> (\<exists>w. st = InPunct w)"
    and "CHR 0x0A \<notin> set t"
  shows "shlex_go st (CHR ''#'' # t) = shlex_go st []"
  using assms
  by (auto simp: skip_line_no_newline emit_def is_lex_space_def)

lemma shlex_plain_hash:
  assumes "list_all (\<lambda>c. plain_char c \<or> is_lex_space c) s"
    and "st = Start \<or> (\<exists>w q. st = InWord w q)" and "CHR 0x0A \<notin> set t"
  shows "shlex_go st (s @ CHR ''#'' # t) = shlex_go st s"
  using assms
proof (induction s arbitrary: st)
  case Nil
  then show ?case using shlex_hash_tail [of st t] by auto
next
  case (Cons c s)
  have IH: "shlex_go Start (s @ CHR ''#'' # t) = shlex_go Start s"
    "\<And>w q. shlex_go (InWord w q) (s @ CHR ''#'' # t) = shlex_go (InWord w q) s"
    using Cons by simp_all
  have "c \<noteq> CHR ''#''" "c \<noteq> CHR 0x5C" "\<not> is_lex_punct c" "\<not> is_lex_quote c"
    using Cons.prems(1) by (auto simp: plain_char_def lex_char_defs)
  with Cons.prems(2) IH show ?case by auto
qed

end
