(* ===== verification/CommandWhitelist.thy ===== *)
theory CommandWhitelist
  imports Shlex "HOL-Library.Char_ord" "HOL-Library.List_Lexorder"
begin

text \<open>
  \<open>src/boxxkite/command_whitelist.py\<close>: the allowlist that decides whether a shell
  command string may run. Python's \<open>re\<close> module is a parameter (a record of what the
  code asks of it); everything else, the lexer included, is defined. A verdict is
  \<^const>\<open>None\<close> for \<open>(True, "")\<close> and \<^const>\<open>Some\<close> of the reason for a refusal;
  \<open>block_message\<close> renders a reason as the agent reads it.
\<close>

section \<open>Rules and reasons\<close>

text \<open>\<open>re_ok p\<close> holds if \<open>re.compile(p, re.IGNORECASE)\<close> does not raise, and
  \<open>re_search p s\<close> if the compiled pattern is found in \<open>s\<close>.\<close>

record regex_engine =
  re_ok :: "string \<Rightarrow> bool"
  re_search :: "string \<Rightarrow> string \<Rightarrow> bool"

text \<open>An entry of \<open>sandbox_allowed_commands\<close>: a string, an object whose
  \<open>command\<close> is a string or not, or another JSON value. Items of the pattern lists
  that are not strings are \<open>None\<close>.\<close>

datatype allow_entry =
    PlainEntry string
  | ObjectEntry "string option" "string option list" "string option list"
  | OtherEntry

record command_rule =
  rule_command :: string
  args_allow :: "string list"
  args_deny :: "string list"

type_synonym rule_map = "(string, command_rule list) dict"

datatype args_reason = NoAllowMatch string | DenyMatch string string

datatype block_reason =
    NestingTooDeep
  | ForbiddenConstruct string
  | ParseFailed
  | NotAllowed string
  | ArgsRefused string args_reason
  | SshNoDestination
  | SshInteractive
  | FindExec
  | EmptyCommand

type_synonym verdict = "block_reason option"

definition redirect_operators :: "string list" where
  "redirect_operators = [''>'', ''>>'', ''<'', ''>&'', ''<&'', ''<>'', ''>|'', ''&>'', ''&>>'']"

definition is_redirect :: "string \<Rightarrow> bool" where
  "is_redirect tok = (tok \<in> set redirect_operators)"

definition is_separator :: "string \<Rightarrow> bool" where
  "is_separator tok =
     (if tok \<in> set redirect_operators then False
      else tok \<noteq> [] \<and> list_all (\<lambda>c. c \<in> set ''();<>|&'') tok)"

definition ssh_options_with_value :: "string list" where
  "ssh_options_with_value =
    [''-b'', ''-B'', ''-c'', ''-D'', ''-E'', ''-e'', ''-F'', ''-I'', ''-i'', ''-J'', ''-L'', ''-l'',
     ''-m'', ''-O'', ''-o'', ''-p'', ''-Q'', ''-R'', ''-S'', ''-W'', ''-w'']"

definition forbidden_constructs :: "(string \<times> string) list" where
  "forbidden_constructs =
    [(''$('', ''command substitution `$(...)`''),
     (''`'', ''command substitution with backticks''),
     (''<<'', ''heredoc input (`<<`)''),
     (''<('', ''process substitution `<(...)`''),
     (''>('', ''process substitution `>(...)`'')]"

fun find_forbidden :: "(string \<times> string) list \<Rightarrow> string \<Rightarrow> string option" where
  "find_forbidden [] command = None"
| "find_forbidden ((construct, label) # rest) command =
     (if py_contains command construct then Some label else find_forbidden rest command)"

definition constrained :: "command_rule \<Rightarrow> bool" where
  "constrained r = (args_allow r \<noteq> [] \<or> args_deny r \<noteq> [])"

definition check_args :: "regex_engine \<Rightarrow> command_rule \<Rightarrow> string \<Rightarrow> args_reason option" where
  "check_args re r arg_string =
     (if args_allow r \<noteq> [] \<and> \<not> list_ex (\<lambda>p. re_search re p arg_string) (args_allow r)
      then Some (NoAllowMatch (rule_command r))
      else map_option (DenyMatch (rule_command r))
             (List.find (\<lambda>p. re_search re p arg_string) (args_deny r)))"

fun compile_patterns :: "regex_engine \<Rightarrow> string option list \<Rightarrow> string list" where
  "compile_patterns re [] = []"
| "compile_patterns re (None # ps) = compile_patterns re ps"
| "compile_patterns re (Some p # ps) =
     (if p = [] \<or> \<not> re_ok re p then compile_patterns re ps
      else p # compile_patterns re ps)"

definition append_rule :: "string \<Rightarrow> command_rule \<Rightarrow> rule_map \<Rightarrow> rule_map" where
  "append_rule name r rules =
     dict_put name (case dict_get rules name of None \<Rightarrow> [r] | Some rs \<Rightarrow> rs @ [r]) rules"

fun normalize_entry :: "regex_engine \<Rightarrow> allow_entry \<Rightarrow> command_rule option" where
  "normalize_entry re (PlainEntry s) =
     (let name = py_lower (py_strip s) in
      if name = [] then None
      else Some \<lparr>rule_command = name, args_allow = [], args_deny = []\<rparr>)"
| "normalize_entry re (ObjectEntry None al de) = None"
| "normalize_entry re (ObjectEntry (Some cmd) al de) =
     (if py_strip cmd = [] then None
      else Some \<lparr>rule_command = py_lower (py_strip cmd),
                 args_allow = compile_patterns re al, args_deny = compile_patterns re de\<rparr>)"
| "normalize_entry re OtherEntry = None"

fun normalize_into :: "regex_engine \<Rightarrow> rule_map \<Rightarrow> allow_entry list \<Rightarrow> rule_map" where
  "normalize_into re rules [] = rules"
| "normalize_into re rules (e # es) =
     (case normalize_entry re e of
        None \<Rightarrow> normalize_into re rules es
      | Some r \<Rightarrow> normalize_into re (append_rule (rule_command r) r rules) es)"

definition normalize_rules :: "regex_engine \<Rightarrow> allow_entry list \<Rightarrow> rule_map" where
  "normalize_rules re allowed = normalize_into re [] allowed"

text \<open>\<open>posixpath.basename(token).lower()\<close>.\<close>

definition basename :: "string \<Rightarrow> string" where
  "basename p = rev (takeWhile (\<lambda>c. c \<noteq> CHR ''/'') (rev p))"

definition program_name :: "string \<Rightarrow> string" where
  "program_name tok = py_lower (basename tok)"

definition is_env_assignment :: "string \<Rightarrow> bool" where
  "is_env_assignment tok =
     (if CHR ''='' \<notin> set tok then False
      else py_isidentifier (fst (split_once (CHR ''='') tok)))"

definition tokenize :: "string \<Rightarrow> string list option" where
  "tokenize command = shlex_split command"

section \<open>One command position\<close>

fun first_accepting :: "regex_engine \<Rightarrow> string \<Rightarrow> args_reason \<Rightarrow> command_rule list \<Rightarrow>
    args_reason option" where
  "first_accepting re arg_string last_reason [] = Some last_reason"
| "first_accepting re arg_string last_reason (r # rs) =
     (case check_args re r arg_string of
        None \<Rightarrow> None
      | Some reason \<Rightarrow> first_accepting re arg_string reason rs)"

definition check_command_position ::
    "regex_engine \<Rightarrow> rule_map \<Rightarrow> string \<Rightarrow> string list \<Rightarrow> verdict" where
  "check_command_position re rules program arg_tokens =
     (case dict_get rules program of
        None \<Rightarrow> Some (NotAllowed program)
      | Some [] \<Rightarrow> Some (NotAllowed program)
      | Some (r # rs) \<Rightarrow>
          map_option (ArgsRefused program)
            (first_accepting re (py_join '' '' arg_tokens) (NoAllowMatch []) (r # rs)))"

text \<open>The arguments of one ssh invocation: the destination, if there is one, and
  the tokens of the remote command.\<close>

function ssh_split :: "string list \<Rightarrow> string option \<times> string list" where
  "ssh_split [] = (None, [])"
| "ssh_split (tok # ts) =
     (if py_startswith tok ''-''
      then (if tok \<in> set ssh_options_with_value then ssh_split (drop 1 ts) else ssh_split ts)
      else (Some tok, ts))"
  by pat_completeness auto

termination
  by (relation "measure length") auto

definition validate_ssh_command ::
    "regex_engine \<Rightarrow> rule_map \<Rightarrow> (string \<Rightarrow> verdict) \<Rightarrow> string list \<Rightarrow> verdict" where
  "validate_ssh_command re rules nested tokens =
     (case check_command_position re rules ''ssh'' tokens of
        Some reason \<Rightarrow> Some reason
      | None \<Rightarrow>
          (case ssh_split tokens of
             (None, remote) \<Rightarrow> Some SshNoDestination
           | (Some dest, remote) \<Rightarrow>
               (if remote = [] then Some SshInteractive
                else nested (py_join '' '' remote))))"

section \<open>Command runners\<close>

definition find_exec_actions :: "string list" where
  "find_exec_actions = [''-exec'', ''-execdir'', ''-ok'', ''-okdir'']"

record runner_spec =
  value_opts :: "string list"
  command_opts :: "string list"
  skip_positionals :: nat
  skip_assignments :: bool

definition runner :: "string list \<Rightarrow> string list \<Rightarrow> nat \<Rightarrow> bool \<Rightarrow> runner_spec" where
  "runner vo co pos asg =
     \<lparr>value_opts = vo, command_opts = co, skip_positionals = pos, skip_assignments = asg\<rparr>"

definition wrapped_rest :: "runner_spec \<Rightarrow> string list \<Rightarrow> string list" where
  "wrapped_rest w tokens =
     (let rest = drop (skip_positionals w) tokens in
      if rest = [] then [] else [py_join '' '' rest])"

function extract_wrapped_command :: "runner_spec \<Rightarrow> string list \<Rightarrow> string list" where
  "extract_wrapped_command w [] = wrapped_rest w []"
| "extract_wrapped_command w (tok # ts) =
     (if skip_assignments w \<and> is_env_assignment tok then extract_wrapped_command w ts
      else if tok = ''--'' then wrapped_rest w ts
      else if tok \<in> set (command_opts w) then (case ts of [] \<Rightarrow> [] | v # _ \<Rightarrow> [v])
      else if py_startswith tok ''--'' \<and> CHR ''='' \<in> set tok
      then (if fst (split_once (CHR ''='') tok) \<in> set (command_opts w)
            then [drop (Suc (length (fst (split_once (CHR ''='') tok)))) tok]
            else extract_wrapped_command w ts)
      else if tok \<in> set (value_opts w) then extract_wrapped_command w (drop 1 ts)
      else if py_startswith tok ''-'' \<and> tok \<noteq> ''-''
      then (if list_ex (\<lambda>copt. length copt = 2 \<and> py_startswith tok copt) (command_opts w)
            then [drop 2 tok]
            else extract_wrapped_command w ts)
      else wrapped_rest w (tok # ts))"
  by pat_completeness auto

termination
  by (relation "measure (\<lambda>(w, ts). length ts)") auto

fun flock_command :: "string list \<Rightarrow> string list option" where
  "flock_command [] = None"
| "flock_command (tok # ts) =
     (if tok = ''-c'' \<or> tok = ''--command''
      then Some (case ts of [] \<Rightarrow> [] | v # _ \<Rightarrow> [v])
      else if py_startswith tok ''--command='' then Some [drop 10 tok]
      else if py_startswith tok ''-c'' \<and> 2 < length tok \<and> \<not> py_startswith tok ''--''
      then Some [drop 2 tok]
      else flock_command ts)"

definition extract_flock :: "string list \<Rightarrow> string list" where
  "extract_flock tokens =
     (case flock_command tokens of
        Some cmds \<Rightarrow> cmds
      | None \<Rightarrow>
          extract_wrapped_command
            (runner [''-w'', ''--wait'', ''--timeout'', ''-E'', ''--conflict-exit-code''] [] 1 False)
            tokens)"

definition command_runners :: "(string, string list \<Rightarrow> string list) dict" where
  "command_runners =
    [(''nohup'', extract_wrapped_command (runner [] [] 0 False)),
     (''setsid'', extract_wrapped_command (runner [] [] 0 False)),
     (''nice'', extract_wrapped_command (runner [''-n'', ''--adjustment''] [] 0 False)),
     (''stdbuf'', extract_wrapped_command
        (runner [''-i'', ''-o'', ''-e'', ''--input'', ''--output'', ''--error''] [] 0 False)),
     (''timeout'', extract_wrapped_command
        (runner [''-s'', ''--signal'', ''-k'', ''--kill-after''] [] 1 False)),
     (''env'', extract_wrapped_command
        (runner [''-u'', ''--unset'', ''-C'', ''--chdir'', ''-P'', ''--argv0'']
                [''-S'', ''--split-string''] 0 True)),
     (''xargs'', extract_wrapped_command
        (runner [''-I'', ''-i'', ''-n'', ''-L'', ''-P'', ''-s'', ''-d'', ''-E'', ''-a'',
                 ''--replace'', ''--max-args'', ''--max-procs'', ''--max-chars'',
                 ''--delimiter'', ''--arg-file'', ''--eof'', ''--max-lines''] [] 0 False)),
     (''watch'', extract_wrapped_command (runner [''-n'', ''--interval''] [] 0 False)),
     (''flock'', extract_flock)]"

text \<open>The \<open>for\<close> loops that return the first refusal.\<close>

fun first_block :: "('a \<Rightarrow> 'r option) \<Rightarrow> 'a list \<Rightarrow> 'r option" where
  "first_block f [] = None"
| "first_block f (x # xs) = (case f x of Some r \<Rightarrow> Some r | None \<Rightarrow> first_block f xs)"

lemma first_block_cong [fundef_cong]:
  "xs = ys \<Longrightarrow> (\<And>x. x \<in> set ys \<Longrightarrow> f x = g x) \<Longrightarrow> first_block f xs = first_block g ys"
  by (induction xs arbitrary: ys) (auto split: option.splits)

lemma first_block_None_iff: "first_block f xs = None \<longleftrightarrow> (\<forall>x\<in>set xs. f x = None)"
  by (induction xs) (auto split: option.splits)

definition validate_command_runner ::
    "regex_engine \<Rightarrow> rule_map \<Rightarrow> (string \<Rightarrow> verdict) \<Rightarrow> string \<Rightarrow> string list \<Rightarrow> verdict" where
  "validate_command_runner re rules nested program arg_tokens =
     (case check_command_position re rules program arg_tokens of
        Some reason \<Rightarrow> Some reason
      | None \<Rightarrow>
          (if program = ''find''
           then (if list_ex (\<lambda>tok. tok \<in> set find_exec_actions) arg_tokens
                 then Some FindExec else None)
           else (case dict_get command_runners program of
                   None \<Rightarrow> None
                 | Some extract \<Rightarrow>
                     first_block nested
                       (filter (\<lambda>inner. py_strip inner \<noteq> []) (extract arg_tokens)))))"

section \<open>The token scan and the validator\<close>

text \<open>The inner \<open>while\<close> loop: the arguments up to the next separator, and the tokens
  from that separator on.\<close>

function collect_args :: "string list \<Rightarrow> string list \<times> string list" where
  "collect_args [] = ([], [])"
| "collect_args (t # ts) =
     (if is_separator t then ([], t # ts)
      else if is_redirect t then collect_args (drop 1 ts)
      else (case collect_args ts of (args, rest) \<Rightarrow> (t # args, rest)))"
  by pat_completeness auto

termination
  by (relation "measure length") auto

lemma collect_args_length: "length (snd (collect_args ts)) \<le> length ts"
  by (induction ts rule: collect_args.induct) (auto split: prod.splits)

function scan_tokens ::
    "(string \<Rightarrow> string list \<Rightarrow> verdict) \<Rightarrow> string list \<Rightarrow> verdict" where
  "scan_tokens chk [] = None"
| "scan_tokens chk (tok # ts) =
     (if is_separator tok then scan_tokens chk ts
      else if is_redirect tok then scan_tokens chk (drop 1 ts)
      else if is_env_assignment tok then scan_tokens chk ts
      else (case chk (program_name tok) (fst (collect_args ts)) of
              Some reason \<Rightarrow> Some reason
            | None \<Rightarrow> scan_tokens chk (snd (collect_args ts))))"
  by pat_completeness auto

termination
  by (relation "measure (\<lambda>(chk, ts). length ts)")
     (auto simp: collect_args_length less_Suc_eq_le)

definition check_simple_command ::
    "regex_engine \<Rightarrow> rule_map \<Rightarrow> (string \<Rightarrow> verdict) \<Rightarrow> string \<Rightarrow> string list \<Rightarrow> verdict" where
  "check_simple_command re rules nested program arg_tokens =
     (if program = ''ssh'' \<and> dict_get rules ''ssh'' \<noteq> None
      then validate_ssh_command re rules nested arg_tokens
      else if (program = ''find'' \<or> dict_get command_runners program \<noteq> None)
              \<and> dict_get rules program \<noteq> None
      then validate_command_runner re rules nested program arg_tokens
      else check_command_position re rules program arg_tokens)"

definition command_lines :: "string \<Rightarrow> string list" where
  "command_lines command = filter (\<lambda>line. py_strip line \<noteq> []) (py_splitlines command)"

lemma command_lines_shorter:
  assumes "l \<in> set (command_lines c)" and "1 < length (command_lines c)"
  shows "length l < length c"
proof -
  let ?ls = "py_splitlines c"
  have l: "l \<in> set ?ls" and n: "2 \<le> length ?ls"
    using assms le_trans [OF _ length_filter_le [of "\<lambda>line. py_strip line \<noteq> []" ?ls], of 2]
    by (simp_all add: command_lines_def)
  have "length l \<le> sum_list (map length ?ls)"
    using l by (simp add: member_le_sum_list)
  then show ?thesis using n splitlines_size [of c] by linarith
qed

function validate :: "regex_engine \<Rightarrow> rule_map \<Rightarrow> nat \<Rightarrow> string \<Rightarrow> verdict" where
  "validate re rules depth command =
     (if 3 < depth then Some NestingTooDeep
      else (case find_forbidden forbidden_constructs command of
        Some label \<Rightarrow> Some (ForbiddenConstruct label)
      | None \<Rightarrow>
          (if 1 < length (command_lines command)
           then first_block (validate re rules depth) (command_lines command)
           else (case tokenize command of
                   None \<Rightarrow> Some ParseFailed
                 | Some tokens \<Rightarrow>
                     scan_tokens
                       (check_simple_command re rules (\<lambda>inner. validate re rules (depth + 1) inner))
                       tokens))))"
  by pat_completeness auto

termination
  by (relation "measures [\<lambda>(re, rules, depth, command). 4 - depth,
                          \<lambda>(re, rules, depth, command). length command]")
     (auto simp: command_lines_shorter)

declare validate.simps [simp del]

definition validate_command_whitelist ::
    "regex_engine \<Rightarrow> string \<Rightarrow> allow_entry list option \<Rightarrow> verdict" where
  "validate_command_whitelist re command allowed =
     (case allowed of
        None \<Rightarrow> None
      | Some entries \<Rightarrow>
          (if entries = [] then None
           else let rules = normalize_rules re entries in
             if rules = [] then None
             else if command = [] \<or> py_strip command = [] then Some EmptyCommand
             else validate re rules 0 (py_strip command)))"

section \<open>The agent-facing messages\<close>

fun rule_command_names :: "allow_entry list \<Rightarrow> string list" where
  "rule_command_names [] = []"
| "rule_command_names (PlainEntry s # es) =
     (if py_strip s = [] then rule_command_names es
      else List.insert (py_lower (py_strip s)) (rule_command_names es))"
| "rule_command_names (ObjectEntry (Some cmd) al de # es) =
     (if py_strip cmd = [] then rule_command_names es
      else List.insert (py_lower (py_strip cmd)) (rule_command_names es))"
| "rule_command_names (ObjectEntry None al de # es) = rule_command_names es"
| "rule_command_names (OtherEntry # es) = rule_command_names es"

definition allowed_commands_message :: "string list \<Rightarrow> string" where
  "allowed_commands_message names =
     ''This agent runs in command-whitelist mode. Only the following commands are allowed:''
     @ [CHR 0x0A] @ ''  '' @ py_join '', '' (sort names)"

fun args_message :: "args_reason \<Rightarrow> string" where
  "args_message (NoAllowMatch cmd) =
     ''its arguments do not match any allowed pattern for '' @ [CHR 0x27] @ cmd @ [CHR 0x27]"
| "args_message (DenyMatch cmd pat) =
     ''its arguments match a denied pattern for '' @ [CHR 0x27] @ cmd @ [CHR 0x27]
     @ '' (/'' @ pat @ ''/)''"

fun block_message :: "rule_map \<Rightarrow> block_reason \<Rightarrow> string" where
  "block_message rules NestingTooDeep = ''Command nesting too deep to validate.''"
| "block_message rules (ForbiddenConstruct label) =
     ''Blocked: '' @ label @ '' is not allowed in command-whitelist mode ''
     @ ''because it can hide commands from validation.'' @ [CHR 0x0A, CHR 0x0A]
     @ allowed_commands_message (dict_keys rules)"
| "block_message rules ParseFailed =
     ''Command could not be parsed (unbalanced quotes?) and is blocked in command-whitelist mode.''"
| "block_message rules (NotAllowed program) =
     ''Blocked: '' @ [CHR 0x27] @ program @ [CHR 0x27]
     @ '' is not in this agent'' @ [CHR 0x27] @ ''s allowed commands.'' @ [CHR 0x0A, CHR 0x0A]
     @ allowed_commands_message (dict_keys rules)"
| "block_message rules (ArgsRefused program reason) =
     ''Blocked: '' @ [CHR 0x27] @ program @ [CHR 0x27] @ '' is allowed but ''
     @ args_message reason @ ''.'' @ [CHR 0x0A, CHR 0x0A]
     @ allowed_commands_message (dict_keys rules)"
| "block_message rules SshNoDestination = ''ssh command has no destination host.''"
| "block_message rules SshInteractive =
     ''Interactive ssh sessions are not allowed in whitelist mode. ''
     @ ''Pass an explicit remote command, e.g. ssh host '' @ [CHR 0x27] @ ''uptime''
     @ [CHR 0x27] @ ''.''"
| "block_message rules FindExec =
     ''Blocked: '' @ [CHR 0x27] @ ''find'' @ [CHR 0x27]
     @ '' with -exec/-execdir/-ok/-okdir can launch arbitrary programs and is not ''
     @ ''allowed in command-whitelist mode.'' @ [CHR 0x0A, CHR 0x0A]
     @ allowed_commands_message (dict_keys rules)"
| "block_message rules EmptyCommand = ''Error: Empty command provided''"

definition whitelist_result ::
    "regex_engine \<Rightarrow> string \<Rightarrow> allow_entry list option \<Rightarrow> bool \<times> string" where
  "whitelist_result re command allowed =
     (case validate_command_whitelist re command allowed of
        None \<Rightarrow> (True, [])
      | Some reason \<Rightarrow>
          (False, block_message
             (normalize_rules re (case allowed of None \<Rightarrow> [] | Some es \<Rightarrow> es)) reason))"

end
