(* ===== verification/WhitelistSafety.thy ===== *)
theory WhitelistSafety
  imports CommandWhitelist
begin

text \<open>
  What the allowlist of \<^theory_text>\<open>CommandWhitelist\<close> guarantees: the commands a string
  contains (declaratively, as an inductive relation and as a split of the token
  list), soundness of acceptance with respect to them, monotonicity in the list of
  entries, and the inputs on which the token scan and a shell disagree.
\<close>

section \<open>Rules\<close>

definition rule_accepts :: "regex_engine \<Rightarrow> command_rule \<Rightarrow> string list \<Rightarrow> bool" where
  "rule_accepts re r args =
     ((args_allow r = [] \<or> list_ex (\<lambda>p. re_search re p (py_join '' '' args)) (args_allow r)) \<and>
      \<not> list_ex (\<lambda>p. re_search re p (py_join '' '' args)) (args_deny r))"

definition position_ok :: "regex_engine \<Rightarrow> rule_map \<Rightarrow> string \<Rightarrow> string list \<Rightarrow> bool" where
  "position_ok re rules program args =
     (case dict_get rules program of
        None \<Rightarrow> False
      | Some rs \<Rightarrow> list_ex (\<lambda>r. rule_accepts re r args) rs)"

lemma find_None_iff': "List.find P xs = None \<longleftrightarrow> \<not> list_ex P xs"
  by (induction xs) auto

lemma check_args_None_iff:
  "check_args re r (py_join '' '' args) = None \<longleftrightarrow> rule_accepts re r args"
  by (auto simp: check_args_def rule_accepts_def find_None_iff')

lemma first_accepting_None_iff:
  "first_accepting re (py_join '' '' args) l rs = None \<longleftrightarrow>
     list_ex (\<lambda>r. rule_accepts re r args) rs"
  by (induction rs arbitrary: l) (auto simp: check_args_None_iff [symmetric] split: option.splits)

lemma check_command_position_None_iff:
  "check_command_position re rules program args = None \<longleftrightarrow> position_ok re rules program args"
  by (auto simp: check_command_position_def position_ok_def first_accepting_None_iff
      split: option.splits list.splits simp del: first_accepting.simps)

lemma position_ok_known: "position_ok re rules program args \<Longrightarrow> dict_get rules program \<noteq> None"
  by (auto simp: position_ok_def split: option.splits)

lemma rule_accepts_unconstrained: "\<not> constrained r \<Longrightarrow> rule_accepts re r args"
  by (simp add: constrained_def rule_accepts_def)

text \<open>What \<open>_normalize_rules\<close> builds: the rules of a name are those of the entries
  that normalise to it, in their order.\<close>

definition entry_rules :: "regex_engine \<Rightarrow> allow_entry list \<Rightarrow> string \<Rightarrow> command_rule list" where
  "entry_rules re es name =
     filter (\<lambda>r. rule_command r = name) (List.map_filter (normalize_entry re) es)"

lemma entry_rules_Cons:
  "entry_rules re (e # es) name =
     (case normalize_entry re e of
        Some r \<Rightarrow> (if rule_command r = name then [r] else []) @ entry_rules re es name
      | None \<Rightarrow> entry_rules re es name)"
  by (simp add: entry_rules_def map_filter_def split: option.splits)

definition rules_at :: "rule_map \<Rightarrow> string \<Rightarrow> command_rule list" where
  "rules_at rules name = (case dict_get rules name of None \<Rightarrow> [] | Some rs \<Rightarrow> rs)"

lemma rules_at_append:
  "rules_at (append_rule n r rules) name =
     rules_at rules name @ (if n = name then [r] else [])"
  by (auto simp: rules_at_def append_rule_def dict_simps split: option.splits)

lemma rules_at_normalize_into:
  "rules_at (normalize_into re rules es) name = rules_at rules name @ entry_rules re es name"
proof (induction es arbitrary: rules)
  case Nil
  then show ?case by (simp add: entry_rules_def map_filter_def)
next
  case (Cons e es)
  then show ?case
    by (auto simp: entry_rules_Cons rules_at_append split: option.splits)
qed

lemma rules_at_normalize:
  "rules_at (normalize_rules re es) name = entry_rules re es name"
  by (simp add: normalize_rules_def rules_at_normalize_into) (simp add: rules_at_def)

lemma normalize_into_nonempty:
  assumes "\<And>n rs. dict_get rules n = Some rs \<Longrightarrow> rs \<noteq> []"
  shows "dict_get (normalize_into re rules es) n = Some rs \<Longrightarrow> rs \<noteq> []"
  using assms
proof (induction es arbitrary: rules)
  case (Cons e es)
  show ?case
  proof (cases "normalize_entry re e")
    case None
    then show ?thesis using Cons by simp
  next
    case (Some r)
    have "\<And>n rs. dict_get (append_rule (rule_command r) r rules) n = Some rs \<Longrightarrow> rs \<noteq> []"
      using Cons.prems(2) by (auto simp: append_rule_def dict_simps split: if_splits option.splits)
    then show ?thesis using Cons.IH Cons.prems(1) Some by simp
  qed
qed auto

lemma dict_get_normalize:
  "dict_get (normalize_rules re es) name =
     (if entry_rules re es name = [] then None else Some (entry_rules re es name))"
proof (cases "dict_get (normalize_rules re es) name")
  case None
  then show ?thesis using rules_at_normalize [of re es name] by (simp add: rules_at_def)
next
  case (Some rs)
  then have "rs \<noteq> []"
    using normalize_into_nonempty [of "[]" re es name rs] by (simp add: normalize_rules_def)
  then show ?thesis using Some rules_at_normalize [of re es name] by (auto simp: rules_at_def)
qed

lemma position_ok_entries:
  "position_ok re (normalize_rules re es) p args \<longleftrightarrow>
     (\<exists>e\<in>set es. \<exists>r. normalize_entry re e = Some r \<and> rule_command r = p \<and> rule_accepts re r args)"
proof -
  have "position_ok re (normalize_rules re es) p args \<longleftrightarrow>
      (\<exists>r\<in>set (entry_rules re es p). rule_accepts re r args)"
    by (auto simp: position_ok_def dict_get_normalize list_ex_iff)
  also have "\<dots> \<longleftrightarrow> (\<exists>e\<in>set es. \<exists>r. normalize_entry re e = Some r \<and> rule_command r = p
      \<and> rule_accepts re r args)"
    by (force simp: entry_rules_def map_filter_def)
  finally show ?thesis .
qed

section \<open>The simple commands of a token list\<close>

function simple_commands :: "string list \<Rightarrow> (string \<times> string list) list" where
  "simple_commands [] = []"
| "simple_commands (tok # ts) =
     (if is_separator tok then simple_commands ts
      else if is_redirect tok then simple_commands (drop 1 ts)
      else if is_env_assignment tok then simple_commands ts
      else (program_name tok, fst (collect_args ts)) # simple_commands (snd (collect_args ts)))"
  by pat_completeness auto

termination
  by (relation "measure length") (auto simp: collect_args_length less_Suc_eq_le)

lemma scan_tokens_first_block:
  "scan_tokens chk toks = first_block (\<lambda>(p, args). chk p args) (simple_commands toks)"
  by (induction toks rule: simple_commands.induct) (auto split: option.splits)

lemma scan_tokens_None_iff:
  "scan_tokens chk toks = None \<longleftrightarrow> (\<forall>(p, args)\<in>set (simple_commands toks). chk p args = None)"
  by (auto simp: scan_tokens_first_block first_block_None_iff)

text \<open>The reading the module's documentation gives: cut at separators, drop each
  redirection with its target, drop leading assignments.\<close>

fun drop_redirects :: "string list \<Rightarrow> string list" where
  "drop_redirects [] = []"
| "drop_redirects [t] = (if is_redirect t then [] else [t])"
| "drop_redirects (t # u # ts) =
     (if is_redirect t then drop_redirects ts else t # drop_redirects (u # ts))"

definition command_of_segment :: "string list \<Rightarrow> (string \<times> string list) list" where
  "command_of_segment seg =
     (case dropWhile is_env_assignment (drop_redirects seg) of
        [] \<Rightarrow> []
      | p # args \<Rightarrow> [(program_name p, args)])"

function segments :: "string list \<Rightarrow> string list list" where
  "segments [] = []"
| "segments (t # ts) =
     (if is_separator t then segments ts
      else (t # takeWhile (\<lambda>u. \<not> is_separator u) ts)
           # segments (dropWhile (\<lambda>u. \<not> is_separator u) ts))"
  by pat_completeness auto

termination
  by (relation "measure length") (auto simp: length_dropWhile_le less_Suc_eq_le)

definition documented_commands :: "string list \<Rightarrow> (string \<times> string list) list" where
  "documented_commands toks = concat (map command_of_segment (segments toks))"

text \<open>No redirection operator stands directly before a separator.\<close>

fun redirects_have_targets :: "string list \<Rightarrow> bool" where
  "redirects_have_targets (t # u # ts) =
     ((is_redirect t \<longrightarrow> \<not> is_separator u) \<and> redirects_have_targets (u # ts))"
| "redirects_have_targets _ = True"

abbreviation seg_of :: "string list \<Rightarrow> string list" where
  "seg_of ts \<equiv> takeWhile (\<lambda>u. \<not> is_separator u) ts"

abbreviation after_seg :: "string list \<Rightarrow> string list" where
  "after_seg ts \<equiv> dropWhile (\<lambda>u. \<not> is_separator u) ts"

lemma redirect_not_separator: "is_redirect t \<Longrightarrow> \<not> is_separator t"
  by (simp add: is_redirect_def is_separator_def)

lemma redirects_have_targets_tl: "redirects_have_targets (t # ts) \<Longrightarrow> redirects_have_targets ts"
  by (cases ts) auto

lemma redirects_have_targets_drop: "redirects_have_targets ts \<Longrightarrow> redirects_have_targets (drop n ts)"
proof (induction n arbitrary: ts)
  case (Suc n)
  then show ?case by (cases ts) (auto dest: redirects_have_targets_tl)
qed simp

lemma redirects_have_targets_after:
  "redirects_have_targets ts \<Longrightarrow> redirects_have_targets (after_seg ts)"
  by (metis dropWhile_eq_drop redirects_have_targets_drop)

lemma drop_redirects_seg:
  assumes "redirects_have_targets (t # ts)" "\<not> is_separator t"
  shows "drop_redirects (t # seg_of ts) =
     (if is_redirect t then drop_redirects (seg_of (drop 1 ts)) else t # drop_redirects (seg_of ts))"
  using assms by (cases ts) auto

lemma after_seg_redirect:
  "redirects_have_targets (t # ts) \<Longrightarrow> is_redirect t \<Longrightarrow> after_seg (drop 1 ts) = after_seg ts"
  by (cases ts) auto

lemma collect_args_spec:
  "redirects_have_targets ts \<Longrightarrow>
     collect_args ts = (drop_redirects (seg_of ts), after_seg ts)"
proof (induction ts rule: collect_args.induct)
  case (2 t ts)
  consider "is_separator t" | "\<not> is_separator t" "is_redirect t"
    | "\<not> is_separator t" "\<not> is_redirect t" by blast
  then show ?case
  proof cases
    case 2
    have "collect_args (drop 1 ts) = (drop_redirects (seg_of (drop 1 ts)), after_seg (drop 1 ts))"
      using "2.IH"(1) 2 "2.prems" redirects_have_targets_drop [of "t # ts" 2] by simp
    then show ?thesis
      using 2 "2.prems" drop_redirects_seg [of t ts] after_seg_redirect [of t ts] by simp
  next
    case 3
    then show ?thesis
      using "2.IH"(2) "2.prems" drop_redirects_seg [of t ts]
      by (simp add: redirects_have_targets_tl)
  qed simp
qed simp

lemma simple_commands_segment:
  "redirects_have_targets ts \<Longrightarrow>
     simple_commands ts = command_of_segment (seg_of ts) @ simple_commands (after_seg ts)"
proof (induction ts rule: simple_commands.induct)
  case 1
  then show ?case by (simp add: command_of_segment_def)
next
  case (2 t ts)
  note prems = \<open>redirects_have_targets (t # ts)\<close>
  consider "is_separator t" | "\<not> is_separator t" "is_redirect t"
    | "\<not> is_separator t" "\<not> is_redirect t" "is_env_assignment t"
    | "\<not> is_separator t" "\<not> is_redirect t" "\<not> is_env_assignment t" by blast
  then show ?case
  proof cases
    case 1
    then show ?thesis by (simp add: command_of_segment_def)
  next
    case 2
    then have "simple_commands (drop 1 ts)
        = command_of_segment (seg_of (drop 1 ts)) @ simple_commands (after_seg (drop 1 ts))"
      using "2.IH"(2) prems redirects_have_targets_drop [of "t # ts" 2] by simp
    then show ?thesis
      using 2 prems drop_redirects_seg [of t ts] after_seg_redirect [of t ts]
      by (simp add: command_of_segment_def)
  next
    case 3
    then show ?thesis
      using "2.IH"(3) prems drop_redirects_seg [of t ts]
      by (simp add: redirects_have_targets_tl command_of_segment_def)
  next
    case 4
    then show ?thesis
      using prems drop_redirects_seg [of t ts]
      by (simp add: redirects_have_targets_tl collect_args_spec command_of_segment_def)
  qed
qed

lemma simple_commands_documented:
  "redirects_have_targets toks \<Longrightarrow> simple_commands toks = documented_commands toks"
proof (induction toks rule: segments.induct)
  case 1
  then show ?case by (simp add: documented_commands_def)
next
  case (2 t ts)
  show ?case
  proof (cases "is_separator t")
    case True
    then show ?thesis
      using 2 by (simp add: documented_commands_def redirects_have_targets_tl)
  next
    case False
    have "simple_commands (after_seg ts) = documented_commands (after_seg ts)"
      by (rule "2.IH"(2) [OF False redirects_have_targets_after
            [OF redirects_have_targets_tl [OF "2.prems"]]])
    then show ?thesis
      using False simple_commands_segment [OF "2.prems"] by (simp add: documented_commands_def)
  qed
qed

section \<open>The commands a string runs\<close>

text \<open>The strings a command position hands to a further round of validation.\<close>

definition nested_commands :: "rule_map \<Rightarrow> string \<Rightarrow> string list \<Rightarrow> string list" where
  "nested_commands rules program args =
     (if program = ''ssh''
      then (case ssh_split args of
              (Some dest, t # ts) \<Rightarrow> [py_join '' '' (t # ts)]
            | _ \<Rightarrow> [])
      else if program = ''find'' then []
      else (case dict_get command_runners program of
              None \<Rightarrow> []
            | Some extract \<Rightarrow> filter (\<lambda>inner. py_strip inner \<noteq> []) (extract args)))"

text \<open>\<open>executes rules c p args\<close>: running \<open>c\<close> can run program \<open>p\<close> on \<open>args\<close>, as a
  simple command of one of its lines or inside the command of an ssh or of a runner.\<close>

inductive executes :: "rule_map \<Rightarrow> string \<Rightarrow> string \<Rightarrow> string list \<Rightarrow> bool" for rules where
  exec_line: "1 < length (command_lines c) \<Longrightarrow> l \<in> set (command_lines c) \<Longrightarrow>
    executes rules l p args \<Longrightarrow> executes rules c p args"
| exec_simple: "\<not> 1 < length (command_lines c) \<Longrightarrow> tokenize c = Some toks \<Longrightarrow>
    (p, args) \<in> set (simple_commands toks) \<Longrightarrow> executes rules c p args"
| exec_nested: "\<not> 1 < length (command_lines c) \<Longrightarrow> tokenize c = Some toks \<Longrightarrow>
    (q, qargs) \<in> set (simple_commands toks) \<Longrightarrow> inner \<in> set (nested_commands rules q qargs) \<Longrightarrow>
    executes rules inner p args \<Longrightarrow> executes rules c p args"

inductive_cases executesE: "executes rules c p args"

lemma find_not_runner: "dict_get command_runners ''find'' = None"
  "dict_get command_runners ''ssh'' = None"
  by (simp_all add: command_runners_def)

lemma check_simple_command_NoneD:
  assumes "check_simple_command re rules nested p args = None"
  shows "position_ok re rules p args"
    and "inner \<in> set (nested_commands rules p args) \<Longrightarrow> nested inner = None"
proof -
  show ok: "position_ok re rules p args"
    using assms
    by (auto simp: check_simple_command_def validate_ssh_command_def validate_command_runner_def
        check_command_position_None_iff [symmetric] split: if_splits option.splits)
  then have known: "dict_get rules p \<noteq> None" by (rule position_ok_known)
  show "nested inner = None" if "inner \<in> set (nested_commands rules p args)"
  proof (cases "p = ''ssh''")
    case True
    then show ?thesis
      using assms known that
      by (auto simp: check_simple_command_def validate_ssh_command_def nested_commands_def
          split: option.splits prod.splits list.splits if_splits)
  next
    case False
    then show ?thesis
      using assms known that
      by (auto simp: check_simple_command_def validate_command_runner_def nested_commands_def
          find_not_runner first_block_None_iff split: option.splits if_splits)
  qed
qed

lemma validate_None_iff:
  "validate re rules d c = None \<longleftrightarrow>
     d \<le> 3 \<and> find_forbidden forbidden_constructs c = None \<and>
     (if 1 < length (command_lines c)
      then (\<forall>l\<in>set (command_lines c). validate re rules d l = None)
      else (\<exists>toks. tokenize c = Some toks \<and>
             (\<forall>(p, args)\<in>set (simple_commands toks).
                check_simple_command re rules (\<lambda>inner. validate re rules (d + 1) inner) p args = None)))"
  by (subst validate.simps)
     (auto simp: first_block_None_iff scan_tokens_None_iff split: option.splits)


section \<open>More entries never block more\<close>

definition rules_le :: "rule_map \<Rightarrow> rule_map \<Rightarrow> bool" where
  "rules_le rules rules' =
     (\<forall>p rs. dict_get rules p = Some rs \<longrightarrow>
        (\<exists>rs'. dict_get rules' p = Some rs' \<and> set rs \<subseteq> set rs'))"

lemma rules_leD:
  "rules_le rules rules' \<Longrightarrow> dict_get rules p \<noteq> None \<Longrightarrow> dict_get rules' p \<noteq> None"
  unfolding rules_le_def by blast

lemma position_ok_mono:
  "rules_le rules rules' \<Longrightarrow> position_ok re rules p args \<Longrightarrow> position_ok re rules' p args"
  by (fastforce simp: position_ok_def rules_le_def list_ex_iff split: option.splits)

lemma check_simple_command_mono:
  assumes "rules_le rules rules'"
    and "\<And>inner. nested inner = None \<Longrightarrow> nested' inner = None"
    and "check_simple_command re rules nested p args = None"
  shows "check_simple_command re rules' nested' p args = None"
proof -
  have "position_ok re rules p args" using assms(3) by (rule check_simple_command_NoneD)
  then have known: "dict_get rules p \<noteq> None" and "position_ok re rules' p args"
    using assms(1) by (simp_all add: position_ok_known position_ok_mono)
  then have pos: "check_command_position re rules p args = None"
    "check_command_position re rules' p args = None"
    by (simp_all add: check_command_position_None_iff \<open>position_ok re rules p args\<close>)
  have known': "dict_get rules' p \<noteq> None" using assms(1) known by (rule rules_leD)
  show ?thesis
  proof (cases "p = ''ssh''")
    case True
    then show ?thesis
      using assms(2,3) known known' pos
      by (auto simp: check_simple_command_def validate_ssh_command_def
          split: option.splits prod.splits if_splits)
  next
    case False
    then show ?thesis
      using assms(2,3) known known' pos
      by (auto simp: check_simple_command_def validate_command_runner_def first_block_None_iff
          split: option.splits if_splits)
  qed
qed

lemma validate_mono:
  "rules_le rules rules' \<Longrightarrow> validate re rules d c = None \<Longrightarrow> validate re rules' d c = None"
proof (induction re rules d c rule: validate.induct)
  case (1 re rules d c)
  note le = \<open>rules_le rules rules'\<close>
  have acc: "d \<le> 3" "find_forbidden forbidden_constructs c = None"
    using "1.prems"(2) by (simp_all add: validate_None_iff [of re rules d c])
  show ?case
  proof (cases "1 < length (command_lines c)")
    case True
    have "validate re rules' d l = None" if "l \<in> set (command_lines c)" for l
      using "1.IH"(1) [of l] acc True that le "1.prems"(2)
      by (auto simp: validate_None_iff [of re rules d c])
    then show ?thesis using acc True by (simp add: validate_None_iff [of re rules' d c])
  next
    case False
    then obtain toks where toks: "tokenize c = Some toks" and
      chk: "\<forall>(p, args)\<in>set (simple_commands toks).
        check_simple_command re rules (\<lambda>inner. validate re rules (d + 1) inner) p args = None"
      using "1.prems"(2) by (auto simp: validate_None_iff [of re rules d c])
    have "validate re rules' (d + 1) inner = None" if "validate re rules (d + 1) inner = None" for inner
      using "1.IH"(2) [of toks inner] acc False toks le that by simp
    then have "\<forall>(p, args)\<in>set (simple_commands toks).
        check_simple_command re rules' (\<lambda>inner. validate re rules' (d + 1) inner) p args = None"
      using chk check_simple_command_mono [OF le] by blast
    then show ?thesis
      using acc False toks by (simp add: validate_None_iff [of re rules' d c])
  qed
qed

lemma rules_le_normalize:
  "set es \<subseteq> set es' \<Longrightarrow> rules_le (normalize_rules re es) (normalize_rules re es')"
proof -
  assume sub: "set es \<subseteq> set es'"
  have "set (entry_rules re es p) \<subseteq> set (entry_rules re es' p)" for p
    using sub by (fastforce simp: entry_rules_def map_filter_def)
  moreover from this have "entry_rules re es' p = [] \<Longrightarrow> entry_rules re es p = []" for p
    by (metis set_empty subset_empty)
  ultimately show ?thesis by (auto simp: rules_le_def dict_get_normalize)
qed

section \<open>Where the scan and a shell disagree\<close>

lemma collect_args_redirect_separator:
  "is_redirect r \<Longrightarrow> is_separator sep \<Longrightarrow> collect_args (r # sep # ts) = collect_args ts"
  by (simp add: redirect_not_separator)

lemma env_cluster_extract:
  "extract_wrapped_command (runner vo [''-S'', ''--split-string''] 0 True) [''-vS'' @ c] = []"
  if "''-vS'' @ c \<notin> set vo"
  using that
  by (auto simp: runner_def wrapped_rest_def is_env_assignment_def py_startswith_def
      id_start_def Let_def split: prod.splits)

lemma flock_command_later:
  assumes "list_all (\<lambda>t. \<not> py_startswith t ''-'') ts"
  shows "flock_command (ts @ [''-c'', c]) = Some [c]"
  using assms
proof (induction ts)
  case (Cons t ts)
  then have "\<not> py_startswith t ''-''" by simp
  then have "t = [] \<or> hd t \<noteq> CHR ''-''" by (cases t) (auto simp: py_startswith_def)
  then have "t \<noteq> ''-c''" "t \<noteq> ''--command''" "\<not> py_startswith t ''--command=''" "\<not> py_startswith t ''-c''"
    by (auto simp: py_startswith_iff)
  then show ?case using Cons by simp
qed simp

section \<open>Properties\<close>

text \<open>For the witnesses: an engine in which no pattern is ever found.\<close>

abbreviation no_match :: regex_engine where
  "no_match \<equiv> \<lparr>re_ok = \<lambda>_. True, re_search = \<lambda>p s. False\<rparr>"



text \<open>C2: The token scan finds the commands the module's documentation describes. When
  no redirection operator stands directly before a separator, scanning the tokens is the
  same as cutting the token list at the separators, dropping every redirection operator
  with its target and every leading assignment, and checking the commands that remain in
  order, the first refusal being the answer.\<close>

theorem scan_is_documented_split:
  assumes "redirects_have_targets toks"
  shows "scan_tokens chk toks = first_block (\<lambda>(p, args). chk p args) (documented_commands toks)"
  using assms by (simp add: scan_tokens_first_block simple_commands_documented)

lemma scan_is_documented_split_witness:
  "scan_tokens (check_simple_command no_match [] (\<lambda>_. None)) [''A=1'', ''ls'', ''>'', ''f'', ''-l'', ''|'', ''wc''] =
     first_block (\<lambda>(p, args). check_simple_command no_match [] (\<lambda>_. None) p args)
       (documented_commands [''A=1'', ''ls'', ''>'', ''f'', ''-l'', ''|'', ''wc'']) \<and>
   documented_commands [''A=1'', ''ls'', ''>'', ''f'', ''-l'', ''|'', ''wc''] =
     [(''ls'', [''-l'']), (''wc'', [])]"
  by (rule conjI, rule scan_is_documented_split, code_simp, code_simp)

text \<open>More entries never block more. If a list of entries that puts the allowlist in
  force accepts a command, so does every list that contains those entries.\<close>

theorem whitelist_monotone:
  assumes "validate_command_whitelist re command (Some entries) = None"
    and "normalize_rules re entries \<noteq> []" and "set entries \<subseteq> set entries'"
  shows "validate_command_whitelist re command (Some entries') = None"
proof -
  have "entries \<noteq> []" using assms(2) by (auto simp: normalize_rules_def)
  then have acc: "py_strip command \<noteq> []" "command \<noteq> []"
    "validate re (normalize_rules re entries) 0 (py_strip command) = None"
    using assms(1,2) by (auto simp: validate_command_whitelist_def Let_def split: if_splits)
  then have "validate re (normalize_rules re entries') 0 (py_strip command) = None"
    using assms(3) by (blast intro: validate_mono rules_le_normalize)
  then show ?thesis using acc by (simp add: validate_command_whitelist_def Let_def)
qed

lemma whitelist_monotone_witness:
  "validate_command_whitelist \<lparr>re_ok = \<lambda>_. True, re_search = \<lambda>p s. py_contains s p\<rparr>
     ''cat x'' (Some [PlainEntry ''ls'', ObjectEntry (Some ''cat'') [Some ''x''] []]) = None"
  by (rule whitelist_monotone [where entries = "[ObjectEntry (Some ''cat'') [Some ''x''] []]"])
     code_simp+

text \<open>A plain entry makes every other entry of its name moot. If the list holds the
  bare name of a program, the program's command position passes with any arguments,
  whatever argument patterns other entries of that name carry.\<close>

theorem plain_entry_unconstrained:
  assumes "PlainEntry s \<in> set entries" and "py_lower (py_strip s) = p" and "p \<noteq> []"
  shows "check_command_position re (normalize_rules re entries) p args = None"
proof -
  have "normalize_entry re (PlainEntry s) = Some \<lparr>rule_command = p, args_allow = [], args_deny = []\<rparr>"
    using assms(2,3) by (simp add: Let_def)
  moreover have "rule_accepts re \<lparr>rule_command = p, args_allow = [], args_deny = []\<rparr> args"
    by (simp add: rule_accepts_unconstrained constrained_def)
  ultimately show ?thesis
    using assms(1) by (force simp: check_command_position_None_iff position_ok_entries)
qed

lemma plain_entry_unconstrained_witness:
  "check_command_position \<lparr>re_ok = \<lambda>_. True, re_search = \<lambda>p s. True\<rparr>
     (normalize_rules \<lparr>re_ok = \<lambda>_. True, re_search = \<lambda>p s. True\<rparr>
       [ObjectEntry (Some ''curl'') [] [Some ''POST''], PlainEntry '' Curl ''])
     ''curl'' [''-X'', ''POST''] = None"
  by (rule plain_entry_unconstrained [where s = "'' Curl ''"]) code_simp+

text \<open>A quoted redirection operator hides a separator from the scan. The lexer gives a
  quoted \<open>'>'\<close> and the operator the same token, and the scan then skips the next
  token as a redirection target even if it is a separator: the commands after it are read
  as arguments of the command before it, and only the first program name is checked.\<close>

theorem redirect_swallows_separator:
  assumes "is_redirect r" and "is_separator sep"
    and "\<not> is_separator w" and "\<not> is_redirect w" and "\<not> is_env_assignment w"
  shows "scan_tokens chk (w # r # sep # ts) = scan_tokens chk (w # ts)"
  using assms by (simp add: collect_args_redirect_separator
      del: collect_args.simps split: option.split)

lemma redirect_swallows_separator_witness:
  "scan_tokens (\<lambda>p args. Some (NotAllowed p)) [''ls'', ''>'', '';'', ''rm'', ''-rf'', ''/''] =
     scan_tokens (\<lambda>p args. Some (NotAllowed p)) [''ls'', ''rm'', ''-rf'', ''/''] \<and>
   tokenize (''ls '' @ [CHR 0x27] @ ''>'' @ [CHR 0x27] @ '' ; rm -rf /'') =
     Some [''ls'', ''>'', '';'', ''rm'', ''-rf'', ''/''] \<and>
   validate_command_whitelist no_match
     (''ls '' @ [CHR 0x27] @ ''>'' @ [CHR 0x27] @ '' ; rm -rf /'') (Some [PlainEntry ''ls'']) = None"
  by (rule conjI, rule redirect_swallows_separator, code_simp, code_simp, code_simp, code_simp,
      code_simp, rule conjI, code_simp, code_simp)

text \<open>A number sign hides the rest of its line. For a prefix of ordinary characters and
  blanks, the tokens of the prefix followed by a number sign and any text without a line
  feed are the tokens of the prefix alone, also where the number sign continues a word and
  a shell would run what follows.\<close>

theorem number_sign_hides_tail:
  assumes "list_all (\<lambda>c. plain_char c \<or> is_lex_space c) s" and "CHR 0x0A \<notin> set t"
  shows "tokenize (s @ CHR ''#'' # t) = tokenize s"
  using shlex_plain_hash [OF assms(1) _ assms(2)] by (simp add: tokenize_def shlex_split_def)

lemma number_sign_hides_tail_witness:
  "tokenize (''ls a'' @ CHR ''#'' # ''b; rm -rf /'') = tokenize ''ls a'' \<and>
   validate_command_whitelist no_match ''ls a#b; rm -rf /'' (Some [PlainEntry ''ls'']) = None"
  by (rule conjI, rule number_sign_hides_tail, code_simp, code_simp, code_simp)

text \<open>Two command runners whose wrapped command escapes validation. For
  \<open>env -vS...\<close> the clustered option is skipped as a flag, so no wrapped command is
  extracted and only the \<open>env\<close> rules are consulted; for \<open>flock FILE prog ... -c x\<close>
  the string after \<open>-c\<close> is validated and the program that runs is not.\<close>

theorem runners_escape:
  "check_simple_command re rules nested ''env'' [''-vS'' @ c] =
     check_command_position re rules ''env'' [''-vS'' @ c] \<and>
   (list_all (\<lambda>t. \<not> py_startswith t ''-'') (f # prog # ts) \<longrightarrow>
      nested_commands rules ''flock'' (f # prog # ts @ [''-c'', ''ls'']) = [''ls''])"
proof
  have "''-vS'' @ c \<notin> set [''-u'', ''--unset'', ''-C'', ''--chdir'', ''-P'', ''--argv0'']" by simp
  then have "the (dict_get command_runners ''env'') [''-vS'' @ c] = []"
    unfolding command_runners_def using env_cluster_extract by simp
  moreover have "dict_get command_runners ''env'' \<noteq> None" by (simp add: command_runners_def)
  ultimately show "check_simple_command re rules nested ''env'' [''-vS'' @ c] =
      check_command_position re rules ''env'' [''-vS'' @ c]"
    by (auto simp: check_simple_command_def validate_command_runner_def split: option.splits)
  show "list_all (\<lambda>t. \<not> py_startswith t ''-'') (f # prog # ts) \<longrightarrow>
      nested_commands rules ''flock'' (f # prog # ts @ [''-c'', ''ls'']) = [''ls'']"
  proof
    assume "list_all (\<lambda>t. \<not> py_startswith t ''-'') (f # prog # ts)"
    then have "extract_flock (f # prog # ts @ [''-c'', ''ls'']) = [''ls'']"
      using flock_command_later [of "f # prog # ts" "''ls''"] by (simp add: extract_flock_def)
    then show "nested_commands rules ''flock'' (f # prog # ts @ [''-c'', ''ls'']) = [''ls'']"
      by (simp add: nested_commands_def command_runners_def py_strip_def py_isspace_def)
  qed
qed

lemma runners_escape_witness:
  "nested_commands [] ''flock'' (''f'' # ''rm'' # [''x''] @ [''-c'', ''ls'']) = [''ls'']"
  using runners_escape [of no_match "[]" "\<lambda>_. None" "[]" "''f''" "''rm''" "[''x'']"]
  by (simp add: py_startswith_def)

end
