(* ===== verification/IpAddress.thy ===== *)
theory IpAddress
  imports Prelude
begin

text \<open>
  What the destination checks use of Python's \<open>ipaddress\<close> module: parsing of the
  textual forms of IPv4 and IPv6 addresses, printing of an IPv4 address, membership in
  a network, and the special-purpose properties of both address classes. An address is
  the integer Python keeps in \<open>_ip\<close>; a scope identifier is parsed and dropped, since no
  property depends on it. \<^const>\<open>None\<close> is \<open>ValueError\<close>.
\<close>

datatype ip_addr = V4 nat | V6 nat

section \<open>Decimal and hexadecimal numerals\<close>

definition digit_char :: "nat \<Rightarrow> char" where
  "digit_char d = char_of (48 + d)"

definition digit_value :: "char \<Rightarrow> nat" where
  "digit_value c = char_code c - 48"

fun dec_value :: "nat \<Rightarrow> string \<Rightarrow> nat" where
  "dec_value acc [] = acc"
| "dec_value acc (c # s) = dec_value (10 * acc + digit_value c) s"

definition hex_digit :: "char \<Rightarrow> nat option" where
  "hex_digit c =
     (let n = char_code c in
      if 48 \<le> n \<and> n \<le> 57 then Some (n - 48)
      else if 97 \<le> n \<and> n \<le> 102 then Some (n - 87)
      else if 65 \<le> n \<and> n \<le> 70 then Some (n - 55)
      else None)"

fun hex_value :: "nat \<Rightarrow> string \<Rightarrow> nat option" where
  "hex_value acc [] = Some acc"
| "hex_value acc (c # s) =
     (case hex_digit c of None \<Rightarrow> None | Some d \<Rightarrow> hex_value (16 * acc + d) s)"

definition hex_char :: "nat \<Rightarrow> char" where
  "hex_char d = (if d < 10 then char_of (48 + d) else char_of (87 + d))"

text \<open>\<open>'%x' % n\<close> for a 16-bit value, \<open>str(n)\<close> for a byte.\<close>

definition hex_str :: "nat \<Rightarrow> string" where
  "hex_str n =
     (if n < 16 then [hex_char n]
      else if n < 256 then [hex_char (n div 16), hex_char (n mod 16)]
      else if n < 4096 then [hex_char (n div 256), hex_char (n div 16 mod 16), hex_char (n mod 16)]
      else [hex_char (n div 4096), hex_char (n div 256 mod 16), hex_char (n div 16 mod 16),
            hex_char (n mod 16)])"

definition byte_str :: "nat \<Rightarrow> string" where
  "byte_str n =
     (if n < 10 then [digit_char n]
      else if n < 100 then [digit_char (n div 10), digit_char (n mod 10)]
      else [digit_char (n div 100), digit_char (n div 10 mod 10), digit_char (n mod 10)])"

section \<open>IPv4\<close>

definition parse_octet :: "string \<Rightarrow> nat option" where
  "parse_octet s =
     (if s = [] \<or> \<not> list_all is_ascii_digit s then None
      else if 3 < length s then None
      else if s \<noteq> ''0'' \<and> hd s = CHR ''0'' then None
      else if 255 < dec_value 0 s then None
      else Some (dec_value 0 s))"

definition quad :: "nat \<Rightarrow> nat \<Rightarrow> nat \<Rightarrow> nat \<Rightarrow> nat" where
  "quad a b c d = ((a * 256 + b) * 256 + c) * 256 + d"

definition parse_v4 :: "string \<Rightarrow> nat option" where
  "parse_v4 s =
     (if CHR ''/'' \<in> set s then None
      else case py_split (CHR ''.'') s of
        [p, q, r, t] \<Rightarrow>
          (case (parse_octet p, parse_octet q, parse_octet r, parse_octet t) of
             (Some a, Some b, Some c, Some d) \<Rightarrow> Some (quad a b c d)
           | _ \<Rightarrow> None)
      | _ \<Rightarrow> None)"

definition ipv4_str :: "nat \<Rightarrow> string" where
  "ipv4_str n =
     py_join ''.'' (map byte_str [n div 16777216, n div 65536 mod 256, n div 256 mod 256, n mod 256])"

section \<open>IPv6\<close>

definition parse_hextet :: "string \<Rightarrow> nat option" where
  "parse_hextet s = (if s = [] \<or> 4 < length s then None else hex_value 0 s)"

fun hextets_value :: "nat \<Rightarrow> string list \<Rightarrow> nat option" where
  "hextets_value acc [] = Some acc"
| "hextets_value acc (h # hs) =
     (case parse_hextet h of
        None \<Rightarrow> None
      | Some v \<Rightarrow> hextets_value (acc * 65536 + v) hs)"

text \<open>The IPv4-style tail, rewritten as two hextets.\<close>

definition expand_v4_tail :: "string list \<Rightarrow> string list option" where
  "expand_v4_tail parts =
     (if CHR ''.'' \<in> set (last parts)
      then (case parse_v4 (last parts) of
              None \<Rightarrow> None
            | Some n \<Rightarrow>
                Some (butlast parts @ [hex_str (n div 65536 mod 65536), hex_str (n mod 65536)]))
      else Some parts)"

definition v6_of_parts :: "string list \<Rightarrow> nat option" where
  "v6_of_parts parts =
     (let n = length parts in
      if 9 < n then None
      else case filter (\<lambda>i. parts ! i = []) [1..<n - 1] of
        [] \<Rightarrow>
          (if n \<noteq> 8 \<or> hd parts = [] \<or> last parts = [] then None else hextets_value 0 parts)
      | [k] \<Rightarrow>
          (let hi = (if hd parts = [] then k - 1 else k);
               lo = (if last parts = [] then n - k - 2 else n - k - 1) in
           if (hd parts = [] \<and> hi \<noteq> 0) \<or> (last parts = [] \<and> lo \<noteq> 0) then None
           else if 8 < hi + lo + 1 then None
           else case hextets_value 0 (take hi parts) of
             None \<Rightarrow> None
           | Some h \<Rightarrow> hextets_value (h * 65536 ^ (8 - (hi + lo))) (drop (n - lo) parts))
      | _ \<Rightarrow> None)"

definition split_scope :: "string \<Rightarrow> string option" where
  "split_scope s =
     (case split_once (CHR ''%'') s of
        (addr, None) \<Rightarrow> Some addr
      | (addr, Some scope) \<Rightarrow> (if scope = [] \<or> CHR ''%'' \<in> set scope then None else Some addr))"

definition parse_v6 :: "string \<Rightarrow> nat option" where
  "parse_v6 s =
     (if CHR ''/'' \<in> set s then None
      else case split_scope s of
        None \<Rightarrow> None
      | Some addr \<Rightarrow>
          (let parts = py_split (CHR '':'') addr in
           if addr = [] \<or> length parts < 3 then None
           else case expand_v4_tail parts of None \<Rightarrow> None | Some ps \<Rightarrow> v6_of_parts ps))"

definition parse_ip :: "string \<Rightarrow> ip_addr option" where
  "parse_ip s =
     (case parse_v4 s of
        Some n \<Rightarrow> Some (V4 n)
      | None \<Rightarrow> map_option V6 (parse_v6 s))"

section \<open>Networks and special-purpose ranges\<close>

text \<open>\<open>addr in network\<close>, for a network given by its address and prefix length.\<close>

definition in_net :: "nat \<Rightarrow> nat \<Rightarrow> nat \<times> nat \<Rightarrow> bool" where
  "in_net bits a np = (a div 2 ^ (bits - snd np) = fst np div 2 ^ (bits - snd np))"

definition groups :: "nat list \<Rightarrow> nat" where
  "groups gs = foldl (\<lambda>acc g. acc * 65536 + g) 0 gs"

definition v4_private_networks :: "(nat \<times> nat) list" where
  "v4_private_networks =
    [(quad 0 0 0 0, 8), (quad 10 0 0 0, 8), (quad 127 0 0 0, 8), (quad 169 254 0 0, 16),
     (quad 172 16 0 0, 12), (quad 192 0 0 0, 24), (quad 192 0 0 170, 31), (quad 192 0 2 0, 24),
     (quad 192 168 0 0, 16), (quad 198 18 0 0, 15), (quad 198 51 100 0, 24),
     (quad 203 0 113 0, 24), (quad 240 0 0 0, 4), (quad 255 255 255 255, 32)]"

definition v4_private_exceptions :: "(nat \<times> nat) list" where
  "v4_private_exceptions = [(quad 192 0 0 9, 32), (quad 192 0 0 10, 32)]"

definition v6_private_networks :: "(nat \<times> nat) list" where
  "v6_private_networks =
    [(1, 128), (0, 128), (groups [0, 0, 0, 0, 0, 0xFFFF, 0, 0], 96),
     (groups [0x64, 0xFF9B, 1, 0, 0, 0, 0, 0], 48), (groups [0x100, 0, 0, 0, 0, 0, 0, 0], 64),
     (groups [0x2001, 0, 0, 0, 0, 0, 0, 0], 23), (groups [0x2001, 0xDB8, 0, 0, 0, 0, 0, 0], 32),
     (groups [0x2002, 0, 0, 0, 0, 0, 0, 0], 16), (groups [0xFC00, 0, 0, 0, 0, 0, 0, 0], 7),
     (groups [0xFE80, 0, 0, 0, 0, 0, 0, 0], 10)]"

definition v6_private_exceptions :: "(nat \<times> nat) list" where
  "v6_private_exceptions =
    [(groups [0x2001, 1, 0, 0, 0, 0, 0, 1], 128), (groups [0x2001, 1, 0, 0, 0, 0, 0, 2], 128),
     (groups [0x2001, 3, 0, 0, 0, 0, 0, 0], 32), (groups [0x2001, 4, 0x112, 0, 0, 0, 0, 0], 48),
     (groups [0x2001, 0x20, 0, 0, 0, 0, 0, 0], 28), (groups [0x2001, 0x30, 0, 0, 0, 0, 0, 0], 28)]"

definition v6_reserved_networks :: "(nat \<times> nat) list" where
  "v6_reserved_networks =
    map (\<lambda>(g, p). (groups [g, 0, 0, 0, 0, 0, 0, 0], p))
      [(0, 8), (0x100, 8), (0x200, 7), (0x400, 6), (0x800, 5), (0x1000, 4), (0x4000, 3),
       (0x6000, 3), (0x8000, 3), (0xA000, 3), (0xC000, 3), (0xE000, 4), (0xF000, 5),
       (0xF800, 6), (0xFE00, 9)]"

definition ipv4_mapped :: "nat \<Rightarrow> nat option" where
  "ipv4_mapped a = (if a div 2 ^ 32 = 0xFFFF then Some (a mod 2 ^ 32) else None)"

definition v4_is_private :: "nat \<Rightarrow> bool" where
  "v4_is_private a =
     (list_ex (in_net 32 a) v4_private_networks \<and> \<not> list_ex (in_net 32 a) v4_private_exceptions)"

fun is_private :: "ip_addr \<Rightarrow> bool" where
  "is_private (V4 a) = v4_is_private a"
| "is_private (V6 a) =
     (case ipv4_mapped a of
        Some m \<Rightarrow> v4_is_private m
      | None \<Rightarrow>
          list_ex (in_net 128 a) v6_private_networks \<and>
          \<not> list_ex (in_net 128 a) v6_private_exceptions)"

fun is_loopback :: "ip_addr \<Rightarrow> bool" where
  "is_loopback (V4 a) = in_net 32 a (quad 127 0 0 0, 8)"
| "is_loopback (V6 a) = (a = 1)"

fun is_link_local :: "ip_addr \<Rightarrow> bool" where
  "is_link_local (V4 a) = in_net 32 a (quad 169 254 0 0, 16)"
| "is_link_local (V6 a) = in_net 128 a (groups [0xFE80, 0, 0, 0, 0, 0, 0, 0], 10)"

fun is_unspecified :: "ip_addr \<Rightarrow> bool" where
  "is_unspecified (V4 a) = (a = 0)"
| "is_unspecified (V6 a) = (a = 0)"

fun is_reserved :: "ip_addr \<Rightarrow> bool" where
  "is_reserved (V4 a) = in_net 32 a (quad 240 0 0 0, 4)"
| "is_reserved (V6 a) = list_ex (in_net 128 a) v6_reserved_networks"

fun is_multicast :: "ip_addr \<Rightarrow> bool" where
  "is_multicast (V4 a) = in_net 32 a (quad 224 0 0 0, 4)"
| "is_multicast (V6 a) = in_net 128 a (groups [0xFF00, 0, 0, 0, 0, 0, 0, 0], 8)"

section \<open>Round trip and ranges\<close>

lemma digit_char_code: "d < 10 \<Longrightarrow> char_code (digit_char d) = 48 + d"
  by (simp add: digit_char_def)

lemma digit_char_facts:
  assumes "d < 10"
  shows "digit_value (digit_char d) = d" "is_ascii_digit (digit_char d)"
    "digit_char d \<noteq> CHR ''.''" "digit_char d \<noteq> CHR ''/''" "digit_char d = CHR ''0'' \<longleftrightarrow> d = 0"
proof -
  note code = digit_char_code [OF assms]
  show "digit_value (digit_char d) = d" "is_ascii_digit (digit_char d)"
    using assms code by (simp_all add: digit_value_def is_ascii_digit_def)
  show "digit_char d \<noteq> CHR ''.''" "digit_char d \<noteq> CHR ''/''"
    using code by auto
  show "digit_char d = CHR ''0'' \<longleftrightarrow> d = 0"
    using of_char_eq_iff [of "digit_char d" "CHR ''0''", where 'a = nat] code by auto
qed

lemma byte_str_roundtrip:
  assumes "n < 256" shows "parse_octet (byte_str n) = Some n"
proof -
  have "n mod 100 = n div 10 mod 10 * 10 + n mod 10"
    using mod_mult2_eq [of n 10 10] by simp
  then have "n = n div 100 * 100 + n div 10 mod 10 * 10 + n mod 10"
    using div_mult_mod_eq [of n 100] by linarith
  moreover have "n div 100 < 10" using assms by simp
  ultimately show ?thesis
    using assms by (auto simp: parse_octet_def byte_str_def digit_char_facts)
qed

lemma byte_str_no_sep: "n < 256 \<Longrightarrow> CHR ''.'' \<notin> set (byte_str n)"
  "n < 256 \<Longrightarrow> CHR ''/'' \<notin> set (byte_str n)"
  using digit_char_facts(3,4) [symmetric] by (auto simp: byte_str_def)

lemma py_split_no_sep: "d \<notin> set s \<Longrightarrow> py_split d s = [s]"
  by (induction s) auto

lemma py_split_append_sep: "d \<notin> set s \<Longrightarrow> py_split d (s @ d # t) = s # py_split d t"
  by (induction s) auto

lemma quad_digits: "quad (n div 16777216) (n div 65536 mod 256) (n div 256 mod 256) (n mod 256) = n"
proof -
  have "n div 16777216 = n div 256 div 256 div 256" "n div 65536 = n div 256 div 256"
    by (simp_all add: div_mult2_eq [symmetric])
  then show ?thesis
    by (simp add: quad_def)
qed

text \<open>Printing an IPv4 address and parsing it back gives the same address.\<close>

lemma parse_v4_ipv4_str:
  assumes "n < 2 ^ 32"
  shows "parse_v4 (ipv4_str n) = Some n"
proof -
  let ?a = "n div 16777216" and ?b = "n div 65536 mod 256" and ?c = "n div 256 mod 256"
    and ?d = "n mod 256"
  have bytes: "?a < 256" "?b < 256" "?c < 256" "?d < 256" using assms by auto
  have str: "ipv4_str n = byte_str ?a @ CHR ''.'' # byte_str ?b @ CHR ''.'' # byte_str ?c
      @ CHR ''.'' # byte_str ?d"
    by (simp add: ipv4_str_def)
  have "CHR ''/'' \<notin> set (ipv4_str n)"
    using bytes by (simp add: str byte_str_no_sep)
  moreover have "py_split (CHR ''.'') (ipv4_str n) = [byte_str ?a, byte_str ?b, byte_str ?c, byte_str ?d]"
    using bytes by (simp add: str py_split_append_sep py_split_no_sep byte_str_no_sep)
  ultimately show ?thesis
    using bytes by (simp add: parse_v4_def byte_str_roundtrip quad_digits)
qed

lemma parse_ip_ipv4_str: "n < 2 ^ 32 \<Longrightarrow> parse_ip (ipv4_str n) = Some (V4 n)"
  by (simp add: parse_ip_def parse_v4_ipv4_str)

lemma parse_octet_bound: "parse_octet s = Some v \<Longrightarrow> v < 256"
  by (auto simp: parse_octet_def split: if_splits)

lemma parse_v4_bound: "parse_v4 s = Some n \<Longrightarrow> n < 2 ^ 32"
  by (auto simp: parse_v4_def quad_def dest!: parse_octet_bound
      split: if_splits list.splits option.splits)

lemma hex_digit_bound: "hex_digit c = Some d \<Longrightarrow> d < 16"
  by (auto simp: hex_digit_def Let_def split: if_splits)

lemma hex_value_bound: "hex_value acc s = Some v \<Longrightarrow> v < (acc + 1) * 16 ^ length s"
proof (induction s arbitrary: acc)
  case (Cons c s)
  then obtain d where d: "hex_digit c = Some d" and v: "hex_value (16 * acc + d) s = Some v"
    by (auto split: option.splits)
  have "v < (16 * acc + d + 1) * 16 ^ length s" using Cons.IH v by simp
  also have "\<dots> \<le> ((acc + 1) * 16) * 16 ^ length s"
    using hex_digit_bound [OF d] by (intro mult_right_mono) auto
  finally show ?case by (simp add: algebra_simps)
qed simp

lemma parse_hextet_bound: "parse_hextet s = Some v \<Longrightarrow> v < 65536"
proof -
  assume "parse_hextet s = Some v"
  then have "v < 16 ^ length s" and "length s \<le> 4"
    using hex_value_bound [of 0 s v] by (auto simp: parse_hextet_def split: if_splits)
  then show ?thesis
    using power_increasing [of "length s" 4 "16::nat"] by simp
qed

lemma hextets_value_bound:
  "hextets_value acc hs = Some v \<Longrightarrow> v < (acc + 1) * 65536 ^ length hs"
proof (induction hs arbitrary: acc)
  case (Cons h hs)
  then obtain d where d: "parse_hextet h = Some d"
    and v: "hextets_value (acc * 65536 + d) hs = Some v"
    by (auto split: option.splits)
  have "v < (acc * 65536 + d + 1) * 65536 ^ length hs" using Cons.IH v by simp
  also have "\<dots> \<le> ((acc + 1) * 65536) * 65536 ^ length hs"
    using parse_hextet_bound [OF d] by (intro mult_right_mono) auto
  finally show ?case by (simp add: algebra_simps)
qed simp

lemma hextets_pow: "hextets_value 0 hs = Some v \<Longrightarrow> length hs \<le> k \<Longrightarrow> v < 65536 ^ k"
  using less_le_trans [OF hextets_value_bound [of 0 hs v, simplified]
      power_increasing [of "length hs" k "65536::nat"]] by simp

lemma two_halves_bound:
  assumes "hextets_value 0 hi = Some h" "length hi \<le> m" "length lo \<le> l" "m + l < 8"
    and "hextets_value (h * 65536 ^ (8 - (m + l))) lo = Some v"
  shows "v < 65536 ^ 8"
proof -
  let ?k = "8 - (m + l)"
  have h: "h + 1 \<le> 65536 ^ m" using hextets_pow [OF assms(1,2)] by simp
  have "h * 65536 ^ ?k + 1 \<le> (h + 1) * 65536 ^ ?k" by simp
  also have "\<dots> \<le> 65536 ^ m * 65536 ^ ?k" using h by (rule mult_right_mono) simp
  finally have acc: "h * 65536 ^ ?k + 1 \<le> 65536 ^ (m + ?k)" by (simp add: power_add)
  have "v < (h * 65536 ^ ?k + 1) * 65536 ^ length lo" by (rule hextets_value_bound [OF assms(5)])
  also have "\<dots> \<le> 65536 ^ (m + ?k) * 65536 ^ l"
    using acc assms(3) by (intro mult_mono power_increasing) simp_all
  also have "\<dots> = 65536 ^ (m + ?k + l)" by (simp only: power_add)
  also have "m + ?k + l = 8" using assms(4) by simp
  finally show ?thesis .
qed

lemma v6_of_parts_bound:
  assumes "v6_of_parts parts = Some v"
  shows "v < 2 ^ 128"
proof -
  have "v < 65536 ^ 8"
  proof (cases "filter (\<lambda>i. parts ! i = []) [1..<length parts - 1]")
    case Nil
    then show ?thesis
      using assms hextets_pow [of parts v 8] by (auto simp: v6_of_parts_def Let_def split: if_splits)
  next
    case (Cons k ks)
    let ?hi = "if hd parts = [] then k - 1 else k"
    let ?lo = "if last parts = [] then length parts - k - 2 else length parts - k - 1"
    have ks: "ks = []"
      using assms Cons by (cases ks) (auto simp: v6_of_parts_def Let_def split: if_splits)
    obtain h where h: "hextets_value 0 (take ?hi parts) = Some h"
      and v: "hextets_value (h * 65536 ^ (8 - (?hi + ?lo))) (drop (length parts - ?lo) parts) = Some v"
      and small: "\<not> 8 < ?hi + ?lo + 1"
      using assms Cons ks
      by (cases "hextets_value 0 (take ?hi parts)")
         (simp_all add: v6_of_parts_def Let_def split: if_split_asm option.split_asm)
    show ?thesis
      by (rule two_halves_bound [OF h _ _ _ v]) (use small in auto)
  qed
  then show ?thesis by simp
qed

lemma parse_v6_bound: "parse_v6 s = Some n \<Longrightarrow> n < 2 ^ 128"
  by (auto simp: parse_v6_def Let_def dest: v6_of_parts_bound split: if_splits option.splits)

lemma parse_ip_bound:
  "parse_ip s = Some (V4 n) \<Longrightarrow> n < 2 ^ 32"
  "parse_ip s = Some (V6 n) \<Longrightarrow> n < 2 ^ 128"
  by (auto simp: parse_ip_def dest: parse_v4_bound parse_v6_bound split: option.splits)

end
