(* ===== verification/HostSafety.thy ===== *)
theory HostSafety
  imports IpAddress
begin

text \<open>
  The destination deny-list, in its three copies:
  \<open>control-plane/src/control_plane/host_safety.py\<close>, \<open>sidecar/sidecar_secrets.py\<close> and
  \<open>src/boxxkite/secrets_network_policy.py\<close>, and the resolution steps built on it.
  DNS is a parameter: \<open>getaddrinfo\<close> gives the addresses of a host, or \<^const>\<open>None\<close>
  for \<open>socket.gaierror\<close>.
\<close>

section \<open>The deny-list\<close>

definition cgnat_network :: "nat \<times> nat" where
  "cgnat_network = (quad 100 64 0 0, 10)"

definition nat64_network :: "nat \<times> nat" where
  "nat64_network = (groups [0x64, 0xFF9B, 0, 0, 0, 0, 0, 0], 96)"

definition embedded_ipv4 :: "nat \<Rightarrow> nat option" where
  "embedded_ipv4 ip =
     (if ipv4_mapped ip \<noteq> None then ipv4_mapped ip
      else if in_net 128 ip nat64_network then Some (ip mod 2 ^ 32)
      else None)"

definition in_cgnat :: "ip_addr \<Rightarrow> bool" where
  "in_cgnat addr = (case addr of V4 a \<Rightarrow> in_net 32 a cgnat_network | V6 a \<Rightarrow> False)"

definition disallowed_class :: "ip_addr \<Rightarrow> bool" where
  "disallowed_class addr =
     (is_loopback addr \<or> is_link_local addr \<or> is_private addr \<or> is_unspecified addr \<or>
      is_reserved addr \<or> is_multicast addr \<or> in_cgnat addr)"

lemma embedded_ipv4_bound: "embedded_ipv4 ip = Some e \<Longrightarrow> e < 2 ^ 32"
  by (auto simp: embedded_ipv4_def ipv4_mapped_def split: if_splits)

text \<open>The control plane's check calls itself on the printed embedded address.\<close>

function is_disallowed_destination_ip :: "string \<Rightarrow> bool" where
  "is_disallowed_destination_ip ip_str =
     (case parse_ip ip_str of
        None \<Rightarrow> True
      | Some (V4 a) \<Rightarrow> disallowed_class (V4 a)
      | Some (V6 a) \<Rightarrow>
          (case embedded_ipv4 a of
             Some e \<Rightarrow> is_disallowed_destination_ip (ipv4_str e)
           | None \<Rightarrow> disallowed_class (V6 a)))"
  by pat_completeness auto

termination
  by (relation "measure (\<lambda>s. case parse_ip s of Some (V6 a) \<Rightarrow> 1 | _ \<Rightarrow> 0)")
     (auto simp: parse_ip_ipv4_str dest!: embedded_ipv4_bound)

declare is_disallowed_destination_ip.simps [simp del]

text \<open>The sidecar's copy.\<close>

function sidecar_is_disallowed :: "string \<Rightarrow> bool" where
  "sidecar_is_disallowed ip_str =
     (case parse_ip ip_str of
        None \<Rightarrow> True
      | Some (V4 a) \<Rightarrow> disallowed_class (V4 a)
      | Some (V6 a) \<Rightarrow>
          (case embedded_ipv4 a of
             Some e \<Rightarrow> sidecar_is_disallowed (ipv4_str e)
           | None \<Rightarrow> disallowed_class (V6 a)))"
  by pat_completeness auto

termination
  by (relation "measure (\<lambda>s. case parse_ip s of Some (V6 a) \<Rightarrow> 1 | _ \<Rightarrow> 0)")
     (auto simp: parse_ip_ipv4_str dest!: embedded_ipv4_bound)

declare sidecar_is_disallowed.simps [simp del]

text \<open>The core package's copy replaces the address and falls through.\<close>

definition policy_is_disallowed :: "string \<Rightarrow> bool" where
  "policy_is_disallowed ip_str =
     (case parse_ip ip_str of
        None \<Rightarrow> True
      | Some addr \<Rightarrow>
          (let addr' = (case addr of
                 V4 a \<Rightarrow> V4 a
               | V6 a \<Rightarrow> (case embedded_ipv4 a of Some e \<Rightarrow> V4 e | None \<Rightarrow> V6 a))
           in disallowed_class addr'))"

section \<open>The contract of a deny-list\<close>

text \<open>The address a connection to a textual address reaches: an IPv4 address, also in
  its mapped and NAT64 forms, or another IPv6 address.\<close>

definition effective_address :: "string \<Rightarrow> ip_addr option" where
  "effective_address s =
     (case parse_ip s of
        None \<Rightarrow> None
      | Some (V4 a) \<Rightarrow> Some (V4 a)
      | Some (V6 a) \<Rightarrow> Some (case embedded_ipv4 a of Some e \<Rightarrow> V4 e | None \<Rightarrow> V6 a))"

locale ip_deny_list =
  fixes denied :: "string \<Rightarrow> bool"
  assumes denied_unparsed: "effective_address s = None \<Longrightarrow> denied s"
    and denied_effective: "effective_address s = Some a \<Longrightarrow> denied s = disallowed_class a"
begin

lemma allowed_iff: "\<not> denied s \<longleftrightarrow> (\<exists>a. effective_address s = Some a \<and> \<not> disallowed_class a)"
  using denied_unparsed denied_effective by (cases "effective_address s") auto

text \<open>All addresses of a resolution must pass, never only one of them.\<close>

lemma all_allowed_iff:
  "(\<forall>s\<in>set ips. \<not> denied s) \<longleftrightarrow> \<not> list_ex denied ips"
  by (auto simp: list_ex_iff)

end

lemma is_disallowed_destination_ip_v4:
  "parse_ip s = Some (V4 a) \<Longrightarrow> is_disallowed_destination_ip s = disallowed_class (V4 a)"
  by (subst is_disallowed_destination_ip.simps) simp

lemma is_disallowed_destination_ip_v6:
  assumes "parse_ip s = Some (V6 a)"
  shows "is_disallowed_destination_ip s =
    disallowed_class (case embedded_ipv4 a of Some e \<Rightarrow> V4 e | None \<Rightarrow> V6 a)"
proof (cases "embedded_ipv4 a")
  case None
  then show ?thesis using assms by (subst is_disallowed_destination_ip.simps) simp
next
  case (Some e)
  then have "parse_ip (ipv4_str e) = Some (V4 e)"
    by (rule parse_ip_ipv4_str [OF embedded_ipv4_bound])
  then show ?thesis
    using assms Some by (subst is_disallowed_destination_ip.simps) (simp add: is_disallowed_destination_ip_v4)
qed

lemma is_disallowed_destination_ip_unparsed: "parse_ip s = None \<Longrightarrow> is_disallowed_destination_ip s"
  by (subst is_disallowed_destination_ip.simps) simp

interpretation control_plane_check: ip_deny_list is_disallowed_destination_ip
  by unfold_locales
     (auto simp: effective_address_def is_disallowed_destination_ip_v4
       is_disallowed_destination_ip_v6 is_disallowed_destination_ip_unparsed
       split: option.splits ip_addr.splits)

lemma sidecar_is_disallowed_v4:
  "parse_ip s = Some (V4 a) \<Longrightarrow> sidecar_is_disallowed s = disallowed_class (V4 a)"
  by (subst sidecar_is_disallowed.simps) simp

lemma sidecar_is_disallowed_v6:
  assumes "parse_ip s = Some (V6 a)"
  shows "sidecar_is_disallowed s =
    disallowed_class (case embedded_ipv4 a of Some e \<Rightarrow> V4 e | None \<Rightarrow> V6 a)"
proof (cases "embedded_ipv4 a")
  case None
  then show ?thesis using assms by (subst sidecar_is_disallowed.simps) simp
next
  case (Some e)
  then have "parse_ip (ipv4_str e) = Some (V4 e)"
    by (rule parse_ip_ipv4_str [OF embedded_ipv4_bound])
  then show ?thesis
    using assms Some by (subst sidecar_is_disallowed.simps) (simp add: sidecar_is_disallowed_v4)
qed

lemma sidecar_is_disallowed_unparsed: "parse_ip s = None \<Longrightarrow> sidecar_is_disallowed s"
  by (subst sidecar_is_disallowed.simps) simp

interpretation sidecar_check: ip_deny_list sidecar_is_disallowed
  by unfold_locales
     (auto simp: effective_address_def sidecar_is_disallowed_v4
       sidecar_is_disallowed_v6 sidecar_is_disallowed_unparsed
       split: option.splits ip_addr.splits)

interpretation policy_check: ip_deny_list policy_is_disallowed
  by unfold_locales
     (auto simp: policy_is_disallowed_def effective_address_def Let_def
       split: option.splits ip_addr.splits)

section \<open>Names and resolution\<close>

type_synonym resolver = "string \<Rightarrow> string list option"

definition disallowed_metadata_hostnames :: "string list" where
  "disallowed_metadata_hostnames =
     [''metadata.google.internal'', ''metadata.goog'', ''169.254.169.254'']"

definition hostname_is_obviously_unsafe :: "string \<Rightarrow> bool" where
  "hostname_is_obviously_unsafe hostname =
     (py_lower (py_strip hostname) \<in> set disallowed_metadata_hostnames)"

definition resolve_host_is_unsafe :: "resolver \<Rightarrow> string \<Rightarrow> bool" where
  "resolve_host_is_unsafe getaddrinfo hostname =
     (if hostname_is_obviously_unsafe hostname then True
      else case getaddrinfo hostname of
        None \<Rightarrow> False
      | Some infos \<Rightarrow> list_ex is_disallowed_destination_ip infos)"

text \<open>The loop of both request-time checks: give up at the first disallowed address,
  otherwise keep the addresses in their order.\<close>

fun collect_allowed :: "(string \<Rightarrow> bool) \<Rightarrow> string list \<Rightarrow> string list option" where
  "collect_allowed bad [] = Some []"
| "collect_allowed bad (ip # ips) =
     (if bad ip then None else map_option (Cons ip) (collect_allowed bad ips))"

definition resolve_and_validate_destination_ip :: "resolver \<Rightarrow> string \<Rightarrow> string option" where
  "resolve_and_validate_destination_ip getaddrinfo hostname =
     (case getaddrinfo hostname of
        None \<Rightarrow> None
      | Some infos \<Rightarrow>
          (if infos = [] then None
           else map_option hd (collect_allowed is_disallowed_destination_ip infos)))"

lemma collect_allowed_eq:
  "collect_allowed bad ips = (if list_ex bad ips then None else Some ips)"
  by (induction ips) auto

section \<open>What the deny-list covers\<close>

text \<open>Internal IPv4 addresses by their octets: this-network, RFC 1918, loopback,
  link-local with the metadata service, CGNAT, multicast and the reserved block.\<close>

definition internal_v4 :: "nat \<Rightarrow> bool" where
  "internal_v4 n =
     (let a = n div 2 ^ 24; b = n div 2 ^ 16 mod 256 in
      a = 0 \<or> a = 10 \<or> a = 127 \<or> (a = 100 \<and> 64 \<le> b \<and> b \<le> 127) \<or> (a = 169 \<and> b = 254) \<or>
      (a = 172 \<and> 16 \<le> b \<and> b \<le> 31) \<or> (a = 192 \<and> b = 168) \<or> 224 \<le> a)"

lemma in_net_cut: "in_net 32 n (m, p) \<longleftrightarrow> n div 2 ^ (32 - p) = m div 2 ^ (32 - p)"
  by (simp add: in_net_def)

lemma internal_v4_disallowed:
  assumes "internal_v4 n" and "n < 2 ^ 32"
  shows "disallowed_class (V4 n)"
proof -
  define m where "m = n div 65536"
  have m: "m < 65536" using assms(2) by (simp add: m_def)
  have cuts: "n div 16777216 = m div 256" "n div 4194304 = m div 64" "n div 1048576 = m div 16"
    "n div 268435456 = m div 4096"
    by (simp_all add: m_def div_mult2_eq [symmetric])
  have split: "m = m div 256 * 256 + m mod 256" by simp
  have exc: "\<not> list_ex (in_net 32 n) v4_private_exceptions" if "m \<noteq> 49152"
  proof -
    have "n \<noteq> 3221225481" "n \<noteq> 3221225482" using that by (auto simp: m_def)
    then show ?thesis by (simp add: v4_private_exceptions_def in_net_cut quad_def)
  qed
  have cases: "m div 256 = 0 \<or> m div 256 = 10 \<or> m div 256 = 127 \<or>
      (m div 256 = 100 \<and> 64 \<le> m mod 256 \<and> m mod 256 \<le> 127) \<or> (m div 256 = 169 \<and> m mod 256 = 254) \<or>
      (m div 256 = 172 \<and> 16 \<le> m mod 256 \<and> m mod 256 \<le> 31) \<or> (m div 256 = 192 \<and> m mod 256 = 168) \<or>
      224 \<le> m div 256"
    using assms(1) by (simp add: internal_v4_def Let_def cuts m_def [symmetric])
  note net_simps = v4_private_networks_def in_net_cut quad_def cuts m_def [symmetric]
  have priv: ?thesis if "list_ex (in_net 32 n) v4_private_networks" "m \<noteq> 49152"
    using that exc by (simp add: disallowed_class_def v4_is_private_def)
  have "m div 256 = 0 \<or> m div 256 = 10 \<or> m div 256 = 127 \<or> m div 64 = 401 \<or> m = 43518 \<or>
      m div 16 = 2753 \<or> m = 49320 \<or> 14 \<le> m div 4096"
    using cases
  proof (elim disjE conjE)
    assume "m div 256 = 100" "64 \<le> m mod 256" "m mod 256 \<le> 127"
    then have "25664 \<le> m" "m \<le> 25727" using split by linarith+
    then have "m div 64 = 401" by (intro div_nat_eqI) simp_all
    then show ?thesis by simp
  next
    assume "m div 256 = 172" "16 \<le> m mod 256" "m mod 256 \<le> 31"
    then have "44048 \<le> m" "m \<le> 44063" using split by linarith+
    then have "m div 16 = 2753" by (intro div_nat_eqI) simp_all
    then show ?thesis by simp
  next
    assume "224 \<le> m div 256"
    then have "14 * 4096 \<le> m" using split by linarith
    then show ?thesis by linarith
  next
    assume "m div 256 = 169" "m mod 256 = 254"
    then have "m = 43518" using split by linarith
    then show ?thesis by simp
  next
    assume "m div 256 = 192" "m mod 256 = 168"
    then have "m = 49320" using split by linarith
    then show ?thesis by simp
  qed simp_all
  then consider "m div 256 = 0" | "m div 256 = 10" | "m div 256 = 127" | "m div 64 = 401"
    | "m = 43518" | "m div 16 = 2753" | "m = 49320" | "14 \<le> m div 4096"
    by (elim disjE) simp_all
  then show ?thesis
  proof cases
    case 4
    then show ?thesis
      by (simp add: disallowed_class_def in_cgnat_def cgnat_network_def in_net_cut quad_def cuts)
  next
    case 8
    then have "m div 4096 = 14 \<or> m div 4096 = 15" using m by linarith
    then show ?thesis by (auto simp: disallowed_class_def in_net_cut quad_def cuts)
  qed (rule priv; (simp add: net_simps; fail | fastforce simp: net_simps))+
qed

text \<open>An address outside an aligned block lies past the block if it is not before it.\<close>

lemma past_net:
  assumes "\<not> in_net 128 n (m, p)" and "m \<le> n" and "2 ^ (128 - p) dvd m"
  shows "m + 2 ^ (128 - p) \<le> n"
proof (rule ccontr)
  let ?s = "2 ^ (128 - p) :: nat"
  assume "\<not> m + ?s \<le> n"
  then have lt: "n < m + ?s" by simp
  have m: "m = ?s * (m div ?s)" using assms(3) by simp
  have "?s * (m div ?s) \<le> n" using assms(2) m by simp
  moreover have "n < ?s * Suc (m div ?s)" using lt m by simp
  ultimately have "n div ?s = m div ?s" by (rule div_nat_eqI)
  then show False using assms(1) by (simp add: in_net_def)
qed

lemma public_v6_range:
  assumes "\<not> disallowed_class (V6 n)" and "embedded_ipv4 n = None" and "n < 2 ^ 128"
  shows "n div 2 ^ 125 = 1 \<or> n div 2 ^ 118 = 1019"
proof -
  have res: "\<not> in_net 128 n (groups [g, 0, 0, 0, 0, 0, 0, 0], p)"
    if "(g, p) \<in> {(0, 8), (0x100, 8), (0x200, 7), (0x400, 6), (0x800, 5), (0x1000, 4), (0x4000, 3),
       (0x6000, 3), (0x8000, 3), (0xA000, 3), (0xC000, 3), (0xE000, 4), (0xF000, 5),
       (0xF800, 6), (0xFE00, 9)}" for g p
    using assms(1) that by (auto simp: disallowed_class_def v6_reserved_networks_def)
  have other: "\<not> in_net 128 n (groups [0xFE80, 0, 0, 0, 0, 0, 0, 0], 10)"
    "\<not> in_net 128 n (groups [0xFF00, 0, 0, 0, 0, 0, 0, 0], 8)"
    using assms(1) by (auto simp: disallowed_class_def)
  have mapped: "ipv4_mapped n = None"
    using assms(2) by (auto simp: embedded_ipv4_def split: if_splits)
  show ?thesis
  proof (cases "n < 0x4000 * 2 ^ 112")
    case True
    have "0x100 * 2 ^ 112 \<le> n" using past_net [OF res [of 0 8]] by (simp add: groups_def)
    then have "0x200 * 2 ^ 112 \<le> n" using past_net [OF res [of "0x100" 8]] by (simp add: groups_def)
    then have "0x400 * 2 ^ 112 \<le> n" using past_net [OF res [of "0x200" 7]] by (simp add: groups_def)
    then have "0x800 * 2 ^ 112 \<le> n" using past_net [OF res [of "0x400" 6]] by (simp add: groups_def)
    then have "0x1000 * 2 ^ 112 \<le> n" using past_net [OF res [of "0x800" 5]] by (simp add: groups_def)
    then have "0x2000 * 2 ^ 112 \<le> n" using past_net [OF res [of "0x1000" 4]] by (simp add: groups_def)
    then have "n div 2 ^ 125 = 1" using True by (intro div_nat_eqI) simp_all
    then show ?thesis ..
  next
    case False
    then have "0x4000 * 2 ^ 112 \<le> n" by simp
    then have "0x6000 * 2 ^ 112 \<le> n" using past_net [OF res [of "0x4000" 3]] by (simp add: groups_def)
    then have "0x8000 * 2 ^ 112 \<le> n" using past_net [OF res [of "0x6000" 3]] by (simp add: groups_def)
    then have "0xA000 * 2 ^ 112 \<le> n" using past_net [OF res [of "0x8000" 3]] by (simp add: groups_def)
    then have "0xC000 * 2 ^ 112 \<le> n" using past_net [OF res [of "0xA000" 3]] by (simp add: groups_def)
    then have "0xE000 * 2 ^ 112 \<le> n" using past_net [OF res [of "0xC000" 3]] by (simp add: groups_def)
    then have "0xF000 * 2 ^ 112 \<le> n" using past_net [OF res [of "0xE000" 4]] by (simp add: groups_def)
    then have "0xF800 * 2 ^ 112 \<le> n" using past_net [OF res [of "0xF000" 5]] by (simp add: groups_def)
    then have fc: "0xFC00 * 2 ^ 112 \<le> n" using past_net [OF res [of "0xF800" 6]] by (simp add: groups_def)
    then have "\<not> list_ex (in_net 128 n) v6_private_exceptions"
      by (auto simp: v6_private_exceptions_def in_net_def groups_def)
    then have "\<not> in_net 128 n (groups [0xFC00, 0, 0, 0, 0, 0, 0, 0], 7)"
      using assms(1) mapped by (auto simp: disallowed_class_def v6_private_networks_def)
    then have "0xFE00 * 2 ^ 112 \<le> n" using past_net [OF _ fc, of 7] by (simp add: groups_def)
    then have "0xFE80 * 2 ^ 112 \<le> n" using past_net [OF res [of "0xFE00" 9]] by (simp add: groups_def)
    then have lo: "0xFEC0 * 2 ^ 112 \<le> n" using past_net [OF other(1)] by (simp add: groups_def)
    have "n < 0xFF00 * 2 ^ 112"
      using past_net [OF other(2)] assms(3) by (auto simp: groups_def not_le [symmetric])
    then have "n div 2 ^ 118 = 1019" using lo by (intro div_nat_eqI) simp_all
    then show ?thesis ..
  qed
qed

section \<open>Properties\<close>

text \<open>The three copies of the deny-list agree. The control plane's check, the
  sidecar's and the one the per-session network policy uses give the same answer on every
  string, although two of them recurse on the printed embedded address and the third
  replaces the address and falls through.\<close>

theorem deny_lists_agree:
  "is_disallowed_destination_ip s = sidecar_is_disallowed s \<and>
   sidecar_is_disallowed s = policy_is_disallowed s"
  by (cases "effective_address s")
     (simp_all add: control_plane_check.denied_unparsed sidecar_check.denied_unparsed
       policy_check.denied_unparsed control_plane_check.denied_effective
       sidecar_check.denied_effective policy_check.denied_effective)

text \<open>C3: No internal IPv4 destination gets through, in any spelling. If the address a
  string denotes is an IPv4 address (written as such, IPv4-mapped or NAT64-embedded in an
  IPv6 address, with or without a scope identifier) and that address is internal (RFC 1918,
  loopback, link-local and metadata, CGNAT, multicast, reserved), the string is denied.\<close>

theorem internal_destination_denied:
  assumes "effective_address s = Some (V4 n)" and "internal_v4 n"
  shows "is_disallowed_destination_ip s"
proof -
  have "n < 2 ^ 32"
    using assms(1) by (auto simp: effective_address_def dest: embedded_ipv4_bound parse_ip_bound(1) [simplified]
        split: option.splits ip_addr.splits)
  then show ?thesis
    using assms control_plane_check.denied_effective internal_v4_disallowed by simp
qed

lemmas parse_eval = parse_ip_def parse_v4_def parse_v6_def split_scope_def expand_v4_tail_def
  v6_of_parts_def parse_octet_def parse_hextet_def hex_digit_def quad_def hex_str_def hex_char_def
  is_ascii_digit_def digit_value_def upt_rec

lemma internal_destination_denied_witness:
  "is_disallowed_destination_ip ''::ffff:169.254.169.254''"
proof (rule internal_destination_denied)
  have "parse_ip ''::ffff:169.254.169.254'' = Some (V6 281473533782526)"
    by (simp add: parse_eval)
  then show "effective_address ''::ffff:169.254.169.254'' = Some (V4 2852039166)"
    by (simp add: effective_address_def embedded_ipv4_def ipv4_mapped_def)
  show "internal_v4 2852039166" by (simp add: internal_v4_def)
qed

text \<open>What is left of IPv6. An address that is allowed and embeds no IPv4 address lies
  in the global unicast block 2000::/3 or in the deprecated site-local block fec0::/10,
  which none of the tested properties covers; fec0::1 is an allowed destination.\<close>

theorem allowed_v6_global_or_site_local:
  assumes "\<not> is_disallowed_destination_ip s" and "effective_address s = Some (V6 n)"
  shows "n div 2 ^ 125 = 1 \<or> n div 2 ^ 118 = 1019"
proof -
  have n: "parse_ip s = Some (V6 n)" "embedded_ipv4 n = None"
    using assms(2) by (auto simp: effective_address_def split: option.splits ip_addr.splits)
  then show ?thesis
    using assms control_plane_check.denied_effective
    by (intro public_v6_range) (auto dest: parse_ip_bound)
qed

lemma allowed_v6_global_or_site_local_witness:
  "\<not> is_disallowed_destination_ip ''fec0::1'' \<and>
   (338620831926207318622244848606417780737 div 2 ^ 125 = (1::nat) \<or>
    338620831926207318622244848606417780737 div 2 ^ 118 = (1019::nat))"
proof -
  have parse: "parse_ip ''fec0::1'' = Some (V6 338620831926207318622244848606417780737)"
    by (simp add: parse_eval)
  have eff: "effective_address ''fec0::1'' = Some (V6 338620831926207318622244848606417780737)"
    by (simp add: effective_address_def parse embedded_ipv4_def ipv4_mapped_def nat64_network_def
        in_net_def groups_def)
  have ok: "\<not> is_disallowed_destination_ip ''fec0::1''"
    by (simp add: control_plane_check.denied_effective [OF eff] disallowed_class_def
        ipv4_mapped_def v6_private_networks_def v6_reserved_networks_def in_cgnat_def in_net_def groups_def)
  show ?thesis using ok allowed_v6_global_or_site_local [OF ok eff] by blast
qed

text \<open>A validated destination is an address of a resolution all of whose addresses are
  allowed. The request-time check returns an address exactly if the host resolves, to at
  least one address, and none of the addresses is denied; it then returns the first.\<close>

theorem resolve_and_validate_iff:
  "resolve_and_validate_destination_ip getaddrinfo host = Some ip \<longleftrightarrow>
     (\<exists>infos. getaddrinfo host = Some (ip # infos) \<and>
        \<not> list_ex is_disallowed_destination_ip (ip # infos))"
  by (auto simp: resolve_and_validate_destination_ip_def collect_allowed_eq neq_Nil_conv
      split: option.splits if_splits)

end
