(* ===== verification/SecretsEgress.thy ===== *)
theory SecretsEgress
  imports HostSafety "HOL-Library.Char_ord" "HOL-Library.List_Lexorder"
begin

text \<open>
  \<open>src/boxxkite/secrets_network_policy.py\<close>: the per-session network policy that opens
  egress to the hosts of the session's grants. The Kubernetes object is a record of the
  fields the module sets; the resolver is a parameter, as it is in the code.
\<close>

section \<open>Grants and hosts\<close>

text \<open>One entry of \<open>secret_grants\<close>; a missing or empty \<open>allowed_hosts\<close> is the empty list,
  a null host is \<^const>\<open>None\<close>.\<close>

record grant_dict =
  gd_name :: string
  gd_hosts :: "string option list"

definition secrets_egress_policy_name :: "string \<Rightarrow> string" where
  "secrets_egress_policy_name pod_name = take 253 (''sandbox-secrets-egress-'' @ pod_name)"

definition normalize_host :: "string option \<Rightarrow> string" where
  "normalize_host host = py_lower (py_strip (case host of None \<Rightarrow> [] | Some h \<Rightarrow> h))"

fun add_hosts :: "string list \<Rightarrow> string option list \<Rightarrow> string list" where
  "add_hosts hosts [] = hosts"
| "add_hosts hosts (h # hs) =
     (let normalized = normalize_host h in
      add_hosts (if normalized = [] then hosts else List.insert normalized hosts) hs)"

fun gather_hosts :: "string list \<Rightarrow> grant_dict list \<Rightarrow> string list" where
  "gather_hosts hosts [] = hosts"
| "gather_hosts hosts (g # gs) = gather_hosts (add_hosts hosts (gd_hosts g)) gs"

definition collect_allowed_hosts :: "grant_dict list option \<Rightarrow> string list" where
  "collect_allowed_hosts secret_grants =
     sort (gather_hosts [] (case secret_grants of None \<Rightarrow> [] | Some gs \<Rightarrow> gs))"

definition default_resolve_host_ips :: "resolver \<Rightarrow> string \<Rightarrow> string list" where
  "default_resolve_host_ips getaddrinfo host =
     (case getaddrinfo host of None \<Rightarrow> [] | Some infos \<Rightarrow> sort (remdups infos))"

definition ip_block_cidr :: "string \<Rightarrow> string" where
  "ip_block_cidr ip_str = (if CHR '':'' \<in> set ip_str then ip_str @ ''/128'' else ip_str @ ''/32'')"

section \<open>The policy object\<close>

record egress_rule =
  er_cidrs :: "string list"
  er_protocol :: string
  er_port :: nat

record network_policy =
  np_name :: string
  np_namespace :: string
  np_labels :: "(string, string) dict"
  np_match_labels :: "(string, string) dict"
  np_policy_types :: "string list"
  np_egress :: "egress_rule list"

definition secrets_egress_policy_port :: nat where
  "secrets_egress_policy_port = 443"

fun egress_rules_for :: "(string \<Rightarrow> string list) \<Rightarrow> string list \<Rightarrow> egress_rule list" where
  "egress_rules_for resolve [] = []"
| "egress_rules_for resolve (host # hosts) =
     (let ips = filter (\<lambda>ip. \<not> policy_is_disallowed ip) (resolve host) in
      if ips = [] then egress_rules_for resolve hosts
      else \<lparr>er_cidrs = map ip_block_cidr ips, er_protocol = ''TCP'',
            er_port = secrets_egress_policy_port\<rparr> # egress_rules_for resolve hosts)"

definition build_secrets_egress_network_policy ::
    "string \<Rightarrow> string \<Rightarrow> string \<Rightarrow> grant_dict list option \<Rightarrow> (string \<Rightarrow> string list) \<Rightarrow>
     network_policy option" where
  "build_secrets_egress_network_policy pod_name namespace session_label secret_grants resolve =
     (let hosts = collect_allowed_hosts secret_grants in
      if hosts = [] then None
      else let rules = egress_rules_for resolve hosts in
        if rules = [] then None
        else Some
          \<lparr>np_name = secrets_egress_policy_name pod_name, np_namespace = namespace,
           np_labels = [(''app'', ''sandbox''), (''sandbox.boxxkite.dev/secrets-egress'', ''true'')],
           np_match_labels = [(''app'', ''sandbox''), (''session-id'', session_label)],
           np_policy_types = [''Egress''], np_egress = rules\<rparr>)"

section \<open>Lemmas\<close>

definition grant_hosts :: "grant_dict list option \<Rightarrow> string set" where
  "grant_hosts secret_grants =
     {normalize_host h | h g. g \<in> set (case secret_grants of None \<Rightarrow> [] | Some gs \<Rightarrow> gs) \<and>
        h \<in> set (gd_hosts g) \<and> normalize_host h \<noteq> []}"

lemma set_add_hosts:
  "set (add_hosts hosts hs) = set hosts \<union> {normalize_host h | h. h \<in> set hs \<and> normalize_host h \<noteq> []}"
  by (induction hs arbitrary: hosts) (auto simp: Let_def)

lemma set_gather_hosts:
  "set (gather_hosts hosts gs) = set hosts \<union>
     {normalize_host h | h g. g \<in> set gs \<and> h \<in> set (gd_hosts g) \<and> normalize_host h \<noteq> []}"
  by (induction gs arbitrary: hosts) (auto simp: set_add_hosts)

lemma distinct_add_hosts: "distinct hosts \<Longrightarrow> distinct (add_hosts hosts hs)"
  by (induction hs arbitrary: hosts) (simp_all add: Let_def)

lemma distinct_gather_hosts: "distinct hosts \<Longrightarrow> distinct (gather_hosts hosts gs)"
  by (induction gs arbitrary: hosts) (simp_all add: distinct_add_hosts)

lemma set_collect_allowed_hosts: "set (collect_allowed_hosts gs) = grant_hosts gs"
  by (simp add: collect_allowed_hosts_def set_gather_hosts grant_hosts_def)

lemma egress_rules_for_cidrs:
  "r \<in> set (egress_rules_for resolve hosts) \<Longrightarrow> cidr \<in> set (er_cidrs r) \<Longrightarrow>
     \<exists>host\<in>set hosts. \<exists>ip\<in>set (resolve host). cidr = ip_block_cidr ip \<and> \<not> policy_is_disallowed ip"
  by (induction hosts) (auto simp: Let_def split: if_splits)

lemma egress_rules_for_port: "r \<in> set (egress_rules_for resolve hosts) \<Longrightarrow> er_port r = 443"
  by (induction hosts) (auto simp: Let_def secrets_egress_policy_port_def split: if_splits)

lemma egress_rules_for_Nil_iff:
  "egress_rules_for resolve hosts = [] \<longleftrightarrow>
     (\<forall>host\<in>set hosts. list_all policy_is_disallowed (resolve host))"
  by (induction hosts) (auto simp: Let_def filter_empty_conv list_all_iff)

section \<open>Properties\<close>

text \<open>The set of hosts is the union of the grants' hosts, stripped and lower-cased,
  without empty ones, in sorted order and without repetition, so equal grants always give
  the same policy object.\<close>

theorem collect_allowed_hosts_spec:
  "set (collect_allowed_hosts gs) = grant_hosts gs \<and> sorted (collect_allowed_hosts gs) \<and>
   distinct (collect_allowed_hosts gs)"
  by (simp add: set_collect_allowed_hosts)
     (simp add: collect_allowed_hosts_def distinct_gather_hosts)

text \<open>C4: The policy opens only port 443 towards allowed addresses of granted hosts. Every
  address block of every egress rule is the single-address block of an address that a
  granted host resolved to and that the deny-list does not hold.\<close>

theorem egress_policy_scoped:
  assumes "build_secrets_egress_network_policy pod ns label grants resolve = Some pol"
    and "r \<in> set (np_egress pol)" and "cidr \<in> set (er_cidrs r)"
  shows "er_port r = 443 \<and> np_match_labels pol = [(''app'', ''sandbox''), (''session-id'', label)] \<and>
    (\<exists>host ip. host \<in> grant_hosts grants \<and> ip \<in> set (resolve host) \<and> cidr = ip_block_cidr ip \<and>
       \<not> policy_is_disallowed ip)"
proof -
  have pol: "np_egress pol = egress_rules_for resolve (collect_allowed_hosts grants)"
    "np_match_labels pol = [(''app'', ''sandbox''), (''session-id'', label)]"
    using assms(1) by (auto simp: build_secrets_egress_network_policy_def Let_def split: if_splits)
  then show ?thesis
    using assms(2,3) egress_rules_for_cidrs [of r resolve _ cidr] egress_rules_for_port
    by (fastforce simp: set_collect_allowed_hosts)
qed

lemma egress_policy_scoped_witness:
  "(443::nat) = 443 \<and> [(''app'', ''sandbox''), (''session-id'', ''s1'')] =
     [(''app'', ''sandbox''), (''session-id'', ''s1'')] \<and>
   (\<exists>host ip. host \<in> grant_hosts (Some [\<lparr>gd_name = ''k'', gd_hosts = [Some ''A.b '']\<rparr>]) \<and>
      ip \<in> set ((\<lambda>_. [''10.0.0.1'', ''8.8.8.8'']) host) \<and> ''8.8.8.8/32'' = ip_block_cidr ip \<and>
      \<not> policy_is_disallowed ip)"
proof -
  let ?grants = "Some [\<lparr>gd_name = ''k'', gd_hosts = [Some ''A.b '']\<rparr>]"
  let ?rule = "\<lparr>er_cidrs = [''8.8.8.8/32''], er_protocol = ''TCP'', er_port = 443\<rparr>"
  have hosts: "collect_allowed_hosts ?grants = [''a.b'']"
    by code_simp
  have bad: "policy_is_disallowed ''10.0.0.1''" and good: "\<not> policy_is_disallowed ''8.8.8.8''"
    by (simp_all add: policy_is_disallowed_def parse_eval disallowed_class_def v4_is_private_def
        v4_private_networks_def v4_private_exceptions_def in_net_def in_cgnat_def cgnat_network_def)
  have "build_secrets_egress_network_policy ''p'' ''ns'' ''s1'' ?grants (\<lambda>_. [''10.0.0.1'', ''8.8.8.8''])
      = Some \<lparr>np_name = ''sandbox-secrets-egress-p'', np_namespace = ''ns'',
           np_labels = [(''app'', ''sandbox''), (''sandbox.boxxkite.dev/secrets-egress'', ''true'')],
           np_match_labels = [(''app'', ''sandbox''), (''session-id'', ''s1'')],
           np_policy_types = [''Egress''], np_egress = [?rule]\<rparr>"
    by (simp add: build_secrets_egress_network_policy_def hosts bad good ip_block_cidr_def
        secrets_egress_policy_name_def secrets_egress_policy_port_def)
  from egress_policy_scoped [OF this, of ?rule "''8.8.8.8/32''"] show ?thesis by simp
qed

text \<open>A policy is built exactly if some granted host resolves to an allowed address;
  otherwise the answer is the absence of a policy, never an empty one.\<close>

theorem egress_policy_exists_iff:
  "build_secrets_egress_network_policy pod ns label grants resolve \<noteq> None \<longleftrightarrow>
     (\<exists>host ip. host \<in> grant_hosts grants \<and> ip \<in> set (resolve host) \<and> \<not> policy_is_disallowed ip)"
  by (auto simp: build_secrets_egress_network_policy_def Let_def egress_rules_for_Nil_iff
      list_all_iff set_collect_allowed_hosts [symmetric])

end
