(* ===== verification/CapabilityPolicy.thy ===== *)
theory CapabilityPolicy
  imports CommandWhitelist SecretsEgress
begin

text \<open>
  \<open>src/boxxkite/capability_policy.py\<close>: one object for a session's three grants (command
  allowlist, secrets, MCP connections) and the check of its invariants. The exceptions
  the module raises are values of \<open>policy_error\<close>.
\<close>

datatype grant_kind = SecretGrant | McpConnectionGrant

datatype policy_error =
    MissingCommand
  | UnsupportedEntry
  | AmbiguousKind string grant_kind grant_kind
  | McpToken string

record cap_command_rule =
  cr_command :: string
  cr_args_allow :: "string option list"
  cr_args_deny :: "string option list"

record exec_policy =
  ep_rules :: "cap_command_rule list option"

record network_grant =
  ng_name :: string
  ng_allowed_hosts :: "string list"
  ng_kind :: grant_kind
  ng_capability_token :: "string option"

record session_policy =
  sp_account_id :: string
  sp_session_id :: string
  sp_exec :: exec_policy
  sp_network_grants :: "network_grant list"

text \<open>\<open>seen.setdefault(host, None)\<close>: the keys of the dictionary, in insertion order.\<close>

fun see_hosts :: "string list \<Rightarrow> string list \<Rightarrow> string list" where
  "see_hosts seen [] = seen"
| "see_hosts seen (h # hs) = see_hosts (if h \<in> set seen then seen else seen @ [h]) hs"

fun see_grants :: "string list \<Rightarrow> network_grant list \<Rightarrow> string list" where
  "see_grants seen [] = seen"
| "see_grants seen (g # gs) = see_grants (see_hosts seen (ng_allowed_hosts g)) gs"

definition all_allowed_hosts :: "session_policy \<Rightarrow> string list" where
  "all_allowed_hosts policy = see_grants [] (sp_network_grants policy)"

definition network_grant_by_name :: "session_policy \<Rightarrow> string \<Rightarrow> network_grant option" where
  "network_grant_by_name policy name =
     List.find (\<lambda>g. ng_name g = name) (sp_network_grants policy)"

text \<open>An entry without a string command stands for the object without that key.\<close>

fun rules_from_entries :: "allow_entry list \<Rightarrow> policy_error + cap_command_rule list" where
  "rules_from_entries [] = Inr []"
| "rules_from_entries (e # es) =
     (case e of
        OtherEntry \<Rightarrow> Inl UnsupportedEntry
      | ObjectEntry None al de \<Rightarrow> Inl MissingCommand
      | ObjectEntry (Some cmd) al de \<Rightarrow>
          (case rules_from_entries es of
             Inl err \<Rightarrow> Inl err
           | Inr rs \<Rightarrow> Inr (\<lparr>cr_command = cmd, cr_args_allow = al, cr_args_deny = de\<rparr> # rs))
      | PlainEntry s \<Rightarrow>
          (case rules_from_entries es of
             Inl err \<Rightarrow> Inl err
           | Inr rs \<Rightarrow> Inr (\<lparr>cr_command = s, cr_args_allow = [], cr_args_deny = []\<rparr> # rs)))"

definition command_rules_from_allowed_commands ::
    "allow_entry list option \<Rightarrow> policy_error + exec_policy" where
  "command_rules_from_allowed_commands allowed =
     (case allowed of
        None \<Rightarrow> Inr \<lparr>ep_rules = None\<rparr>
      | Some [] \<Rightarrow> Inr \<lparr>ep_rules = None\<rparr>
      | Some (e # es) \<Rightarrow>
          (case rules_from_entries (e # es) of
             Inl err \<Rightarrow> Inl err
           | Inr rs \<Rightarrow> Inr \<lparr>ep_rules = Some rs\<rparr>))"

definition network_grant_from_secret :: "string \<Rightarrow> string list \<Rightarrow> network_grant" where
  "network_grant_from_secret name hosts =
     \<lparr>ng_name = name, ng_allowed_hosts = hosts, ng_kind = SecretGrant, ng_capability_token = None\<rparr>"

definition network_grant_from_mcp_connection :: "string \<Rightarrow> string \<Rightarrow> network_grant" where
  "network_grant_from_mcp_connection name host =
     \<lparr>ng_name = name, ng_allowed_hosts = [host], ng_kind = McpConnectionGrant,
      ng_capability_token = None\<rparr>"

fun check_grants ::
    "(string, grant_kind) dict \<Rightarrow> network_grant list \<Rightarrow> policy_error option" where
  "check_grants kinds [] = None"
| "check_grants kinds (g # gs) =
     (case dict_get kinds (ng_name g) of
        Some k \<Rightarrow>
          (if k \<noteq> ng_kind g then Some (AmbiguousKind (ng_name g) k (ng_kind g))
           else if ng_kind g = McpConnectionGrant \<and> ng_capability_token g \<noteq> None
           then Some (McpToken (ng_name g))
           else check_grants (dict_put (ng_name g) (ng_kind g) kinds) gs)
      | None \<Rightarrow>
          (if ng_kind g = McpConnectionGrant \<and> ng_capability_token g \<noteq> None
           then Some (McpToken (ng_name g))
           else check_grants (dict_put (ng_name g) (ng_kind g) kinds) gs))"

definition assert_policy_invariants :: "session_policy \<Rightarrow> policy_error option" where
  "assert_policy_invariants policy = check_grants [] (sp_network_grants policy)"

text \<open>The grant lists as the resolvers of \<open>usage_policy.py\<close> return them.\<close>

type_synonym named_hosts = "string \<times> string list"

definition session_secret_grant :: "string option \<Rightarrow> named_hosts \<Rightarrow> network_grant" where
  "session_secret_grant token g =
     \<lparr>ng_name = fst g, ng_allowed_hosts = snd g, ng_kind = SecretGrant, ng_capability_token = token\<rparr>"

definition session_mcp_grant :: "named_hosts \<Rightarrow> network_grant" where
  "session_mcp_grant g =
     \<lparr>ng_name = fst g, ng_allowed_hosts = snd g, ng_kind = McpConnectionGrant,
      ng_capability_token = None\<rparr>"

definition build_session_capability_policy ::
    "string \<Rightarrow> string \<Rightarrow> allow_entry list option \<Rightarrow> named_hosts list option \<Rightarrow>
     named_hosts list option \<Rightarrow> string option \<Rightarrow> policy_error + session_policy" where
  "build_session_capability_policy account session allowed secrets mcps token =
     (case command_rules_from_allowed_commands allowed of
        Inl err \<Rightarrow> Inl err
      | Inr ep \<Rightarrow> Inr
          \<lparr>sp_account_id = account, sp_session_id = session, sp_exec = ep,
           sp_network_grants =
             map (session_secret_grant token) (case secrets of None \<Rightarrow> [] | Some gs \<Rightarrow> gs)
             @ map session_mcp_grant (case mcps of None \<Rightarrow> [] | Some gs \<Rightarrow> gs)\<rparr>)"

section \<open>Lemmas\<close>

lemma set_see_hosts: "set (see_hosts seen hs) = set seen \<union> set hs"
  by (induction hs arbitrary: seen) auto

lemma set_see_grants:
  "set (see_grants seen gs) = set seen \<union> (\<Union>g\<in>set gs. set (ng_allowed_hosts g))"
  by (induction gs arbitrary: seen) (auto simp: set_see_hosts)

lemma distinct_see_hosts: "distinct seen \<Longrightarrow> distinct (see_hosts seen hs)"
  by (induction hs arbitrary: seen) auto

lemma distinct_see_grants: "distinct seen \<Longrightarrow> distinct (see_grants seen gs)"
  by (induction gs arbitrary: seen) (auto simp: distinct_see_hosts)

text \<open>The two invariants the check enforces, as statements on the set of grants.\<close>

definition kinds_unambiguous :: "network_grant list \<Rightarrow> bool" where
  "kinds_unambiguous gs =
     (\<forall>g\<in>set gs. \<forall>h\<in>set gs. ng_name g = ng_name h \<longrightarrow> ng_kind g = ng_kind h)"

definition mcp_without_token :: "network_grant list \<Rightarrow> bool" where
  "mcp_without_token gs =
     (\<forall>g\<in>set gs. ng_kind g = McpConnectionGrant \<longrightarrow> ng_capability_token g = None)"

lemma kinds_unambiguous_Cons:
  "kinds_unambiguous (g # gs) \<longleftrightarrow> kinds_unambiguous gs \<and>
     list_all (\<lambda>h. ng_name h = ng_name g \<longrightarrow> ng_kind h = ng_kind g) gs"
  by (auto simp: kinds_unambiguous_def list_all_iff)

lemma mcp_without_token_Cons:
  "mcp_without_token (g # gs) \<longleftrightarrow> mcp_without_token gs \<and>
     (ng_kind g = McpConnectionGrant \<longrightarrow> ng_capability_token g = None)"
  by (auto simp: mcp_without_token_def)

definition kinds_agree :: "(string, grant_kind) dict \<Rightarrow> network_grant list \<Rightarrow> bool" where
  "kinds_agree kinds gs =
     list_all (\<lambda>g. case dict_get kinds (ng_name g) of None \<Rightarrow> True | Some k \<Rightarrow> k = ng_kind g) gs"

lemma kinds_agree_put:
  assumes "dict_get kinds (ng_name g) = None \<or> dict_get kinds (ng_name g) = Some (ng_kind g)"
  shows "kinds_agree (dict_put (ng_name g) (ng_kind g) kinds) gs \<longleftrightarrow>
    kinds_agree kinds gs \<and> list_all (\<lambda>h. ng_name h = ng_name g \<longrightarrow> ng_kind h = ng_kind g) gs"
  using assms by (induction gs) (auto simp: kinds_agree_def dict_simps split: option.splits)

lemma check_grants_None_iff:
  "check_grants kinds gs = None \<longleftrightarrow>
     kinds_unambiguous gs \<and> mcp_without_token gs \<and> kinds_agree kinds gs"
proof (induction gs arbitrary: kinds)
  case Nil
  then show ?case by (simp add: kinds_unambiguous_def mcp_without_token_def kinds_agree_def)
next
  case (Cons g gs)
  have agree: "kinds_agree kinds (g # gs) \<longleftrightarrow> (dict_get kinds (ng_name g) = None \<or>
      dict_get kinds (ng_name g) = Some (ng_kind g)) \<and> kinds_agree kinds gs"
    by (auto simp: kinds_agree_def split: option.splits)
  show ?case
    by (auto simp: Cons.IH agree kinds_agree_put kinds_unambiguous_Cons mcp_without_token_Cons
        split: option.splits)
qed

lemma kinds_unambiguous_built:
  "kinds_unambiguous (map (session_secret_grant token) secrets @ map session_mcp_grant mcps) \<longleftrightarrow>
     fst ` set secrets \<inter> fst ` set mcps = {}"
proof -
  let ?S = "session_secret_grant token" and ?M = session_mcp_grant
  have S: "ng_name (?S s) = fst s" "ng_kind (?S s) = SecretGrant"
    and M: "ng_name (?M s) = fst s" "ng_kind (?M s) = McpConnectionGrant" for s
    by (simp_all add: session_secret_grant_def session_mcp_grant_def)
  show ?thesis
  proof
    assume unamb: "kinds_unambiguous (map ?S secrets @ map ?M mcps)"
    have "fst s \<noteq> fst m" if "s \<in> set secrets" "m \<in> set mcps" for s m
    proof
      assume "fst s = fst m"
      moreover have "?S s \<in> set (map ?S secrets @ map ?M mcps)"
        "?M m \<in> set (map ?S secrets @ map ?M mcps)" using that by auto
      ultimately have "ng_kind (?S s) = ng_kind (?M m)"
        using unamb S(1) M(1) unfolding kinds_unambiguous_def by metis
      then show False by (simp add: S M)
    qed
    then show "fst ` set secrets \<inter> fst ` set mcps = {}" by fastforce
  next
    assume dis: "fst ` set secrets \<inter> fst ` set mcps = {}"
    have diff: "fst s \<noteq> fst m" if "s \<in> set secrets" "m \<in> set mcps" for s m
      using dis that by blast
    have "ng_kind g = ng_kind h"
      if "g \<in> ?S ` set secrets \<union> ?M ` set mcps" "h \<in> ?S ` set secrets \<union> ?M ` set mcps"
        "ng_name g = ng_name h" for g h
      using that by (elim UnE imageE) (auto simp: S M dest: diff diff [symmetric])
    then show "kinds_unambiguous (map ?S secrets @ map ?M mcps)"
      unfolding kinds_unambiguous_def set_append set_map by blast
  qed
qed

section \<open>Properties\<close>

text \<open>The invariant check accepts exactly the policies in which no grant name appears
  under two kinds and no MCP-connection grant carries a capability token.\<close>

theorem assert_policy_invariants_iff:
  "assert_policy_invariants policy = None \<longleftrightarrow>
     kinds_unambiguous (sp_network_grants policy) \<and> mcp_without_token (sp_network_grants policy)"
  by (simp add: assert_policy_invariants_def check_grants_None_iff kinds_agree_def list_all_iff)

text \<open>An assembled policy never fails on a token; it passes the check exactly if no name
  is granted both as a secret and as an MCP connection.\<close>

theorem built_policy_valid_iff:
  assumes "build_session_capability_policy account session allowed (Some secrets) (Some mcps) token
     = Inr policy"
  shows "assert_policy_invariants policy = None \<longleftrightarrow> fst ` set secrets \<inter> fst ` set mcps = {}"
proof -
  have "sp_network_grants policy =
      map (session_secret_grant token) secrets @ map session_mcp_grant mcps"
    using assms by (auto simp: build_session_capability_policy_def split: sum.splits)
  moreover have "mcp_without_token (map (session_secret_grant token) secrets @ map session_mcp_grant mcps)"
    by (auto simp: mcp_without_token_def session_secret_grant_def session_mcp_grant_def)
  ultimately show ?thesis
    by (simp add: assert_policy_invariants_def check_grants_None_iff kinds_unambiguous_built
        kinds_agree_def list_all_iff)
qed

lemma built_policy_valid_iff_witness:
  "assert_policy_invariants
     \<lparr>sp_account_id = ''a'', sp_session_id = ''s'', sp_exec = \<lparr>ep_rules = None\<rparr>,
      sp_network_grants = [network_grant_from_secret ''k'' [''h''],
                           network_grant_from_mcp_connection ''m'' ''h'']\<rparr> = None \<longleftrightarrow>
   fst ` set [(''k'', [''h''])] \<inter> fst ` set [(''m'', [''h''])] = {}"
  by (rule built_policy_valid_iff [where account = "''a''" and session = "''s''" and allowed = None
        and token = None])
     (simp add: build_session_capability_policy_def command_rules_from_allowed_commands_def
       session_secret_grant_def session_mcp_grant_def
       network_grant_from_secret_def network_grant_from_mcp_connection_def)

text \<open>The host union of a policy lists each host once and holds exactly the hosts of its
  grants; it is the set the network policy is built from whenever the hosts are already
  stripped, lower-case and non-empty.\<close>

theorem all_allowed_hosts_spec:
  "distinct (all_allowed_hosts policy) \<and>
   set (all_allowed_hosts policy) = (\<Union>g\<in>set (sp_network_grants policy). set (ng_allowed_hosts g)) \<and>
   normalize_host ` Some ` set (all_allowed_hosts policy) - {[]} =
     set (collect_allowed_hosts (Some (map (\<lambda>g. \<lparr>gd_name = ng_name g,
        gd_hosts = map Some (ng_allowed_hosts g)\<rparr>) (sp_network_grants policy))))"
proof (intro conjI)
  let ?gs = "sp_network_grants policy"
  show set: "set (all_allowed_hosts policy) = (\<Union>g\<in>set ?gs. set (ng_allowed_hosts g))"
    by (simp add: all_allowed_hosts_def set_see_grants)
  show "distinct (all_allowed_hosts policy)"
    by (simp add: all_allowed_hosts_def distinct_see_grants)
  have "grant_hosts (Some (map (\<lambda>g. \<lparr>gd_name = ng_name g, gd_hosts = map Some (ng_allowed_hosts g)\<rparr>) ?gs))
      = {normalize_host (Some h) | h. h \<in> (\<Union>g\<in>set ?gs. set (ng_allowed_hosts g)) \<and>
           normalize_host (Some h) \<noteq> []}"
    unfolding grant_hosts_def by fastforce
  then show "normalize_host ` Some ` set (all_allowed_hosts policy) - {[]} =
      set (collect_allowed_hosts (Some (map (\<lambda>g. \<lparr>gd_name = ng_name g,
        gd_hosts = map Some (ng_allowed_hosts g)\<rparr>) ?gs)))"
    unfolding set_collect_allowed_hosts set by auto
qed

end
