(* ===== verification/PoolSizing.thy ===== *)
theory PoolSizing
  imports Prelude Complex_Main
begin

text \<open>
  \<open>src/boxxkite/warm_pool_sizing.py\<close> (demand tracking and the adaptive pool target) and
  \<open>src/boxxkite/pod_claim_policy.py\<close> (the age limit for claims). The environment is a
  function from variable names to values; Python floats are real numbers, so rounding is
  not modelled.
\<close>

section \<open>Configuration from the environment\<close>

type_synonym environ = "string \<Rightarrow> string option"

text \<open>\<open>int(s)\<close> on a string: surrounding white space, a sign, decimal digits with single
  underscores between them; \<^const>\<open>None\<close> is \<open>ValueError\<close>.\<close>

fun digits_int :: "bool \<Rightarrow> int \<Rightarrow> string \<Rightarrow> int option" where
  "digits_int after_digit acc [] = (if after_digit then Some acc else None)"
| "digits_int after_digit acc (c # s) =
     (if is_ascii_digit c then digits_int True (10 * acc + (of_char c - 48)) s
      else if c = CHR ''_'' \<and> after_digit then digits_int False acc s
      else None)"

definition py_int :: "string \<Rightarrow> int option" where
  "py_int s =
     (case py_strip s of
        [] \<Rightarrow> None
      | c # r \<Rightarrow>
          (if c = CHR ''-'' then map_option uminus (digits_int False 0 r)
           else if c = CHR ''+'' then digits_int False 0 r
           else digits_int False 0 (c # r)))"

definition env_flag :: "environ \<Rightarrow> string \<Rightarrow> string \<Rightarrow> bool" where
  "env_flag env name dflt =
     (py_lower (py_strip (case env name of None \<Rightarrow> dflt | Some v \<Rightarrow> v))
        \<in> {''1'', ''true'', ''yes'', ''on''})"

definition env_int :: "environ \<Rightarrow> string \<Rightarrow> string \<Rightarrow> int option" where
  "env_int env name dflt =
     (case env name of
        None \<Rightarrow> py_int dflt
      | Some v \<Rightarrow> (if py_strip v = [] then py_int dflt else py_int (py_strip v)))"

definition adaptive_warm_pool_enabled :: "environ \<Rightarrow> bool" where
  "adaptive_warm_pool_enabled env = env_flag env ''BOXXKITE_ADAPTIVE_WARM_POOL_ENABLED'' ''false''"

definition adaptive_warm_pool_window_seconds :: "environ \<Rightarrow> int option" where
  "adaptive_warm_pool_window_seconds env =
     env_int env ''BOXXKITE_ADAPTIVE_WARM_POOL_WINDOW_SECONDS'' ''300''"

definition adaptive_warm_pool_coverage_seconds :: "environ \<Rightarrow> int option" where
  "adaptive_warm_pool_coverage_seconds env =
     env_int env ''BOXXKITE_ADAPTIVE_WARM_POOL_COVERAGE_SECONDS'' ''60''"

section \<open>The claim-rate tracker\<close>

text \<open>The window \<open>w\<close> of the operations is the value of \<open>_window_seconds()\<close> at the call.\<close>

record claim_rate_tracker =
  fixed_window_seconds :: "int option"
  claim_times :: "(string, real list) dict"
  cold_times :: "(string, real list) dict"

definition new_tracker :: "int option \<Rightarrow> claim_rate_tracker" where
  "new_tracker w = \<lparr>fixed_window_seconds = w, claim_times = [], cold_times = []\<rparr>"

definition window_seconds :: "environ \<Rightarrow> claim_rate_tracker \<Rightarrow> int option" where
  "window_seconds env tr =
     (case fixed_window_seconds tr of
        Some w \<Rightarrow> Some w
      | None \<Rightarrow> adaptive_warm_pool_window_seconds env)"

definition prune_bucket :: "int \<Rightarrow> real \<Rightarrow> real list \<Rightarrow> real list" where
  "prune_bucket w now bucket = dropWhile (\<lambda>t. t < now - of_int w) bucket"

definition bucket_of :: "(string, real list) dict \<Rightarrow> string \<Rightarrow> real list" where
  "bucket_of d sz = (case dict_get d sz of None \<Rightarrow> [] | Some b \<Rightarrow> b)"

definition prune :: "int \<Rightarrow> string \<Rightarrow> real \<Rightarrow> claim_rate_tracker \<Rightarrow> claim_rate_tracker" where
  "prune w sz now tr =
     (if bucket_of (claim_times tr) sz = [] then tr
      else tr\<lparr>claim_times :=
             dict_put sz (prune_bucket w now (bucket_of (claim_times tr) sz)) (claim_times tr)\<rparr>)"

definition record_claim :: "int \<Rightarrow> string \<Rightarrow> real \<Rightarrow> claim_rate_tracker \<Rightarrow> claim_rate_tracker" where
  "record_claim w sz now tr =
     prune w sz now
       (tr\<lparr>claim_times := dict_put sz (bucket_of (claim_times tr) sz @ [now]) (claim_times tr)\<rparr>)"

definition claim_rate_per_second ::
    "int \<Rightarrow> string \<Rightarrow> real \<Rightarrow> claim_rate_tracker \<Rightarrow> real \<times> claim_rate_tracker" where
  "claim_rate_per_second w sz now tr =
     (let tr' = prune w sz now tr; bucket = bucket_of (claim_times tr') sz in
      (if bucket = [] then 0 else if w \<le> 0 then 0
       else of_nat (length bucket) / of_int w, tr'))"

definition record_cold_fallthrough ::
    "int \<Rightarrow> string \<Rightarrow> real \<Rightarrow> claim_rate_tracker \<Rightarrow> claim_rate_tracker" where
  "record_cold_fallthrough w sz now tr =
     tr\<lparr>cold_times :=
       dict_put sz (prune_bucket w now (bucket_of (cold_times tr) sz @ [now])) (cold_times tr)\<rparr>"

definition cold_fallthrough_count ::
    "int \<Rightarrow> string \<Rightarrow> real \<Rightarrow> claim_rate_tracker \<Rightarrow> nat \<times> claim_rate_tracker" where
  "cold_fallthrough_count w sz now tr =
     (let bucket = bucket_of (cold_times tr) sz in
      if bucket = [] then (0, tr)
      else let b = prune_bucket w now bucket in
        (length b, tr\<lparr>cold_times := dict_put sz b (cold_times tr)\<rparr>))"

definition claim_count ::
    "int \<Rightarrow> string \<Rightarrow> real \<Rightarrow> claim_rate_tracker \<Rightarrow> nat \<times> claim_rate_tracker" where
  "claim_count w sz now tr =
     (let bucket = bucket_of (claim_times tr) sz in
      if bucket = [] then (0, tr)
      else let b = prune_bucket w now bucket in
        (length b, tr\<lparr>claim_times := dict_put sz b (claim_times tr)\<rparr>))"

section \<open>Targets\<close>

definition compute_adaptive_target :: "real \<Rightarrow> int \<Rightarrow> int \<Rightarrow> int \<Rightarrow> int" where
  "compute_adaptive_target rate floor_target ceiling_target coverage =
     (let raw_target = \<lceil>rate * of_int coverage\<rceil> in
      max floor_target (min ceiling_target raw_target))"

text \<open>The window is read only for a size with recorded claims; \<^const>\<open>None\<close> is the
  \<open>ValueError\<close> of a malformed environment variable.\<close>

definition observed_rate ::
    "int option \<Rightarrow> string \<Rightarrow> real \<Rightarrow> claim_rate_tracker \<Rightarrow> (real \<times> claim_rate_tracker) option" where
  "observed_rate wo sz now tr =
     (if bucket_of (claim_times tr) sz = [] then Some (0, tr)
      else case wo of None \<Rightarrow> None | Some w \<Rightarrow> Some (claim_rate_per_second w sz now tr))"

fun adaptive_targets ::
    "int option \<Rightarrow> int \<Rightarrow> real \<Rightarrow> int \<Rightarrow> (string, int) dict \<Rightarrow> claim_rate_tracker \<Rightarrow>
     ((string, int) dict \<times> claim_rate_tracker) option" where
  "adaptive_targets wo coverage now ceiling_target [] tr = Some ([], tr)"
| "adaptive_targets wo coverage now ceiling_target ((sz, floor_target) # rest) tr =
     (case observed_rate wo sz now tr of
        None \<Rightarrow> None
      | Some (rate, tr1) \<Rightarrow>
          (case adaptive_targets wo coverage now ceiling_target rest tr1 of
             None \<Rightarrow> None
           | Some (ts, tr2) \<Rightarrow>
               Some ((sz, compute_adaptive_target rate floor_target ceiling_target coverage) # ts, tr2)))"

definition resolve_warm_pool_size_targets ::
    "environ \<Rightarrow> (string, int) dict \<Rightarrow> int \<Rightarrow> real \<Rightarrow> claim_rate_tracker \<Rightarrow>
     ((string, int) dict \<times> claim_rate_tracker) option" where
  "resolve_warm_pool_size_targets env static ceiling_target now tr =
     (if \<not> adaptive_warm_pool_enabled env then Some (static, tr)
      else case adaptive_warm_pool_coverage_seconds env of
        None \<Rightarrow> None
      | Some coverage \<Rightarrow>
          adaptive_targets (window_seconds env tr) coverage now ceiling_target static tr)"

section \<open>Claimable age\<close>

definition compute_max_claimable_age_seconds :: "int \<Rightarrow> int \<Rightarrow> int \<Rightarrow> int" where
  "compute_max_claimable_age_seconds active_deadline claim_age_buffer min_remaining_lifetime =
     (let claim_buffer = max 0 claim_age_buffer;
          min_remaining = max 1 min_remaining_lifetime;
          deadline = max 1 active_deadline;
          max_buffer_without_zero_window = max 0 (deadline - min_remaining);
          effective_buffer = min claim_buffer max_buffer_without_zero_window
      in max 1 (deadline - effective_buffer))"

text \<open>A creation timestamp: absent, a point in time (a naive one is taken as UTC), a
  string to parse, or another object. \<open>fromisoformat\<close> is a parameter.\<close>

datatype timestamp = NoTimestamp | DateTime real | IsoString string | OtherObject

fun replace_char :: "char \<Rightarrow> string \<Rightarrow> string \<Rightarrow> string" where
  "replace_char c r [] = []"
| "replace_char c r (d # s) = (if d = c then r else [d]) @ replace_char c r s"

fun pod_age_seconds :: "(string \<Rightarrow> real option) \<Rightarrow> real \<Rightarrow> timestamp \<Rightarrow> real option" where
  "pod_age_seconds fromiso now NoTimestamp = None"
| "pod_age_seconds fromiso now (DateTime t) = Some (max 0 (now - t))"
| "pod_age_seconds fromiso now (IsoString s) =
     (case fromiso (replace_char (CHR ''Z'') ''+00:00'' s) of
        None \<Rightarrow> None
      | Some t \<Rightarrow> Some (max 0 (now - t)))"
| "pod_age_seconds fromiso now OtherObject = None"

section \<open>Lemmas\<close>

lemma prune_bucket_sorted:
  "sorted b \<Longrightarrow> prune_bucket w now b = filter (\<lambda>t. now - of_int w \<le> t) b"
  by (induction b) (auto simp: prune_bucket_def not_less filter_id_conv order_trans)

lemma bucket_of_put: "bucket_of (dict_put s b d) s' = (if s' = s then b else bucket_of d s')"
  by (simp add: bucket_of_def dict_simps)

lemma record_claim_bucket:
  "bucket_of (claim_times (record_claim w sz now tr)) s =
     (if s = sz then prune_bucket w now (bucket_of (claim_times tr) sz @ [now])
      else bucket_of (claim_times tr) s)"
  by (simp add: record_claim_def prune_def bucket_of_put Let_def)

text \<open>A history of claims, recorded in order of time.\<close>

definition record_claims :: "int \<Rightarrow> (string \<times> real) list \<Rightarrow> claim_rate_tracker \<Rightarrow> claim_rate_tracker" where
  "record_claims w events tr = foldl (\<lambda>t (s, now). record_claim w s now t) tr events"

definition times_of :: "string \<Rightarrow> (string \<times> real) list \<Rightarrow> real list" where
  "times_of sz events = map snd (filter (\<lambda>e. fst e = sz) events)"

lemma record_claims_bucket:
  "bucket_of (claim_times (record_claims w events (new_tracker f))) sz =
     foldl (\<lambda>b t. prune_bucket w t (b @ [t])) [] (times_of sz events)"
proof (induction events rule: rev_induct)
  case Nil
  then show ?case by (simp add: record_claims_def times_of_def bucket_of_def new_tracker_def)
next
  case (snoc e es)
  then show ?case by (cases e) (auto simp: record_claims_def times_of_def record_claim_bucket)
qed

lemma pruned_bucket_sorted:
  assumes "sorted ts"
  shows "sorted (foldl (\<lambda>b t. prune_bucket w t (b @ [t])) [] ts) \<and>
    set (foldl (\<lambda>b t. prune_bucket w t (b @ [t])) [] ts) \<subseteq> set ts"
  using assms
proof (induction ts rule: rev_induct)
  case (snoc t ts)
  let ?b = "foldl (\<lambda>b t. prune_bucket w t (b @ [t])) [] ts"
  have "sorted (?b @ [t])" using snoc by (force simp: sorted_append)
  then show ?case
    using snoc by (auto simp: prune_bucket_sorted sorted_append sorted_wrt_filter)
qed simp

lemma pruned_bucket_window:
  assumes "sorted ts" and "0 \<le> w" and "list_all (\<lambda>t. t \<le> now) ts"
  shows "filter (\<lambda>t. now - of_int w \<le> t) (foldl (\<lambda>b t. prune_bucket w t (b @ [t])) [] ts)
    = filter (\<lambda>t. now - of_int w \<le> t) ts"
  using assms
proof (induction ts rule: rev_induct)
  case (snoc t ts)
  let ?b = "foldl (\<lambda>b t. prune_bucket w t (b @ [t])) [] ts"
  have b: "sorted (?b @ [t])"
    using snoc.prems pruned_bucket_sorted [of ts w] by (force simp: sorted_append)
  have "t \<le> now" using snoc.prems by simp
  then have "filter (\<lambda>u. now - of_int w \<le> u) (prune_bucket w t (?b @ [t]))
      = filter (\<lambda>u. now - of_int w \<le> u) (?b @ [t])"
    unfolding prune_bucket_sorted [OF b] filter_filter by (intro filter_cong) auto
  then show ?case using snoc by (simp add: sorted_append)
qed simp

lemma target_range:
  "floor_target \<le> compute_adaptive_target rate floor_target ceiling_target coverage"
  "compute_adaptive_target rate floor_target ceiling_target coverage \<le> max floor_target ceiling_target"
  by (auto simp: compute_adaptive_target_def Let_def)

lemma adaptive_targets_range:
  "adaptive_targets wo coverage now ceiling_target static tr = Some (ts, tr') \<Longrightarrow>
     map fst ts = map fst static \<and>
     list_all2 (\<lambda>t fl. fl \<le> t \<and> t \<le> max fl ceiling_target) (map snd ts) (map snd static)"
proof (induction static arbitrary: tr ts)
  case (Cons e static)
  obtain s fl where e: "e = (s, fl)" by (cases e)
  obtain rate tr1 ts' where rest: "adaptive_targets wo coverage now ceiling_target static tr1 = Some (ts', tr')"
    and ts: "ts = (s, compute_adaptive_target rate fl ceiling_target coverage) # ts'"
    using Cons.prems by (auto simp: e split: option.splits prod.splits)
  show ?case using Cons.IH [OF rest] by (simp add: ts e target_range)
qed simp

section \<open>Properties\<close>

text \<open>The tracker counts exactly the claims of the window. After a history of claims
  recorded in order of time, the count for a size at a time not before the last of them is
  the number of that size's claims that are at most one window old, although the tracker
  has thrown away what fell out of the window at each earlier claim.\<close>

theorem claim_count_exact:
  assumes "sorted (map snd events)" and "list_all (\<lambda>e. snd e \<le> now) events" and "0 \<le> w"
  shows "fst (claim_count w sz now (record_claims w events (new_tracker f))) =
    length (filter (\<lambda>t. now - of_int w \<le> t) (times_of sz events))"
proof -
  let ?ts = "times_of sz events"
  let ?b = "foldl (\<lambda>b t. prune_bucket w t (b @ [t])) [] ?ts"
  have ts: "sorted ?ts" "list_all (\<lambda>t. t \<le> now) ?ts"
    using assms(1,2) by (auto simp: times_of_def sorted_filter list_all_iff)
  have "filter (\<lambda>t. now - of_int w \<le> t) ?b = filter (\<lambda>t. now - of_int w \<le> t) ?ts"
    using ts assms(3) by (intro pruned_bucket_window)
  moreover have "prune_bucket w now ?b = filter (\<lambda>t. now - of_int w \<le> t) ?b"
    using pruned_bucket_sorted [OF ts(1)] prune_bucket_sorted by blast
  ultimately show ?thesis
    by (auto simp: claim_count_def record_claims_bucket Let_def)
qed

lemma claim_count_exact_witness:
  "fst (claim_count 10 ''small'' 12
     (record_claims 10 [(''small'', 1), (''large'', 2), (''small'', 5), (''small'', 12)] (new_tracker None))) = 2"
  using claim_count_exact [of "[(''small'', 1), (''large'', 2), (''small'', 5), (''small'', 12)]" 12 10
      "''small''" None]
  by (simp add: times_of_def)

text \<open>The adaptive target stays between the operator's floor and the pool ceiling and
  grows with the observed rate; when the floor lies above the ceiling the floor wins.\<close>

theorem adaptive_target_bounds:
  "floor_target \<le> compute_adaptive_target rate floor_target ceiling_target coverage \<and>
   compute_adaptive_target rate floor_target ceiling_target coverage \<le> max floor_target ceiling_target \<and>
   (0 \<le> coverage \<and> rate \<le> rate' \<longrightarrow>
      compute_adaptive_target rate floor_target ceiling_target coverage
        \<le> compute_adaptive_target rate' floor_target ceiling_target coverage) \<and>
   (ceiling_target < floor_target \<longrightarrow>
      compute_adaptive_target rate floor_target ceiling_target coverage = floor_target)"
proof -
  have "\<lceil>rate * of_int coverage\<rceil> \<le> \<lceil>rate' * of_int coverage\<rceil>" if "0 \<le> coverage" "rate \<le> rate'"
    using that by (intro ceiling_mono mult_right_mono) simp_all
  then show ?thesis by (auto simp: compute_adaptive_target_def Let_def)
qed

lemma adaptive_target_bounds_witness:
  "compute_adaptive_target (1 / 2) 9 3 60 = 9 \<and>
   compute_adaptive_target (1 / 10) 1 15 60 \<le> compute_adaptive_target (1 / 5) 1 15 60"
  using adaptive_target_bounds [of 9 "1 / 2" 3 60 1] adaptive_target_bounds [of 1 "1 / 10" 15 60 "1 / 5"]
  by simp

text \<open>With the adaptive sizer off the targets are the operator's; with it on they keep
  the same sizes in the same order, each between its floor and the larger of its floor and
  the pool ceiling.\<close>

theorem resolved_targets_range:
  assumes "resolve_warm_pool_size_targets env static ceiling_target now tr = Some (ts, tr')"
  shows "map fst ts = map fst static \<and>
    list_all2 (\<lambda>t fl. fl \<le> t \<and> t \<le> max fl ceiling_target) (map snd ts) (map snd static) \<and>
    (adaptive_warm_pool_enabled env \<or> ts = static)"
proof (cases "adaptive_warm_pool_enabled env")
  case True
  then obtain wo coverage where
    "adaptive_targets wo coverage now ceiling_target static tr = Some (ts, tr')"
    using assms by (auto simp: resolve_warm_pool_size_targets_def split: option.splits)
  then show ?thesis using True adaptive_targets_range by blast
next
  case False
  then show ?thesis
    using assms by (auto simp: resolve_warm_pool_size_targets_def list.rel_refl)
qed

lemma resolved_targets_range_witness:
  "map fst [(''small'', 6::int), (''large'', 0)] = map fst [(''small'', 3::int), (''large'', 0)] \<and>
   list_all2 (\<lambda>t fl. fl \<le> t \<and> t \<le> max fl 15) (map snd [(''small'', 6::int), (''large'', 0)])
     (map snd [(''small'', 3::int), (''large'', 0)]) \<and>
   (adaptive_warm_pool_enabled (\<lambda>n. Some ''10'') \<or> adaptive_warm_pool_enabled (\<lambda>n. Some ''1''))"
proof -
  let ?env = "\<lambda>n. Some ''1''"
  let ?tr = "\<lparr>fixed_window_seconds = Some 1, claim_times = [(''small'', [5, 6, 7, 8, 9, 10])],
      cold_times = []\<rparr>"
  let ?tr' = "\<lparr>fixed_window_seconds = Some 1, claim_times = [(''small'', [5, 6, 7, 8, 9, 10])],
      cold_times = []\<rparr>"
  have on: "adaptive_warm_pool_enabled ?env" and cov: "adaptive_warm_pool_coverage_seconds ?env = Some 1"
    by code_simp+
  have "resolve_warm_pool_size_targets ?env [(''small'', 3), (''large'', 0)] 15 6 ?tr
      = Some ([(''small'', 6), (''large'', 0)], ?tr')"
    by (simp add: resolve_warm_pool_size_targets_def on cov window_seconds_def observed_rate_def
        bucket_of_def claim_rate_per_second_def prune_def prune_bucket_def compute_adaptive_target_def
        Let_def dict_simps)
  from resolved_targets_range [OF this] show ?thesis using on by simp
qed

text \<open>The claimable age. The limit is at least one second and at most the deadline; a pod
  claimed at the limit has left exactly the buffer, cut to the deadline less the required
  lifetime. The required minimum lifetime is therefore guaranteed exactly if the buffer is
  at least that minimum and the deadline at least twice the minimum; with a smaller buffer
  it is not.\<close>

theorem max_claimable_age:
  "let deadline = max 1 active_deadline; m = max 1 min_lifetime;
       age = compute_max_claimable_age_seconds active_deadline buffer min_lifetime
   in 1 \<le> age \<and> age \<le> deadline \<and>
      deadline - age = min (max 0 buffer) (max 0 (deadline - m)) \<and>
      (m \<le> deadline - age \<longleftrightarrow> m \<le> buffer \<and> 2 * m \<le> deadline)"
  unfolding compute_max_claimable_age_seconds_def Let_def by linarith

end
