(* ===== verification/WarmPool.thy ===== *)
theory WarmPool
  imports PoolSizing
begin

text \<open>
  \<open>src/boxxkite/warm_pool.py\<close>: claiming, recycling, scanning, replenishing and reaping the
  pool of pre-started sandbox pods, with the in-memory index of the fast-claim path. The
  Kubernetes API and the sidecars' HTTP endpoints are parameters: functions from the log
  of the calls made so far (and the call's arguments) to the response, so that each answer
  may depend on everything that happened before. Every call the manager makes is logged.
\<close>

section \<open>Pods, calls and the environment\<close>

record kpod =
  kp_name :: string
  kp_labels :: "(string, string) dict"
  kp_phase :: string
  kp_ip :: "string option"
  kp_containers :: "bool list"
  kp_created :: timestamp
  kp_version :: "string option"

datatype kube_call =
    ListPods string
  | Health string
  | Claim string string
  | Annotate string
  | ReadSecret string
  | Wipe string
  | Relabel string
  | DeletePod string
  | DeleteSecret string
  | IdleQuery string
  | Flush string
  | CreatePod string

type_synonym call_log = "kube_call list"

text \<open>A claim patch is applied, refused by the API with a status, or fails otherwise.\<close>

datatype patch_result = Patched | ApiError int | OtherError

record kube_env =
  ke_list :: "call_log \<Rightarrow> string \<Rightarrow> kpod list option"
  ke_health :: "call_log \<Rightarrow> string \<Rightarrow> bool"
  ke_claim :: "call_log \<Rightarrow> string \<Rightarrow> string \<Rightarrow> patch_result"
  ke_secret :: "call_log \<Rightarrow> string \<Rightarrow> string \<times> string"
  ke_wipe :: "call_log \<Rightarrow> string \<Rightarrow> bool"
  ke_relabel :: "call_log \<Rightarrow> string \<Rightarrow> bool"
  ke_idle :: "call_log \<Rightarrow> string \<Rightarrow> real option"
  ke_flush :: "call_log \<Rightarrow> string \<Rightarrow> bool"
  ke_age :: "call_log \<Rightarrow> timestamp \<Rightarrow> real option"

record pool_config =
  pc_initialised :: bool
  pc_deadline :: int
  pc_age_buffer :: int
  pc_min_remaining :: int
  pc_pool_max :: int
  pc_targets :: "(string, int) dict"
  pc_recycle :: bool
  pc_idle_timeout :: real
  pc_delete_on_flush_failure :: bool
  pc_fast_claim :: bool

record ready_pod =
  rp_name :: string
  rp_ip :: string
  rp_version :: string
  rp_size :: string
  rp_token :: string
  rp_cert :: string

type_synonym ready_index = "(string, ready_pod list) dict"
type_synonym candidate = "string \<times> string \<times> string \<times> string"

definition default_sandbox_size :: string where
  "default_sandbox_size = ''small''"

definition status_label :: string where
  "status_label = ''sandbox.boxxkite.dev/status''"

definition size_label :: string where
  "size_label = ''sandbox.boxxkite.dev/size''"

definition pod_size :: "kpod \<Rightarrow> string" where
  "pod_size pod =
     (case dict_get (kp_labels pod) size_label of
        None \<Rightarrow> default_sandbox_size
      | Some s \<Rightarrow> (if s = [] then default_sandbox_size else s))"

definition containers_ready :: "kpod \<Rightarrow> bool" where
  "containers_ready pod = (kp_containers pod \<noteq> [] \<and> list_all (\<lambda>r. r) (kp_containers pod))"

definition max_claimable_age_of :: "pool_config \<Rightarrow> int" where
  "max_claimable_age_of cfg =
     compute_max_claimable_age_seconds (pc_deadline cfg) (pc_age_buffer cfg) (pc_min_remaining cfg)"

definition too_old :: "kube_env \<Rightarrow> pool_config \<Rightarrow> call_log \<Rightarrow> kpod \<Rightarrow> bool" where
  "too_old ke cfg lg pod =
     (case ke_age ke lg (kp_created pod) of
        None \<Rightarrow> False
      | Some age \<Rightarrow> of_int (max_claimable_age_of cfg) \<le> age)"

section \<open>Claiming\<close>

text \<open>The outcome of the claim loop: a pod's name and address, no pod, or an exception that
  is not an \<open>ApiException\<close> and leaves the method. A second patch marks the pod as not
  evictable; its failure is swallowed.\<close>

datatype claim_outcome = ClaimedPod string string | NoPod | ClaimRaised

fun claim_loop ::
    "kube_env \<Rightarrow> pool_config \<Rightarrow> string \<Rightarrow> call_log \<Rightarrow> kpod list \<Rightarrow> claim_outcome \<times> call_log" where
  "claim_loop ke cfg sz lg [] = (NoPod, lg)"
| "claim_loop ke cfg sz lg (pod # pods) =
     (case kp_ip pod of
        None \<Rightarrow> claim_loop ke cfg sz lg pods
      | Some ip \<Rightarrow>
          (if kp_phase pod \<noteq> ''Running'' \<or> ip = [] then claim_loop ke cfg sz lg pods
           else if pod_size pod \<noteq> sz then claim_loop ke cfg sz lg pods
           else if \<not> containers_ready pod then claim_loop ke cfg sz lg pods
           else if too_old ke cfg lg pod then claim_loop ke cfg sz lg pods
           else
             (let lg1 = lg @ [Health (kp_name pod)] in
              if \<not> ke_health ke lg (kp_name pod) then claim_loop ke cfg sz lg1 pods
              else case kp_version pod of
                None \<Rightarrow> claim_loop ke cfg sz lg1 pods
              | Some rv \<Rightarrow>
                  (if rv = [] then claim_loop ke cfg sz lg1 pods
                   else case ke_claim ke lg1 (kp_name pod) rv of
                     Patched \<Rightarrow>
                       (ClaimedPod (kp_name pod) ip,
                        lg1 @ [Claim (kp_name pod) rv, Annotate (kp_name pod)])
                   | ApiError st \<Rightarrow> claim_loop ke cfg sz (lg1 @ [Claim (kp_name pod) rv]) pods
                   | OtherError \<Rightarrow> (ClaimRaised, lg1 @ [Claim (kp_name pod) rv])))))"

definition warm_selector :: string where
  "warm_selector = ''app=sandbox,pool=warm,sandbox.boxxkite.dev/status=warm''"

definition claim_pod ::
    "kube_env \<Rightarrow> pool_config \<Rightarrow> string \<Rightarrow> int \<Rightarrow> real \<Rightarrow> claim_rate_tracker \<Rightarrow> call_log \<Rightarrow>
     claim_outcome \<times> claim_rate_tracker \<times> call_log" where
  "claim_pod ke cfg sz w now tr lg =
     (if \<not> pc_initialised cfg then (NoPod, tr, lg)
      else case ke_list ke lg warm_selector of
        None \<Rightarrow> (NoPod, tr, lg @ [ListPods warm_selector])
      | Some pods \<Rightarrow>
          (case claim_loop ke cfg sz (lg @ [ListPods warm_selector]) pods of
             (ClaimedPod name ip, lg') \<Rightarrow> (ClaimedPod name ip, record_claim w sz now tr, lg')
           | (outcome, lg') \<Rightarrow> (outcome, tr, lg')))"

section \<open>The ready index\<close>

definition pop_ready_pod :: "string \<Rightarrow> ready_index \<Rightarrow> ready_pod option \<times> ready_index" where
  "pop_ready_pod sz idx =
     (case dict_get idx sz of
        None \<Rightarrow> (None, idx)
      | Some [] \<Rightarrow> (None, idx)
      | Some (rp # rest) \<Rightarrow> (Some rp, dict_put sz rest idx))"

definition discard_from_ready_index :: "string \<Rightarrow> ready_index \<Rightarrow> ready_index" where
  "discard_from_ready_index name idx =
     map (\<lambda>(sz, dq). (sz, filter (\<lambda>rp. rp_name rp \<noteq> name) dq)) idx"

text \<open>\<open>{rp.pod_name: rp for ...}\<close>: the last entry of a name.\<close>

definition index_by_name :: "ready_index \<Rightarrow> (string, ready_pod) dict" where
  "index_by_name idx = map (\<lambda>rp. (rp_name rp, rp)) (rev (concat (map snd idx)))"

definition index_append :: "ready_pod \<Rightarrow> ready_index \<Rightarrow> ready_index" where
  "index_append rp idx =
     dict_put (rp_size rp) ((case dict_get idx (rp_size rp) of None \<Rightarrow> [] | Some dq \<Rightarrow> dq) @ [rp]) idx"

fun build_ready_index ::
    "kube_env \<Rightarrow> (string, ready_pod) dict \<Rightarrow> call_log \<Rightarrow> candidate list \<Rightarrow> ready_index \<Rightarrow>
     ready_index \<times> call_log" where
  "build_ready_index ke previous lg [] idx = (idx, lg)"
| "build_ready_index ke previous lg ((name, ip, rv, sz) # cands) idx =
     (let prior = dict_get previous name;
          carried = (case prior of Some rp \<Rightarrow> rp_token rp \<noteq> [] | None \<Rightarrow> False);
          secret = (if carried then (rp_token (the prior), rp_cert (the prior))
                    else ke_secret ke lg name);
          lg' = (if carried then lg else lg @ [ReadSecret name]);
          rp = \<lparr>rp_name = name, rp_ip = ip, rp_version = rv, rp_size = sz,
                rp_token = fst secret, rp_cert = snd secret\<rparr>
      in build_ready_index ke previous lg' cands (index_append rp idx))"

definition refresh_ready_index ::
    "kube_env \<Rightarrow> candidate list \<Rightarrow> ready_index \<Rightarrow> call_log \<Rightarrow> ready_index \<times> call_log" where
  "refresh_ready_index ke cands idx lg =
     build_ready_index ke (index_by_name idx) lg cands []"

section \<open>Scanning\<close>

record pool_scan =
  ps_warm :: "(string, int) dict"
  ps_active :: int
  ps_states :: "(string, int) dict"
  ps_stale :: "string list"
  ps_ready :: "candidate list"

definition empty_scan :: pool_scan where
  "empty_scan = \<lparr>ps_warm = [], ps_active = 0, ps_states = [], ps_stale = [], ps_ready = []\<rparr>"

definition count_up :: "string \<Rightarrow> (string, int) dict \<Rightarrow> (string, int) dict" where
  "count_up k d = dict_put k ((case dict_get d k of None \<Rightarrow> 0 | Some n \<Rightarrow> n) + 1) d"

definition status_of :: "kpod \<Rightarrow> string" where
  "status_of pod =
     (case dict_get (kp_labels pod) status_label of
        None \<Rightarrow> ''unknown''
      | Some s \<Rightarrow> (if s = [] then ''unknown'' else s))"

definition is_warm :: "kpod \<Rightarrow> bool" where
  "is_warm pod =
     (dict_get (kp_labels pod) ''pool'' = Some ''warm'' \<and>
      dict_get (kp_labels pod) status_label = Some ''warm'' \<and> kp_phase pod = ''Running'')"

definition scan_pod :: "kube_env \<Rightarrow> pool_config \<Rightarrow> call_log \<Rightarrow> pool_scan \<Rightarrow> kpod \<Rightarrow> pool_scan" where
  "scan_pod ke cfg lg sc pod =
     (let sc1 = sc\<lparr>ps_states := count_up (status_of pod) (ps_states sc),
                   ps_active := ps_active sc +
                     (if kp_phase pod = ''Pending'' \<or> kp_phase pod = ''Running'' then 1 else 0)\<rparr> in
      if kp_phase pod = ''Failed'' \<or> kp_phase pod = ''Succeeded''
      then sc1\<lparr>ps_stale := ps_stale sc1 @ [kp_name pod]\<rparr>
      else if is_warm pod \<and> containers_ready pod
      then (if too_old ke cfg lg pod
            then sc1\<lparr>ps_stale := ps_stale sc1 @ [kp_name pod]\<rparr>
            else sc1\<lparr>ps_warm := count_up (pod_size pod) (ps_warm sc1),
                     ps_ready := ps_ready sc1 @
                       (case (kp_ip pod, kp_version pod) of
                          (Some ip, Some rv) \<Rightarrow>
                            (if ip \<noteq> [] \<and> rv \<noteq> [] then [(kp_name pod, ip, rv, pod_size pod)] else [])
                        | _ \<Rightarrow> [])\<rparr>)
      else sc1)"

text \<open>The scan and the new value of \<open>_pool_scan_available\<close>.\<close>

definition scan_pool_state ::
    "kube_env \<Rightarrow> pool_config \<Rightarrow> call_log \<Rightarrow> pool_scan \<times> bool \<times> call_log" where
  "scan_pool_state ke cfg lg =
     (if \<not> pc_initialised cfg then (empty_scan, False, lg)
      else case ke_list ke lg ''app=sandbox'' of
        None \<Rightarrow> (empty_scan, False, lg @ [ListPods ''app=sandbox''])
      | Some pods \<Rightarrow>
          (foldl (scan_pod ke cfg lg)
             (empty_scan\<lparr>ps_warm := map (\<lambda>(s, t). (s, 0)) (pc_targets cfg)\<rparr>) pods,
           True, lg @ [ListPods ''app=sandbox'']))"

section \<open>Deleting, recycling, replenishing\<close>

definition delete_pod :: "pool_config \<Rightarrow> string \<Rightarrow> ready_index \<Rightarrow> call_log \<Rightarrow> ready_index \<times> call_log" where
  "delete_pod cfg name idx lg =
     (if \<not> pc_initialised cfg then (idx, lg)
      else (discard_from_ready_index name idx, lg @ [DeletePod name, DeleteSecret name]))"

text \<open>The result of a recycle: whether the pod went back to the pool.\<close>

definition recycle_pod ::
    "kube_env \<Rightarrow> pool_config \<Rightarrow> string \<Rightarrow> ready_index \<Rightarrow> call_log \<Rightarrow>
     bool \<times> ready_index \<times> call_log" where
  "recycle_pod ke cfg name idx lg =
     (if \<not> pc_recycle cfg then (False, delete_pod cfg name idx lg)
      else if \<not> pc_initialised cfg then (False, idx, lg)
      else
        let lg1 = lg @ [ReadSecret name, ReadSecret name] in
        if \<not> ke_wipe ke lg1 name then (False, delete_pod cfg name idx (lg1 @ [Wipe name]))
        else case scan_pool_state ke cfg (lg1 @ [Wipe name]) of
          (sc, avail, lg2) \<Rightarrow>
            (if pc_pool_max cfg < ps_active sc then (False, delete_pod cfg name idx lg2)
             else if ke_relabel ke lg2 name then (True, idx, lg2 @ [Relabel name])
             else (False, delete_pod cfg name idx (lg2 @ [Relabel name]))))"

text \<open>The creation plan: sizes in the order of the targets, each up to its deficit and to
  what is left of the budget.\<close>

fun plan_creations :: "int \<Rightarrow> (string, int) dict \<Rightarrow> (string, int) dict \<Rightarrow> (string, int) dict" where
  "plan_creations budget warm [] = []"
| "plan_creations budget warm ((sz, tgt) # rest) =
     (if budget \<le> 0 then []
      else
        let deficit = max (tgt - (case dict_get warm sz of None \<Rightarrow> 0 | Some n \<Rightarrow> n)) 0;
            take' = min deficit budget
        in if 0 < take' then (sz, take') # plan_creations (budget - take') warm rest
           else plan_creations budget warm rest)"

definition creation_calls :: "(string, int) dict \<Rightarrow> kube_call list" where
  "creation_calls plan = concat (map (\<lambda>(sz, n). replicate (nat n) (CreatePod sz)) plan)"

definition delete_stale :: "string list \<Rightarrow> kube_call list" where
  "delete_stale names = concat (map (\<lambda>n. [DeletePod n, DeleteSecret n]) names)"

definition replenish ::
    "kube_env \<Rightarrow> pool_config \<Rightarrow> (string, int) dict \<Rightarrow> ready_index \<Rightarrow> call_log \<Rightarrow>
     (string, int) dict \<times> ready_index \<times> call_log" where
  "replenish ke cfg targets idx lg =
     (case scan_pool_state ke cfg lg of
        (sc, avail, lg1) \<Rightarrow>
          (let (idx', lg2) = (if pc_fast_claim cfg then refresh_ready_index ke (ps_ready sc) idx lg1
                               else (idx, lg1));
               lg3 = lg2 @ delete_stale (ps_stale sc);
               plan = plan_creations (max (pc_pool_max cfg - ps_active sc) 0) (ps_warm sc) targets
           in (plan, idx', lg3 @ creation_calls plan)))"

section \<open>The idle reaper\<close>

definition claimed_selector :: string where
  "claimed_selector = ''app=sandbox,sandbox.boxxkite.dev/status=claimed''"

fun idle_candidates :: "kube_env \<Rightarrow> pool_config \<Rightarrow> call_log \<Rightarrow> string list \<Rightarrow> string list \<times> call_log" where
  "idle_candidates ke cfg lg [] = ([], lg)"
| "idle_candidates ke cfg lg (name # names) =
     (case idle_candidates ke cfg (lg @ [IdleQuery name]) names of
        (cands, lg') \<Rightarrow>
          (case ke_idle ke lg name of
             None \<Rightarrow> (cands, lg')
           | Some idle \<Rightarrow> (if pc_idle_timeout cfg \<le> idle then name # cands else cands, lg')))"

fun reap_candidates ::
    "kube_env \<Rightarrow> pool_config \<Rightarrow> string list \<Rightarrow> ready_index \<Rightarrow> call_log \<Rightarrow> ready_index \<times> call_log" where
  "reap_candidates ke cfg [] idx lg = (idx, lg)"
| "reap_candidates ke cfg (name # names) idx lg =
     (let lg1 = lg @ [IdleQuery name] in
      case ke_idle ke lg name of
        None \<Rightarrow> reap_candidates ke cfg names idx lg1
      | Some idle \<Rightarrow>
          (if idle < pc_idle_timeout cfg then reap_candidates ke cfg names idx lg1
           else
             let lg2 = lg1 @ [Flush name] in
             if \<not> ke_flush ke lg1 name \<and> \<not> pc_delete_on_flush_failure cfg
             then reap_candidates ke cfg names idx lg2
             else case delete_pod cfg name idx lg2 of
               (idx', lg3) \<Rightarrow> reap_candidates ke cfg names idx' lg3))"

definition running_with_ip :: "kpod \<Rightarrow> bool" where
  "running_with_ip pod =
     (kp_phase pod = ''Running'' \<and> (case kp_ip pod of None \<Rightarrow> False | Some ip \<Rightarrow> ip \<noteq> []))"

definition reap_idle_pods ::
    "kube_env \<Rightarrow> pool_config \<Rightarrow> ready_index \<Rightarrow> call_log \<Rightarrow> ready_index \<times> call_log" where
  "reap_idle_pods ke cfg idx lg =
     (if \<not> pc_initialised cfg then (idx, lg)
      else case ke_list ke lg claimed_selector of
        None \<Rightarrow> (idx, lg @ [ListPods claimed_selector])
      | Some pods \<Rightarrow>
          (let names = map kp_name (filter running_with_ip pods);
               lg1 = lg @ ListPods claimed_selector # map ReadSecret names;
               (cands, lg2) = idle_candidates ke cfg lg1 names
           in reap_candidates ke cfg cands idx lg2))"

section \<open>Request-driven replenishment\<close>

text \<open>The manager's background state: whether it runs, and whether the request-driven task
  exists and is still in flight.\<close>

record manager_tasks =
  mt_running :: bool
  mt_manual :: "bool option"

definition schedule_replenish :: "pool_config \<Rightarrow> manager_tasks \<Rightarrow> manager_tasks \<times> bool" where
  "schedule_replenish cfg mt =
     (if \<not> mt_running mt \<or> \<not> pc_initialised cfg then (mt, False)
      else if mt_manual mt = Some True then (mt, False)
      else (mt\<lparr>mt_manual := Some True\<rparr>, True))"

section \<open>Status\<close>

record size_report =
  sr_target :: int
  sr_warm :: int
  sr_claims :: nat
  sr_cold :: nat

definition int_at :: "(string, int) dict \<Rightarrow> string \<Rightarrow> int" where
  "int_at d k = (case dict_get d k of None \<Rightarrow> 0 | Some n \<Rightarrow> n)"

fun utilization_report ::
    "int \<Rightarrow> real \<Rightarrow> (string, int) dict \<Rightarrow> (string, int) dict \<Rightarrow> claim_rate_tracker \<Rightarrow>
     string list \<Rightarrow> (string, size_report) dict \<times> claim_rate_tracker" where
  "utilization_report w now warm targets tr [] = ([], tr)"
| "utilization_report w now warm targets tr (sz # szs) =
     (let (claims, tr1) = claim_count w sz now tr;
          (cold, tr2) = cold_fallthrough_count w sz now tr1;
          (rest, tr3) = utilization_report w now warm targets tr2 szs
      in ((sz, \<lparr>sr_target = int_at targets sz, sr_warm = int_at warm sz,
                sr_claims = claims, sr_cold = cold\<rparr>) # rest, tr3))"

record pool_status =
  st_targets :: "(string, int) dict"
  st_max :: int
  st_warm_count :: int
  st_warm :: "(string, int) dict"
  st_total :: int
  st_states :: "(string, int) dict"
  st_utilization :: "(string, size_report) dict"

text \<open>\<^const>\<open>None\<close> is the \<open>RuntimeError\<close> of an unavailable scan.\<close>

definition get_status ::
    "kube_env \<Rightarrow> pool_config \<Rightarrow> (string, int) dict \<Rightarrow> int \<Rightarrow> real \<Rightarrow> claim_rate_tracker \<Rightarrow>
     call_log \<Rightarrow> pool_status option \<times> call_log" where
  "get_status ke cfg targets w now tr lg =
     (case scan_pool_state ke cfg lg of
        (sc, avail, lg1) \<Rightarrow>
          (if \<not> avail then (None, lg1)
           else (Some \<lparr>st_targets = targets, st_max = pc_pool_max cfg,
                       st_warm_count = sum_list (map snd (ps_warm sc)), st_warm = ps_warm sc,
                       st_total = ps_active sc, st_states = ps_states sc,
                       st_utilization = fst (utilization_report w now (ps_warm sc) targets tr
                         (map fst (pc_targets cfg)))\<rparr>, lg1)))"

end
