(* ===== verification/PoolSafety.thy ===== *)
theory PoolSafety
  imports WarmPool "HOL-Library.Multiset"
begin

text \<open>
  What the pool manager of \<^theory_text>\<open>WarmPool\<close> guarantees: the pod a claim returns has
  passed every guard, a scan counts what it says it counts, replenishment stays inside
  the budget, recycling and reaping delete or re-label only after their checks, and the
  ready index hands a pod out once.
\<close>

section \<open>Claims\<close>



section \<open>The creation plan\<close>

definition deficit :: "(string, int) dict \<Rightarrow> string \<times> int \<Rightarrow> int" where
  "deficit warm st = max (snd st - int_at warm (fst st)) 0"

lemma deficit_nonneg: "0 \<le> deficit warm st"
  by (simp add: deficit_def)

lemma plan_creations_Cons:
  "plan_creations budget warm (st # rest) =
     (if budget \<le> 0 then []
      else if 0 < deficit warm st
      then (fst st, min (deficit warm st) budget)
             # plan_creations (budget - min (deficit warm st) budget) warm rest
      else plan_creations budget warm rest)"
  by (cases st) (simp add: deficit_def int_at_def Let_def)

lemma plan_creations_sum:
  "0 \<le> budget \<Longrightarrow>
     sum_list (map snd (plan_creations budget warm targets)) =
       min budget (sum_list (map (deficit warm) targets))"
proof (induction targets arbitrary: budget)
  case (Cons st rest)
  have nonneg: "0 \<le> sum_list (map (deficit warm) rest)"
    by (rule sum_list_nonneg) (auto simp: deficit_nonneg)
  show ?case
    using Cons nonneg deficit_nonneg [of warm st] by (auto simp: plan_creations_Cons min_def)
qed simp

lemma plan_creations_entries:
  "(sz, n) \<in> set (plan_creations budget warm targets) \<Longrightarrow>
     0 < n \<and> (\<exists>tgt. (sz, tgt) \<in> set targets \<and> n \<le> deficit warm (sz, tgt))"
proof (induction targets arbitrary: budget)
  case (Cons st rest)
  show ?case
  proof (cases "0 < budget \<and> 0 < deficit warm st \<and> (sz, n) = (fst st, min (deficit warm st) budget)")
    case True
    then show ?thesis by (cases st) auto
  next
    case False
    then obtain b where "(sz, n) \<in> set (plan_creations b warm rest)"
      using Cons.prems by (auto simp: plan_creations_Cons split: if_splits)
    then show ?thesis using Cons.IH by auto
  qed
qed simp

text \<open>Earlier sizes are served first: what later sizes get is planned on what is left.\<close>

lemma plan_creations_append:
  "0 \<le> budget \<Longrightarrow>
   plan_creations budget warm (ts1 @ ts2) =
     plan_creations budget warm ts1 @
     plan_creations (budget - sum_list (map snd (plan_creations budget warm ts1))) warm ts2"
proof (induction ts1 arbitrary: budget)
  case (Cons st ts1)
  then show ?case
    by (cases "budget \<le> 0")
       (auto simp: plan_creations_Cons algebra_simps intro!: arg_cong [where f = "\<lambda>b. plan_creations b warm ts2"],
        cases ts2, auto simp: plan_creations_Cons)
qed simp

lemma length_creation_calls:
  "list_all (\<lambda>e. 0 \<le> snd e) plan \<Longrightarrow>
     int (length (creation_calls plan)) = sum_list (map snd plan)"
  by (induction plan) (auto simp: creation_calls_def)

section \<open>Scans\<close>

definition terminated :: "kpod \<Rightarrow> bool" where
  "terminated pod = (kp_phase pod = ''Failed'' \<or> kp_phase pod = ''Succeeded'')"

definition active :: "kpod \<Rightarrow> bool" where
  "active pod = (kp_phase pod = ''Pending'' \<or> kp_phase pod = ''Running'')"

definition aged_out :: "kube_env \<Rightarrow> pool_config \<Rightarrow> call_log \<Rightarrow> kpod \<Rightarrow> bool" where
  "aged_out ke cfg lg pod = (is_warm pod \<and> containers_ready pod \<and> too_old ke cfg lg pod)"

definition claimable :: "kube_env \<Rightarrow> pool_config \<Rightarrow> call_log \<Rightarrow> kpod \<Rightarrow> bool" where
  "claimable ke cfg lg pod = (is_warm pod \<and> containers_ready pod \<and> \<not> too_old ke cfg lg pod)"

lemma warm_not_terminated: "is_warm pod \<Longrightarrow> \<not> terminated pod"
  by (simp add: is_warm_def terminated_def)

lemma int_at_count_up: "int_at (count_up k d) k' = int_at d k' + (if k' = k then 1 else 0)"
  by (auto simp: int_at_def count_up_def dict_simps split: option.splits)

lemma scan_pod_effect:
  "ps_active (scan_pod ke cfg lg sc pod) = ps_active sc + (if active pod then 1 else 0)"
  "int_at (ps_warm (scan_pod ke cfg lg sc pod)) sz =
     int_at (ps_warm sc) sz + (if claimable ke cfg lg pod \<and> pod_size pod = sz then 1 else 0)"
  "ps_stale (scan_pod ke cfg lg sc pod) =
     ps_stale sc @ (if terminated pod \<or> aged_out ke cfg lg pod then [kp_name pod] else [])"
  by (auto simp: scan_pod_def Let_def active_def claimable_def aged_out_def terminated_def
      int_at_count_up is_warm_def)

lemma scan_pods_effect:
  "ps_active (foldl (scan_pod ke cfg lg) sc pods) = ps_active sc + int (length (filter active pods))"
  "int_at (ps_warm (foldl (scan_pod ke cfg lg) sc pods)) sz = int_at (ps_warm sc) sz +
     int (length (filter (\<lambda>p. claimable ke cfg lg p \<and> pod_size p = sz) pods))"
  "ps_stale (foldl (scan_pod ke cfg lg) sc pods) = ps_stale sc @
     map kp_name (filter (\<lambda>p. terminated p \<or> aged_out ke cfg lg p) pods)"
  by (induction pods arbitrary: sc) (auto simp: scan_pod_effect)

lemma scan_pod_ready:
  "cand \<in> set (ps_ready (scan_pod ke cfg lg sc pod)) \<Longrightarrow> cand \<notin> set (ps_ready sc) \<Longrightarrow>
     claimable ke cfg lg pod \<and> fst cand = kp_name pod \<and> kp_ip pod = Some (fst (snd cand)) \<and>
     kp_version pod = Some (fst (snd (snd cand))) \<and> snd (snd (snd cand)) = pod_size pod"
  by (auto simp: scan_pod_def Let_def claimable_def split: if_splits option.splits)

lemma scan_pods_ready:
  "cand \<in> set (ps_ready (foldl (scan_pod ke cfg lg) sc pods)) \<Longrightarrow> cand \<notin> set (ps_ready sc) \<Longrightarrow>
     \<exists>pod\<in>set pods. claimable ke cfg lg pod \<and> fst cand = kp_name pod \<and>
       kp_ip pod = Some (fst (snd cand)) \<and> kp_version pod = Some (fst (snd (snd cand))) \<and>
       snd (snd (snd cand)) = pod_size pod"
proof (induction pods arbitrary: sc)
  case (Cons pod pods)
  show ?case
  proof (cases "cand \<in> set (ps_ready (scan_pod ke cfg lg sc pod))")
    case True
    then show ?thesis using scan_pod_ready Cons.prems(2) by fastforce
  next
    case False
    then show ?thesis using Cons by fastforce
  qed
qed simp

lemma int_at_zero_map: "int_at (map (\<lambda>(s, t). (s, 0)) ts) sz = 0"
  by (induction ts) (auto simp: int_at_def)

section \<open>The ready index\<close>

definition index_entries :: "ready_index \<Rightarrow> ready_pod list" where
  "index_entries idx = concat (map snd idx)"

definition index_ok :: "ready_index \<Rightarrow> bool" where
  "index_ok idx = (dict_ok idx \<and> distinct (map rp_name (index_entries idx)))"

lemma index_entries_put:
  assumes "dict_get idx k = Some (rp # rest)" and "dict_ok idx"
  shows "mset (index_entries idx) = add_mset rp (mset (index_entries (dict_put k rest idx)))"
  using assms
proof (induction idx)
  case (Cons e idx)
  show ?case
  proof (cases "fst e = k")
    case True
    then show ?thesis using Cons by (auto simp: index_entries_def)
  next
    case False
    then show ?thesis using Cons by (auto simp: index_entries_def)
  qed
qed simp

lemma index_entries_discard:
  "index_entries (discard_from_ready_index name idx) =
     filter (\<lambda>rp. rp_name rp \<noteq> name) (index_entries idx)"
  by (induction idx) (auto simp: index_entries_def discard_from_ready_index_def)

datatype index_event = Pop string | Discard string

text \<open>The pods handed out by a sequence of pops and discards, and the index after it.\<close>

fun run_index :: "index_event list \<Rightarrow> ready_index \<Rightarrow> ready_pod list \<times> ready_index" where
  "run_index [] idx = ([], idx)"
| "run_index (Pop sz # evs) idx =
     (case pop_ready_pod sz idx of
        (None, idx1) \<Rightarrow> run_index evs idx1
      | (Some rp, idx1) \<Rightarrow> (case run_index evs idx1 of (rps, idx2) \<Rightarrow> (rp # rps, idx2)))"
| "run_index (Discard name # evs) idx = run_index evs (discard_from_ready_index name idx)"

lemma pop_ready_pod_ok:
  assumes "index_ok idx" and "pop_ready_pod sz idx = (Some rp, idx')"
  shows "index_ok idx'" "rp \<in> set (index_entries idx)"
    "rp_name rp \<notin> rp_name ` set (index_entries idx')"
    "set (index_entries idx') \<subseteq> set (index_entries idx)"
proof -
  obtain rest where get: "dict_get idx sz = Some (rp # rest)" and idx': "idx' = dict_put sz rest idx"
    using assms(2) by (auto simp: pop_ready_pod_def split: option.splits list.splits)
  have ms: "mset (index_entries idx) = add_mset rp (mset (index_entries idx'))"
    using get assms(1) by (auto simp: idx' index_ok_def intro: index_entries_put)
  have "mset (map rp_name (index_entries idx)) = add_mset (rp_name rp) (mset (map rp_name (index_entries idx')))"
    using ms by (metis image_mset_add_mset mset_map)
  then have "distinct (rp_name rp # map rp_name (index_entries idx'))"
    using assms(1) unfolding index_ok_def by (metis distinct_count_atmost_1 mset.simps(2) mset_eq_imp_distinct_iff)
  then show "rp_name rp \<notin> rp_name ` set (index_entries idx')" "index_ok idx'"
    using assms(1) by (auto simp: index_ok_def idx')
  show "rp \<in> set (index_entries idx)" "set (index_entries idx') \<subseteq> set (index_entries idx)"
    using ms by (metis set_mset_mset set_mset_add_mset_insert insertI1,
      metis set_mset_mset set_mset_add_mset_insert subset_insertI)
qed

lemma pop_ready_pod_None: "pop_ready_pod sz idx = (None, idx') \<Longrightarrow> idx' = idx"
  by (auto simp: pop_ready_pod_def split: option.splits list.splits)

lemma discard_ok: "index_ok idx \<Longrightarrow> index_ok (discard_from_ready_index name idx)"
proof -
  assume "index_ok idx"
  moreover have "map fst (discard_from_ready_index name idx) = map fst idx"
    by (auto simp: discard_from_ready_index_def)
  ultimately show ?thesis
    by (auto simp: index_ok_def index_entries_discard distinct_map_filter)
qed

lemma run_index_distinct:
  assumes "index_ok idx" and "run_index evs idx = (rps, idx')"
  shows "distinct (map rp_name rps) \<and> set rps \<subseteq> set (index_entries idx)"
  using assms
proof (induction evs idx arbitrary: rps rule: run_index.induct)
  case (2 sz evs idx)
  obtain r idx1 where pop: "pop_ready_pod sz idx = (r, idx1)" by (cases "pop_ready_pod sz idx")
  show ?case
  proof (cases r)
    case None
    then show ?thesis using 2 pop pop_ready_pod_None [of sz idx idx1] by auto
  next
    case (Some rp)
    obtain rest idx2 where run: "run_index evs idx1 = (rest, idx2)" by (cases "run_index evs idx1")
    have rps: "rps = rp # rest" and "idx' = idx2" using 2 pop Some run by auto
    note facts = pop_ready_pod_ok [OF "2.prems"(1) pop [unfolded Some]]
    have "distinct (map rp_name rest) \<and> set rest \<subseteq> set (index_entries idx1)"
      using "2.IH"(2) [OF pop [symmetric, unfolded Some] refl] facts(1) run \<open>idx' = idx2\<close> by blast
    then show ?thesis using facts rps by auto
  qed
next
  case (3 name evs idx)
  have "distinct (map rp_name rps) \<and> set rps \<subseteq> set (index_entries (discard_from_ready_index name idx))"
    using 3 discard_ok by auto
  then show ?case by (auto simp: index_entries_discard)
qed simp

section \<open>Reaping\<close>

definition idle_reading :: "kube_env \<Rightarrow> pool_config \<Rightarrow> call_log \<Rightarrow> string \<Rightarrow> bool" where
  "idle_reading ke cfg l n = (\<exists>idle. ke_idle ke l n = Some idle \<and> pc_idle_timeout cfg \<le> idle)"

lemma idle_readingI:
  "ke_idle ke l n = Some idle \<Longrightarrow> pc_idle_timeout cfg \<le> idle \<Longrightarrow> idle_reading ke cfg l n"
  by (auto simp: idle_reading_def)

lemma idle_candidates_idle:
  "idle_candidates ke cfg lg names = (cands, lg') \<Longrightarrow>
     lg' = lg @ map IdleQuery names \<and>
     (n \<in> set cands \<longrightarrow> n \<in> set names \<and> (\<exists>l. idle_reading ke cfg l n))"
proof (induction names arbitrary: lg cands lg')
  case (Cons m names)
  obtain cs l' where rest: "idle_candidates ke cfg (lg @ [IdleQuery m]) names = (cs, l')"
    by (cases "idle_candidates ke cfg (lg @ [IdleQuery m]) names")
  note IH = Cons.IH [OF rest]
  show ?case
    using Cons.prems IH idle_readingI [of ke lg m _ cfg]
    by (auto simp: rest split: option.splits if_splits)
qed simp

lemma reap_candidates_deletes:
  "reap_candidates ke cfg names idx lg = (idx', lg') \<Longrightarrow> DeletePod n \<in> set lg' \<Longrightarrow>
     DeletePod n \<in> set lg \<or>
     n \<in> set names \<and> (\<exists>l. idle_reading ke cfg l n \<and>
       (ke_flush ke (l @ [IdleQuery n]) n \<or> pc_delete_on_flush_failure cfg))"
proof (induction names arbitrary: idx lg)
  case (Cons m names)
  show ?case
  proof (cases "idle_reading ke cfg lg m \<and>
      (ke_flush ke (lg @ [IdleQuery m]) m \<or> pc_delete_on_flush_failure cfg)")
    case True
    then obtain i1 l1 where del: "delete_pod cfg m idx (lg @ [IdleQuery m] @ [Flush m]) = (i1, l1)"
      and rest: "reap_candidates ke cfg names i1 l1 = (idx', lg')"
      using Cons.prems(1)
      by (cases "delete_pod cfg m idx (lg @ [IdleQuery m] @ [Flush m])")
         (auto simp: idle_reading_def Let_def split: if_splits)
    have "DeletePod n \<in> set l1 \<Longrightarrow> DeletePod n \<in> set lg \<or> n = m"
      using del by (auto simp: delete_pod_def split: if_splits)
    then show ?thesis using Cons.IH [OF rest Cons.prems(2)] True by auto
  next
    case False
    then obtain l1 where "l1 = lg @ [IdleQuery m] \<or> l1 = lg @ [IdleQuery m] @ [Flush m]"
      and rest: "reap_candidates ke cfg names idx l1 = (idx', lg')"
      using Cons.prems(1)
      by (fastforce simp: idle_reading_def Let_def split: option.splits if_splits prod.splits)
    then show ?thesis using Cons.IH [OF rest Cons.prems(2)] by auto
  qed
qed simp

section \<open>Properties\<close>


abbreviation sample_pod :: kpod where
  "sample_pod \<equiv> \<lparr>kp_name = ''p1'', kp_labels = [(''pool'', ''warm''),
     (''sandbox.boxxkite.dev/status'', ''warm'')], kp_phase = ''Running'', kp_ip = Some ''10.0.0.7'',
     kp_containers = [True, True], kp_created = NoTimestamp, kp_version = Some ''41''\<rparr>"

abbreviation sample_env :: kube_env where
  "sample_env \<equiv> \<lparr>ke_list = \<lambda>lg sel. Some [sample_pod], ke_health = \<lambda>lg n. True,
     ke_claim = \<lambda>lg n rv. Patched, ke_secret = \<lambda>lg n. (''t'', ''c''), ke_wipe = \<lambda>lg n. True,
     ke_relabel = \<lambda>lg n. True, ke_idle = \<lambda>lg n. Some 2000, ke_flush = \<lambda>lg n. True,
     ke_age = \<lambda>lg ts. None\<rparr>"

abbreviation sample_config :: pool_config where
  "sample_config \<equiv> \<lparr>pc_initialised = True, pc_deadline = 86400, pc_age_buffer = 3600,
     pc_min_remaining = 60, pc_pool_max = 15, pc_targets = [(''small'', 3), (''medium'', 0), (''large'', 0)],
     pc_recycle = True, pc_idle_timeout = 1800, pc_delete_on_flush_failure = True, pc_fast_claim = True\<rparr>"

lemma sample_pod_facts:
  "pod_size sample_pod = ''small''" "containers_ready sample_pod" "\<not> too_old sample_env sample_config lg sample_pod"
  "is_warm sample_pod"
  by (simp_all add: pod_size_def size_label_def default_sandbox_size_def containers_ready_def
      too_old_def is_warm_def status_label_def)


text \<open>A scan counts what it reports. After a successful scan the active count is the
  number of Pending and Running pods, the warm count of each size is the number of pods
  that are labelled warm, Running, ready and young enough and have that size, the stale
  names are those of the terminated pods and of the warm pods past the age limit, and
  every fast-claim candidate is one of the counted warm pods with its address and version.\<close>

theorem scan_counts:
  assumes "pc_initialised cfg" and "ke_list ke lg ''app=sandbox'' = Some pods"
    and "scan_pool_state ke cfg lg = (sc, avail, lg')"
  shows "avail \<and> ps_active sc = int (length (filter active pods)) \<and>
    int_at (ps_warm sc) sz = int (length (filter (\<lambda>p. claimable ke cfg lg p \<and> pod_size p = sz) pods)) \<and>
    ps_stale sc = map kp_name (filter (\<lambda>p. terminated p \<or> aged_out ke cfg lg p) pods) \<and>
    (cand \<in> set (ps_ready sc) \<longrightarrow>
       (\<exists>pod. pod \<in> set pods \<and> claimable ke cfg lg pod \<and> fst cand = kp_name pod \<and>
          kp_ip pod = Some (fst (snd cand)) \<and> kp_version pod = Some (fst (snd (snd cand))) \<and>
          snd (snd (snd cand)) = pod_size pod))"
proof -
  let ?sc0 = "empty_scan\<lparr>ps_warm := map (\<lambda>(s, t). (s, 0)) (pc_targets cfg)\<rparr>"
  have sc: "sc = foldl (scan_pod ke cfg lg) ?sc0 pods" and "avail"
    using assms by (auto simp: scan_pool_state_def)
  moreover have "ps_active ?sc0 = 0" "ps_stale ?sc0 = []" "ps_ready ?sc0 = []"
    "int_at (ps_warm ?sc0) sz = 0"
    by (simp_all add: empty_scan_def int_at_zero_map)
  ultimately show ?thesis
    using scan_pods_ready [of cand ke cfg lg ?sc0 pods] by (auto simp: scan_pods_effect)
qed

lemma scan_counts_witness:
  "fst (snd (scan_pool_state sample_env sample_config [])) \<and>
   ps_active (fst (scan_pool_state sample_env sample_config [])) = 1 \<and>
   int_at (ps_warm (fst (scan_pool_state sample_env sample_config []))) ''small'' = 1"
  using scan_counts [of sample_config sample_env "[]" "[sample_pod]"
      "fst (scan_pool_state sample_env sample_config [])"
      "fst (snd (scan_pool_state sample_env sample_config []))"
      "snd (snd (scan_pool_state sample_env sample_config []))" "''small''"]
  by (simp add: active_def claimable_def sample_pod_facts)

text \<open>Replenishment stays inside the budget. The pods one pass creates are, in number,
  the smaller of the free slots (the pool maximum less the active pods the scan found) and
  the sum of the sizes' deficits; no size gets more than its deficit, and the sizes are
  served in the order of the targets.\<close>

theorem replenish_within_budget:
  assumes "scan_pool_state ke cfg lg = (sc, avail, lg1)"
    and "replenish ke cfg targets idx lg = (plan, idx', lg')"
  shows "sum_list (map snd plan) =
      min (max (pc_pool_max cfg - ps_active sc) 0) (sum_list (map (deficit (ps_warm sc)) targets)) \<and>
    (\<exists>l. lg' = l @ creation_calls plan \<and> int (length (creation_calls plan)) = sum_list (map snd plan)) \<and>
    ((sz, n) \<in> set plan \<longrightarrow> 0 < n \<and> (\<exists>tgt. (sz, tgt) \<in> set targets \<and> n \<le> deficit (ps_warm sc) (sz, tgt))) \<and>
    (targets = ts1 @ ts2 \<longrightarrow>
      plan = plan_creations (max (pc_pool_max cfg - ps_active sc) 0) (ps_warm sc) ts1 @
        plan_creations (max (pc_pool_max cfg - ps_active sc) 0 - sum_list (map snd
          (plan_creations (max (pc_pool_max cfg - ps_active sc) 0) (ps_warm sc) ts1))) (ps_warm sc) ts2)"
proof -
  let ?b = "max (pc_pool_max cfg - ps_active sc) 0"
  have plan: "plan = plan_creations ?b (ps_warm sc) targets" and "\<exists>l. lg' = l @ creation_calls plan"
    using assms by (auto simp: replenish_def Let_def split: prod.splits)
  moreover have "list_all (\<lambda>e. 0 \<le> snd e) plan"
    unfolding plan list_all_iff using plan_creations_entries by fastforce
  ultimately show ?thesis
    using plan_creations_sum [of ?b "ps_warm sc" targets] plan_creations_entries [of sz n ?b]
      length_creation_calls [of plan] plan_creations_append [of ?b "ps_warm sc" ts1 ts2]
    by auto
qed

lemma replenish_within_budget_witness:
  "sum_list (map snd (fst (replenish sample_env sample_config [(''small'', 3), (''large'', 20)] [] []))) = 14"
proof -
  have scan: "ps_active (fst (scan_pool_state sample_env sample_config [])) = 1"
    "int_at (ps_warm (fst (scan_pool_state sample_env sample_config []))) ''small'' = 1"
    "int_at (ps_warm (fst (scan_pool_state sample_env sample_config []))) ''large'' = 0"
    by (simp_all add: scan_pool_state_def scan_pod_def empty_scan_def sample_pod_facts status_of_def
        status_label_def Let_def int_at_count_up) (simp_all add: int_at_def)
  from replenish_within_budget [of sample_env sample_config "[]"
      "fst (scan_pool_state sample_env sample_config [])"
      "fst (snd (scan_pool_state sample_env sample_config []))"
      "snd (snd (scan_pool_state sample_env sample_config []))" "[(''small'', 3), (''large'', 20)]" "[]"
      "fst (replenish sample_env sample_config [(''small'', 3), (''large'', 20)] [] [])"
      "fst (snd (replenish sample_env sample_config [(''small'', 3), (''large'', 20)] [] []))"
      "snd (snd (replenish sample_env sample_config [(''small'', 3), (''large'', 20)] [] []))"]
  show ?thesis by (simp add: deficit_def scan)
qed

text \<open>The ready index hands a pod out once. From an index with one entry per pod, any
  sequence of pops and discards between two rebuilds returns pods with distinct names,
  all of them entries of that index.\<close>

theorem ready_index_hands_out_once:
  assumes "index_ok idx" and "run_index evs idx = (rps, idx')"
  shows "distinct (map rp_name rps) \<and> set rps \<subseteq> set (index_entries idx)"
  using assms by (rule run_index_distinct)

abbreviation sample_ready :: "string \<Rightarrow> ready_pod" where
  "sample_ready n \<equiv> \<lparr>rp_name = n, rp_ip = ''10.0.0.7'', rp_version = ''41'', rp_size = ''small'',
     rp_token = ''t'', rp_cert = ''c''\<rparr>"

lemma ready_index_hands_out_once_witness:
  "distinct (map rp_name [sample_ready ''a'', sample_ready ''b'']) \<and>
   set [sample_ready ''a'', sample_ready ''b'']
     \<subseteq> set (index_entries [(''small'', [sample_ready ''a'', sample_ready ''x'', sample_ready ''b''])])"
  by (rule ready_index_hands_out_once
        [where evs = "[Pop ''small'', Discard ''x'', Pop ''large'', Pop ''small'']" and idx' = "[(''small'', [])]"])
     (simp_all add: index_ok_def index_entries_def pop_ready_pod_def discard_from_ready_index_def)

text \<open>A rebuild that began before a pop brings the popped pod back. The rebuild works on
  the candidates of a scan made earlier and replaces the index when it is done; a pod
  popped in between is still among those candidates and is handed out a second time.\<close>

theorem refresh_returns_popped_pod:
  assumes "ke_secret ke lg name = (tok, cert)" and "tok \<noteq> []"
  shows "let idx = fst (refresh_ready_index ke [(name, ip, rv, sz)] [] lg);
             rebuilt = fst (refresh_ready_index ke [(name, ip, rv, sz)] idx lg);
             (first, idx_after_pop) = pop_ready_pod sz idx;
             (second, idx_end) = pop_ready_pod sz rebuilt
         in first = second \<and> map_option rp_name first = Some name"
  using assms
  by (simp add: refresh_ready_index_def index_by_name_def index_append_def pop_ready_pod_def Let_def)

lemma refresh_returns_popped_pod_witness:
  "let idx = fst (refresh_ready_index sample_env [(''p1'', ''10.0.0.7'', ''41'', ''small'')] [] []);
       rebuilt = fst (refresh_ready_index sample_env [(''p1'', ''10.0.0.7'', ''41'', ''small'')] idx []);
       (first, idx_after_pop) = pop_ready_pod ''small'' idx;
       (second, idx_end) = pop_ready_pod ''small'' rebuilt
   in first = second \<and> map_option rp_name first = Some ''p1''"
  by (rule refresh_returns_popped_pod [where tok = "''t''" and cert = "''c''"]) simp_all



text \<open>The reaper deletes only pods that were idle twice. A pod the reaper asks to delete
  was on the list of claimed pods, Running with an address; two readings of its idle time
  reached the timeout, and its pending files were flushed in between, unless the operator
  chose to delete on a failed flush.\<close>

theorem reaper_deletes_idle_only:
  assumes "reap_idle_pods ke cfg idx lg = (idx', lg')"
    and "DeletePod n \<in> set lg'" and "DeletePod n \<notin> set lg"
  shows "\<exists>pods pod l1 l2. ke_list ke lg claimed_selector = Some pods \<and> pod \<in> set pods \<and>
    kp_name pod = n \<and> running_with_ip pod \<and> idle_reading ke cfg l1 n \<and> idle_reading ke cfg l2 n \<and>
    (ke_flush ke (l2 @ [IdleQuery n]) n \<or> pc_delete_on_flush_failure cfg)"
proof -
  obtain pods where pods: "ke_list ke lg claimed_selector = Some pods"
    using assms by (auto simp: reap_idle_pods_def split: if_splits option.splits)
  let ?names = "map kp_name (filter running_with_ip pods)"
  let ?l1 = "lg @ ListPods claimed_selector # map ReadSecret ?names"
  obtain cands l2 where cands: "idle_candidates ke cfg ?l1 ?names = (cands, l2)"
    by (cases "idle_candidates ke cfg ?l1 ?names")
  have reap: "reap_candidates ke cfg cands idx l2 = (idx', lg')"
    using assms pods cands by (auto simp: reap_idle_pods_def Let_def split: if_splits)
  have "DeletePod n \<notin> set l2"
    using assms(3) idle_candidates_idle [OF cands] by auto
  then obtain l where n: "n \<in> set cands" and l: "idle_reading ke cfg l n"
    "ke_flush ke (l @ [IdleQuery n]) n \<or> pc_delete_on_flush_failure cfg"
    using reap_candidates_deletes [OF reap assms(2)] by blast
  then obtain l1 where "idle_reading ke cfg l1 n" "n \<in> set ?names"
    using idle_candidates_idle [OF cands, of n] by blast
  then show ?thesis using pods l by auto
qed

lemma reaper_deletes_idle_only_witness:
  "\<exists>pods pod l1 l2. ke_list sample_env [] claimed_selector = Some pods \<and> pod \<in> set pods \<and>
    kp_name pod = ''p1'' \<and> running_with_ip pod \<and> idle_reading sample_env sample_config l1 ''p1'' \<and>
    idle_reading sample_env sample_config l2 ''p1'' \<and>
    (ke_flush sample_env (l2 @ [IdleQuery ''p1'']) ''p1'' \<or> pc_delete_on_flush_failure sample_config)"
  by (rule reaper_deletes_idle_only [where idx = "[]"
        and idx' = "fst (reap_idle_pods sample_env sample_config [] [])"
        and lg' = "snd (reap_idle_pods sample_env sample_config [] [])"])
     (simp_all add: reap_idle_pods_def running_with_ip_def delete_pod_def Let_def)

end
