(* ===== verification/Admission.thy ===== *)
theory Admission
  imports Prelude
begin

text \<open>
  The interface shared by every capped resource of the program (execution slots, scratch
  keys, running background processes, concurrent sessions): an admission test that takes
  one unit only below the cap. The components interpret it on their own operations.
\<close>

locale capped_resource =
  fixes admit :: "'s \<Rightarrow> 's option" and used :: "'s \<Rightarrow> nat" and cap :: nat
  assumes admit_below: "admit s = Some s' \<Longrightarrow> used s < cap"
    and admit_step: "admit s = Some s' \<Longrightarrow> used s' \<le> Suc (used s)"
begin

lemma admit_keeps_cap: "admit s = Some s' \<Longrightarrow> used s' \<le> cap"
  using admit_below admit_step by fastforce

lemma full_refused: "cap \<le> used s \<Longrightarrow> admit s = None"
  using admit_below by (cases "admit s") fastforce+

text \<open>Any run of admissions, refusals and steps that take no unit stays under the cap.\<close>

inductive reaches :: "'s \<Rightarrow> 's \<Rightarrow> bool" where
  reaches_refl: "reaches s s"
| reaches_admit: "reaches s t \<Longrightarrow> admit t = Some u \<Longrightarrow> reaches s u"
| reaches_other: "reaches s t \<Longrightarrow> used u \<le> used t \<Longrightarrow> reaches s u"

lemma reaches_cap: "reaches s t \<Longrightarrow> used s \<le> cap \<Longrightarrow> used t \<le> cap"
  by (induction rule: reaches.induct) (auto dest: admit_keeps_cap)

end

text \<open>A capacity whose admitted operations are also counted: the units granted by a run
  never exceed the cap when no unit is given back.\<close>

locale counted_resource = capped_resource +
  assumes admit_counts: "admit s = Some s' \<Longrightarrow> used s' = Suc (used s)"
begin

fun grants :: "'a \<Rightarrow> nat \<Rightarrow> nat \<times> 'a" where
  "grants s 0 = (0, s)"
| "grants s (Suc n) =
     (case admit s of
        None \<Rightarrow> grants s n
      | Some s' \<Rightarrow> (case grants s' n of (k, t) \<Rightarrow> (Suc k, t)))"

lemma grants_used: "grants s n = (k, t) \<Longrightarrow> used t = used s + k"
  by (induction n arbitrary: s k) (auto simp: admit_counts split: option.splits prod.splits)

lemma grants_bound:
  assumes "grants s n = (k, t)" and "used s \<le> cap"
  shows "used s + k \<le> cap"
proof -
  have "used t \<le> cap" using assms
  proof (induction n arbitrary: s k)
    case (Suc n)
    then show ?case by (auto dest: admit_keeps_cap split: option.splits prod.splits)
  qed simp
  then show ?thesis using grants_used [OF assms(1)] by simp
qed

end

end
