(* ===== verification/ExecBudget.thy ===== *)
theory ExecBudget
  imports Admission Complex_Main
begin

text \<open>
  \<open>sidecar/main.py\<close>: the session's execution budget, the check of secret environment
  variable names and the authentication middleware. The budget operations run under one
  lock, so each is one step; the teardown of the session's resources is the flag
  \<open>torn_down\<close> of the outcome.
\<close>

section \<open>The execution budget\<close>

record budget_limits =
  max_exec_count :: nat
  max_exec_seconds :: real

datatype breach = CountBreach nat nat | SecondsBreach real real

record exec_budget =
  exec_count :: nat
  exec_seconds :: real
  budget_exceeded :: "breach option"

definition reset_session_exec_budget :: "exec_budget \<Rightarrow> exec_budget" where
  "reset_session_exec_budget b = \<lparr>exec_count = 0, exec_seconds = 0, budget_exceeded = None\<rparr>"

definition session_exec_count_breach :: "budget_limits \<Rightarrow> exec_budget \<Rightarrow> breach option" where
  "session_exec_count_breach lms b =
     (if 0 < max_exec_count lms \<and> max_exec_count lms \<le> exec_count b
      then Some (CountBreach (max_exec_count lms) (exec_count b)) else None)"

text \<open>\<open>round(x, 3)\<close>.\<close>

definition round_millis :: "real \<Rightarrow> real" where
  "round_millis x = of_int \<lfloor>x * 1000 + 1 / 2\<rfloor> / 1000"

definition session_exec_seconds_breach :: "budget_limits \<Rightarrow> exec_budget \<Rightarrow> breach option" where
  "session_exec_seconds_breach lms b =
     (if 0 < max_exec_seconds lms \<and> max_exec_seconds lms < exec_seconds b
      then Some (SecondsBreach (max_exec_seconds lms) (round_millis (exec_seconds b))) else None)"

text \<open>The outcome of a step: granted, or refused with status 403 and the breach.\<close>

datatype budget_outcome = Granted | Refused breach bool

definition reserve_session_exec_slot ::
    "budget_limits \<Rightarrow> exec_budget \<Rightarrow> budget_outcome \<times> exec_budget" where
  "reserve_session_exec_slot lms b =
     (case budget_exceeded b of
        Some br \<Rightarrow> (Refused br False, b)
      | None \<Rightarrow>
          (case session_exec_count_breach lms b of
             Some br \<Rightarrow> (Refused br True, b\<lparr>budget_exceeded := Some br\<rparr>)
           | None \<Rightarrow> (Granted, b\<lparr>exec_count := exec_count b + 1\<rparr>)))"

definition record_session_exec_duration ::
    "budget_limits \<Rightarrow> real \<Rightarrow> exec_budget \<Rightarrow> budget_outcome \<times> exec_budget" where
  "record_session_exec_duration lms duration b =
     (let b1 = b\<lparr>exec_seconds := exec_seconds b + max 0 duration\<rparr> in
      case session_exec_seconds_breach lms b1 of
        Some br \<Rightarrow> (Refused br True, b1\<lparr>budget_exceeded := Some br\<rparr>)
      | None \<Rightarrow> (Granted, b1))"

text \<open>The steps of concurrent routes, in the order in which they take the lock.\<close>

datatype budget_op = Reserve | Record real

fun run_budget :: "budget_limits \<Rightarrow> budget_op list \<Rightarrow> exec_budget \<Rightarrow> budget_outcome list \<times> exec_budget" where
  "run_budget lms [] b = ([], b)"
| "run_budget lms (Reserve # ops) b =
     (case reserve_session_exec_slot lms b of
        (out, b1) \<Rightarrow> (case run_budget lms ops b1 of (outs, b2) \<Rightarrow> (out # outs, b2)))"
| "run_budget lms (Record d # ops) b =
     (case record_session_exec_duration lms d b of
        (out, b1) \<Rightarrow> (case run_budget lms ops b1 of (outs, b2) \<Rightarrow> (out # outs, b2)))"

definition admit_exec :: "budget_limits \<Rightarrow> exec_budget \<Rightarrow> exec_budget option" where
  "admit_exec lms b =
     (case reserve_session_exec_slot lms b of (Granted, b') \<Rightarrow> Some b' | _ \<Rightarrow> None)"

lemma admit_exec_Some:
  "admit_exec lms b = Some b' \<longleftrightarrow>
     budget_exceeded b = None \<and> (0 < max_exec_count lms \<longrightarrow> exec_count b < max_exec_count lms) \<and>
     b' = b\<lparr>exec_count := exec_count b + 1\<rparr>"
  by (auto simp: admit_exec_def reserve_session_exec_slot_def session_exec_count_breach_def
      split: option.splits)

text \<open>With a positive limit the exec slots are a counted resource.\<close>

interpretation exec_slots: counted_resource
  "admit_exec \<lparr>max_exec_count = Suc n, max_exec_seconds = s\<rparr>" exec_count "Suc n" for n s
  by unfold_locales (auto simp: admit_exec_Some)

lemma reserve_count:
  "reserve_session_exec_slot lms b = (out, b') \<Longrightarrow> 0 < max_exec_count lms \<Longrightarrow>
     exec_count b \<le> max_exec_count lms \<Longrightarrow>
     exec_count b' \<le> max_exec_count lms \<and>
     exec_count b' = exec_count b + (if out = Granted then 1 else 0)"
  by (auto simp: reserve_session_exec_slot_def session_exec_count_breach_def
      split: option.splits if_splits)

lemma record_count:
  "record_session_exec_duration lms d b = (out, b') \<Longrightarrow> exec_count b' = exec_count b"
  by (auto simp: record_session_exec_duration_def Let_def split: option.splits)

definition granted_reserves :: "budget_op list \<Rightarrow> budget_outcome list \<Rightarrow> nat" where
  "granted_reserves ops outs = length (filter (\<lambda>(op, out). op = Reserve \<and> out = Granted) (zip ops outs))"

lemma run_budget_count:
  "run_budget lms ops b = (outs, b') \<Longrightarrow> 0 < max_exec_count lms \<Longrightarrow>
     exec_count b \<le> max_exec_count lms \<Longrightarrow>
     exec_count b' \<le> max_exec_count lms \<and> exec_count b' = exec_count b + granted_reserves ops outs"
proof (induction ops arbitrary: b outs b')
  case (Cons op ops)
  show ?case
  proof (cases op)
    case Reserve
    obtain out b1 where step: "reserve_session_exec_slot lms b = (out, b1)"
      by (cases "reserve_session_exec_slot lms b")
    obtain outs' b2 where rest: "run_budget lms ops b1 = (outs', b2)"
      by (cases "run_budget lms ops b1")
    note rc = reserve_count [OF step Cons.prems(2,3)]
    then have "exec_count b2 \<le> max_exec_count lms \<and> exec_count b2 = exec_count b1 + granted_reserves ops outs'"
      using Cons.IH [OF rest] Cons.prems(2) by simp
    then show ?thesis
      using Cons.prems(1) Reserve step rest rc by (auto simp: granted_reserves_def)
  next
    case (Record d)
    obtain out b1 where step: "record_session_exec_duration lms d b = (out, b1)"
      by (cases "record_session_exec_duration lms d b")
    obtain outs' b2 where rest: "run_budget lms ops b1 = (outs', b2)"
      by (cases "run_budget lms ops b1")
    have "exec_count b2 \<le> max_exec_count lms \<and> exec_count b2 = exec_count b1 + granted_reserves ops outs'"
      using Cons.IH [OF rest] Cons.prems record_count [OF step] by simp
    then show ?thesis
      using Cons.prems(1) Record step rest record_count [OF step] by (auto simp: granted_reserves_def)
  qed
qed (simp add: granted_reserves_def)

lemma exceeded_sticky:
  "run_budget lms ops b = (outs, b') \<Longrightarrow> budget_exceeded b \<noteq> None \<Longrightarrow>
     budget_exceeded b' \<noteq> None \<and> granted_reserves ops outs = 0"
proof (induction ops arbitrary: b outs b')
  case (Cons op ops)
  show ?case
  proof (cases op)
    case Reserve
    obtain outs' b2 where rest: "run_budget lms ops b = (outs', b2)"
      by (cases "run_budget lms ops b")
    then show ?thesis
      using Cons.prems Reserve Cons.IH [OF rest]
      by (auto simp: reserve_session_exec_slot_def granted_reserves_def)
  next
    case (Record d)
    obtain out b1 where step: "record_session_exec_duration lms d b = (out, b1)"
      by (cases "record_session_exec_duration lms d b")
    obtain outs' b2 where rest: "run_budget lms ops b1 = (outs', b2)"
      by (cases "run_budget lms ops b1")
    have "budget_exceeded b1 \<noteq> None"
      using step Cons.prems(2) by (auto simp: record_session_exec_duration_def Let_def split: option.splits)
    then show ?thesis
      using Cons.prems(1) Record step rest Cons.IH [OF rest] by (auto simp: granted_reserves_def)
  qed
qed (simp add: granted_reserves_def)

section \<open>Secret environment variable names\<close>

definition upper_char :: "char \<Rightarrow> char" where
  "upper_char c = (if 97 \<le> char_code c \<and> char_code c \<le> 122 then char_of (char_code c - 32) else c)"

definition secret_env_denylist :: "string list" where
  "secret_env_denylist =
    [''PATH'', ''IFS'', ''ENV'', ''BASH_ENV'', ''BASH_FUNC'', ''LD_PRELOAD'', ''LD_LIBRARY_PATH'',
     ''LD_AUDIT'', ''DYLD_INSERT_LIBRARIES'', ''DYLD_LIBRARY_PATH'', ''DYLD_FRAMEWORK_PATH'',
     ''PYTHONSTARTUP'', ''PYTHONPATH'', ''PERL5OPT'', ''NODE_OPTIONS'', ''NODE_PATH'']"

definition env_name_start :: "char \<Rightarrow> bool" where
  "env_name_start c =
     (let n = char_code c in (65 \<le> n \<and> n \<le> 90) \<or> (97 \<le> n \<and> n \<le> 122) \<or> n = 95)"

definition env_name_continue :: "char \<Rightarrow> bool" where
  "env_name_continue c = (env_name_start c \<or> is_ascii_digit c)"

text \<open>\<open>re.match\<close> of \<open>^[A-Za-z_][A-Za-z0-9_]*$\<close>: the dollar also matches before a line feed
  at the end of the string.\<close>

fun name_tail_matches :: "string \<Rightarrow> bool" where
  "name_tail_matches [] = True"
| "name_tail_matches (c # s) =
     (if env_name_continue c then name_tail_matches s else c = CHR 0x0A \<and> s = [])"

fun secret_env_var_name_re :: "string \<Rightarrow> bool" where
  "secret_env_var_name_re [] = False"
| "secret_env_var_name_re (c # s) = (env_name_start c \<and> name_tail_matches s)"

definition validate_secret_env_var_name :: "string \<Rightarrow> bool" where
  "validate_secret_env_var_name name =
     (if \<not> secret_env_var_name_re name then False
      else map upper_char name \<notin> set secret_env_denylist)"

definition env_identifier :: "string \<Rightarrow> bool" where
  "env_identifier s = (s \<noteq> [] \<and> env_name_start (hd s) \<and> list_all env_name_continue s)"

lemma name_tail_matches_iff:
  "name_tail_matches s \<longleftrightarrow>
     list_all env_name_continue s \<or> (\<exists>t. s = t @ [CHR 0x0A] \<and> list_all env_name_continue t)"
proof (induction s)
  case (Cons c s)
  have "(\<exists>t. c # s = t @ [CHR 0x0A] \<and> list_all env_name_continue t) \<longleftrightarrow>
      (c = CHR 0x0A \<and> s = []) \<or>
      (env_name_continue c \<and> (\<exists>t. s = t @ [CHR 0x0A] \<and> list_all env_name_continue t))"
    by (auto simp: Cons_eq_append_conv)
  moreover have "\<not> env_name_continue (CHR 0x0A)"
    by (simp add: env_name_continue_def env_name_start_def is_ascii_digit_def)
  ultimately show ?case using Cons by auto
qed simp

section \<open>Sidecar authentication\<close>

datatype auth_outcome = PassThrough | Unconfigured503 | Unauthorized401

definition enforce_sidecar_auth ::
    "string list \<Rightarrow> string \<Rightarrow> string \<Rightarrow> string option \<Rightarrow> auth_outcome" where
  "enforce_sidecar_auth exempt_paths token path header =
     (if path \<in> set exempt_paths then PassThrough
      else if token = [] then Unconfigured503
      else let supplied = (case header of None \<Rightarrow> [] | Some h \<Rightarrow> h) in
        if supplied = [] \<or> supplied \<noteq> token then Unauthorized401 else PassThrough)"

section \<open>Properties\<close>

text \<open>The execution budget holds under any interleaving. Starting from a fresh session,
  however the routes' reserve and record steps interleave, the count never passes the
  limit, exactly the granted reservations are counted, and from the moment a breach is
  recorded no reservation is granted any more, until the next reset.\<close>

theorem exec_budget_holds:
  assumes "0 < max_exec_count lms"
    and "run_budget lms ops (reset_session_exec_budget b0) = (outs, b1)"
    and "run_budget lms ops' b1 = (outs', b2)"
  shows "granted_reserves ops outs \<le> max_exec_count lms \<and>
    exec_count b1 = granted_reserves ops outs \<and>
    (budget_exceeded b1 \<noteq> None \<longrightarrow> granted_reserves ops' outs' = 0 \<and> budget_exceeded b2 \<noteq> None)"
  using run_budget_count [OF assms(2,1)] exceeded_sticky [OF assms(3)]
  by (simp add: reset_session_exec_budget_def)

lemma exec_budget_holds_witness:
  "granted_reserves [Reserve, Record 2, Reserve, Reserve]
     (fst (run_budget \<lparr>max_exec_count = 2, max_exec_seconds = 10\<rparr> [Reserve, Record 2, Reserve, Reserve]
        \<lparr>exec_count = 0, exec_seconds = 0, budget_exceeded = None\<rparr>)) = 2 \<and>
   granted_reserves [Reserve] [Refused (CountBreach 2 2) False] = 0"
  using exec_budget_holds [of "\<lparr>max_exec_count = 2, max_exec_seconds = 10\<rparr>"
      "[Reserve, Record 2, Reserve, Reserve]" "\<lparr>exec_count = 7, exec_seconds = 1, budget_exceeded = None\<rparr>"
      "[Granted, Granted, Granted, Refused (CountBreach 2 2) True]"
      "\<lparr>exec_count = 2, exec_seconds = 2, budget_exceeded = Some (CountBreach 2 2)\<rparr>"
      "[Reserve]" "[Refused (CountBreach 2 2) False]"
      "\<lparr>exec_count = 2, exec_seconds = 2, budget_exceeded = Some (CountBreach 2 2)\<rparr>"]
  by (simp add: reset_session_exec_budget_def reserve_session_exec_slot_def
      record_session_exec_duration_def session_exec_count_breach_def session_exec_seconds_breach_def
      granted_reserves_def)

text \<open>A secret's target name is accepted exactly if it is an identifier outside the
  deny-list, or such an identifier followed by one line feed, which the pattern's dollar
  lets through: the intended check is the same statement without the second case.\<close>

theorem secret_env_name_iff:
  "validate_secret_env_var_name name \<longleftrightarrow>
     (env_identifier name \<or> (\<exists>t. name = t @ [CHR 0x0A] \<and> env_identifier t)) \<and>
     map upper_char name \<notin> set secret_env_denylist"
proof -
  have newline: "\<not> env_name_start (CHR 0x0A)"
    by (simp add: env_name_start_def)
  have "secret_env_var_name_re name \<longleftrightarrow>
      env_identifier name \<or> (\<exists>t. name = t @ [CHR 0x0A] \<and> env_identifier t)"
  proof (cases name)
    case (Cons c s)
    show ?thesis
      using newline
      by (auto simp: Cons name_tail_matches_iff env_identifier_def env_name_continue_def
          Cons_eq_append_conv)
  qed (simp add: env_identifier_def)
  then show ?thesis by (simp add: validate_secret_env_var_name_def)
qed

text \<open>The sidecar fails closed. A request outside the exempt paths passes only with a
  configured token and a header equal to it; with no token configured every such request
  is refused.\<close>

theorem sidecar_auth_fails_closed:
  "enforce_sidecar_auth exempt token path header = PassThrough \<longleftrightarrow>
     path \<in> set exempt \<or> (token \<noteq> [] \<and> header = Some token)"
  by (auto simp: enforce_sidecar_auth_def Let_def split: option.splits)

end
