(* ===== verification/Scratch.thy ===== *)
theory Scratch
  imports Admission "HOL-Library.Char_ord" "HOL-Library.List_Lexorder"
begin

text \<open>
  \<open>sidecar/sidecar_scratch.py\<close>: the bounded key/value store an agent keeps its notes in.
  The store is an insertion-ordered dictionary; errors are the HTTP statuses of the
  routes. Over Latin-1, a character below 128 takes one byte in UTF-8 and another two.
\<close>

section \<open>The store\<close>

type_synonym scratch = "(string, string) dict"

definition scratch_max_keys :: nat where "scratch_max_keys = 256"
definition scratch_max_key_length :: nat where "scratch_max_key_length = 256"
definition scratch_max_value_bytes :: nat where "scratch_max_value_bytes = 64 * 1024"
definition scratch_max_total_bytes :: nat where "scratch_max_total_bytes = 1024 * 1024"

definition utf8_length :: "string \<Rightarrow> nat" where
  "utf8_length s = sum_list (map (\<lambda>c. if char_code c < 128 then 1 else 2) s)"

definition total_bytes :: "scratch \<Rightarrow> nat" where
  "total_bytes st = sum_list (map (\<lambda>(k, v). utf8_length k + utf8_length v) st)"

definition clear_scratch_memory :: "scratch \<Rightarrow> nat \<times> scratch" where
  "clear_scratch_memory st = (length st, [])"

datatype scratch_error = EmptyKey400 | KeyTooLong400 | ValueTooLarge413 | StoreFull409 | TotalTooLarge413

record set_response =
  ssr_key :: string
  ssr_bytes :: nat
  ssr_keys :: nat

definition stored_bytes :: "scratch \<Rightarrow> string \<Rightarrow> nat" where
  "stored_bytes st key = utf8_length (case dict_get st key of None \<Rightarrow> [] | Some v \<Rightarrow> v)"

definition projected_bytes :: "scratch \<Rightarrow> string \<Rightarrow> nat \<Rightarrow> int" where
  "projected_bytes st key value_bytes =
     int (total_bytes st) - int (stored_bytes st key) + int value_bytes +
     (if dict_get st key = None then int (utf8_length key) else 0)"

definition scratch_set :: "string \<Rightarrow> string \<Rightarrow> scratch \<Rightarrow> scratch_error + (set_response \<times> scratch)" where
  "scratch_set key value st =
     (if py_strip key = [] then Inl EmptyKey400
      else if scratch_max_key_length < length key then Inl KeyTooLong400
      else let value_bytes = utf8_length value in
        if scratch_max_value_bytes < value_bytes then Inl ValueTooLarge413
        else if dict_get st key = None \<and> scratch_max_keys \<le> length st then Inl StoreFull409
        else if int scratch_max_total_bytes < projected_bytes st key value_bytes
        then Inl TotalTooLarge413
        else let st' = dict_put key value st in
          Inr (\<lparr>ssr_key = key, ssr_bytes = value_bytes, ssr_keys = length st'\<rparr>, st'))"

definition scratch_get :: "string \<Rightarrow> scratch \<Rightarrow> string option \<times> bool" where
  "scratch_get key st =
     (case dict_get st key of Some v \<Rightarrow> (Some v, True) | None \<Rightarrow> (None, False))"

definition scratch_delete :: "string \<Rightarrow> scratch \<Rightarrow> (bool \<times> nat) \<times> scratch" where
  "scratch_delete key st =
     ((dict_get st key \<noteq> None, length (dict_del key st)), dict_del key st)"

record scratch_listing =
  sl_entries :: "(string \<times> nat) list"
  sl_keys :: nat
  sl_total :: nat

definition scratch_list :: "scratch \<Rightarrow> scratch_listing" where
  "scratch_list st =
     (let entries = map (\<lambda>k. (k, utf8_length (case dict_get st k of None \<Rightarrow> [] | Some v \<Rightarrow> v)))
                      (sort (dict_keys st)) in
      \<lparr>sl_entries = entries, sl_keys = length entries, sl_total = total_bytes st\<rparr>)"

section \<open>The bounds invariant\<close>

definition entry_ok :: "string \<times> string \<Rightarrow> bool" where
  "entry_ok kv = (py_strip (fst kv) \<noteq> [] \<and> length (fst kv) \<le> scratch_max_key_length \<and>
     utf8_length (snd kv) \<le> scratch_max_value_bytes)"

definition scratch_ok :: "scratch \<Rightarrow> bool" where
  "scratch_ok st = (dict_ok st \<and> length st \<le> scratch_max_keys \<and>
     total_bytes st \<le> scratch_max_total_bytes \<and> list_all entry_ok st)"

lemma total_bytes_put:
  "dict_ok st \<Longrightarrow>
     int (total_bytes (dict_put k v st)) = projected_bytes st k (utf8_length v)"
proof (induction st)
  case Nil
  then show ?case by (simp add: total_bytes_def projected_bytes_def stored_bytes_def utf8_length_def)
next
  case (Cons kv st)
  show ?case
  proof (cases "fst kv = k")
    case True
    then show ?thesis
      by (cases kv) (simp add: total_bytes_def projected_bytes_def stored_bytes_def)
  next
    case False
    then show ?thesis
      using Cons
      by (cases kv) (auto simp: total_bytes_def projected_bytes_def stored_bytes_def)
  qed
qed

lemma total_bytes_del: "total_bytes (dict_del k st) \<le> total_bytes st"
  by (induction st) (auto simp: total_bytes_def)

lemma set_dict_del: "set (dict_del k st) \<subseteq> set st"
  by (induction st) auto

lemma scratch_set_Inr:
  assumes "scratch_set k v st = Inr (resp, st')"
  shows "st' = dict_put k v st" "entry_ok (k, v)"
    "dict_get st k = None \<Longrightarrow> length st < scratch_max_keys"
    "projected_bytes st k (utf8_length v) \<le> int scratch_max_total_bytes"
  using assms by (auto simp: scratch_set_def Let_def entry_ok_def split: if_splits)

lemma scratch_set_ok:
  assumes "scratch_ok st" and "scratch_set k v st = Inr (resp, st')"
  shows "scratch_ok st'"
proof -
  note set = scratch_set_Inr [OF assms(2)]
  have ok: "dict_ok st" "length st \<le> scratch_max_keys" "list_all entry_ok st"
    using assms(1) by (auto simp: scratch_ok_def)
  have "length (dict_put k v st) \<le> scratch_max_keys"
    using set(3) ok(2) by (auto simp: length_dict_put map_of_eq_None_iff)
  moreover have "total_bytes (dict_put k v st) \<le> scratch_max_total_bytes"
    using total_bytes_put [OF ok(1), of k v] set(4) by linarith
  moreover have "list_all entry_ok (dict_put k v st)"
    using dict_put_preserves_set [of k v st] ok(3) set(2) by (auto simp: list_all_iff)
  ultimately show ?thesis using ok set(1) by (simp add: scratch_ok_def)
qed

lemma scratch_delete_ok: "scratch_ok st \<Longrightarrow> scratch_ok (snd (scratch_delete k st))"
  using total_bytes_del [of k st] set_dict_del [of k st] length_dict_del [of k st]
  by (auto simp: scratch_ok_def scratch_delete_def list_all_iff)

text \<open>The keys are a capped resource: a set of a new key is an admission.\<close>

definition admit_key :: "string \<Rightarrow> string \<Rightarrow> scratch \<Rightarrow> scratch option" where
  "admit_key k v st =
     (if dict_get st k \<noteq> None then None
      else case scratch_set k v st of Inl e \<Rightarrow> None | Inr (resp, st') \<Rightarrow> Some st')"

interpretation scratch_keys: counted_resource "admit_key k v" length scratch_max_keys for k v
proof
  fix st st' assume admit: "admit_key k v st = Some st'"
  then obtain resp where set: "scratch_set k v st = Inr (resp, st')" and new: "dict_get st k = None"
    by (auto simp: admit_key_def split: if_splits sum.splits)
  then show "length st < scratch_max_keys" using scratch_set_Inr(3) by blast
  show "length st' = Suc (length st)" "length st' \<le> Suc (length st)"
    using scratch_set_Inr(1) [OF set] new by (auto simp: length_dict_put map_of_eq_None_iff)
qed

datatype scratch_op = SetOp string string | DeleteOp string | ClearOp

fun run_scratch :: "scratch_op list \<Rightarrow> scratch \<Rightarrow> scratch" where
  "run_scratch [] st = st"
| "run_scratch (SetOp k v # ops) st =
     run_scratch ops (case scratch_set k v st of Inl e \<Rightarrow> st | Inr (resp, st') \<Rightarrow> st')"
| "run_scratch (DeleteOp k # ops) st = run_scratch ops (snd (scratch_delete k st))"
| "run_scratch (ClearOp # ops) st = run_scratch ops (snd (clear_scratch_memory st))"

lemma run_scratch_ok: "scratch_ok st \<Longrightarrow> scratch_ok (run_scratch ops st)"
proof (induction ops st rule: run_scratch.induct)
  case (2 k v ops st)
  then show ?case by (cases "scratch_set k v st") (auto dest: scratch_set_ok)
next
  case (3 k ops st)
  then show ?case by (simp add: scratch_delete_ok)
next
  case (4 ops st)
  then show ?case by (simp add: clear_scratch_memory_def scratch_ok_def total_bytes_def)
qed simp

section \<open>Properties\<close>

text \<open>C7: The scratch store stays bounded. Whatever sequence of set, delete and clear
  requests arrives, the store never holds more than 256 keys, a blank or over-long key, a
  value over 64 KiB or more than 1 MiB in keys and values together.\<close>

theorem scratch_bounded:
  "scratch_ok (run_scratch ops [])"
  by (rule run_scratch_ok) (simp add: scratch_ok_def total_bytes_def)

text \<open>Set is exact. A set succeeds exactly if the key is neither blank nor too long, the
  value is not too large, there is a free key or the key is there, and the store after the
  write is within the total; it then changes this key only and reports the new sizes.\<close>

theorem scratch_set_exact:
  assumes "scratch_ok st"
  shows "(scratch_set k v st = Inr (resp, st') \<longleftrightarrow>
      entry_ok (k, v) \<and> length (dict_put k v st) \<le> scratch_max_keys \<and>
      total_bytes (dict_put k v st) \<le> scratch_max_total_bytes \<and> st' = dict_put k v st \<and>
      resp = \<lparr>ssr_key = k, ssr_bytes = utf8_length v, ssr_keys = length (dict_put k v st)\<rparr>) \<and>
    scratch_get k' (dict_put k v st) = (if k' = k then (Some v, True) else scratch_get k' st)"
proof
  have ok: "dict_ok st" "length st \<le> scratch_max_keys" using assms by (auto simp: scratch_ok_def)
  have total: "int (total_bytes (dict_put k v st)) = projected_bytes st k (utf8_length v)"
    using ok(1) by (rule total_bytes_put)
  have keys: "length (dict_put k v st) \<le> scratch_max_keys \<longleftrightarrow>
      \<not> (dict_get st k = None \<and> scratch_max_keys \<le> length st)"
    using ok(2) by (auto simp: length_dict_put map_of_eq_None_iff)
  have fits: "total_bytes (dict_put k v st) \<le> scratch_max_total_bytes \<longleftrightarrow>
      \<not> int scratch_max_total_bytes < projected_bytes st k (utf8_length v)"
    using total by linarith
  show "scratch_set k v st = Inr (resp, st') \<longleftrightarrow>
      entry_ok (k, v) \<and> length (dict_put k v st) \<le> scratch_max_keys \<and>
      total_bytes (dict_put k v st) \<le> scratch_max_total_bytes \<and> st' = dict_put k v st \<and>
      resp = \<lparr>ssr_key = k, ssr_bytes = utf8_length v, ssr_keys = length (dict_put k v st)\<rparr>"
    unfolding keys fits by (auto simp: scratch_set_def Let_def entry_ok_def)
  show "scratch_get k' (dict_put k v st) = (if k' = k then (Some v, True) else scratch_get k' st)"
    by (simp add: scratch_get_def dict_simps)
qed

lemma scratch_set_exact_witness:
  "scratch_set ''todo'' ''x'' [(''plan'', ''y'')] =
     Inr (\<lparr>ssr_key = ''todo'', ssr_bytes = 1, ssr_keys = 2\<rparr>, [(''plan'', ''y''), (''todo'', ''x'')])"
  using scratch_set_exact [of "[(''plan'', ''y'')]" "''todo''" "''x''"
      "\<lparr>ssr_key = ''todo'', ssr_bytes = 1, ssr_keys = 2\<rparr>" "[(''plan'', ''y''), (''todo'', ''x'')]"]
  by (simp add: scratch_ok_def entry_ok_def total_bytes_def utf8_length_def scratch_max_keys_def
      scratch_max_total_bytes_def scratch_max_value_bytes_def scratch_max_key_length_def
      py_strip_def py_isspace_def)

end
