(* ===== verification/Processes.thy ===== *)
theory Processes
  imports ExecBudget "HOL-Library.Word"
begin

text \<open>
  \<open>sidecar/sidecar_processes.py\<close>: background processes that outlive a request. The
  registry of handles and the map of exposed ports are the state; the operating system
  (spawning, process exit, process groups) is a parameter of each operation. What the
  code does under one lock is one operation here; what it does in several critical
  sections is several operations, so that they can interleave.
\<close>

section \<open>Handles and their output buffer\<close>

type_synonym byte = "8 word"

datatype proc_status = Running | Exited | Stopped | Killed

record handle =
  h_command :: string
  h_description :: "string option"
  h_context :: "string option"
  h_max_runtime :: int
  h_port :: "int option"
  h_status :: proc_status
  h_exit :: "int option"
  h_buffer :: "byte list"
  h_start :: nat
  h_total :: nat
  h_returncode :: "int option"
  h_stdin :: bool

definition append_output :: "nat \<Rightarrow> byte list \<Rightarrow> handle \<Rightarrow> handle" where
  "append_output cap chunk h =
     (let buffer = h_buffer h @ chunk;
          h1 = h\<lparr>h_buffer := buffer, h_total := h_total h + length chunk\<rparr> in
      if cap < length buffer
      then let dropped = length buffer - cap in
        h1\<lparr>h_buffer := drop dropped buffer, h_start := h_start h1 + dropped\<rparr>
      else h1)"

definition read_since :: "int \<Rightarrow> handle \<Rightarrow> byte list \<times> bool" where
  "read_since since_offset h =
     (let off = nat (max 0 since_offset) in
      if off < h_start h then (h_buffer h, True)
      else (drop (off - h_start h) (h_buffer h), False))"

section \<open>The registry\<close>

record proc_config =
  max_background :: nat
  runtime_ceiling :: int
  sidecar_port :: int
  preview_port_min :: int
  preview_port_max :: int
  output_cap :: nat

record proc_state =
  registry :: "(string, handle) dict"
  exposed_ports :: "(int, string) dict"

record start_request =
  sr_command :: string
  sr_description :: "string option"
  sr_context :: "string option"
  sr_max_runtime :: int
  sr_port :: "int option"

datatype start_error =
    BudgetExceeded403 breach
  | BadRuntime400
  | BadPort400
  | TooMany429 nat
  | PortTaken409
  | SpawnFailed500

definition running_count :: "proc_state \<Rightarrow> nat" where
  "running_count s = length (filter (\<lambda>(pid, h). h_status h = Running) (registry s))"

definition new_handle :: "start_request \<Rightarrow> handle" where
  "new_handle req =
     \<lparr>h_command = sr_command req, h_description = sr_description req, h_context = sr_context req,
      h_max_runtime = sr_max_runtime req, h_port = sr_port req, h_status = Running,
      h_exit = None, h_buffer = [], h_start = 0, h_total = 0, h_returncode = None, h_stdin = True\<rparr>"

text \<open>The part of \<open>/process/start\<close> under the registry lock; \<open>pid\<close> is the identifier
  made from a fresh UUID and \<open>spawned\<close> whether the spawn succeeded.\<close>

definition start_locked ::
    "proc_config \<Rightarrow> start_request \<Rightarrow> string \<Rightarrow> bool \<Rightarrow> proc_state \<Rightarrow> start_error + proc_state" where
  "start_locked cfg req pid spawned s =
     (let active = running_count s in
      if max_background cfg \<le> active then Inl (TooMany429 active)
      else if (case sr_port req of None \<Rightarrow> False | Some p \<Rightarrow> dict_get (exposed_ports s) p \<noteq> None)
      then Inl PortTaken409
      else if \<not> spawned then Inl SpawnFailed500
      else Inr (s\<lparr>registry := dict_put pid (new_handle req) (registry s),
                 exposed_ports := (case sr_port req of
                     None \<Rightarrow> exposed_ports s
                   | Some p \<Rightarrow> dict_put p pid (exposed_ports s))\<rparr>))"

definition bad_port :: "proc_config \<Rightarrow> int \<Rightarrow> bool" where
  "bad_port cfg p =
     (p = sidecar_port cfg \<or> \<not> (preview_port_min cfg \<le> p \<and> p \<le> preview_port_max cfg))"

definition process_start ::
    "budget_limits \<Rightarrow> proc_config \<Rightarrow> start_request \<Rightarrow> string \<Rightarrow> bool \<Rightarrow> exec_budget \<Rightarrow> proc_state \<Rightarrow>
     (start_error + proc_state) \<times> exec_budget" where
  "process_start lms cfg req pid spawned b s =
     (case reserve_session_exec_slot lms b of
        (Refused br torn, b') \<Rightarrow> (Inl (BudgetExceeded403 br), b')
      | (Granted, b') \<Rightarrow>
          (if sr_max_runtime req \<le> 0 \<or> runtime_ceiling cfg < sr_max_runtime req
           then (Inl BadRuntime400, b')
           else if (case sr_port req of None \<Rightarrow> False | Some p \<Rightarrow> bad_port cfg p)
           then (Inl BadPort400, b')
           else (start_locked cfg req pid spawned s, b')))"

definition update_handle :: "string \<Rightarrow> (handle \<Rightarrow> handle) \<Rightarrow> proc_state \<Rightarrow> proc_state" where
  "update_handle pid f s =
     (case dict_get (registry s) pid of
        None \<Rightarrow> s
      | Some h \<Rightarrow> s\<lparr>registry := dict_put pid (f h) (registry s)\<rparr>)"

text \<open>The end of the reader loop, under the handle's lock.\<close>

definition reader_finish :: "int \<Rightarrow> handle \<Rightarrow> handle" where
  "reader_finish rc h =
     h\<lparr>h_status := (if h_status h = Running then Exited else h_status h), h_exit := Some rc\<rparr>"

definition watchdog_fire :: "handle \<Rightarrow> handle" where
  "watchdog_fire h = (if h_returncode h = None then h\<lparr>h_status := Killed\<rparr> else h)"

text \<open>\<open>_stop_process\<close>: the status is set before the signals, the exit code after the wait.\<close>

definition stop_mark :: "handle \<Rightarrow> handle" where
  "stop_mark h = (if h_status h = Running then h\<lparr>h_status := Stopped\<rparr> else h)"

definition stop_finish :: "handle \<Rightarrow> handle" where
  "stop_finish h = h\<lparr>h_exit := h_returncode h\<rparr>"

text \<open>\<open>_release_exposed_port\<close> for a handle with the given port and identifier.\<close>

definition release_exposed_port :: "int option \<Rightarrow> string \<Rightarrow> proc_state \<Rightarrow> proc_state" where
  "release_exposed_port port pid s =
     (case port of
        None \<Rightarrow> s
      | Some p \<Rightarrow>
          (if dict_get (exposed_ports s) p = Some pid
           then s\<lparr>exposed_ports := dict_del p (exposed_ports s)\<rparr> else s))"

definition kill_all_processes :: "proc_state \<Rightarrow> nat \<times> proc_state" where
  "kill_all_processes s =
     (length (filter (\<lambda>(pid, h). h_returncode h = None) (registry s)),
      s\<lparr>registry := [], exposed_ports := []\<rparr>)"

section \<open>The routes\<close>

datatype route_error = NotFound404 | NotRunning409 | WriteFailed500

record output_response =
  or_status :: proc_status
  or_chunk :: "byte list"
  or_next :: nat
  or_truncated :: bool
  or_exit :: "int option"

definition process_output :: "string \<Rightarrow> int \<Rightarrow> proc_state \<Rightarrow> route_error + output_response" where
  "process_output pid since_offset s =
     (case dict_get (registry s) pid of
        None \<Rightarrow> Inl NotFound404
      | Some h \<Rightarrow>
          (case read_since since_offset h of
             (chunk, truncated) \<Rightarrow>
               Inr \<lparr>or_status = h_status h, or_chunk = chunk, or_next = h_total h,
                    or_truncated = truncated, or_exit = h_exit h\<rparr>))"

definition process_input :: "string \<Rightarrow> byte list \<Rightarrow> bool \<Rightarrow> proc_state \<Rightarrow> route_error + nat" where
  "process_input pid payload write_ok s =
     (case dict_get (registry s) pid of
        None \<Rightarrow> Inl NotFound404
      | Some h \<Rightarrow>
          (if \<not> h_stdin h \<or> h_returncode h \<noteq> None then Inl NotRunning409
           else if \<not> write_ok then Inl WriteFailed500
           else Inr (length payload)))"

record process_info =
  pi_id :: string
  pi_command :: string
  pi_context :: "string option"
  pi_status :: proc_status
  pi_exit :: "int option"
  pi_port :: "int option"

definition info_of :: "string \<times> handle \<Rightarrow> process_info" where
  "info_of e =
     (case e of (pid, h) \<Rightarrow>
        \<lparr>pi_id = pid, pi_command = h_command h, pi_context = h_context h, pi_status = h_status h,
         pi_exit = h_exit h, pi_port = h_port h\<rparr>)"

definition process_list :: "proc_state \<Rightarrow> process_info list" where
  "process_list s = map info_of (registry s)"

definition context_key :: "handle \<Rightarrow> string" where
  "context_key h = (case h_context h of None \<Rightarrow> ''unscoped'' | Some c \<Rightarrow> (if c = [] then ''unscoped'' else c))"

fun group_processes ::
    "string option \<Rightarrow> (string, handle) dict \<Rightarrow> (string, process_info list) dict \<Rightarrow>
     (string, process_info list) dict" where
  "group_processes wanted [] grouped = grouped"
| "group_processes wanted ((pid, h) # rest) grouped =
     (if wanted \<noteq> None \<and> h_context h \<noteq> wanted then group_processes wanted rest grouped
      else group_processes wanted rest
        (dict_put (context_key h)
           ((case dict_get grouped (context_key h) of None \<Rightarrow> [] | Some is \<Rightarrow> is) @ [info_of (pid, h)])
           grouped))"

definition process_tree :: "string option \<Rightarrow> proc_state \<Rightarrow> (string, process_info list) dict" where
  "process_tree wanted s = group_processes wanted (registry s) []"

section \<open>Signals\<close>

datatype killpg_result = GroupSignalled | GroupGone | GroupForbidden

datatype signal_action = SignalProcess int | SignalGroup int

text \<open>The signals \<open>_signal_process_group\<close> sends, given the process groups of the sidecar
  and of the process (\<^const>\<open>None\<close> if it cannot be resolved) and what \<open>killpg\<close> answers.\<close>

definition signal_process_group ::
    "int \<Rightarrow> int option \<Rightarrow> killpg_result \<Rightarrow> int \<Rightarrow> signal_action list" where
  "signal_process_group my_pgid proc_pgid answer pid =
     (case proc_pgid of
        None \<Rightarrow> []
      | Some pgid \<Rightarrow>
          (if pgid = my_pgid then [SignalProcess pid]
           else case answer of
             GroupSignalled \<Rightarrow> [SignalGroup pgid]
           | GroupGone \<Rightarrow> []
           | GroupForbidden \<Rightarrow> [SignalProcess pid]))"

text \<open>The startup sweep over the processes of \<open>/proc\<close>: which carry the marker, their
  groups, and the answers of \<open>killpg\<close>.\<close>

fun sweep_orphans ::
    "int \<Rightarrow> (int \<Rightarrow> bool) \<Rightarrow> (int \<Rightarrow> int option) \<Rightarrow> (int \<Rightarrow> killpg_result) \<Rightarrow> int list \<Rightarrow>
     int list \<Rightarrow> int list" where
  "sweep_orphans my_pid marked pgid_of answer [] killed = killed"
| "sweep_orphans my_pid marked pgid_of answer (pid # pids) killed =
     (if pid = my_pid \<or> \<not> marked pid then sweep_orphans my_pid marked pgid_of answer pids killed
      else case pgid_of pid of
        None \<Rightarrow> sweep_orphans my_pid marked pgid_of answer pids killed
      | Some pgid \<Rightarrow>
          (if pgid \<in> set killed \<or> answer pgid \<noteq> GroupSignalled
           then sweep_orphans my_pid marked pgid_of answer pids killed
           else sweep_orphans my_pid marked pgid_of answer pids (killed @ [pgid])))"

section \<open>Previews\<close>

datatype preview_target = Preview404 | Preview502 | ProxyTo string handle

definition preview_proxy :: "int \<Rightarrow> proc_state \<Rightarrow> preview_target" where
  "preview_proxy port s =
     (case dict_get (exposed_ports s) port of
        None \<Rightarrow> Preview404
      | Some pid \<Rightarrow>
          (case dict_get (registry s) pid of
             None \<Rightarrow> Preview404
           | Some h \<Rightarrow> (if h_status h \<noteq> Running then Preview502 else ProxyTo pid h)))"

definition filtered_proxy_headers ::
    "string list \<Rightarrow> string \<Rightarrow> (string, string) dict \<Rightarrow> (string, string) dict" where
  "filtered_proxy_headers hop_by_hop auth_header raw_headers =
     filter (\<lambda>(k, v). py_lower k \<notin> set hop_by_hop \<and> py_lower k \<noteq> py_lower auth_header) raw_headers"

text \<open>The streamed chunks, each with the clock reading after it was passed on. A limit of
  zero means no limit on the number of bytes.\<close>

fun stream_upstream_body :: "nat \<Rightarrow> real \<Rightarrow> nat \<Rightarrow> (byte list \<times> real) list \<Rightarrow> byte list list" where
  "stream_upstream_body max_bytes deadline sent [] = []"
| "stream_upstream_body max_bytes deadline sent ((chunk, now) # rest) =
     (if 0 < max_bytes \<and> max_bytes < sent + length chunk
      then (if 0 < max_bytes - sent then [take (max_bytes - sent) chunk] else [])
      else chunk # (if deadline < now then []
                    else stream_upstream_body max_bytes deadline (sent + length chunk) rest))"

end
