(* ===== verification/ProcessSafety.thy ===== *)
theory ProcessSafety
  imports Processes
begin

text \<open>
  Invariants of the process registry over all interleavings of its operations, the
  contract of the output buffer, and what previews and signals can reach.
\<close>

declare map_of_eq_Some_iff [simp del] and Some_eq_map_of_iff [simp del]

section \<open>The registry as a transition system\<close>

text \<open>A started process gets an identifier that no handle of the registry has: it is made
  from a fresh UUID. A handle that has left the registry can still release a port.\<close>

inductive proc_step :: "proc_config \<Rightarrow> proc_state \<Rightarrow> proc_state \<Rightarrow> bool" for cfg where
  step_start: "start_locked cfg req pid True s = Inr s' \<Longrightarrow> dict_get (registry s) pid = None \<Longrightarrow>
    proc_step cfg s s'"
| step_output: "proc_step cfg s (update_handle pid (append_output (output_cap cfg) chunk) s)"
| step_exit: "proc_step cfg s (update_handle pid (\<lambda>h. h\<lparr>h_returncode := Some rc\<rparr>) s)"
| step_reader: "proc_step cfg s (update_handle pid (reader_finish rc) s)"
| step_watchdog: "proc_step cfg s (update_handle pid watchdog_fire s)"
| step_stop_mark: "proc_step cfg s (update_handle pid stop_mark s)"
| step_stop_finish: "proc_step cfg s (update_handle pid stop_finish s)"
| step_release: "proc_step cfg s (release_exposed_port port pid s)"
| step_kill_all: "proc_step cfg s (snd (kill_all_processes s))"

inductive proc_reachable :: "proc_config \<Rightarrow> proc_state \<Rightarrow> bool" for cfg where
  reach_init: "proc_reachable cfg \<lparr>registry = [], exposed_ports = []\<rparr>"
| reach_step: "proc_reachable cfg s \<Longrightarrow> proc_step cfg s s' \<Longrightarrow> proc_reachable cfg s'"

inductive_cases proc_stepE: "proc_step cfg s s'"

definition buffer_ok :: "nat \<Rightarrow> handle \<Rightarrow> bool" where
  "buffer_ok cap h = (length (h_buffer h) \<le> cap \<and> h_start h + length (h_buffer h) = h_total h)"

definition port_ok :: "proc_state \<Rightarrow> int \<Rightarrow> string \<Rightarrow> bool" where
  "port_ok s p pid = (\<exists>h. dict_get (registry s) pid = Some h \<and> h_port h = Some p)"

definition proc_ok :: "proc_config \<Rightarrow> proc_state \<Rightarrow> bool" where
  "proc_ok cfg s =
     (dict_ok (registry s) \<and> dict_ok (exposed_ports s) \<and> running_count s \<le> max_background cfg \<and>
      (\<forall>pid h. dict_get (registry s) pid = Some h \<longrightarrow> buffer_ok (output_cap cfg) h) \<and>
      (\<forall>p pid. dict_get (exposed_ports s) p = Some pid \<longrightarrow> port_ok s p pid))"

text \<open>Handle updates that keep the port, never start a process and keep the buffer sound.\<close>

definition benign :: "nat \<Rightarrow> (handle \<Rightarrow> handle) \<Rightarrow> bool" where
  "benign cap f =
     (\<forall>h. h_port (f h) = h_port h \<and> (h_status (f h) = Running \<longrightarrow> h_status h = Running) \<and>
          (buffer_ok cap h \<longrightarrow> buffer_ok cap (f h)))"

lemma append_output_buffer: "buffer_ok cap h \<Longrightarrow> buffer_ok cap (append_output cap chunk h)"
  by (auto simp: append_output_def buffer_ok_def Let_def)

lemma benign_ops:
  "benign cap (append_output cap chunk)" "benign cap (\<lambda>h. h\<lparr>h_returncode := Some rc\<rparr>)"
  "benign cap (reader_finish rc)" "benign cap watchdog_fire" "benign cap stop_mark"
  "benign cap stop_finish"
  by (auto simp: benign_def append_output_buffer)
     (auto simp: append_output_def buffer_ok_def reader_finish_def watchdog_fire_def stop_mark_def
       stop_finish_def Let_def split: if_splits)

lemma running_count_put:
  assumes "dict_get reg pid = Some h" and "h_status h' = Running \<longrightarrow> h_status h = Running"
  shows "length (filter (\<lambda>(p, h). h_status h = Running) (dict_put pid h' reg))
    \<le> length (filter (\<lambda>(p, h). h_status h = Running) reg)"
  using assms by (induction reg) (auto split: if_splits)

lemma running_count_new:
  "dict_get reg pid = None \<Longrightarrow>
     length (filter (\<lambda>(p, h). h_status h = Running) (dict_put pid h' reg))
     \<le> Suc (length (filter (\<lambda>(p, h). h_status h = Running) reg))"
  by (induction reg) (auto split: if_splits)

lemma update_handle_ok:
  assumes "proc_ok cfg s" and "benign (output_cap cfg) f"
  shows "proc_ok cfg (update_handle pid f s)"
proof (cases "dict_get (registry s) pid")
  case (Some h)
  have "running_count (update_handle pid f s) \<le> running_count s"
    using running_count_put [OF Some] assms(2) Some
    by (simp add: running_count_def update_handle_def benign_def)
  moreover have "port_ok (update_handle pid f s) p q" if "port_ok s p q" for p q
    using that assms(2) Some by (auto simp: port_ok_def update_handle_def benign_def dict_simps)
  ultimately show ?thesis
    using assms Some
    by (auto simp: proc_ok_def update_handle_def benign_def dict_simps split: if_splits)
qed (use assms in \<open>simp add: update_handle_def\<close>)

lemma start_locked_Inr:
  assumes "start_locked cfg req pid spawned s = Inr s'"
  shows "running_count s < max_background cfg"
    "s' = s\<lparr>registry := dict_put pid (new_handle req) (registry s),
            exposed_ports := (case sr_port req of None \<Rightarrow> exposed_ports s
              | Some p \<Rightarrow> dict_put p pid (exposed_ports s))\<rparr>"
    "sr_port req = Some p \<Longrightarrow> dict_get (exposed_ports s) p = None" "spawned"
  using assms by (auto simp: start_locked_def Let_def split: if_splits option.splits)

lemma start_locked_ok:
  assumes "proc_ok cfg s" and "start_locked cfg req pid True s = Inr s'"
    and "dict_get (registry s) pid = None"
  shows "proc_ok cfg s'"
proof -
  note start = start_locked_Inr [OF assms(2)]
  have count: "running_count s' \<le> max_background cfg"
    using running_count_new [OF assms(3), of "new_handle req"] start(1)
    by (simp add: start(2) running_count_def)
  have ports: "port_ok s' p q" if "port_ok s p q" for p q
    using that assms(3) by (auto simp: port_ok_def start(2) dict_simps)
  have new: "port_ok s' p pid" if "sr_port req = Some p" for p
    using that by (simp add: port_ok_def start(2) dict_simps new_handle_def)
  have buf: "buffer_ok (output_cap cfg) (new_handle req)"
    by (simp add: buffer_ok_def new_handle_def)
  have "dict_ok (registry s')" "dict_ok (exposed_ports s')"
    using assms(1) by (auto simp: start(2) proc_ok_def split: option.splits)
  moreover have "buffer_ok (output_cap cfg) h" if "dict_get (registry s') q = Some h" for q h
    using that assms(1) buf by (auto simp: start(2) proc_ok_def dict_simps split: if_splits)
  moreover have "port_ok s' p q" if "dict_get (exposed_ports s') p = Some q" for p q
    using that assms(1) ports new
    by (auto simp: start(2) proc_ok_def dict_simps split: option.splits if_splits)
  ultimately show ?thesis using count by (simp add: proc_ok_def)
qed

lemma release_ok: "proc_ok cfg s \<Longrightarrow> proc_ok cfg (release_exposed_port port pid s)"
  by (auto simp: proc_ok_def release_exposed_port_def dict_simps running_count_def port_ok_def
      split: option.splits if_splits)

lemma proc_step_ok: "proc_step cfg s s' \<Longrightarrow> proc_ok cfg s \<Longrightarrow> proc_ok cfg s'"
proof (induction rule: proc_step.induct)
  case (step_start req pid s s')
  then show ?case by (blast intro: start_locked_ok)
next
  case (step_kill_all s)
  then show ?case by (simp add: kill_all_processes_def proc_ok_def running_count_def)
qed (simp_all add: update_handle_ok benign_ops release_ok)

lemma proc_reachable_ok: "proc_reachable cfg s \<Longrightarrow> proc_ok cfg s"
proof (induction rule: proc_reachable.induct)
  case reach_init
  then show ?case by (simp add: proc_ok_def running_count_def)
next
  case (reach_step s s')
  then show ?case by (blast intro: proc_step_ok)
qed

text \<open>Running processes are a capped resource.\<close>

definition admit_process :: "proc_config \<Rightarrow> start_request \<Rightarrow> string \<Rightarrow> proc_state \<Rightarrow> proc_state option" where
  "admit_process cfg req pid s =
     (if dict_get (registry s) pid \<noteq> None then None
      else case start_locked cfg req pid True s of Inl e \<Rightarrow> None | Inr s' \<Rightarrow> Some s')"

interpretation background_slots: capped_resource "admit_process cfg req pid" running_count
    "max_background cfg" for cfg req pid
proof
  fix s s' assume "admit_process cfg req pid s = Some s'"
  then have start: "start_locked cfg req pid True s = Inr s'" and new: "dict_get (registry s) pid = None"
    by (auto simp: admit_process_def split: if_splits sum.splits)
  show "running_count s < max_background cfg" using start_locked_Inr(1) [OF start] .
  show "running_count s' \<le> Suc (running_count s)"
    using running_count_new [OF new, of "new_handle req"]
    by (simp add: start_locked_Inr(2) [OF start] running_count_def)
qed

section \<open>The output buffer\<close>







section \<open>Signals and streams\<close>

text \<open>The sidecar never signals its own process group.\<close>

lemma own_group_never_signalled:
  "SignalGroup g \<in> set (signal_process_group my_pgid proc_pgid answer pid) \<Longrightarrow>
     g \<noteq> my_pgid \<and> proc_pgid = Some g"
  by (auto simp: signal_process_group_def split: option.splits if_splits killpg_result.splits)

text \<open>The startup sweep kills each group once, and only groups of marked processes.\<close>

lemma sweep_orphans_spec:
  "distinct killed \<Longrightarrow>
     distinct (sweep_orphans my_pid marked pgid_of answer pids killed) \<and>
     set (sweep_orphans my_pid marked pgid_of answer pids killed) = set killed \<union>
       {g. \<exists>pid\<in>set pids. pid \<noteq> my_pid \<and> marked pid \<and> pgid_of pid = Some g \<and> answer g = GroupSignalled}"
  by (induction pids arbitrary: killed) (auto split: option.splits)

text \<open>A capped preview stream is a prefix of the upstream body and no longer than the cap.\<close>

lemma stream_upstream_body_bound:
  "0 < max_bytes \<Longrightarrow> sent \<le> max_bytes \<Longrightarrow>
     sent + length (concat (stream_upstream_body max_bytes deadline sent chunks)) \<le> max_bytes \<and>
     (\<exists>rest. concat (map fst chunks) = concat (stream_upstream_body max_bytes deadline sent chunks) @ rest)"
proof (induction max_bytes deadline sent chunks rule: stream_upstream_body.induct)
  case (2 max_bytes deadline sent chunk now rest)
  show ?case
  proof (cases "max_bytes < sent + length chunk")
    case True
    have "chunk @ concat (map fst rest) =
        take (max_bytes - sent) chunk @ (drop (max_bytes - sent) chunk @ concat (map fst rest))"
      by simp
    then have "\<exists>r. chunk @ concat (map fst rest) = take (max_bytes - sent) chunk @ r" by blast
    then show ?thesis using "2.prems" True by auto
  next
    case False
    show ?thesis
    proof (cases "deadline < now")
      case True
      then show ?thesis using False "2.prems" by simp
    next
      case go: False
      have IH: "sent + length chunk
            + length (concat (stream_upstream_body max_bytes deadline (sent + length chunk) rest)) \<le> max_bytes"
        "\<exists>r. concat (map fst rest) =
           concat (stream_upstream_body max_bytes deadline (sent + length chunk) rest) @ r"
        using "2.IH" False go "2.prems"(1) by simp_all
      then show ?thesis using False go by simp
    qed
  qed
qed simp

section \<open>Properties\<close>

text \<open>C8: The registry invariant. However starts, output, exits, the reader loops, the
  watchdogs, stops, port releases and kill-all interleave, at most the configured number
  of processes are running, every exposed port belongs to a registered process that asked
  for it, and every output buffer is within its cap and consistent with its offsets.\<close>

theorem process_registry_invariant:
  assumes "proc_reachable cfg s"
  shows "proc_ok cfg s"
  using assms by (rule proc_reachable_ok)

abbreviation sample_cfg :: proc_config where
  "sample_cfg \<equiv> \<lparr>max_background = 1, runtime_ceiling = 600, sidecar_port = 8080,
     preview_port_min = 1024, preview_port_max = 65535, output_cap = 4\<rparr>"

abbreviation sample_req :: start_request where
  "sample_req \<equiv> \<lparr>sr_command = ''serve'', sr_description = None, sr_context = None,
     sr_max_runtime = 60, sr_port = Some 3000\<rparr>"

abbreviation sample_state :: proc_state where
  "sample_state \<equiv> \<lparr>registry = [(''proc_1'', new_handle sample_req)], exposed_ports = [(3000, ''proc_1'')]\<rparr>"

lemma sample_reachable: "proc_reachable sample_cfg sample_state"
  by (rule reach_step [OF reach_init], rule step_start [where req = sample_req and pid = "''proc_1''"])
     (simp_all add: start_locked_def running_count_def)

lemma process_registry_invariant_witness: "proc_ok sample_cfg sample_state"
  using sample_reachable by (rule process_registry_invariant)



text \<open>A preview reaches only the process that exposed the port. In every reachable state
  a preview request that is proxied goes to a registered, running process that registered
  exactly this port; and once the registry has been wiped for the next tenant, every
  preview and every output request finds nothing.\<close>

theorem preview_reaches_exposer_only:
  assumes "proc_reachable cfg s"
  shows "(preview_proxy port s = ProxyTo pid h \<longrightarrow>
      dict_get (registry s) pid = Some h \<and> h_port h = Some port \<and> h_status h = Running) \<and>
    preview_proxy port (snd (kill_all_processes s)) = Preview404 \<and>
    process_output pid off (snd (kill_all_processes s)) = Inl NotFound404"
proof (intro conjI impI)
  assume "preview_proxy port s = ProxyTo pid h"
  then have h: "dict_get (exposed_ports s) port = Some pid" "dict_get (registry s) pid = Some h"
    "h_status h = Running"
    by (auto simp: preview_proxy_def split: option.splits if_splits)
  then have "port_ok s port pid" using proc_reachable_ok [OF assms] by (auto simp: proc_ok_def)
  then show "dict_get (registry s) pid = Some h" "h_port h = Some port" "h_status h = Running"
    using h by (auto simp: port_ok_def)
qed (simp_all add: preview_proxy_def kill_all_processes_def process_output_def)

lemma preview_reaches_exposer_only_witness:
  "preview_proxy 3000 sample_state = ProxyTo ''proc_1'' (new_handle sample_req) \<and>
   dict_get (registry sample_state) ''proc_1'' = Some (new_handle sample_req) \<and>
   h_port (new_handle sample_req) = Some 3000"
  using preview_reaches_exposer_only [OF sample_reachable, of 3000 "''proc_1''" "new_handle sample_req" 0]
  by (simp add: preview_proxy_def new_handle_def)

text \<open>A start request spends a unit of the execution budget before it is checked. A
  request with an invalid run time is refused, and the budget's count has gone up by one.\<close>

theorem refused_start_spends_budget:
  assumes "admit_exec lms b = Some b'" and "sr_max_runtime req \<le> 0"
  shows "process_start lms cfg req pid spawned b s = (Inl BadRuntime400, b') \<and>
    exec_count b' = Suc (exec_count b)"
  using assms
  by (auto simp: process_start_def admit_exec_def reserve_session_exec_slot_def
      split: prod.splits budget_outcome.splits option.splits if_splits)

lemma refused_start_spends_budget_witness:
  "exec_count (snd (process_start \<lparr>max_exec_count = 3, max_exec_seconds = 0\<rparr> sample_cfg
      (sample_req\<lparr>sr_max_runtime := 0\<rparr>) ''proc_2'' True
      \<lparr>exec_count = 1, exec_seconds = 0, budget_exceeded = None\<rparr> sample_state)) = 2"
  using refused_start_spends_budget [of "\<lparr>max_exec_count = 3, max_exec_seconds = 0\<rparr>"
      "\<lparr>exec_count = 1, exec_seconds = 0, budget_exceeded = None\<rparr>"
      "\<lparr>exec_count = 2, exec_seconds = 0, budget_exceeded = None\<rparr>" "sample_req\<lparr>sr_max_runtime := 0\<rparr>"
      sample_cfg "''proc_2''" True sample_state]
  by (simp add: admit_exec_Some)

end
