(* ===== verification/SecretsBroker.thy ===== *)
theory SecretsBroker
  imports HostSafety ExecBudget
begin

text \<open>
  \<open>sidecar/sidecar_secrets.py\<close>: the secrets broker's outbound request. References
  \<open>{{secret:name}}\<close> are found and replaced as the module's regular expression does; URL
  parsing, DNS, the control plane's resolve endpoint, the clock and the destination's
  answer are parameters.
\<close>

section \<open>References\<close>

definition brace :: "char \<Rightarrow> bool" where
  "brace c = (c = CHR ''{'' \<or> c = CHR ''}'')"

text \<open>A match of the pattern at the start of a string: the name and what follows.\<close>

definition match_reference :: "string \<Rightarrow> (string \<times> string) option" where
  "match_reference s =
     (if py_startswith s ''{{secret:''
      then let r = drop 9 s; name = takeWhile (\<lambda>c. \<not> brace c) r; rest = dropWhile (\<lambda>c. \<not> brace c) r in
        (if name \<noteq> [] \<and> py_startswith rest ''}}'' then Some (name, drop 2 rest) else None)
      else None)"

datatype piece = Lit char | Ref string

lemma match_reference_shorter: "match_reference s = Some (n, rest) \<Longrightarrow> length rest < length s"
proof -
  assume m: "match_reference s = Some (n, rest)"
  then have "s \<noteq> []" and rest: "rest = drop 2 (dropWhile (\<lambda>c. \<not> brace c) (drop 9 s))"
    by (auto simp: match_reference_def Let_def py_startswith_def split: if_splits)
  have "length (dropWhile (\<lambda>c. \<not> brace c) (drop 9 s)) \<le> length s - 9"
    using length_dropWhile_le [of "\<lambda>c. \<not> brace c" "drop 9 s"] by simp
  then show ?thesis using \<open>s \<noteq> []\<close> rest by (cases s) auto
qed

function pieces :: "string \<Rightarrow> piece list" where
  "pieces [] = []"
| "pieces (c # s) =
     (case match_reference (c # s) of
        Some (n, rest) \<Rightarrow> Ref n # pieces rest
      | None \<Rightarrow> Lit c # pieces s)"
  by pat_completeness auto

termination
  by (relation "measure length") (auto dest: match_reference_shorter)

fun reference_names :: "piece list \<Rightarrow> string list" where
  "reference_names [] = []"
| "reference_names (Lit c # ps) = reference_names ps"
| "reference_names (Ref n # ps) = n # reference_names ps"

definition find_references :: "string \<Rightarrow> string list" where
  "find_references text = remdups (reference_names (pieces text))"

definition reference_text :: "string \<Rightarrow> string" where
  "reference_text n = ''{{secret:'' @ n @ ''}}''"

definition render_piece :: "(string, string) dict \<Rightarrow> piece \<Rightarrow> string" where
  "render_piece used p =
     (case p of
        Lit c \<Rightarrow> [c]
      | Ref n \<Rightarrow> (case dict_get used n of Some v \<Rightarrow> v | None \<Rightarrow> reference_text n))"

definition replace_references :: "(string, string) dict \<Rightarrow> string \<Rightarrow> string" where
  "replace_references used text = concat (map (render_piece used) (pieces text))"

section \<open>The session and secret values\<close>

record broker_session =
  bs_secret_names :: "string list"
  bs_allowed_hosts :: "(string, string list) dict"
  bs_control_plane_url :: "string option"
  bs_capability_token :: "string option"
  bs_session_id :: "string option"

type_synonym value_cache = "(string, string \<times> real) dict"

definition nonempty_opt :: "string option \<Rightarrow> bool" where
  "nonempty_opt s = (case s of None \<Rightarrow> False | Some x \<Rightarrow> x \<noteq> [])"

definition host_allowed_for_secret :: "string \<Rightarrow> string list \<Rightarrow> bool" where
  "host_allowed_for_secret host allowed_hosts =
     list_ex (\<lambda>allowed. py_lower host = py_strip (py_lower allowed)) allowed_hosts"

text \<open>\<open>resolve\<close> is the control plane's answer: a value, or \<^const>\<open>None\<close> on any failure.\<close>

definition get_secret_value ::
    "broker_session \<Rightarrow> real \<Rightarrow> real \<Rightarrow> (string \<Rightarrow> string option) \<Rightarrow> string \<Rightarrow> value_cache \<Rightarrow>
     string option \<times> value_cache" where
  "get_secret_value bs ttl now resolve name cache =
     (if name \<notin> set (bs_secret_names bs) then (None, cache)
      else
        let (hit, cache1) =
          (case dict_get cache name of
             None \<Rightarrow> (None, cache)
           | Some (v, expires) \<Rightarrow> (if now < expires then (Some v, cache) else (None, dict_del name cache)))
        in case hit of
             Some v \<Rightarrow> (Some v, cache1)
           | None \<Rightarrow>
               (if \<not> nonempty_opt (bs_control_plane_url bs) \<or> \<not> nonempty_opt (bs_capability_token bs)
                   \<or> \<not> nonempty_opt (bs_session_id bs)
                then (None, cache1)
                else case resolve name of
                  None \<Rightarrow> (None, cache1)
                | Some v \<Rightarrow> (Some v, dict_put name (v, now + ttl) cache1)))"

fun resolve_names ::
    "broker_session \<Rightarrow> real \<Rightarrow> real \<Rightarrow> (string \<Rightarrow> string option) \<Rightarrow> string list \<Rightarrow> value_cache \<Rightarrow>
     (string, string) dict \<times> value_cache" where
  "resolve_names bs ttl now resolve [] cache = ([], cache)"
| "resolve_names bs ttl now resolve (n # ns) cache =
     (case get_secret_value bs ttl now resolve n cache of
        (v, cache1) \<Rightarrow>
          (case resolve_names bs ttl now resolve ns cache1 of
             (used, cache2) \<Rightarrow> (case v of None \<Rightarrow> used | Some x \<Rightarrow> (n, x) # used, cache2)))"

definition substitute_secrets ::
    "broker_session \<Rightarrow> real \<Rightarrow> real \<Rightarrow> (string \<Rightarrow> string option) \<Rightarrow> string option \<Rightarrow> value_cache \<Rightarrow>
     (string option \<times> (string, string) dict) \<times> value_cache" where
  "substitute_secrets bs ttl now resolve text cache =
     (case text of
        None \<Rightarrow> ((None, []), cache)
      | Some t \<Rightarrow>
          (if t = [] then ((Some t, []), cache)
           else case resolve_names bs ttl now resolve (find_references t) cache of
             (used, cache') \<Rightarrow> ((Some (replace_references used t), used), cache')))"

section \<open>Scrubbing\<close>

definition redaction :: "string \<Rightarrow> string" where
  "redaction name = ''[REDACTED_SECRET:'' @ name @ '']''"

fun scrub_secret_values :: "string \<Rightarrow> (string, string) dict \<Rightarrow> string" where
  "scrub_secret_values text [] = text"
| "scrub_secret_values text ((name, value) # used) =
     scrub_secret_values (if value = [] then text else py_replace value (redaction name) text) used"

section \<open>The request\<close>

record hq_record =
  hq_method :: string
  hq_url :: string
  hq_headers :: "(string, string) dict"
  hq_body :: "string option"

text \<open>\<open>pu_port\<close> is \<open>Inl ()\<close> where reading \<open>parsed.port\<close> raises; \<open>pu_target\<close> is the rest
  of the URL.\<close>

record parsed_url =
  pu_scheme :: string
  pu_hostname :: "string option"
  pu_port :: "unit + nat option"
  pu_target :: string

record outgoing =
  og_method :: string
  og_scheme :: string
  og_ip :: string
  og_port :: "nat option"
  og_target :: string
  og_sni :: string
  og_headers :: "(string, string) dict"
  og_body :: "string option"

record http_response =
  hr_status :: nat
  hr_headers :: "(string, string) dict"
  hr_body :: string

datatype send_result = Answer http_response | TimedOut | HttpFailure | OtherFailure

record broker_response =
  br_status :: nat
  br_headers :: "(string, string) dict"
  br_body :: string
  br_truncated :: bool

datatype broker_outcome =
    BadUrl422
  | SecretNotGranted404
  | DestinationNotAllowed403
  | Timeout504
  | Failed502
  | Crashed500
  | Done broker_response

text \<open>The request-time check of the sidecar: \<^const>\<open>None\<close> is its status 403.\<close>

definition resolve_and_validate_destination :: "resolver \<Rightarrow> string \<Rightarrow> string option" where
  "resolve_and_validate_destination getaddrinfo hostname =
     (case getaddrinfo hostname of
        None \<Rightarrow> None
      | Some infos \<Rightarrow>
          (if infos = [] then None
           else map_option hd (collect_allowed sidecar_is_disallowed infos)))"

definition referenced_names :: "hq_record \<Rightarrow> string list" where
  "referenced_names req =
     remdups (find_references (case hq_body req of None \<Rightarrow> [] | Some b \<Rightarrow> b) @
              concat (map (find_references \<circ> snd) (hq_headers req)))"

fun check_references :: "broker_session \<Rightarrow> string \<Rightarrow> string list \<Rightarrow> broker_outcome option" where
  "check_references bs hostname [] = None"
| "check_references bs hostname (n # ns) =
     (if n \<notin> set (bs_secret_names bs) then Some SecretNotGranted404
      else if \<not> host_allowed_for_secret hostname
                  (case dict_get (bs_allowed_hosts bs) n of None \<Rightarrow> [] | Some hs \<Rightarrow> hs)
      then Some DestinationNotAllowed403
      else check_references bs hostname ns)"

text \<open>\<open>used.update(newer)\<close>.\<close>

definition dict_update :: "('k, 'v) dict \<Rightarrow> ('k, 'v) dict \<Rightarrow> ('k, 'v) dict" where
  "dict_update used newer = foldl (\<lambda>d (k, v). dict_put k v d) used newer"

fun substitute_headers ::
    "broker_session \<Rightarrow> real \<Rightarrow> real \<Rightarrow> (string \<Rightarrow> string option) \<Rightarrow> (string, string) dict \<Rightarrow>
     (string, string) dict \<Rightarrow> value_cache \<Rightarrow>
     ((string, string) dict \<times> (string, string) dict) \<times> value_cache" where
  "substitute_headers bs ttl now resolve [] used cache = (([], used), cache)"
| "substitute_headers bs ttl now resolve ((k, v) # hs) used cache =
     (case substitute_secrets bs ttl now resolve (Some v) cache of
        ((new_value, u), cache1) \<Rightarrow>
          (case substitute_headers bs ttl now resolve hs (dict_update used u) cache1 of
             ((rest, used'), cache2) \<Rightarrow>
               (((k, (case new_value of None \<Rightarrow> [] | Some x \<Rightarrow> x)) # rest, used'), cache2)))"

definition substitute_request ::
    "broker_session \<Rightarrow> real \<Rightarrow> real \<Rightarrow> (string \<Rightarrow> string option) \<Rightarrow> hq_record \<Rightarrow> value_cache \<Rightarrow>
     (string, string) dict \<times> string option \<times> (string, string) dict \<times> value_cache" where
  "substitute_request bs ttl now resolve req cache =
     (case substitute_headers bs ttl now resolve (hq_headers req) [] cache of
        ((headers, used1), cache1) \<Rightarrow>
          (case substitute_secrets bs ttl now resolve (hq_body req) cache1 of
             ((body, used2), cache2) \<Rightarrow> (headers, body, dict_update used1 used2, cache2)))"

definition max_response_chars :: nat where
  "max_response_chars = 1 * 1024 * 1024"

definition finish_response :: "(string, string) dict \<Rightarrow> http_response \<Rightarrow> broker_response" where
  "finish_response used resp =
     (let raw = hr_body resp;
          truncated = max_response_chars < length raw;
          body = (if truncated then take max_response_chars raw else raw)
      in \<lparr>br_status = hr_status resp,
          br_headers = map (\<lambda>(k, v). (k, scrub_secret_values v used)) (hr_headers resp),
          br_body = scrub_secret_values body used, br_truncated = truncated\<rparr>)"

definition set_default :: "string \<Rightarrow> string \<Rightarrow> (string, string) dict \<Rightarrow> (string, string) dict" where
  "set_default k v d = (case dict_get d k of None \<Rightarrow> dict_put k v d | Some x \<Rightarrow> d)"

text \<open>The outcome, the request actually sent (if any) and the new cache.\<close>

definition http_request ::
    "broker_session \<Rightarrow> real \<Rightarrow> real \<Rightarrow> (string \<Rightarrow> string option) \<Rightarrow> (string \<Rightarrow> parsed_url) \<Rightarrow>
     resolver \<Rightarrow> (outgoing \<Rightarrow> send_result) \<Rightarrow> hq_record \<Rightarrow> value_cache \<Rightarrow>
     broker_outcome \<times> outgoing option \<times> value_cache" where
  "http_request bs ttl now resolve urlparse getaddrinfo send req cache =
     (let parsed = urlparse (hq_url req) in
      case pu_hostname parsed of
        None \<Rightarrow> (BadUrl422, None, cache)
      | Some hostname \<Rightarrow>
          (if pu_scheme parsed \<notin> {''http'', ''https''} \<or> hostname = [] then (BadUrl422, None, cache)
           else case check_references bs hostname (referenced_names req) of
             Some err \<Rightarrow> (err, None, cache)
           | None \<Rightarrow>
               (case resolve_and_validate_destination getaddrinfo hostname of
                  None \<Rightarrow> (DestinationNotAllowed403, None, cache)
                | Some ip \<Rightarrow>
                    (case substitute_request bs ttl now resolve req cache of
                       (headers, body, used, cache') \<Rightarrow>
                         (case pu_port parsed of
                            Inl _ \<Rightarrow> (Crashed500, None, cache')
                          | Inr port \<Rightarrow>
                              (let out = \<lparr>og_method = map upper_char (hq_method req),
                                          og_scheme = pu_scheme parsed, og_ip = ip,
                                          og_port = (case port of Some 0 \<Rightarrow> None | p \<Rightarrow> p),
                                          og_target = pu_target parsed, og_sni = hostname,
                                          og_headers = set_default ''Host'' hostname headers,
                                          og_body = body\<rparr>
                               in case send out of
                                    TimedOut \<Rightarrow> (Timeout504, Some out, cache')
                                  | HttpFailure \<Rightarrow> (Failed502, Some out, cache')
                                  | OtherFailure \<Rightarrow> (Crashed500, Some out, cache')
                                  | Answer resp \<Rightarrow>
                                      (Done (finish_response used resp), Some out, cache')))))))"

section \<open>Lemmas\<close>

lemma check_references_None_iff:
  "check_references bs hostname ns = None \<longleftrightarrow>
     list_all (\<lambda>n. n \<in> set (bs_secret_names bs) \<and> host_allowed_for_secret hostname
       (case dict_get (bs_allowed_hosts bs) n of None \<Rightarrow> [] | Some hs \<Rightarrow> hs)) ns"
  by (induction ns) auto

text \<open>A string that avoids a character occurs on one side of it or the other.\<close>

lemma contains_split_at:
  assumes "d \<notin> set w"
  shows "py_contains (a @ d # b) w \<longleftrightarrow> py_contains a w \<or> py_contains b w"
proof
  assume "py_contains (a @ d # b) w"
  then obtain x y where eq: "a @ d # b = x @ w @ y" by (auto simp: py_contains_iff)
  show "py_contains a w \<or> py_contains b w"
  proof (cases "length (x @ w) \<le> length a")
    case True
    then have "\<exists>z. a = (x @ w) @ z" using eq by (metis append_assoc append_eq_append_conv_if append_take_drop_id)
    then show ?thesis by (auto simp: py_contains_iff)
  next
    case False
    have "length a < length x"
    proof (rule ccontr)
      assume "\<not> length a < length x"
      then have "length a - length x < length w" "length x \<le> length a" using False by auto
      then have "(a @ d # b) ! length a \<in> set w" unfolding eq by (simp add: nth_append)
      then show False using assms by simp
    qed
    then have "take (Suc (length a)) x = take (Suc (length a)) (a @ d # b)"
      unfolding eq by simp
    then have "take (Suc (length a)) x = a @ [d]" by simp
    then have "x = (a @ [d]) @ drop (Suc (length a)) x"
      using append_take_drop_id [of "Suc (length a)" x] by simp
    then obtain z where "x = a @ d # z" by auto
    then show ?thesis using eq by (auto simp: py_contains_iff)
  qed
next
  assume "py_contains a w \<or> py_contains b w"
  then consider x y where "a = x @ w @ y" | x y where "b = x @ w @ y"
    by (auto simp: py_contains_iff)
  then show "py_contains (a @ d # b) w"
  proof cases
    case 1
    then have "a @ d # b = x @ w @ (y @ d # b)" by simp
    then show ?thesis unfolding py_contains_iff by blast
  next
    case 2
    then have "a @ d # b = (a @ d # x) @ w @ y" by simp
    then show ?thesis unfolding py_contains_iff by blast
  qed
qed

lemma contains_append:
  "py_contains a w \<Longrightarrow> py_contains (a @ b) w"
  "py_contains b w \<Longrightarrow> py_contains (a @ b) w"
  unfolding py_contains_iff by (metis append_assoc)+

lemma contains_take: "py_contains (take n s) w \<Longrightarrow> py_contains s w"
  using contains_append(1) [of "take n s" w "drop n s"] by simp

text \<open>A value free of brackets that is not part of a redaction's inner text.\<close>

definition bracket_free :: "string \<Rightarrow> bool" where
  "bracket_free w = (CHR ''['' \<notin> set w \<and> CHR '']'' \<notin> set w)"

definition redaction_inner :: "string \<Rightarrow> string" where
  "redaction_inner name = ''REDACTED_SECRET:'' @ name"

lemma redaction_split:
  "p @ redaction n @ s = p @ CHR ''['' # (redaction_inner n @ CHR '']'' # s)"
  by (simp add: redaction_def redaction_inner_def)

lemma contains_redaction:
  "bracket_free w \<Longrightarrow> py_contains (p @ redaction n @ s) w \<longleftrightarrow>
     py_contains p w \<or> py_contains (redaction_inner n) w \<or> py_contains s w"
  unfolding redaction_split bracket_free_def by (simp add: contains_split_at del: append_Cons)

lemma py_replace_at:
  assumes "v \<noteq> []"
  shows "py_replace v r (v @ rest) = r @ py_replace v r rest"
proof (cases "v @ rest")
  case Nil
  then show ?thesis using assms by simp
next
  case (Cons c s)
  have "py_startswith (c # s) v" unfolding Cons [symmetric] by simp
  then have "py_replace v r (c # s) = r @ py_replace v r (drop (length v) (c # s))"
    using assms by simp
  then show ?thesis unfolding Cons [symmetric] by simp
qed

lemma replace_introduces_nothing:
  "py_contains (p @ py_replace v (redaction n) s) w \<Longrightarrow> bracket_free w \<Longrightarrow>
     \<not> py_contains (redaction_inner n) w \<Longrightarrow> py_contains (p @ s) w"
proof (induction v "redaction n" s arbitrary: p rule: py_replace.induct)
  case (1 v)
  then show ?case by simp
next
  case (2 v c s)
  show ?case
  proof (cases "v \<noteq> [] \<and> py_startswith (c # s) v")
    case True
    then obtain rest where rest: "c # s = v @ rest" by (auto simp: py_startswith_iff)
    have "py_contains p w \<or> py_contains (py_replace v (redaction n) rest) w"
      using 2(3-5) True by (simp add: rest py_replace_at contains_redaction del: py_replace.simps)
    then show ?thesis
    proof
      assume "py_contains (py_replace v (redaction n) rest) w"
      then have "py_contains rest w" using 2(1) [of "[]"] True 2(4,5) rest by simp
      then show ?thesis by (simp add: rest contains_append)
    qed (simp add: contains_append)
  next
    case False
    then have "py_contains ((p @ [c]) @ py_replace v (redaction n) s) w" using 2(3) by auto
    then show ?thesis using 2(2) [OF False] 2(4,5) by (metis append.assoc append_Cons append_Nil)
  qed
qed

lemma replace_removes:
  "\<lbrakk>v \<noteq> []; bracket_free v; \<not> py_contains (redaction_inner n) v;
     \<And>k. k < length p \<Longrightarrow> \<not> py_startswith (drop k (p @ s)) v\<rbrakk> \<Longrightarrow>
   \<not> py_contains (p @ py_replace v (redaction n) s) v"
proof (induction v "redaction n" s arbitrary: p rule: py_replace.induct)
  case (1 v)
  show ?case
  proof
    assume "py_contains (p @ py_replace v (redaction n) []) v"
    then obtain a b where p: "p = a @ v @ b" by (auto simp: py_contains_iff)
    then show False using 1(1) 1(4) [of "length a"] by (simp add: py_startswith_def)
  qed
next
  case (2 v c s)
  show ?case
  proof (cases "py_startswith (c # s) v")
    case True
    then obtain rest where rest: "c # s = v @ rest" by (auto simp: py_startswith_iff)
    have "\<not> py_contains (py_replace v (redaction n) rest) v"
      using 2(1) [of "[]"] True 2(3-5) rest by simp
    moreover have "\<not> py_contains p v"
    proof
      assume "py_contains p v"
      then obtain a b where p: "p = a @ v @ b" by (auto simp: py_contains_iff)
      then show False using 2(3) 2(6) [of "length a"] by (simp add: py_startswith_def)
    qed
    ultimately show ?thesis using True 2(3-5)
      by (simp add: rest py_replace_at contains_redaction del: py_replace.simps)
  next
    case False
    have "\<not> py_contains ((p @ [c]) @ py_replace v (redaction n) s) v"
    proof (rule 2(2))
      show "\<And>k. k < length (p @ [c]) \<Longrightarrow> \<not> py_startswith (drop k ((p @ [c]) @ s)) v"
        using 2(6) False by (auto simp: less_Suc_eq)
    qed (use 2(3-5) False in auto)
    then show ?thesis using False by simp
  qed
qed

text \<open>The scrub never introduces, and removes, every non-empty value that is bracket-free and
  not part of a redaction's own text.\<close>

definition scrubbable :: "(string, string) dict \<Rightarrow> string \<Rightarrow> bool" where
  "scrubbable used v = (v \<noteq> [] \<and> bracket_free v \<and>
     list_all (\<lambda>(n, x). \<not> py_contains (redaction_inner n) v) used)"

lemma scrub_introduces_nothing:
  "bracket_free w \<Longrightarrow> list_all (\<lambda>(n, x). \<not> py_contains (redaction_inner n) w) used \<Longrightarrow>
     py_contains (scrub_secret_values body used) w \<Longrightarrow> py_contains body w"
proof (induction body used rule: scrub_secret_values.induct)
  case (2 body name v used)
  then have "py_contains (if v = [] then body else py_replace v (redaction name) body) w" by simp
  then show ?case
    using 2(2,3) replace_introduces_nothing [of "[]" v name body w] by (auto split: if_splits)
qed simp

lemma scrub_removes_values:
  "(n, v) \<in> set used \<Longrightarrow> scrubbable used v \<Longrightarrow> \<not> py_contains (scrub_secret_values body used) v"
proof (induction body used rule: scrub_secret_values.induct)
  case (2 body name x used)
  have rest: "bracket_free v" "list_all (\<lambda>(n, x). \<not> py_contains (redaction_inner n) v) used"
    using 2(3) by (auto simp: scrubbable_def)
  show ?case
  proof (cases "(n, v) = (name, x)")
    case True
    have "\<not> py_contains (py_replace v (redaction name) body) v"
      using replace_removes [of v name "[]" body] 2(3) by (simp add: scrubbable_def)
    then show ?thesis
      using scrub_introduces_nothing [OF rest] True 2(3) by (auto simp: scrubbable_def)
  next
    case False
    then show ?thesis using 2 by (auto simp: scrubbable_def)
  qed
qed simp

lemma get_secret_value_granted:
  "get_secret_value bs ttl now resolve n cache = (Some v, cache') \<Longrightarrow> n \<in> set (bs_secret_names bs)"
  by (auto simp: get_secret_value_def split: if_splits)

lemma resolve_names_granted:
  "resolve_names bs ttl now resolve ns cache = (used, cache') \<Longrightarrow>
     (n, v) \<in> set used \<Longrightarrow> n \<in> set (bs_secret_names bs)"
proof (induction ns arbitrary: cache used cache')
  case (Cons m ns)
  obtain w cache1 where get: "get_secret_value bs ttl now resolve m cache = (w, cache1)"
    by (cases "get_secret_value bs ttl now resolve m cache")
  obtain later cache2 where later: "resolve_names bs ttl now resolve ns cache1 = (later, cache2)"
    by (cases "resolve_names bs ttl now resolve ns cache1")
  show ?case
  proof (cases w)
    case None
    then show ?thesis using Cons get later by auto
  next
    case (Some x)
    then have "used = (m, x) # later" using Cons.prems(1) get later by simp
    then show ?thesis
      using Cons.IH [OF later] Cons.prems(2) get_secret_value_granted get Some by fastforce
  qed
qed simp

lemma dict_put_elem: "(a, b) \<in> set (dict_put k v d) \<Longrightarrow> (a, b) = (k, v) \<or> (a, b) \<in> set d"
  using dict_put_preserves_set by fast

lemma dict_update_elem:
  "(a, b) \<in> set (dict_update d e) \<Longrightarrow> (a, b) \<in> set d \<or> (a, b) \<in> set e"
proof -
  have "(a, b) \<in> set (foldl (\<lambda>d (k, v). dict_put k v d) d e) \<Longrightarrow> (a, b) \<in> set d \<or> (a, b) \<in> set e"
    for d
    by (induction e arbitrary: d) (fastforce dest: dict_put_elem)+
  then show "(a, b) \<in> set (dict_update d e) \<Longrightarrow> ?thesis" by (simp add: dict_update_def)
qed

lemma substitute_secrets_granted:
  "substitute_secrets bs ttl now resolve s cache = ((s', used), cache') \<Longrightarrow>
     (n, v) \<in> set used \<Longrightarrow> n \<in> set (bs_secret_names bs)"
  unfolding substitute_secrets_def
  by (auto split: option.splits if_splits prod.splits dest: resolve_names_granted)

lemma substitute_headers_granted:
  "substitute_headers bs ttl now resolve hs used cache = ((rest, used'), cache') \<Longrightarrow>
     (n, v) \<in> set used' \<Longrightarrow> (n, v) \<in> set used \<or> n \<in> set (bs_secret_names bs)"
proof (induction hs arbitrary: used cache rest used' cache')
  case (Cons h hs)
  obtain k w where h: "h = (k, w)" by (cases h)
  obtain s u c1 where sub: "substitute_secrets bs ttl now resolve (Some w) cache = ((s, u), c1)"
    by (metis prod.exhaust)
  obtain r u2 c2 where rec: "substitute_headers bs ttl now resolve hs (dict_update used u) c1 = ((r, u2), c2)"
    by (metis prod.exhaust)
  have "(n, v) \<in> set u2" using Cons.prems by (simp add: h sub rec)
  then show ?case
    using Cons.IH [OF rec] dict_update_elem [of n v used u] substitute_secrets_granted [OF sub] by blast
qed simp

lemma substitute_request_granted:
  assumes "substitute_request bs ttl now resolve req cache = (headers, body, used, cache')"
    and "(n, v) \<in> set used"
  shows "n \<in> set (bs_secret_names bs)"
proof -
  obtain hd u1 c1 where h: "substitute_headers bs ttl now resolve (hq_headers req) [] cache = ((hd, u1), c1)"
    by (metis prod.exhaust)
  obtain s u2 c2 where b: "substitute_secrets bs ttl now resolve (hq_body req) c1 = ((s, u2), c2)"
    by (metis prod.exhaust)
  have "used = dict_update u1 u2" using assms(1) by (simp add: substitute_request_def h b)
  then show ?thesis
    using assms(2) dict_update_elem substitute_headers_granted [OF h] substitute_secrets_granted [OF b]
    by fastforce
qed

lemma http_request_sentD:
  assumes "http_request bs ttl now resolve urlparse getaddrinfo send req cache =
      (outcome, Some out, cache')"
  shows "\<exists>hostname ip headers body used.
      pu_hostname (urlparse (hq_url req)) = Some hostname \<and> hostname \<noteq> [] \<and>
      check_references bs hostname (referenced_names req) = None \<and>
      resolve_and_validate_destination getaddrinfo hostname = Some ip \<and>
      substitute_request bs ttl now resolve req cache = (headers, body, used, cache') \<and>
      og_sni out = hostname \<and> og_ip out = ip \<and> og_body out = body \<and>
      og_headers out = set_default ''Host'' hostname headers \<and>
      (\<forall>resp. outcome = Done resp \<longrightarrow> (\<exists>r. send out = Answer r \<and> resp = finish_response used r))"
  using assms unfolding http_request_def Let_def
  by (auto split: option.splits if_splits prod.splits sum.splits send_result.splits)

lemma validated_destination:
  "resolve_and_validate_destination getaddrinfo hostname = Some ip \<Longrightarrow>
     \<exists>infos. getaddrinfo hostname = Some infos \<and> ip \<in> set infos \<and>
       list_all (\<lambda>a. \<not> sidecar_is_disallowed a) infos"
  unfolding resolve_and_validate_destination_def
  by (auto split: option.splits if_splits simp: collect_allowed_eq neq_Nil_conv list_ex_iff list_all_iff)

lemma match_reference_text:
  "match_reference s = Some (n, rest) \<Longrightarrow> s = reference_text n @ rest"
  by (auto simp: match_reference_def Let_def py_startswith_iff reference_text_def
      split: if_splits) (metis append.assoc append_Cons append_Nil takeWhile_dropWhile_id)

lemma render_unresolved:
  "list_all (\<lambda>n. dict_get used n = None) (reference_names (pieces s)) \<Longrightarrow>
     concat (map (render_piece used) (pieces s)) = s"
  by (induction s rule: pieces.induct)
     (auto simp: render_piece_def split: option.splits prod.splits dest: match_reference_text)

section \<open>Properties\<close>

text \<open>C10: A request leaves the broker only when every secret it references is granted to the
  session and allowed for the destination host, only granted values were substituted, and
  the connection goes to an address that one resolution of that host returned together
  with no internal address.\<close>

theorem secret_request_guarded:
  assumes "http_request bs ttl now resolve urlparse getaddrinfo send req cache =
      (outcome, Some out, cache')"
  shows "pu_hostname (urlparse (hq_url req)) = Some (og_sni out) \<and>
    list_all (\<lambda>n. n \<in> set (bs_secret_names bs) \<and>
       host_allowed_for_secret (og_sni out)
         (case dict_get (bs_allowed_hosts bs) n of None \<Rightarrow> [] | Some hs \<Rightarrow> hs))
      (referenced_names req) \<and>
    (\<exists>infos. getaddrinfo (og_sni out) = Some infos \<and> og_ip out \<in> set infos \<and>
       list_all (\<lambda>a. \<not> sidecar_is_disallowed a) infos) \<and>
    (\<exists>headers used. substitute_request bs ttl now resolve req cache =
         (headers, og_body out, used, cache') \<and>
       og_headers out = set_default ''Host'' (og_sni out) headers \<and>
       set (dict_keys used) \<subseteq> set (bs_secret_names bs))"
proof -
  obtain hostname ip headers body used where s:
      "pu_hostname (urlparse (hq_url req)) = Some hostname"
      "check_references bs hostname (referenced_names req) = None"
      "resolve_and_validate_destination getaddrinfo hostname = Some ip"
      "substitute_request bs ttl now resolve req cache = (headers, body, used, cache')"
      "og_sni out = hostname" "og_ip out = ip" "og_body out = body"
      "og_headers out = set_default ''Host'' hostname headers"
    using http_request_sentD [OF assms] by blast
  have "set (dict_keys used) \<subseteq> set (bs_secret_names bs)"
    using substitute_request_granted [OF s(4)] by auto
  then show ?thesis
    using s validated_destination [OF s(3)] by (simp add: check_references_None_iff)
qed

definition example_broker :: broker_session where
  "example_broker = \<lparr>bs_secret_names = [''KEY''], bs_allowed_hosts = [(''KEY'', [''API.example.com''])],
     bs_control_plane_url = Some ''http://cp'', bs_capability_token = Some ''t'',
     bs_session_id = Some ''s1''\<rparr>"

definition example_request :: hq_record where
  "example_request = \<lparr>hq_method = ''post'', hq_url = ''https://api.example.com/x'',
     hq_headers = [(''X-Key'', ''k={{secret:KEY}}'')], hq_body = None\<rparr>"

definition example_parse :: "string \<Rightarrow> parsed_url" where
  "example_parse url = \<lparr>pu_scheme = ''https'', pu_hostname = Some ''api.example.com'',
     pu_port = Inr None, pu_target = ''/x''\<rparr>"

definition example_echo :: "outgoing \<Rightarrow> send_result" where
  "example_echo out = Answer \<lparr>hr_status = 200,
     hr_headers = [(''Echo'', case dict_get (og_headers out) ''X-Key'' of Some v \<Rightarrow> v | None \<Rightarrow> [])],
     hr_body = ''seen''\<rparr>"

definition example_response :: http_response where
  "example_response = \<lparr>hr_status = 200, hr_headers = [(''Echo'', ''k=s3cr3t'')], hr_body = ''seen''\<rparr>"

lemma example_substituted:
  "substitute_request example_broker 30 0 (\<lambda>n. Some ''s3cr3t'') example_request [] =
     ([(''X-Key'', ''k=s3cr3t'')], None, [(''KEY'', ''s3cr3t'')], [(''KEY'', (''s3cr3t'', 30))])"
proof -
  have ref: "find_references ''k={{secret:KEY}}'' = [''KEY'']"
    "replace_references [(''KEY'', ''s3cr3t'')] ''k={{secret:KEY}}'' = ''k=s3cr3t''"
    by code_simp+
  show ?thesis
    by (simp add: substitute_request_def example_request_def substitute_secrets_def ref
        get_secret_value_def example_broker_def nonempty_opt_def dict_update_def)
qed

lemma example_checked:
  "check_references example_broker ''api.example.com'' (referenced_names example_request) = None"
  by code_simp

lemma example_destination:
  "resolve_and_validate_destination (\<lambda>h. Some [''8.8.8.8'']) ''api.example.com'' =
     Some ''8.8.8.8''"
proof -
  have "\<not> sidecar_is_disallowed ''8.8.8.8''"
    by (simp add: sidecar_is_disallowed.simps parse_eval disallowed_class_def v4_is_private_def
        v4_private_networks_def v4_private_exceptions_def in_net_def in_cgnat_def cgnat_network_def)
  then show ?thesis by (simp add: resolve_and_validate_destination_def)
qed

lemma example_scrubbed:
  "scrub_secret_values ''k=s3cr3t'' [(''KEY'', ''s3cr3t'')] = ''k=[REDACTED_SECRET:KEY]''"
  by code_simp

definition example_sent :: outgoing where
  "example_sent = \<lparr>og_method = ''POST'', og_scheme = ''https'', og_ip = ''8.8.8.8'',
     og_port = None, og_target = ''/x'', og_sni = ''api.example.com'',
     og_headers = [(''X-Key'', ''k=s3cr3t''), (''Host'', ''api.example.com'')], og_body = None\<rparr>"

lemma example_call:
  "http_request example_broker 30 0 (\<lambda>n. Some ''s3cr3t'') example_parse
     (\<lambda>h. Some [''8.8.8.8'']) (\<lambda>out. Answer example_response) example_request [] =
   (Done (finish_response [(''KEY'', ''s3cr3t'')] example_response), Some example_sent,
    [(''KEY'', (''s3cr3t'', 30))])"
proof -
  have up: "map upper_char (hq_method example_request) = ''POST''" by code_simp
  show ?thesis
    by (simp add: http_request_def example_parse_def example_checked example_destination
        example_substituted up set_default_def Let_def example_sent_def)
qed

theorem secret_request_guarded_witness:
  "og_ip example_sent = ''8.8.8.8'' \<and>
   list_all (\<lambda>n. n \<in> set (bs_secret_names example_broker)) (referenced_names example_request)"
  using secret_request_guarded [OF example_call]
  by (simp add: example_sent_def list_all_iff)

text \<open>The value of every secret the broker substituted is absent from the answer it
  returns, body and headers, however the destination echoes it: provided the value is
  non-empty, has no square bracket and is not part of the redaction text itself.\<close>

theorem response_has_no_secret:
  assumes "http_request bs ttl now resolve urlparse getaddrinfo send req cache =
      (Done resp, Some out, cache')"
    and "substitute_request bs ttl now resolve req cache = (headers, body, used, c)"
    and "(n, v) \<in> set used" and "scrubbable used v"
  shows "\<not> py_contains (br_body resp) v \<and>
    list_all (\<lambda>(k, h). \<not> py_contains h v) (br_headers resp)"
proof -
  obtain r where r: "resp = finish_response used r"
    using http_request_sentD [OF assms(1)] assms(2) by auto
  show ?thesis
    using scrub_removes_values [OF assms(3,4)]
    by (auto simp: r finish_response_def Let_def list_all_iff)
qed

theorem response_has_no_secret_witness:
  "\<not> py_contains (br_body (finish_response [(''KEY'', ''s3cr3t'')] example_response)) ''s3cr3t'' \<and>
   br_headers (finish_response [(''KEY'', ''s3cr3t'')] example_response) =
     [(''Echo'', ''k=[REDACTED_SECRET:KEY]'')]"
proof -
  have "scrubbable [(''KEY'', ''s3cr3t'')] ''s3cr3t''" by code_simp
  then have "\<not> py_contains (br_body (finish_response [(''KEY'', ''s3cr3t'')] example_response)) ''s3cr3t''"
    using response_has_no_secret [OF example_call example_substituted, of "''KEY''" "''s3cr3t''"]
    by (simp del: scrub_secret_values.simps)
  then show ?thesis
    by (simp add: finish_response_def Let_def example_response_def example_scrubbed
        del: scrub_secret_values.simps)
qed

text \<open>The body is cut to its first 1048576 characters before it is scrubbed, so a secret
  that straddles the cut leaves its beginning in the answer, unredacted.\<close>

theorem truncation_keeps_secret_prefix:
  assumes "length pre + k = max_response_chars" and "k < length v"
    and "\<not> py_contains (pre @ take k v) v" and "v \<noteq> []"
    and "hr_body resp = pre @ v @ post"
  shows "br_body (finish_response [(n, v)] resp) = pre @ take k v \<and>
    br_truncated (finish_response [(n, v)] resp)"
proof -
  have absent: "\<not> py_contains s w \<Longrightarrow> w \<noteq> [] \<Longrightarrow> py_replace w r s = s" for s w r
    by (induction w r s rule: py_replace.induct) auto
  have cut: "take max_response_chars (hr_body resp) = pre @ take k v"
    unfolding assms(5) assms(1) [symmetric] using assms(2) by simp
  have long: "max_response_chars < length (hr_body resp)"
    unfolding assms(5) assms(1) [symmetric] using assms(2) by simp
  show ?thesis
    using absent [OF assms(3,4)] assms(4) long
    by (simp add: finish_response_def Let_def cut)
qed

theorem truncation_keeps_secret_prefix_witness:
  "br_body (finish_response [(''KEY'', ''s3cr3t'')] \<lparr>hr_status = 200, hr_headers = [],
     hr_body = replicate (max_response_chars - 5) CHR ''a'' @ ''s3cr3t'' @ []\<rparr>) =
   replicate (max_response_chars - 5) CHR ''a'' @ ''s3cr3''"
proof -
  let ?r = "replicate (max_response_chars - 5) CHR ''a''"
  have "CHR ''t'' \<notin> set (?r @ take 5 ''s3cr3t'')" by (auto simp: set_replicate_conv_if)
  moreover have "CHR ''t'' \<in> set u" if "py_contains u ''s3cr3t''" for u
    using that by (auto simp: py_contains_iff)
  ultimately have "\<not> py_contains (?r @ take 5 ''s3cr3t'') ''s3cr3t''" by blast
  moreover have "length ?r + 5 = max_response_chars" by (simp add: max_response_chars_def)
  ultimately show ?thesis
    using truncation_keeps_secret_prefix [of ?r 5 "''s3cr3t''" "\<lparr>hr_status = 200, hr_headers = [],
     hr_body = ?r @ ''s3cr3t'' @ []\<rparr>" "[]" "''KEY''"] by simp
qed

end
