(* ===== verification/RateLimit.thy ===== *)
theory RateLimit
  imports Prelude Complex_Main "HOL-Library.Multiset"
begin

text \<open>
  \<open>control_plane/rate_limit.py\<close>: the in-memory sliding window with its bounded,
  least-recently-used table of keys, and the fixed-window counter in the database. A
  database call is three transactions; \<open>pg_run\<close> interleaves the transactions of any
  number of concurrent calls by an explicit schedule.
\<close>

declare map_of_eq_Some_iff [simp del] and Some_eq_map_of_iff [simp del]

section \<open>The in-memory limiter\<close>

definition rate_window :: real where "rate_window = 60"
definition max_tracked_keys :: nat where "max_tracked_keys = 10000"

type_synonym hits = "(string, real list) dict"

definition client_key :: "string option \<Rightarrow> string \<Rightarrow> string option \<Rightarrow> string" where
  "client_key client_host bucket subject =
     (case subject of
        Some s \<Rightarrow> bucket @ '':'' @ s
      | None \<Rightarrow> bucket @ '':'' @ (case client_host of Some h \<Rightarrow> h | None \<Rightarrow> ''unknown''))"

definition expire :: "real \<Rightarrow> real list \<Rightarrow> real list" where
  "expire now window = dropWhile (\<lambda>t. rate_window < now - t) window"

definition window_of :: "hits \<Rightarrow> string \<Rightarrow> real list" where
  "window_of hits key = (case dict_get hits key of None \<Rightarrow> [] | Some w \<Rightarrow> w)"

text \<open>The key moves to the end, then the oldest keys beyond the maximum are dropped.\<close>

definition prune_and_count_in_memory :: "string \<Rightarrow> real \<Rightarrow> hits \<Rightarrow> nat \<times> hits" where
  "prune_and_count_in_memory key now hits =
     (let window = expire now (window_of hits key);
          moved = dict_del key hits @ [(key, window)]
      in (length window, drop (length moved - max_tracked_keys) moved))"

datatype rate_outcome =
    TooMany429 int int int
  | Admitted "(int \<times> int) option"

definition refuse :: "int \<Rightarrow> rate_outcome" where
  "refuse max_allowed = TooMany429 max_allowed 0 60"

definition admitted :: "rate_outcome \<Rightarrow> bool" where
  "admitted r = (case r of Admitted _ \<Rightarrow> True | TooMany429 _ _ _ \<Rightarrow> False)"

definition enforce_in_memory :: "bool \<Rightarrow> string \<Rightarrow> int \<Rightarrow> real \<Rightarrow> hits \<Rightarrow> rate_outcome \<times> hits" where
  "enforce_in_memory respond key max_allowed now hits =
     (case prune_and_count_in_memory key now hits of
        (n_hits, hits1) \<Rightarrow>
          (if max_allowed \<le> int n_hits then (refuse max_allowed, hits1)
           else (Admitted (if respond then Some (max_allowed, max 0 (max_allowed - int n_hits - 1)) else None),
                 dict_put key (window_of hits1 key @ [now]) hits1)))"

section \<open>The database limiter\<close>

type_synonym pg_row_key = "string \<times> int"
type_synonym pg_table = "(pg_row_key, nat) dict"

definition pg_window_start :: "real \<Rightarrow> int" where
  "pg_window_start now = \<lfloor>now / rate_window\<rfloor> * 60"

text \<open>One update transaction; the phases of a call; one transaction of a call.\<close>

definition pg_update :: "pg_row_key \<Rightarrow> pg_table \<Rightarrow> nat option \<times> pg_table" where
  "pg_update key t =
     (case dict_get t key of
        Some n \<Rightarrow> (Some (n + 1), dict_put key (n + 1) t)
      | None \<Rightarrow> (None, t))"

datatype pg_phase = FirstUpdate | TryInsert | SecondUpdate | Counted nat

fun pg_step :: "pg_row_key \<Rightarrow> pg_phase \<Rightarrow> pg_table \<Rightarrow> pg_phase \<times> pg_table" where
  "pg_step key FirstUpdate t =
     (case pg_update key t of (Some n, t') \<Rightarrow> (Counted n, t') | (None, t') \<Rightarrow> (TryInsert, t'))"
| "pg_step key TryInsert t =
     (case dict_get t key of
        None \<Rightarrow> (Counted 1, dict_put key 1 t)
      | Some n \<Rightarrow> (SecondUpdate, t))"
| "pg_step key SecondUpdate t =
     (case pg_update key t of (Some n, t') \<Rightarrow> (Counted n, t') | (None, t') \<Rightarrow> (Counted 1, t'))"
| "pg_step key (Counted n) t = (Counted n, t)"

text \<open>A call that runs alone.\<close>

definition hit_and_count :: "string \<Rightarrow> real \<Rightarrow> pg_table \<Rightarrow> nat \<times> pg_table" where
  "hit_and_count key now t =
     (let k = (key, pg_window_start now);
          (p1, t1) = pg_step k FirstUpdate t; (p2, t2) = pg_step k p1 t1; (p3, t3) = pg_step k p2 t2
      in (case p3 of Counted n \<Rightarrow> n | _ \<Rightarrow> 0, t3))"

type_synonym pg_call = "pg_row_key \<times> pg_phase"

fun pg_run :: "nat list \<Rightarrow> pg_table \<times> pg_call list \<Rightarrow> pg_table \<times> pg_call list" where
  "pg_run [] s = s"
| "pg_run (i # sched) (t, calls) =
     (if i < length calls then
        (case pg_step (fst (calls ! i)) (snd (calls ! i)) t of
           (p, t') \<Rightarrow> pg_run sched (t', calls[i := (fst (calls ! i), p)]))
      else pg_run sched (t, calls))"

definition enforce_count :: "bool \<Rightarrow> int \<Rightarrow> nat \<Rightarrow> rate_outcome" where
  "enforce_count respond max_allowed n_hits =
     (if max_allowed < int n_hits then refuse max_allowed
      else Admitted (if respond then Some (max_allowed, max 0 (max_allowed - int n_hits)) else None))"

record rate_state =
  rs_hits :: hits
  rs_table :: pg_table

text \<open>\<open>ticks\<close> and \<open>wall\<close> are the two clocks.\<close>

definition enforce_rate_limit ::
    "string \<Rightarrow> int \<Rightarrow> string option \<Rightarrow> string \<Rightarrow> string option \<Rightarrow> int option \<Rightarrow> bool \<Rightarrow> real \<Rightarrow> real \<Rightarrow>
     rate_state \<Rightarrow> rate_outcome \<times> rate_state" where
  "enforce_rate_limit backend default_limit client_host bucket subject limit respond ticks wall s =
     (let key = client_key client_host bucket subject;
          max_allowed = (case limit of Some l \<Rightarrow> l | None \<Rightarrow> default_limit)
      in if backend = ''postgres'' then
           (case hit_and_count key wall (rs_table s) of
              (n_hits, t) \<Rightarrow> (enforce_count respond max_allowed n_hits, s\<lparr>rs_table := t\<rparr>))
         else
           (case enforce_in_memory respond key max_allowed ticks (rs_hits s) of
              (out, h) \<Rightarrow> (out, s\<lparr>rs_hits := h\<rparr>)))"

definition peek_remaining ::
    "string \<Rightarrow> string \<Rightarrow> string \<Rightarrow> int \<Rightarrow> real \<Rightarrow> real \<Rightarrow> rate_state \<Rightarrow> int \<times> rate_state" where
  "peek_remaining backend bucket subject limit ticks wall s =
     (let key = bucket @ '':'' @ subject in
      if backend = ''postgres'' then
        (max 0 (limit - (case dict_get (rs_table s) (key, pg_window_start wall) of
                           None \<Rightarrow> 0 | Some n \<Rightarrow> int n)), s)
      else
        (case dict_get (rs_hits s) key of
           None \<Rightarrow> (limit, s)
         | Some w \<Rightarrow> (max 0 (limit - int (length (expire ticks w))),
                      s\<lparr>rs_hits := dict_put key (expire ticks w) (rs_hits s)\<rparr>)))"

section \<open>The in-memory limiter is an exact sliding window\<close>

type_synonym rate_op = "string \<times> int \<times> real"

fun run_limiter :: "rate_op list \<Rightarrow> hits \<Rightarrow> bool list \<times> hits" where
  "run_limiter [] h = ([], h)"
| "run_limiter ((key, limit, now) # ops) h =
     (case enforce_in_memory False key limit now h of
        (out, h1) \<Rightarrow> (case run_limiter ops h1 of (bs, h2) \<Rightarrow> (admitted out # bs, h2)))"

text \<open>Times of the admitted requests of a key.\<close>

fun admitted_times :: "string \<Rightarrow> rate_op list \<Rightarrow> bool list \<Rightarrow> real list" where
  "admitted_times key ((k, l, t) # ops) (b # bs) =
     (if b \<and> k = key then t # admitted_times key ops bs else admitted_times key ops bs)"
| "admitted_times key _ _ = []"

lemma expire_filter: "sorted w \<Longrightarrow> expire now w = filter (\<lambda>t. now - t \<le> rate_window) w"
  unfolding expire_def
proof (induction w)
  case (Cons t w)
  show ?case
  proof (cases "rate_window < now - t")
    case False
    then have "\<forall>u\<in>set (t # w). now - u \<le> rate_window" using Cons.prems by auto
    then have "filter (\<lambda>t. now - t \<le> rate_window) (t # w) = t # w" by (intro filter_True) blast
    then show ?thesis using False by simp
  qed (use Cons in auto)
qed simp

text \<open>The table holds, for each key, the admitted times less some that have expired.\<close>

definition window_inv :: "hits \<Rightarrow> (string \<Rightarrow> real list) \<Rightarrow> real \<Rightarrow> bool" where
  "window_inv h past now = (\<forall>k. sorted (past k) \<and> (\<forall>t\<in>set (past k). t \<le> now) \<and>
     (\<exists>d. past k = d @ window_of h k \<and> (\<forall>t\<in>set d. rate_window < now - t)))"

lemma window_of_moved:
  "window_of (dict_del k h @ [(k, w)]) k' = (if k' = k then w else window_of h k')"
  by (simp add: window_of_def map_add_def delete_conv' split: option.splits)

lemma window_of_put: "window_of (dict_put k w h) k' = (if k' = k then w else window_of h k')"
  by (simp add: window_of_def dict_simps)

lemma keys_moved: "fst ` set (dict_del k h @ [(k, w)]) = insert k (fst ` set h)"
  by (simp add: dom_map_of_conv_image_fst [symmetric] insert_Diff_single del: dom_map_of_conv_image_fst) (auto simp: delete_keys)

lemma dict_ok_length: "dict_ok d \<Longrightarrow> length d = card (fst ` set d)"
  using distinct_card [of "dict_keys d"] by simp

lemma keys_put_present:
  "k \<in> fst ` set h \<Longrightarrow> fst ` set (dict_put k w h) = fst ` set h"
  using dict_put_keys [of k w h] by (simp add: insert_absorb)

lemma prune_and_count_no_drop:
  assumes "dict_ok h" and "card (insert k (fst ` set h)) \<le> max_tracked_keys"
  shows "prune_and_count_in_memory k now h =
    (length (expire now (window_of h k)), dict_del k h @ [(k, expire now (window_of h k))])"
proof -
  let ?m = "dict_del k h @ [(k, expire now (window_of h k))]"
  have "dict_ok ?m" using assms(1) by (auto simp: delete_keys distinct_removeAll)
  then have "length ?m = card (fst ` set ?m)" by (rule dict_ok_length)
  also have "\<dots> \<le> max_tracked_keys" using assms(2) by (simp only: keys_moved)
  finally show ?thesis by (simp add: prune_and_count_in_memory_def Let_def)
qed

lemma sorted_suffix: "sorted (d @ w) \<Longrightarrow> sorted (w :: real list)"
  by (simp add: sorted_append)

lemma window_inv_count:
  assumes "window_inv h past t0" and "t0 \<le> now"
  shows "length (expire now (window_of h k)) = length (filter (\<lambda>t. now - t \<le> rate_window) (past k))"
proof -
  obtain d where d: "past k = d @ window_of h k" "\<forall>t\<in>set d. rate_window < t0 - t" "sorted (past k)"
    using assms(1) unfolding window_inv_def by blast
  have "filter (\<lambda>t. now - t \<le> rate_window) d = []" using d(2) assms(2) by (fastforce simp: filter_empty_conv)
  then show ?thesis using d(1,3) by (simp add: expire_filter [OF sorted_suffix])
qed

lemma window_inv_expire:
  assumes "window_inv h past t0" and "t0 \<le> now"
    and "\<And>k'. window_of h' k' = (if k' = k then expire now (window_of h k) @ new else window_of h k')"
    and "new = [] \<or> new = [now]"
  shows "window_inv h' (\<lambda>k'. if k' = k then past k @ new else past k') now"
  unfolding window_inv_def
proof (intro allI conjI)
  fix k'
  obtain d where d: "past k' = d @ window_of h k'" "\<forall>t\<in>set d. rate_window < t0 - t"
      "sorted (past k')" "\<forall>t\<in>set (past k'). t \<le> t0"
    using assms(1) unfolding window_inv_def by blast
  show "sorted (if k' = k then past k @ new else past k')"
    using d(3,4) assms(2,4) by (auto simp: sorted_append)
  show "\<forall>t\<in>set (if k' = k then past k @ new else past k'). t \<le> now"
    using d(4) assms(2,4) by auto
  have old: "\<forall>t\<in>set d. rate_window < now - t" using d(2) assms(2) by fastforce
  let ?e = "takeWhile (\<lambda>t. rate_window < now - t) (window_of h k)"
  have e: "window_of h k = ?e @ expire now (window_of h k)" by (simp add: expire_def)
  have "\<forall>t\<in>set ?e. rate_window < now - t" by (auto dest: set_takeWhileD)
  then show "\<exists>d. (if k' = k then past k @ new else past k') = d @ window_of h' k' \<and>
      (\<forall>t\<in>set d. rate_window < now - t)"
    using d(1) old e unfolding assms(3)
    by (cases "k' = k") (auto intro!: exI [of _ "d @ ?e"])
qed

lemma enforce_in_memory_step:
  assumes "window_inv h past t0" and "t0 \<le> now" and "dict_ok h"
    and "card (insert k (fst ` set h)) \<le> max_tracked_keys"
    and "enforce_in_memory r k limit now h = (out, h')"
  defines "recent \<equiv> length (filter (\<lambda>t. now - t \<le> rate_window) (past k))"
  shows "admitted out \<longleftrightarrow> int recent < limit"
    and "window_inv h' (\<lambda>k'. if k' = k then past k @ (if admitted out then [now] else []) else past k') now"
    and "dict_ok h'" and "fst ` set h' = insert k (fst ` set h)"
proof -
  let ?e = "expire now (window_of h k)" and ?m = "dict_del k h @ [(k, expire now (window_of h k))]"
  note pc = prune_and_count_no_drop [OF assms(3,4), of now]
  have len: "length ?e = recent" unfolding recent_def by (rule window_inv_count [OF assms(1,2)])
  have okm: "dict_ok ?m" using assms(3) by (auto simp: delete_keys distinct_removeAll)
  show adm: "admitted out \<longleftrightarrow> int recent < limit"
    using assms(5) by (auto simp: enforce_in_memory_def pc len admitted_def refuse_def split: if_splits)
  have h': "h' = (if admitted out then dict_put k (?e @ [now]) ?m else ?m)"
    using assms(5) adm
    by (auto simp: enforce_in_memory_def pc len window_of_moved split: if_splits)
  have win: "window_of h' k' =
      (if k' = k then ?e @ (if admitted out then [now] else []) else window_of h k')" for k'
    by (simp add: h' window_of_put window_of_moved)
  show "window_inv h' (\<lambda>k'. if k' = k then past k @ (if admitted out then [now] else []) else past k') now"
    by (rule window_inv_expire [OF assms(1,2) win]) simp
  show "dict_ok h'" using okm by (simp add: h')
  have "fst ` set ?m = insert k (fst ` set h)" by (rule keys_moved)
  then show "fst ` set h' = insert k (fst ` set h)"
    using keys_put_present [of k ?m "?e @ [now]"] unfolding h' by (cases "admitted out") simp_all
qed

lemma run_limiter_inv:
  assumes "run_limiter ops h = (bs, h')" and "window_inv h past t0" and "dict_ok h"
    and "card (fst ` set h \<union> fst ` set ops) \<le> max_tracked_keys"
    and "sorted (t0 # map (snd \<circ> snd) ops)"
  shows "\<exists>t. window_inv h' (\<lambda>k. past k @ admitted_times k ops bs) t \<and> dict_ok h' \<and>
    fst ` set h' = fst ` set h \<union> fst ` set ops \<and>
    t \<in> set (t0 # map (snd \<circ> snd) ops)"
  using assms
proof (induction ops arbitrary: h bs past t0)
  case Nil
  then show ?case by auto
next
  case (Cons op ops)
  obtain k limit now where op: "op = (k, limit, now)" by (cases op)
  obtain out h1 where e: "enforce_in_memory False k limit now h = (out, h1)" by (metis prod.exhaust)
  obtain bs' where r: "run_limiter ops h1 = (bs', h')" and bs: "bs = admitted out # bs'"
    using Cons.prems(1) by (auto simp: op e split: prod.splits)
  have card: "card (insert k (fst ` set h)) \<le> max_tracked_keys"
    using Cons.prems(4) by (rule order_trans [OF card_mono, rotated 2]) (auto simp: op)
  have le: "t0 \<le> now" using Cons.prems(5) by (simp add: op)
  let ?past = "\<lambda>k'. if k' = k then past k @ (if admitted out then [now] else []) else past k'"
  note step = enforce_in_memory_step [OF Cons.prems(2) le Cons.prems(3) card e]
  have "\<exists>t. window_inv h' (\<lambda>k. ?past k @ admitted_times k ops bs') t \<and> dict_ok h' \<and>
      fst ` set h' = fst ` set h1 \<union> fst ` set ops \<and> t \<in> set (now # map (snd \<circ> snd) ops)"
    by (rule Cons.IH [OF r step(2,3)]) (use Cons.prems(4,5) in \<open>auto simp: step(4) op\<close>)
  moreover have "(\<lambda>k. ?past k @ admitted_times k ops bs') =
      (\<lambda>k. past k @ admitted_times k (op # ops) bs)" by (auto simp: bs op)
  ultimately show ?case by (auto simp: op step(4))
qed

text \<open>The in-memory limiter is an exact sliding window. After any requests at
  non-decreasing times that use at most 10000 keys together with the next one, the next
  request is admitted exactly if fewer than its limit of that key's requests were admitted
  in the last 60 seconds; refused requests do not count.\<close>

theorem sliding_window_exact:
  assumes "run_limiter ops [] = (bs, h)"
    and "sorted (map (snd \<circ> snd) ops @ [now])"
    and "card (fst ` set ops \<union> {key}) \<le> max_tracked_keys"
  shows "admitted (fst (enforce_in_memory respond key limit now h)) \<longleftrightarrow>
    int (length (filter (\<lambda>t. now - t \<le> 60) (admitted_times key ops bs))) < limit"
proof -
  let ?t0 = "hd (map (snd \<circ> snd) ops @ [now])"
  have inv0: "window_inv [] (\<lambda>k. []) ?t0" by (simp add: window_inv_def window_of_def)
  have card: "card (fst ` set [] \<union> fst ` set ops) \<le> max_tracked_keys"
    using card_insert_le [of "fst ` set ops" key] assms(3) by simp
  have srt: "sorted (?t0 # map (snd \<circ> snd) ops)" using assms(2) by (cases ops) (auto simp: sorted_append)
  have ok: "dict_ok ([] :: hits)" by simp
  obtain t where t: "window_inv h (\<lambda>k. [] @ admitted_times k ops bs) t" "dict_ok h"
      "fst ` set h = fst ` set ([] :: hits) \<union> fst ` set ops" "t \<in> set (?t0 # map (snd \<circ> snd) ops)"
    using run_limiter_inv [OF assms(1) inv0 ok card srt] by blast
  have "t \<le> now" using t(4) assms(2) by (cases ops) (auto simp: sorted_append)
  moreover have "card (insert key (fst ` set h)) \<le> max_tracked_keys" using assms(3) t(3) by simp
  moreover obtain out h' where "enforce_in_memory respond key limit now h = (out, h')"
    by (metis prod.exhaust)
  ultimately show ?thesis
    using enforce_in_memory_step(1) [OF t(1) _ t(2), of now key respond limit out h']
    by (simp add: rate_window_def)
qed

theorem sliding_window_exact_witness:
  "admitted (fst (enforce_in_memory True ''k'' 2 61
      (snd (run_limiter [(''k'', 2, 0), (''k'', 2, 1), (''k'', 2, 60)] []))))"
proof -
  let ?ops = "[(''k'', 2, 0), (''k'', 2, 1), (''k'', 2, 60)] :: rate_op list"
  have run: "fst (run_limiter ?ops []) = [True, True, False]"
    by (simp add: enforce_in_memory_def prune_and_count_in_memory_def window_of_def expire_def
        rate_window_def max_tracked_keys_def admitted_def refuse_def Let_def)
  obtain h where h: "run_limiter ?ops [] = ([True, True, False], h)"
    using run by (cases "run_limiter ?ops []") simp
  show ?thesis
    using sliding_window_exact [OF h, of 61 "''k''" True 2] by (simp add: h max_tracked_keys_def del: run_limiter.simps)
qed

section \<open>Concurrent calls of the database limiter\<close>

definition row_count :: "pg_table \<Rightarrow> pg_row_key \<Rightarrow> nat" where
  "row_count t key = (case dict_get t key of None \<Rightarrow> 0 | Some n \<Rightarrow> n)"

text \<open>The counts the finished calls for a row have returned.\<close>

fun call_count :: "pg_row_key \<Rightarrow> pg_call \<Rightarrow> nat list" where
  "call_count key (k, Counted n) = (if k = key then [n] else [])"
| "call_count key (k, _) = []"

definition counted :: "pg_row_key \<Rightarrow> pg_call list \<Rightarrow> nat list" where
  "counted key calls = concat (map (call_count key) calls)"

lemma call_count_open [simp]: "\<not> (\<exists>n. p = Counted n) \<Longrightarrow> call_count key (k, p) = []"
  by (cases p) auto

lemma mset_counted_update:
  "i < length calls \<Longrightarrow> call_count key (calls ! i) = [] \<Longrightarrow>
     mset (counted key (calls[i := c])) = mset (counted key calls) + mset (call_count key c)"
  unfolding counted_def
proof (induction calls arbitrary: i)
  case (Cons a calls)
  then show ?case by (cases i) auto
qed simp

definition pg_inv :: "pg_table \<Rightarrow> pg_call list \<Rightarrow> bool" where
  "pg_inv t calls =
     ((\<forall>key. mset (counted key calls) = mset [1..<Suc (row_count t key)]) \<and>
      (\<forall>key. (key, SecondUpdate) \<in> set calls \<longrightarrow> dict_get t key \<noteq> None))"

lemma pg_inv_counted: "pg_inv t calls \<Longrightarrow> mset (counted key calls) = mset [1..<Suc (row_count t key)]"
  unfolding pg_inv_def by blast

lemma pg_inv_second: "pg_inv t calls \<Longrightarrow> (key, SecondUpdate) \<in> set calls \<Longrightarrow> dict_get t key \<noteq> None"
  unfolding pg_inv_def by blast

text \<open>A transaction either counts, returning the row's new value, or only moves the call on.\<close>

lemma pg_step_cases:
  assumes "pg_step key p t = (p', t')" and "p = SecondUpdate \<Longrightarrow> dict_get t key \<noteq> None"
    and "\<not> (\<exists>n. p = Counted n)"
  shows "(p' = Counted (Suc (row_count t key)) \<and> t' = dict_put key (Suc (row_count t key)) t) \<or>
    (t' = t \<and> (p' = TryInsert \<or> p' = SecondUpdate \<and> dict_get t key \<noteq> None))"
  using assms
  by (cases p) (auto simp: pg_update_def row_count_def split: option.splits)

lemma upt_extend: "[Suc 0..<Suc (Suc m)] = [Suc 0..<Suc m] @ [Suc m]"
  by simp

lemma row_count_put: "row_count (dict_put key n t) key' = (if key' = key then n else row_count t key')"
  by (simp add: row_count_def dict_simps)

lemma pg_inv_step:
  assumes inv: "pg_inv t calls" and i: "i < length calls" and call: "calls ! i = (key, p)"
    and step: "pg_step key p t = (p', t')"
  shows "pg_inv t' (calls[i := (key, p')])"
proof (cases "\<exists>n. p = Counted n")
  case True
  then have "p' = p" "t' = t" using step by auto
  moreover have "calls[i := (key, p)] = calls" using call by (metis list_update_id)
  ultimately show ?thesis using inv by simp
next
  case False
  have "(key, p) \<in> set calls" using i call by (metis nth_mem)
  then have second: "p = SecondUpdate \<Longrightarrow> dict_get t key \<noteq> None" using pg_inv_second [OF inv] by blast
  have upd: "mset (counted k (calls[i := c])) = mset (counted k calls) + mset (call_count k c)" for k c
    by (rule mset_counted_update [OF i]) (use call False in auto)
  have old: "mset (counted k calls) = mset [1..<Suc (row_count t k)]" for k
    by (rule pg_inv_counted [OF inv])
  have sub: "(k, SecondUpdate) \<in> set (calls[i := (key, p')]) \<Longrightarrow>
      (k, SecondUpdate) \<in> set calls \<or> (k = key \<and> p' = SecondUpdate)" for k
    using set_update_subset_insert [of calls i "(key, p')"] by auto
  from pg_step_cases [OF step second False] show ?thesis
  proof
    assume c: "p' = Counted (Suc (row_count t key)) \<and> t' = dict_put key (Suc (row_count t key)) t"
    show ?thesis
      unfolding pg_inv_def
    proof (intro conjI allI impI)
      show "mset (counted k (calls[i := (key, p')])) = mset [1..<Suc (row_count t' k)]" for k
        unfolding upd old using c
          by (cases "k = key") (simp_all add: row_count_put upt_extend del: upt_Suc)
      show "(k, SecondUpdate) \<in> set (calls[i := (key, p')]) \<Longrightarrow> dict_get t' k \<noteq> None" for k
        using sub [of k] c pg_inv_second [OF inv, of k] by (auto simp: dict_simps)
    qed
  next
    assume c: "t' = t \<and> (p' = TryInsert \<or> p' = SecondUpdate \<and> dict_get t key \<noteq> None)"
    show ?thesis
      unfolding pg_inv_def
    proof (intro conjI allI impI)
      show "mset (counted k (calls[i := (key, p')])) = mset [1..<Suc (row_count t' k)]" for k
        unfolding upd old using c by auto
      show "(k, SecondUpdate) \<in> set (calls[i := (key, p')]) \<Longrightarrow> dict_get t' k \<noteq> None" for k
        using sub [of k] c pg_inv_second [OF inv, of k] by auto
    qed
  qed
qed

lemma pg_run_inv: "pg_run sched (t, calls) = (t', calls') \<Longrightarrow> pg_inv t calls \<Longrightarrow> pg_inv t' calls'"
proof (induction sched "(t, calls)" arbitrary: t calls rule: pg_run.induct)
  case (2 i sched t calls)
  obtain key p where call: "calls ! i = (key, p)" by (cases "calls ! i")
  obtain p1 t1 where step: "pg_step key p t = (p1, t1)" by (cases "pg_step key p t")
  show ?case
  proof (cases "i < length calls")
    case True
    have "pg_run sched (t1, calls[i := (key, p1)]) = (t', calls')" using 2(3) True by (simp add: call step)
    then show ?thesis using 2(1) [OF True] pg_inv_step [OF 2(4) True call step] by (simp add: call step)
  next
    case False
    then show ?thesis using 2(2) [OF False] 2(3,4) by simp
  qed
qed simp

text \<open>C11: However the transactions of concurrent calls interleave, the calls of one window
  that have finished returned the counts 1, 2, ..., n, each once, where n is the row's
  count; so at most \<open>limit\<close> of them can be admitted.\<close>

theorem concurrent_counts_exact:
  assumes "pg_run sched ([], map (\<lambda>k. (k, FirstUpdate)) keys) = (t, calls)"
  shows "sort (counted key calls) = [1..<Suc (row_count t key)] \<and>
    length (filter (\<lambda>n. admitted (enforce_count respond limit n)) (counted key calls)) \<le> nat limit"
proof -
  have empty: "counted k (map (\<lambda>k. (k, FirstUpdate)) keys) = []" for k
    by (simp add: counted_def)
  have "pg_inv [] (map (\<lambda>k. (k, FirstUpdate)) keys)"
    by (auto simp: pg_inv_def empty row_count_def)
  then have inv: "mset (counted key calls) = mset [1..<Suc (row_count t key)]"
    by (intro pg_inv_counted pg_run_inv [OF assms])
  have srt: "sort (counted key calls) = [1..<Suc (row_count t key)]"
    by (rule properties_for_sort) (simp only: inv, rule sorted_upt)
  let ?ok = "\<lambda>n. admitted (enforce_count respond limit n)"
  have ok: "?ok n \<longleftrightarrow> int n \<le> limit" for n
    by (simp add: enforce_count_def refuse_def admitted_def)
  have "length (filter ?ok (counted key calls)) = size (filter_mset ?ok (mset (counted key calls)))"
    by (metis mset_filter size_mset)
  also have "\<dots> = length (filter ?ok [1..<Suc (row_count t key)])"
    unfolding inv by (metis mset_filter size_mset)
  also have "\<dots> = card {n \<in> {1..<Suc (row_count t key)}. ?ok n}"
    by (metis distinct_card distinct_filter distinct_upt set_filter set_upt atLeastLessThan_upt)
  also have "\<dots> \<le> card {1..nat limit}" by (rule card_mono) (auto simp: ok)
  finally show ?thesis using srt by simp
qed

theorem concurrent_counts_exact_witness:
  "sort (counted (''k'', 0) (snd (pg_run [0, 1, 0, 1, 1]
      ([], [((''k'', 0), FirstUpdate), ((''k'', 0), FirstUpdate)])))) = [1, 2]"
proof -
  have run: "pg_run [0, 1, 0, 1, 1] ([], map (\<lambda>k. (k, FirstUpdate)) [(''k'', 0), (''k'', 0)]) =
      ([((''k'', 0), 2)], [((''k'', 0), Counted 1), ((''k'', 0), Counted 2)])"
    by (simp add: pg_update_def)
  show ?thesis
    using concurrent_counts_exact [OF run, of "(''k'', 0)" True 1] run
    by (simp add: row_count_def upt_rec del: pg_run.simps)
qed

end
