(* ===== verification/Idempotency.thy ===== *)
theory Idempotency
  imports Prelude
begin

text \<open>
  \<open>control_plane/idempotency.py\<close>: the Idempotency-Key middleware. One database session of
  a request is one step on the table of keys; \<open>run_requests\<close> interleaves the steps of any
  number of requests by an explicit schedule. The application behind the middleware and
  the digest are parameters; bytes are characters.
\<close>

declare map_of_eq_Some_iff [simp del] and Some_eq_map_of_iff [simp del]

section \<open>Messages\<close>

type_synonym headers = "(string \<times> string) list"

datatype received = HttpRequest string bool | OtherMessage

datatype sent = ResponseStart nat headers | ResponseBody string | OtherSent

record http_scope =
  hs_type :: string
  hs_method :: string
  hs_path :: string
  hs_headers :: headers

definition header :: "http_scope \<Rightarrow> string \<Rightarrow> string option" where
  "header scope name =
     (case filter (\<lambda>(k, v). py_lower k = name) (hs_headers scope) of
        [] \<Rightarrow> None
      | (k, v) # _ \<Rightarrow> Some v)"

fun read_body :: "received list \<Rightarrow> string" where
  "read_body [] = []"
| "read_body (OtherMessage # ms) = []"
| "read_body (HttpRequest body more_body # ms) = body @ (if more_body then read_body ms else [])"

text \<open>The buffered body is handed on once, then a disconnect.\<close>

fun replayable_receive :: "string \<Rightarrow> bool \<Rightarrow> received \<times> bool" where
  "replayable_receive body delivered =
     (if \<not> delivered then (HttpRequest body False, True) else (OtherMessage, delivered))"

definition send_json_error :: "nat \<Rightarrow> string \<Rightarrow> string \<Rightarrow> sent list" where
  "send_json_error status code message =
     (let q = [CHR 0x22];
          body = ''{'' @ q @ ''error'' @ q @ '': {'' @ q @ ''code'' @ q @ '': '' @ q @ code @ q @ '', ''
                 @ q @ ''message'' @ q @ '': '' @ q @ message @ q @ ''}}''
      in [ResponseStart status
            [(''content-type'', ''application/json''), (''content-length'', decimal (length body))],
          ResponseBody body])"

section \<open>The table of keys\<close>

record idem_row =
  ir_fingerprint :: string
  ir_status :: "nat option"
  ir_body :: "string option"
  ir_media_type :: "string option"

type_synonym idem_table = "(string, idem_row) dict"

definition replay :: "idem_row \<Rightarrow> sent list" where
  "replay row =
     (let body = (case ir_body row of None \<Rightarrow> [] | Some b \<Rightarrow> b);
          media_type = (case ir_media_type row of
                          None \<Rightarrow> ''application/json''
                        | Some m \<Rightarrow> (if m = [] then ''application/json'' else m))
      in [ResponseStart (case ir_status row of None \<Rightarrow> 0 | Some s \<Rightarrow> s)
            [(''content-type'', media_type), (''content-length'', decimal (length body)),
             (''idempotent-replayed'', ''true'')],
          ResponseBody body])"

record captured =
  cp_status :: "nat option"
  cp_media_type :: "string option"
  cp_body :: string

definition nothing_captured :: captured where
  "nothing_captured = \<lparr>cp_status = None, cp_media_type = None, cp_body = []\<rparr>"

fun media_type_of :: "headers \<Rightarrow> string option \<Rightarrow> string option" where
  "media_type_of [] m = m"
| "media_type_of ((k, v) # hs) m =
     media_type_of hs (if py_lower k = ''content-type'' then Some v else m)"

fun send_capture :: "sent \<Rightarrow> captured \<Rightarrow> captured" where
  "send_capture (ResponseStart status headers) c =
     c\<lparr>cp_status := Some status, cp_media_type := media_type_of headers (cp_media_type c)\<rparr>"
| "send_capture (ResponseBody body) c = c\<lparr>cp_body := cp_body c @ body\<rparr>"
| "send_capture OtherSent c = c"

text \<open>What the application does with a request: the messages it sends, and whether it raises.\<close>

datatype app_result = Responded "sent list" | Raised "sent list"

fun capture_result :: "app_result \<Rightarrow> captured" where
  "capture_result (Responded ms) = fold send_capture ms nothing_captured"
| "capture_result (Raised ms) = fold send_capture ms nothing_captured"

definition uncacheable_status :: nat where "uncacheable_status = 500"

definition drop_key :: "string \<Rightarrow> idem_table \<Rightarrow> idem_table" where
  "drop_key scope_hash t = (case dict_get t scope_hash of None \<Rightarrow> t | Some row \<Rightarrow> dict_del scope_hash t)"

definition completed_row :: "captured \<Rightarrow> idem_row \<Rightarrow> idem_row" where
  "completed_row c row = row\<lparr>ir_status := cp_status c, ir_body := Some (cp_body c),
                             ir_media_type := cp_media_type c\<rparr>"

definition finalize :: "string \<Rightarrow> captured \<Rightarrow> idem_table \<Rightarrow> idem_table" where
  "finalize scope_hash c t =
     (case cp_status c of
        None \<Rightarrow> drop_key scope_hash t
      | Some status \<Rightarrow>
          (if uncacheable_status \<le> status then drop_key scope_hash t
           else case dict_get t scope_hash of
             None \<Rightarrow> t
           | Some row \<Rightarrow> dict_put scope_hash (completed_row c row) t))"

section \<open>A request\<close>

datatype idem_reply = PassedThrough | Reused422 | InProgress409 | Replayed idem_row | Executed

datatype idem_phase = Arrived | Inserting | Rereading | Executing | Storing | Finished idem_reply

record idem_request =
  iq_scope :: http_scope
  iq_messages :: "received list"
  iq_app :: app_result

definition scope_hash_of :: "(string \<Rightarrow> string) \<Rightarrow> http_scope \<Rightarrow> string \<Rightarrow> string" where
  "scope_hash_of digest scope key =
     digest (key @ [CHR 0x00] @ (case header scope ''authorization'' of None \<Rightarrow> [] | Some a \<Rightarrow> a)
             @ [CHR 0x00] @ hs_method scope @ [CHR 0x00] @ hs_path scope)"

text \<open>The key, when the middleware applies to the request.\<close>

definition idempotency_key :: "http_scope \<Rightarrow> string option" where
  "idempotency_key scope =
     (if hs_type scope \<noteq> ''http'' \<or> hs_method scope \<noteq> ''POST'' then None
      else case header scope ''idempotency-key'' of
        None \<Rightarrow> None
      | Some k \<Rightarrow> (if k = [] then None else Some k))"

definition answer_existing :: "string \<Rightarrow> idem_row \<Rightarrow> idem_reply" where
  "answer_existing fingerprint row =
     (if ir_fingerprint row \<noteq> fingerprint then Reused422
      else if ir_status row = None then InProgress409
      else Replayed row)"

definition pending_row :: "string \<Rightarrow> idem_row" where
  "pending_row fingerprint =
     \<lparr>ir_fingerprint = fingerprint, ir_status = None, ir_body = None, ir_media_type = None\<rparr>"

fun request_step ::
    "(string \<Rightarrow> string) \<Rightarrow> idem_request \<Rightarrow> idem_phase \<Rightarrow> idem_table \<Rightarrow> idem_phase \<times> idem_table" where
  "request_step digest req phase t =
     (case idempotency_key (iq_scope req) of
        None \<Rightarrow> (Finished PassedThrough, t)
      | Some key \<Rightarrow>
          (let h = scope_hash_of digest (iq_scope req) key;
               fp = digest (read_body (iq_messages req))
           in case phase of
                Arrived \<Rightarrow>
                  (case dict_get t h of
                     None \<Rightarrow> (Inserting, t)
                   | Some row \<Rightarrow> (Finished (answer_existing fp row), t))
              | Inserting \<Rightarrow>
                  (case dict_get t h of
                     None \<Rightarrow> (Executing, dict_put h (pending_row fp) t)
                   | Some row \<Rightarrow> (Rereading, t))
              | Rereading \<Rightarrow>
                  (case dict_get t h of
                     None \<Rightarrow> (Executing, t)
                   | Some row \<Rightarrow> (Finished (answer_existing fp row), t))
              | Executing \<Rightarrow> (Storing, t)
              | Storing \<Rightarrow>
                  (Finished Executed,
                   case iq_app req of
                     Raised ms \<Rightarrow> drop_key h t
                   | Responded ms \<Rightarrow> finalize h (capture_result (iq_app req)) t)
              | Finished r \<Rightarrow> (Finished r, t)))"

declare request_step.simps [simp del]

text \<open>The messages the client receives.\<close>

definition sent_to_client :: "idem_request \<Rightarrow> idem_reply \<Rightarrow> sent list" where
  "sent_to_client req r =
     (case r of
        Reused422 \<Rightarrow> send_json_error 422 ''idempotency_key_reuse''
          ''This Idempotency-Key was already used with a different request body.''
      | InProgress409 \<Rightarrow> send_json_error 409 ''idempotency_key_in_progress''
          ''A request with this Idempotency-Key is still being processed.''
      | Replayed row \<Rightarrow> replay row
      | _ \<Rightarrow> (case iq_app req of Responded ms \<Rightarrow> ms | Raised ms \<Rightarrow> ms))"

fun run_requests ::
    "(string \<Rightarrow> string) \<Rightarrow> nat list \<Rightarrow> idem_table \<times> (idem_request \<times> idem_phase) list \<Rightarrow>
     idem_table \<times> (idem_request \<times> idem_phase) list" where
  "run_requests digest [] s = s"
| "run_requests digest (i # sched) (t, rs) =
     (if i < length rs then
        (case request_step digest (fst (rs ! i)) (snd (rs ! i)) t of
           (p, t') \<Rightarrow> run_requests digest sched (t', rs[i := (fst (rs ! i), p)]))
      else run_requests digest sched (t, rs))"

section \<open>At most one execution per key\<close>

definition claimed_hash :: "(string \<Rightarrow> string) \<Rightarrow> idem_request \<Rightarrow> string option" where
  "claimed_hash digest req =
     map_option (scope_hash_of digest (iq_scope req)) (idempotency_key (iq_scope req))"

definition fingerprint_of :: "(string \<Rightarrow> string) \<Rightarrow> idem_request \<Rightarrow> string" where
  "fingerprint_of digest req = digest (read_body (iq_messages req))"

text \<open>The application answers with a status below 500 and does not raise.\<close>

definition cacheable :: "idem_request \<Rightarrow> bool" where
  "cacheable req =
     (case iq_app req of
        Raised ms \<Rightarrow> False
      | Responded ms \<Rightarrow>
          (case cp_status (capture_result (iq_app req)) of
             None \<Rightarrow> False | Some s \<Rightarrow> s < uncacheable_status))"

definition runs_app :: "(string \<Rightarrow> string) \<Rightarrow> string \<Rightarrow> idem_request \<times> idem_phase \<Rightarrow> bool" where
  "runs_app digest h rp =
     (claimed_hash digest (fst rp) = Some h \<and> snd rp \<in> {Executing, Storing, Finished Executed})"

definition stored_row :: "(string \<Rightarrow> string) \<Rightarrow> idem_request \<Rightarrow> idem_row" where
  "stored_row digest req =
     completed_row (capture_result (iq_app req)) (pending_row (fingerprint_of digest req))"

text \<open>What the phase of a request says about the row of its key.\<close>

definition phase_ok :: "(string \<Rightarrow> string) \<Rightarrow> idem_row option \<Rightarrow> idem_request \<Rightarrow> idem_phase \<Rightarrow> bool" where
  "phase_ok digest row req p =
     (case p of
        Rereading \<Rightarrow> row \<noteq> None
      | Executing \<Rightarrow> row = Some (pending_row (fingerprint_of digest req))
      | Storing \<Rightarrow> row = Some (pending_row (fingerprint_of digest req))
      | Finished Executed \<Rightarrow> row = Some (stored_row digest req)
      | Finished (Replayed r) \<Rightarrow>
          row = Some r \<and> ir_status r \<noteq> None \<and> ir_fingerprint r = fingerprint_of digest req
      | _ \<Rightarrow> True)"

lemma phase_ok_simps [simp]:
  "phase_ok digest row req Arrived" "phase_ok digest row req Inserting"
  "phase_ok digest row req Rereading = (row \<noteq> None)"
  "phase_ok digest row req Executing = (row = Some (pending_row (fingerprint_of digest req)))"
  "phase_ok digest row req Storing = (row = Some (pending_row (fingerprint_of digest req)))"
  "phase_ok digest row req (Finished Executed) = (row = Some (stored_row digest req))"
  "phase_ok digest row req (Finished (Replayed r)) =
     (row = Some r \<and> ir_status r \<noteq> None \<and> ir_fingerprint r = fingerprint_of digest req)"
  "phase_ok digest row req (Finished PassedThrough)" "phase_ok digest row req (Finished Reused422)"
  "phase_ok digest row req (Finished InProgress409)"
  by (simp_all add: phase_ok_def)

text \<open>One step, seen from the row of the request's key.\<close>

fun row_step ::
    "(string \<Rightarrow> string) \<Rightarrow> idem_request \<Rightarrow> idem_phase \<Rightarrow> idem_row option \<Rightarrow> idem_phase \<times> idem_row option" where
  "row_step digest req Arrived None = (Inserting, None)"
| "row_step digest req Arrived (Some r) = (Finished (answer_existing (fingerprint_of digest req) r), Some r)"
| "row_step digest req Inserting None = (Executing, Some (pending_row (fingerprint_of digest req)))"
| "row_step digest req Inserting (Some r) = (Rereading, Some r)"
| "row_step digest req Rereading None = (Executing, None)"
| "row_step digest req Rereading (Some r) = (Finished (answer_existing (fingerprint_of digest req) r), Some r)"
| "row_step digest req Executing r = (Storing, r)"
| "row_step digest req Storing r =
     (Finished Executed, if cacheable req then map_option (completed_row (capture_result (iq_app req))) r else None)"
| "row_step digest req (Finished x) r = (Finished x, r)"

lemma dict_get_drop: "dict_get (drop_key h t) k = (if k = h then None else dict_get t k)"
  by (simp add: drop_key_def dict_simps split: option.splits)

lemma request_step_row:
  assumes "claimed_hash digest req = Some h" and "request_step digest req p t = (p', t')"
  shows "row_step digest req p (dict_get t h) = (p', dict_get t' h) \<and>
    (\<forall>k. k \<noteq> h \<longrightarrow> dict_get t' k = dict_get t k)"
  using assms
  by (cases p) (auto simp: claimed_hash_def request_step.simps Let_def fingerprint_of_def dict_simps
      finalize_def cacheable_def dict_get_drop split: option.splits if_splits app_result.splits)

lemma request_step_other:
  "claimed_hash digest req = None \<Longrightarrow> request_step digest req p t = (Finished PassedThrough, t)"
  by (auto simp: claimed_hash_def request_step.simps)

lemma answer_ok: "phase_ok digest (Some r) req (Finished (answer_existing (fingerprint_of digest req) r))"
  by (simp add: answer_existing_def)

text \<open>A step keeps its own phase in order; it starts the application only from an absent row,
  and changes the row of a key only as the one request that runs the application.\<close>

lemma row_step_ok:
  assumes "row_step digest req p row = (p', row')" and "phase_ok digest row req p" and "cacheable req"
  shows "phase_ok digest row' req p'"
    and "row' \<noteq> row \<Longrightarrow> row = None \<or> p = Storing"
    and "p' \<in> {Executing, Storing, Finished Executed} \<Longrightarrow>
      p \<in> {Executing, Storing, Finished Executed} \<or> row = None"
    and "row \<noteq> None \<Longrightarrow> row' \<noteq> None"
    and "row' \<noteq> None \<Longrightarrow> row \<noteq> None \<or> p' = Executing"
    and "p \<in> {Executing, Storing, Finished Executed} \<Longrightarrow> p' \<in> {Executing, Storing, Finished Executed}"
  using assms
  by (cases p; cases row; force simp: answer_ok stored_row_def answer_existing_def split: if_splits)+

definition idem_inv ::
    "(string \<Rightarrow> string) \<Rightarrow> idem_table \<Rightarrow> (idem_request \<times> idem_phase) list \<Rightarrow> bool" where
  "idem_inv digest t rs =
     ((\<forall>h i j. i < length rs \<longrightarrow> j < length rs \<longrightarrow> runs_app digest h (rs ! i) \<longrightarrow> runs_app digest h (rs ! j) \<longrightarrow> i = j) \<and>
      (\<forall>h. dict_get t h \<noteq> None \<longrightarrow> (\<exists>i<length rs. runs_app digest h (rs ! i))) \<and>
      (\<forall>i h. i < length rs \<longrightarrow> claimed_hash digest (fst (rs ! i)) = Some h \<longrightarrow>
         phase_ok digest (dict_get t h) (fst (rs ! i)) (snd (rs ! i))))"

lemma idem_inv_unique:
  "idem_inv digest t rs \<Longrightarrow> i < length rs \<Longrightarrow> j < length rs \<Longrightarrow>
     runs_app digest h (rs ! i) \<Longrightarrow> runs_app digest h (rs ! j) \<Longrightarrow> i = j"
  unfolding idem_inv_def by blast

lemma idem_inv_owner:
  "idem_inv digest t rs \<Longrightarrow> dict_get t h \<noteq> None \<Longrightarrow> \<exists>i<length rs. runs_app digest h (rs ! i)"
  unfolding idem_inv_def by blast

lemma idem_inv_phase:
  "idem_inv digest t rs \<Longrightarrow> i < length rs \<Longrightarrow> rs ! i = (req, p) \<Longrightarrow>
     claimed_hash digest req = Some h \<Longrightarrow> phase_ok digest (dict_get t h) req p"
  unfolding idem_inv_def by (metis fst_conv snd_conv)

lemma runs_app_row:
  "idem_inv digest t rs \<Longrightarrow> i < length rs \<Longrightarrow> runs_app digest h (rs ! i) \<Longrightarrow> dict_get t h \<noteq> None"
  using idem_inv_phase [of digest t rs i "fst (rs ! i)" "snd (rs ! i)" h]
  by (auto simp: runs_app_def)

lemma phase_ok_None: "phase_ok digest None req p \<Longrightarrow> phase_ok digest row req p"
  by (cases p) (auto simp: phase_ok_def split: idem_reply.splits)

lemma phase_ok_completed:
  "phase_ok digest (Some (pending_row fp)) req p \<Longrightarrow> p \<notin> {Executing, Storing, Finished Executed} \<Longrightarrow>
     row \<noteq> None \<Longrightarrow> phase_ok digest row req p"
  by (cases p) (auto simp: phase_ok_def pending_row_def split: idem_reply.splits)

lemma idem_inv_step:
  assumes inv: "idem_inv digest t rs" and i: "i < length rs" and at: "rs ! i = (req, p)"
    and step: "request_step digest req p t = (p', t')" and cache: "cacheable req"
  shows "idem_inv digest t' (rs[i := (req, p')])"
proof (cases "claimed_hash digest req")
  case None
  let ?rs = "rs[i := (req, p')]"
  have t': "t' = t" using request_step_other [OF None, of p t] step by simp
  have same: "runs_app digest h (?rs ! j) = runs_app digest h (rs ! j)" if "j < length rs" for h j
    using that None at by (cases "j = i") (auto simp: runs_app_def)
  show ?thesis
    unfolding idem_inv_def t'
  proof (intro conjI allI impI)
    show "\<And>h j k. j < length ?rs \<Longrightarrow> k < length ?rs \<Longrightarrow> runs_app digest h (?rs ! j) \<Longrightarrow>
        runs_app digest h (?rs ! k) \<Longrightarrow> j = k"
      using idem_inv_unique [OF inv] same by simp
    show "\<And>h. dict_get t h \<noteq> None \<Longrightarrow> \<exists>j<length ?rs. runs_app digest h (?rs ! j)"
      using idem_inv_owner [OF inv] same by (metis length_list_update)
  next
    fix j h
    assume j: "j < length ?rs" "claimed_hash digest (fst (?rs ! j)) = Some h"
    then have "j \<noteq> i" using None by auto
    then show "phase_ok digest (dict_get t h) (fst (?rs ! j)) (snd (?rs ! j))"
      using idem_inv_phase [OF inv, of j "fst (rs ! j)" "snd (rs ! j)" h] j by simp
  qed
next
  case (Some h)
  let ?rs = "rs[i := (req, p')]"
  obtain row where row: "dict_get t h = row" by simp
  note r = request_step_row [OF Some step]
  have rstep: "row_step digest req p row = (p', dict_get t' h)" using r row by simp
  have other: "dict_get t' k = dict_get t k" if "k \<noteq> h" for k using r that by blast
  have pok: "phase_ok digest row req p" using idem_inv_phase [OF inv i at Some] row by simp
  note ok = row_step_ok [OF rstep pok cache]
  have self: "runs_app digest k (?rs ! i) \<longleftrightarrow> k = h \<and> p' \<in> {Executing, Storing, Finished Executed}" for k
    using i Some by (auto simp: runs_app_def)
  have old: "runs_app digest k (rs ! i) \<longleftrightarrow> k = h \<and> p \<in> {Executing, Storing, Finished Executed}" for k
    using at Some by (auto simp: runs_app_def)
  have keep: "?rs ! j = rs ! j" if "j \<noteq> i" for j using that by simp
  have lone: "j = i" if "j < length rs" "runs_app digest k (?rs ! j)" "runs_app digest k (?rs ! i)" for j k
  proof (rule ccontr)
    assume "j \<noteq> i"
    then have runj: "runs_app digest h (rs ! j)" using that self keep by metis
    then have "row \<noteq> None" using runs_app_row [OF inv that(1)] row by blast
    then have "runs_app digest h (rs ! i)" using ok(3) that(3) self old by blast
    then show False using idem_inv_unique [OF inv that(1) i runj] \<open>j \<noteq> i\<close> by blast
  qed
  show ?thesis
    unfolding idem_inv_def
  proof (intro conjI allI impI)
    fix k m n
    assume mn: "m < length ?rs" "n < length ?rs" "runs_app digest k (?rs ! m)" "runs_app digest k (?rs ! n)"
    show "m = n"
    proof (cases "m = i \<or> n = i")
      case True
      then show ?thesis using lone mn by auto
    next
      case False
      then show ?thesis using idem_inv_unique [OF inv, of m n k] mn by simp
    qed
  next
    fix k
    assume some: "dict_get t' k \<noteq> None"
    show "\<exists>j<length ?rs. runs_app digest k (?rs ! j)"
    proof (cases "k = h \<and> p' = Executing")
      case True
      then show ?thesis using self i by auto
    next
      case False
      then have "dict_get t k \<noteq> None" using some other ok(5) row by (cases "k = h") auto
      then obtain j where j: "j < length rs" "runs_app digest k (rs ! j)" using idem_inv_owner [OF inv] by blast
      have "runs_app digest k (?rs ! j)"
      proof (cases "j = i")
        case True
        then show ?thesis using ok(6) self old j(2) by simp
      next
        case False
        then show ?thesis using keep j(2) by simp
      qed
      then show ?thesis using j(1) by auto
    qed
  next
    fix j k
    assume j: "j < length ?rs" "claimed_hash digest (fst (?rs ! j)) = Some k"
    show "phase_ok digest (dict_get t' k) (fst (?rs ! j)) (snd (?rs ! j))"
    proof (cases "j = i")
      case True
      then show ?thesis using ok(1) j Some i by auto
    next
      case False
      obtain rq q where rq: "rs ! j = (rq, q)" by (cases "rs ! j")
      have jl: "j < length rs" using j(1) by simp
      have hk: "claimed_hash digest rq = Some k" using j(2) False rq by simp
      note pj = idem_inv_phase [OF inv jl rq hk]
      have "phase_ok digest (dict_get t' k) rq q"
      proof (cases "k = h \<and> dict_get t' h \<noteq> row")
        case False
        then show ?thesis using pj other row by (cases "k = h") auto
      next
        case True
        then consider "row = None" | "p = Storing" using ok(2) by blast
        then show ?thesis
        proof cases
          case 1
          then show ?thesis using pj True row phase_ok_None by auto
        next
          case 2
          then have row_p: "row = Some (pending_row (fingerprint_of digest req))" using pok by simp
          have "\<not> runs_app digest h (rs ! j)"
            using idem_inv_unique [OF inv i jl, of h] old 2 \<open>j \<noteq> i\<close> by auto
          then have "q \<notin> {Executing, Storing, Finished Executed}"
            using hk True rq by (auto simp: runs_app_def)
          then show ?thesis using phase_ok_completed pj True row row_p ok(4) by auto
        qed
      qed
      then show ?thesis using False rq by simp
    qed
  qed
qed

lemma run_requests_inv:
  "run_requests digest sched (t, rs) = (t', rs') \<Longrightarrow> idem_inv digest t rs \<Longrightarrow>
     list_all (\<lambda>(req, p). cacheable req) rs \<Longrightarrow> idem_inv digest t' rs' \<and> map fst rs' = map fst rs"
proof (induction sched arbitrary: t rs)
  case (Cons i sched)
  obtain req p where at: "rs ! i = (req, p)" by (cases "rs ! i")
  obtain p1 t1 where step: "request_step digest req p t = (p1, t1)"
    by (cases "request_step digest req p t")
  show ?case
  proof (cases "i < length rs")
    case True
    have cache: "cacheable req" using Cons.prems(3) True at by (metis list_all_length case_prod_conv)
    have run: "run_requests digest sched (t1, rs[i := (req, p1)]) = (t', rs')"
      using Cons.prems(1) True by (simp add: at step)
    have fst_eq: "map fst (rs[i := (req, p1)]) = map fst rs"
      using at by (simp add: map_update) (metis True fst_conv list_update_id map_update nth_map)
    have "list_all (\<lambda>(req, p). cacheable req) (rs[i := (req, p1)])"
      using Cons.prems(3) cache True
      by (auto simp: list_all_length nth_list_update)
    then show ?thesis
      using Cons.IH [OF run idem_inv_step [OF Cons.prems(2) True at step cache]] fst_eq by simp
  next
    case False
    then show ?thesis using Cons by simp
  qed
qed simp

text \<open>C12: Requests that carry one key execute the application at most once between them,
  however their database sessions interleave, as long as no execution fails. A response is
  replayed only to a request with the same body, and it is the response of the one request
  that executed.\<close>

theorem idempotent_at_most_once:
  assumes "run_requests digest sched ([], map (\<lambda>req. (req, Arrived)) reqs) = (t, rs)"
    and "list_all cacheable reqs"
  shows "length (filter (runs_app digest h) rs) \<le> 1 \<and>
    (\<forall>(req, p)\<in>set rs. \<forall>row. claimed_hash digest req = Some h \<and> p = Finished (Replayed row) \<longrightarrow>
       (\<exists>orig. (orig, Finished Executed) \<in> set rs \<and> claimed_hash digest orig = Some h \<and>
          fingerprint_of digest orig = fingerprint_of digest req \<and> row = stored_row digest orig))"
proof
  have "idem_inv digest [] (map (\<lambda>req. (req, Arrived)) reqs)"
    by (auto simp: idem_inv_def runs_app_def)
  then have inv: "idem_inv digest t rs"
    using run_requests_inv [OF assms(1)] assms(2) by (auto simp: list_all_length)
  show "length (filter (runs_app digest h) rs) \<le> 1"
  proof (rule ccontr)
    let ?I = "{i. i < length rs \<and> runs_app digest h (rs ! i)}"
    assume "\<not> ?thesis"
    then have "\<not> card ?I \<le> Suc 0" by (simp add: length_filter_conv_card)
    then show False using idem_inv_unique [OF inv] by (subst (asm) card_le_Suc0_iff_eq) auto
  qed
  show "\<forall>(req, p)\<in>set rs. \<forall>row. claimed_hash digest req = Some h \<and> p = Finished (Replayed row) \<longrightarrow>
      (\<exists>orig. (orig, Finished Executed) \<in> set rs \<and> claimed_hash digest orig = Some h \<and>
        fingerprint_of digest orig = fingerprint_of digest req \<and> row = stored_row digest orig)"
  proof (clarify)
    fix req row
    assume mem: "(req, Finished (Replayed row)) \<in> set rs" and h: "claimed_hash digest req = Some h"
    obtain i where i: "i < length rs" "rs ! i = (req, Finished (Replayed row))"
      using mem by (metis in_set_conv_nth)
    have row: "dict_get t h = Some row" "ir_status row \<noteq> None" "ir_fingerprint row = fingerprint_of digest req"
      using idem_inv_phase [OF inv i h] by auto
    obtain j where j: "j < length rs" "runs_app digest h (rs ! j)"
      using idem_inv_owner [OF inv] row(1) by blast
    obtain orig p where o: "rs ! j = (orig, p)" by (cases "rs ! j")
    have ho: "claimed_hash digest orig = Some h" using j(2) o by (simp add: runs_app_def)
    have ok: "phase_ok digest (Some row) orig p" using idem_inv_phase [OF inv j(1) o ho] row(1) by simp
    have "p = Finished Executed"
      using j(2) o ok row(2) by (auto simp: runs_app_def pending_row_def)
    moreover have "row = stored_row digest orig" using ok \<open>p = Finished Executed\<close> by simp
    moreover have "fingerprint_of digest orig = fingerprint_of digest req"
      using row(3) \<open>row = stored_row digest orig\<close>
      by (simp add: stored_row_def completed_row_def pending_row_def)
    ultimately show "\<exists>orig. (orig, Finished Executed) \<in> set rs \<and> claimed_hash digest orig = Some h \<and>
        fingerprint_of digest orig = fingerprint_of digest req \<and> row = stored_row digest orig"
      using j(1) o ho by (metis nth_mem)
  qed
qed

definition example_post :: "app_result \<Rightarrow> idem_request" where
  "example_post app =
     \<lparr>iq_scope = \<lparr>hs_type = ''http'', hs_method = ''POST'', hs_path = ''/v1/sandboxes'',
                  hs_headers = [(''Idempotency-Key'', ''k1'')]\<rparr>,
      iq_messages = [HttpRequest ''x'' False], iq_app = app\<rparr>"

definition example_created :: app_result where
  "example_created = Responded [ResponseStart 201 [], ResponseBody ''id''] "

lemma example_claim:
  "claimed_hash (\<lambda>s. s) (example_post app) = Some (scope_hash_of (\<lambda>s. s) (iq_scope (example_post app)) ''k1'')"
proof -
  have low: "py_lower ''Idempotency-Key'' = ''idempotency-key''" by code_simp
  show ?thesis by (simp add: claimed_hash_def idempotency_key_def header_def example_post_def low)
qed

lemma example_cacheable: "cacheable (example_post example_created)"
  by (simp add: cacheable_def example_post_def example_created_def nothing_captured_def uncacheable_status_def)

theorem idempotent_at_most_once_witness:
  "\<exists>t rs. run_requests (\<lambda>s. s) [0, 0, 0, 0, 1] ([], map (\<lambda>req. (req, Arrived))
       [example_post example_created, example_post example_created]) = (t, rs) \<and>
     length (filter (runs_app (\<lambda>s. s) ''h'') rs) \<le> 1"
proof -
  obtain t rs where run: "run_requests (\<lambda>s. s) [0, 0, 0, 0, 1] ([], map (\<lambda>req. (req, Arrived))
       [example_post example_created, example_post example_created]) = (t, rs)"
    by (metis prod.exhaust)
  then show ?thesis
    using idempotent_at_most_once [OF run, of "''h''"] example_cacheable by auto
qed

text \<open>The step of a request whose key has the given hash, in terms of its row.\<close>

lemma request_step_get:
  assumes "claimed_hash digest req = Some h" and "row_step digest req p (dict_get t h) = (p', row')"
  obtains t' where "request_step digest req p t = (p', t')" and "dict_get t' h = row'"
  using request_step_row [OF assms(1), of p t] assms(2)
  by (metis Pair_inject prod.collapse)

text \<open>When an execution fails, its row is dropped, and a request that lost the insert race
  just before does not find the row it lost to: it runs the application without owning the
  key. A later request then inserts the row and runs the application at the same time: two
  executions of one key are in flight, and neither is told.\<close>

theorem dropped_row_lets_two_run:
  assumes "claimed_hash digest a = Some h" "claimed_hash digest b = Some h" "claimed_hash digest c = Some h"
    and "\<not> cacheable a"
  shows "\<exists>t. run_requests digest [1, 0, 0, 1, 0, 0, 1, 2, 2]
     ([], [(a, Arrived), (b, Arrived), (c, Arrived)]) =
     (t, [(a, Finished Executed), (b, Executing), (c, Executing)])"
proof -
  obtain t1 where s1: "request_step digest b Arrived [] = (Inserting, t1)" "dict_get t1 h = None"
    by (rule request_step_get [OF assms(2), of Arrived "[]" Inserting None]) auto
  obtain t2 where s2: "request_step digest a Arrived t1 = (Inserting, t2)" "dict_get t2 h = None"
    by (rule request_step_get [OF assms(1), of Arrived t1 Inserting None]) (auto simp: s1(2))
  let ?pend = "pending_row (fingerprint_of digest a)"
  obtain t3 where s3: "request_step digest a Inserting t2 = (Executing, t3)" "dict_get t3 h = Some ?pend"
    by (rule request_step_get [OF assms(1), of Inserting t2 Executing "Some ?pend"]) (auto simp: s2(2))
  obtain t4 where s4: "request_step digest b Inserting t3 = (Rereading, t4)" "dict_get t4 h = Some ?pend"
    by (rule request_step_get [OF assms(2), of Inserting t3 Rereading "Some ?pend"]) (auto simp: s3(2))
  obtain t5 where s5: "request_step digest a Executing t4 = (Storing, t5)" "dict_get t5 h = Some ?pend"
    by (rule request_step_get [OF assms(1), of Executing t4 Storing "Some ?pend"]) (auto simp: s4(2))
  obtain t6 where s6: "request_step digest a Storing t5 = (Finished Executed, t6)" "dict_get t6 h = None"
    by (rule request_step_get [OF assms(1), of Storing t5 "Finished Executed" None]) (auto simp: s5(2) assms(4))
  obtain t7 where s7: "request_step digest b Rereading t6 = (Executing, t7)" "dict_get t7 h = None"
    by (rule request_step_get [OF assms(2), of Rereading t6 Executing None]) (auto simp: s6(2))
  obtain t8 where s8: "request_step digest c Arrived t7 = (Inserting, t8)" "dict_get t8 h = None"
    by (rule request_step_get [OF assms(3), of Arrived t7 Inserting None]) (auto simp: s7(2))
  let ?pc = "Some (pending_row (fingerprint_of digest c))"
  obtain t9 where s9: "request_step digest c Inserting t8 = (Executing, t9)" "dict_get t9 h = ?pc"
    by (rule request_step_get [OF assms(3), of Inserting t8 Executing ?pc]) (auto simp: s8(2))
  show ?thesis by (simp add: s1(1) s2(1) s3(1) s4(1) s5(1) s6(1) s7(1) s8(1) s9(1))
qed

theorem dropped_row_lets_two_run_witness:
  "\<exists>t. run_requests (\<lambda>s. s) [1, 0, 0, 1, 0, 0, 1, 2, 2]
     ([], [(example_post (Raised []), Arrived), (example_post example_created, Arrived),
           (example_post example_created, Arrived)]) =
     (t, [(example_post (Raised []), Finished Executed), (example_post example_created, Executing),
          (example_post example_created, Executing)])"
proof (rule dropped_row_lets_two_run)
  show "claimed_hash (\<lambda>s. s) (example_post (Raised [])) =
      Some (scope_hash_of (\<lambda>s. s) (iq_scope (example_post (Raised []))) ''k1'')"
    by (rule example_claim)
  show "claimed_hash (\<lambda>s. s) (example_post example_created) =
      Some (scope_hash_of (\<lambda>s. s) (iq_scope (example_post (Raised []))) ''k1'')"
    using example_claim [of example_created] by (simp add: example_post_def)
  then show "claimed_hash (\<lambda>s. s) (example_post example_created) =
      Some (scope_hash_of (\<lambda>s. s) (iq_scope (example_post (Raised []))) ''k1'')" .
  show "\<not> cacheable (example_post (Raised []))" by (simp add: cacheable_def example_post_def)
qed

end
