(* ===== verification/Json.thy ===== *)
theory Json
  imports Prelude "HOL-Library.List_Lexorder" "HOL-Library.Char_ord"
begin

text \<open>
  JSON values as \<open>json.dumps(value, sort_keys=True, separators=(",", ":"))\<close> prints them:
  keys sorted at every level, no blanks, every character outside the printable ASCII range
  escaped. A number is given by its text (\<open>repr\<close> of the int or float). The printer is
  proved injective up to the order of keys.
\<close>

datatype json =
    JNull
  | JBool bool
  | JNum string
  | JStr string
  | JArr "json list"
  | JObj "(string \<times> json) list"

definition json_hex :: "nat \<Rightarrow> char" where
  "json_hex n = (if n < 10 then char_of (48 + n) else char_of (87 + n))"

definition esc_char :: "char \<Rightarrow> string" where
  "esc_char c =
     (let n = char_code c in
      if n = 34 then [CHR 0x5C, CHR 0x22]
      else if n = 92 then [CHR 0x5C, CHR 0x5C]
      else if n = 10 then [CHR 0x5C, CHR ''n'']
      else if n = 13 then [CHR 0x5C, CHR ''r'']
      else if n = 9 then [CHR 0x5C, CHR ''t'']
      else if n = 12 then [CHR 0x5C, CHR ''f'']
      else if n = 8 then [CHR 0x5C, CHR ''b'']
      else if 32 \<le> n \<and> n \<le> 126 then [c]
      else [CHR 0x5C, CHR ''u'', CHR ''0'', CHR ''0'', json_hex (n div 16), json_hex (n mod 16)])"

definition quoted :: "string \<Rightarrow> string" where
  "quoted s = CHR 0x22 # concat (map esc_char s) @ [CHR 0x22]"

fun print_json :: "json \<Rightarrow> string" where
  "print_json JNull = ''null''"
| "print_json (JBool b) = (if b then ''true'' else ''false'')"
| "print_json (JNum s) = s"
| "print_json (JStr s) = quoted s"
| "print_json (JArr xs) = ''['' @ py_join '','' (map print_json xs) @ '']''"
| "print_json (JObj kvs) =
     ''{'' @ py_join '','' (map (\<lambda>(k, v). quoted k @ '':'' @ print_json v) kvs) @ ''}''"

fun sort_keys :: "json \<Rightarrow> json" where
  "sort_keys (JArr xs) = JArr (map sort_keys xs)"
| "sort_keys (JObj kvs) = JObj (sort_key fst (map (\<lambda>(k, v). (k, sort_keys v)) kvs))"
| "sort_keys j = j"

definition json_dumps :: "json \<Rightarrow> string" where
  "json_dumps j = print_json (sort_keys j)"

text \<open>The number an int prints as.\<close>

definition json_int :: "int \<Rightarrow> json" where
  "json_int n = JNum (if n < 0 then CHR ''-'' # decimal (nat (- n)) else decimal (nat n))"

section \<open>The printer is injective\<close>

text \<open>Texts a number can have: non-empty, of characters that delimit nothing, and not
  starting like another value (\<open>NaN\<close> and \<open>Infinity\<close> are among them).\<close>

definition number_char :: "char \<Rightarrow> bool" where
  "number_char c = (c \<noteq> CHR '','' \<and> c \<noteq> CHR '']'' \<and> c \<noteq> CHR ''}'')"

definition number_text :: "string \<Rightarrow> bool" where
  "number_text s =
     (s \<noteq> [] \<and> list_all number_char s \<and>
      hd s \<notin> {CHR ''n'', CHR ''t'', CHR ''f'', CHR 0x22, CHR ''['', CHR ''{''})"

fun json_ok :: "json \<Rightarrow> bool" where
  "json_ok (JNum s) = number_text s"
| "json_ok (JArr xs) = list_all json_ok xs"
| "json_ok (JObj kvs) = list_all (\<lambda>(k, v). json_ok v) kvs"
| "json_ok j = True"

definition delimited :: "string \<Rightarrow> bool" where
  "delimited r = (r = [] \<or> hd r \<in> {CHR '','', CHR '']'', CHR ''}''})"

lemma delimited_simps [simp]:
  "delimited (CHR '','' # r)" "delimited (CHR '']'' # r)" "delimited (CHR ''}'' # r)" "delimited []"
  by (simp_all add: delimited_def)

lemma char_of_eq_small: "a < 256 \<Longrightarrow> b < 256 \<Longrightarrow> (char_of a :: char) = char_of b \<longleftrightarrow> a = (b :: nat)"
  by simp

lemma json_hex_inj: "a < 16 \<Longrightarrow> b < 16 \<Longrightarrow> json_hex a = json_hex b \<longleftrightarrow> a = b"
  unfolding json_hex_def by (auto simp: char_of_eq_small)

lemma esc_char_shape:
  "(esc_char c = [c] \<and> c \<noteq> CHR 0x22 \<and> c \<noteq> CHR 0x5C) \<or>
   (\<exists>d. esc_char c = [CHR 0x5C, d] \<and> (char_code c, d) \<in>
       {(34, CHR 0x22), (92, CHR 0x5C), (10, CHR ''n''), (13, CHR ''r''), (9, CHR ''t''), (12, CHR ''f''), (8, CHR ''b'')}) \<or>
   esc_char c = [CHR 0x5C, CHR ''u'', CHR ''0'', CHR ''0'',
       json_hex (char_code c div 16), json_hex (char_code c mod 16)]"
proof -
  have "c = CHR 0x22 \<Longrightarrow> char_code c = 34" "c = CHR 0x5C \<Longrightarrow> char_code c = 92" by simp_all
  then show ?thesis by (simp add: esc_char_def Let_def) auto
qed

lemma esc_char_cases:
  obtains (plain) "esc_char c = [c]" "c \<noteq> CHR 0x22" "c \<noteq> CHR 0x5C"
  | (named) d where "esc_char c = [CHR 0x5C, d]" "(char_code c, d) \<in>
       {(34, CHR 0x22), (92, CHR 0x5C), (10, CHR ''n''), (13, CHR ''r''), (9, CHR ''t''), (12, CHR ''f''), (8, CHR ''b'')}"
  | (hex) "esc_char c = [CHR 0x5C, CHR ''u'', CHR ''0'', CHR ''0'',
       json_hex (char_code c div 16), json_hex (char_code c mod 16)]"
  using esc_char_shape [of c] by blast

lemma char_code_inj: "char_code c = char_code d \<Longrightarrow> c = d"
  by (metis char_of_char)

lemma esc_char_inj:
  assumes "esc_char c @ r = esc_char d @ s"
  shows "c = d \<and> r = s"
proof (cases c rule: esc_char_cases)
  case plain
  then show ?thesis using assms by (cases d rule: esc_char_cases) auto
next
  case (named x)
  then show ?thesis using assms
    by (cases d rule: esc_char_cases) (auto intro: char_code_inj)
next
  case hex
  show ?thesis
  proof (cases d rule: esc_char_cases)
    case plain
    then show ?thesis using assms hex by auto
  next
    case (named x)
    then show ?thesis using assms hex by auto
  next
    case hex': hex
    have "char_code c div 16 < 16" "char_code d div 16 < 16"
      by (simp_all add: div_less_iff_less_mult)
    then have "char_code c div 16 = char_code d div 16" "char_code c mod 16 = char_code d mod 16" "r = s"
      using assms hex hex' by (auto simp: json_hex_inj)
    then have "char_code c = char_code d" by (metis div_mult_mod_eq)
    then show ?thesis using \<open>r = s\<close> by (simp add: char_code_inj)
  qed
qed

lemma esc_char_no_quote: "esc_char c @ r \<noteq> CHR 0x22 # s"
  by (cases c rule: esc_char_cases) auto

lemma esc_string_inj:
  "concat (map esc_char s) @ CHR 0x22 # r = concat (map esc_char t) @ CHR 0x22 # q \<Longrightarrow> s = t \<and> r = q"
proof (induction s arbitrary: t)
  case Nil
  show ?case
  proof (cases t)
    case Nil
    then show ?thesis using \<open>concat (map esc_char []) @ CHR 0x22 # r = _\<close> by simp
  next
    case (Cons d t')
    then have "esc_char d @ (concat (map esc_char t') @ CHR 0x22 # q) = CHR 0x22 # r"
      using \<open>concat (map esc_char []) @ CHR 0x22 # r = _\<close> by simp
    then show ?thesis using esc_char_no_quote by blast
  qed
next
  case (Cons c s)
  show ?case
  proof (cases t)
    case Nil
    then show ?thesis using Cons.prems esc_char_no_quote by auto
  next
    case t: (Cons d t')
    have "esc_char c @ (concat (map esc_char s) @ CHR 0x22 # r) =
        esc_char d @ (concat (map esc_char t') @ CHR 0x22 # q)"
      using Cons.prems t by simp
    then show ?thesis using Cons.IH t esc_char_inj by blast
  qed
qed

lemma quoted_inj: "quoted s @ r = quoted t @ q \<Longrightarrow> s = t \<and> r = q"
  by (auto simp: quoted_def dest: esc_string_inj)

text \<open>A printed value does not start with a delimiter.\<close>

definition starts_value :: "string \<Rightarrow> bool" where
  "starts_value s = (s \<noteq> [] \<and> hd s \<notin> {CHR '','', CHR '']'', CHR ''}''})"

lemma starts_value_append: "starts_value s \<Longrightarrow> starts_value (s @ r)"
  by (simp add: starts_value_def hd_append)

lemma starts_value_quoted: "starts_value (quoted s @ r)"
  by (simp add: starts_value_def quoted_def)

lemma starts_value_json: "json_ok j \<Longrightarrow> starts_value (print_json j)"
  by (cases j) (auto simp: starts_value_def quoted_def number_text_def number_char_def neq_Nil_conv)

text \<open>Sequences: the first element, then the others each after a comma, then the bracket.\<close>

fun print_tail :: "char \<Rightarrow> string list \<Rightarrow> string" where
  "print_tail close [] = [close]"
| "print_tail close (s # ss) = CHR '','' # s @ print_tail close ss"

lemma join_tail: "py_join '','' (s # ss) @ [close] = s @ print_tail close ss"
  by (induction ss arbitrary: s) auto

lemma delimited_tail: "close \<in> {CHR '']'', CHR ''}''} \<Longrightarrow> delimited (print_tail close ss @ r)"
  by (cases ss) (auto simp: delimited_def)

definition decodes :: "('a \<Rightarrow> string) \<Rightarrow> ('a \<Rightarrow> bool) \<Rightarrow> 'a \<Rightarrow> bool" where
  "decodes e ok x = (\<forall>y r q. ok y \<longrightarrow> delimited r \<longrightarrow> delimited q \<longrightarrow> e x @ r = e y @ q \<longrightarrow> x = y \<and> r = q)"

lemma decodesD:
  "decodes e ok x \<Longrightarrow> e x @ r = e y @ q \<Longrightarrow> ok y \<Longrightarrow> delimited r \<Longrightarrow> delimited q \<Longrightarrow> x = y \<and> r = q"
  unfolding decodes_def by blast

lemma print_tail_inj:
  "\<lbrakk>\<forall>x\<in>set xs. decodes e ok x; list_all ok ys; close \<in> {CHR '']'', CHR ''}''};
    print_tail close (map e xs) @ r = print_tail close (map e ys) @ q\<rbrakk> \<Longrightarrow> xs = ys \<and> r = q"
proof (induction xs arbitrary: ys)
  case Nil
  then show ?case by (cases ys) auto
next
  case (Cons x xs)
  show ?case
  proof (cases ys)
    case Nil
    then show ?thesis using Cons.prems by auto
  next
    case ys: (Cons y ys')
    have eq: "e x @ (print_tail close (map e xs) @ r) = e y @ (print_tail close (map e ys') @ q)"
      using Cons.prems(4) ys by simp
    have "x = y \<and> print_tail close (map e xs) @ r = print_tail close (map e ys') @ q"
      by (rule decodesD [where e = e and ok = ok, OF _ eq]) (use Cons.prems(1,2,3) ys in \<open>auto intro: delimited_tail\<close>)
    then show ?thesis using Cons.IH [of ys'] Cons.prems ys by auto
  qed
qed

lemma join_inj:
  assumes "\<forall>x\<in>set xs. decodes e ok x" and "list_all ok ys" and close: "close \<in> {CHR '']'', CHR ''}''}"
    and "\<forall>x\<in>set xs. starts_value (e x)" and "\<forall>y\<in>set ys. starts_value (e y)"
    and eq: "py_join '','' (map e xs) @ close # r = py_join '','' (map e ys) @ close # q"
  shows "xs = ys \<and> r = q"
proof -
  have no: "\<not> starts_value (close # s)" for s using close by (auto simp: starts_value_def)
  have first: "py_join '','' (map e (z # zs)) @ close # s = e z @ (print_tail close (map e zs) @ s)" for z zs s
    using join_tail [of "e z" "map e zs" close] by (metis append.assoc append_Cons append_Nil list.simps(9))
  show ?thesis
  proof (cases xs)
    case Nil
    show ?thesis
    proof (cases ys)
      case Nil
      then show ?thesis using \<open>xs = []\<close> eq by simp
    next
      case (Cons y ys')
      then have "e y @ (print_tail close (map e ys') @ q) = close # r" using eq \<open>xs = []\<close> first [of y ys' q] by simp
      moreover have "starts_value (e y @ (print_tail close (map e ys') @ q))"
        using assms(5) Cons by (simp add: starts_value_append)
      ultimately show ?thesis using no by simp
    qed
  next
    case xs: (Cons x xs')
    show ?thesis
    proof (cases ys)
      case Nil
      then have "e x @ (print_tail close (map e xs') @ r) = close # q" using eq Nil xs first [of x xs' r] by simp
      moreover have "starts_value (e x @ (print_tail close (map e xs') @ r))"
        using assms(4) xs by (simp add: starts_value_append)
      ultimately show ?thesis using no by simp
    next
      case ys: (Cons y ys')
      have "print_tail close (map e xs) @ r = CHR '','' # (py_join '','' (map e xs) @ close # r)"
        using first [of x xs' r] xs by simp
      moreover have "print_tail close (map e ys) @ q = CHR '','' # (py_join '','' (map e ys) @ close # q)"
        using first [of y ys' q] ys by simp
      ultimately show ?thesis using print_tail_inj [OF assms(1,2) close] eq by simp
    qed
  qed
qed

abbreviation print_member :: "string \<times> json \<Rightarrow> string" where
  "print_member kv \<equiv> (case kv of (k, v) \<Rightarrow> quoted k @ '':'' @ print_json v)"

lemma number_text_shape:
  "number_text s \<Longrightarrow> \<exists>c s'. s = c # s' \<and>
     c \<notin> {CHR ''n'', CHR ''t'', CHR ''f'', CHR 0x22, CHR ''['', CHR ''{''}"
  by (cases s) (auto simp: number_text_def)

lemma number_prefix:
  assumes "list_all number_char s" "list_all number_char t" "delimited r" "delimited q" "s @ r = t @ q"
  shows "s = t \<and> r = q"
proof -
  have stop: "takeWhile number_char (u @ v) = u" if "list_all number_char u" "delimited v" for u v
    using that by (cases v) (auto simp: delimited_def number_char_def list_all_iff takeWhile_append2)
  show ?thesis using stop [OF assms(1,3)] stop [OF assms(2,4)] assms(5) by (metis same_append_eq)
qed

lemma print_json_decodes: "json_ok j \<Longrightarrow> decodes print_json json_ok j"
proof (induction j)
  case JNull
  show ?case unfolding decodes_def
  proof (intro allI impI)
    fix y r q assume "json_ok y" "print_json JNull @ r = print_json y @ q"
    then show "JNull = y \<and> r = q" by (cases y) (auto simp: quoted_def split: if_splits dest!: number_text_shape)
  qed
next
  case (JBool b)
  show ?case unfolding decodes_def
  proof (intro allI impI)
    fix y r q assume "json_ok y" "print_json (JBool b) @ r = print_json y @ q"
    then show "JBool b = y \<and> r = q" by (cases y) (auto simp: quoted_def split: if_splits dest!: number_text_shape)
  qed
next
  case (JNum s)
  show ?case unfolding decodes_def
  proof (intro allI impI)
    fix y r q assume y: "json_ok y" "print_json (JNum s) @ r = print_json y @ q" "delimited r" "delimited q"
    obtain c s' where s: "s = c # s'" using JNum by (cases s) (auto simp: number_text_def)
    show "JNum s = y \<and> r = q"
    proof (cases y)
      case (JNum t)
      then show ?thesis
        using number_prefix [of s t r q] y \<open>json_ok (JNum s)\<close> by (auto simp: number_text_def)
    qed (use y JNum s in \<open>auto simp: quoted_def split: if_splits dest!: number_text_shape\<close>)
  qed
next
  case (JStr s)
  show ?case unfolding decodes_def
  proof (intro allI impI)
    fix y r q assume "json_ok y" "print_json (JStr s) @ r = print_json y @ q"
    then show "JStr s = y \<and> r = q"
      by (cases y) (auto simp: quoted_def split: if_splits dest: esc_string_inj dest!: number_text_shape)
  qed
next
  case (JArr xs)
  show ?case unfolding decodes_def
  proof (intro allI impI)
    fix y r q assume y: "json_ok y" "print_json (JArr xs) @ r = print_json y @ q"
    show "JArr xs = y \<and> r = q"
    proof (cases y)
      case y': (JArr ys)
      have "xs = ys \<and> r = q"
        by (rule join_inj [where e = print_json and ok = json_ok and close = "CHR '']''"])
           (use y y' JArr in \<open>auto simp: list_all_iff starts_value_json\<close>)
      then show ?thesis using y' by simp
    qed (use y in \<open>auto simp: quoted_def split: if_splits dest!: number_text_shape\<close>)
  qed
next
  case (JObj kvs)
  have member: "decodes print_member (\<lambda>(k, v). json_ok v) kv" if kv: "kv \<in> set kvs" for kv
    unfolding decodes_def
  proof (intro allI impI)
    fix y r q
    assume y: "case y of (k, v) \<Rightarrow> json_ok v" "delimited r" "delimited q" "print_member kv @ r = print_member y @ q"
    obtain k v k' v' where kvs: "kv = (k, v)" "y = (k', v')" by (cases kv; cases y)
    have "json_ok v" "decodes print_json json_ok v"
      using JObj.prems JObj.IH kv kvs by (auto simp: list_all_iff)
    moreover have "k = k' \<and> CHR '':'' # (print_json v @ r) = CHR '':'' # (print_json v' @ q)"
      using quoted_inj [of k "CHR '':'' # (print_json v @ r)" k' "CHR '':'' # (print_json v' @ q)"] y(4) kvs by simp
    ultimately show "kv = y \<and> r = q" using decodesD [of print_json json_ok v r v' q] y kvs by simp
  qed
  show ?case unfolding decodes_def
  proof (intro allI impI)
    fix y r q assume y: "json_ok y" "print_json (JObj kvs) @ r = print_json y @ q"
    show "JObj kvs = y \<and> r = q"
    proof (cases y)
      case y': (JObj lvs)
      have "kvs = lvs \<and> r = q"
        by (rule join_inj [where e = print_member and ok = "\<lambda>(k, v). json_ok v" and close = "CHR ''}''"])
           (use y y' member in \<open>auto simp: list_all_iff starts_value_quoted\<close>)
      then show ?thesis using y' by simp
    qed (use y in \<open>auto simp: quoted_def split: if_splits dest!: number_text_shape\<close>)
  qed
qed

lemma sort_keys_ok: "json_ok j \<Longrightarrow> json_ok (sort_keys j)"
  by (induction j rule: sort_keys.induct) (auto simp: list_all_iff)

text \<open>Two values print alike exactly if they are equal as Python values: up to the order of
  the keys of their objects.\<close>

lemma json_dumps_inj:
  "json_ok j \<Longrightarrow> json_ok k \<Longrightarrow> json_dumps j = json_dumps k \<longleftrightarrow> sort_keys j = sort_keys k"
  using decodesD [OF print_json_decodes [of "sort_keys j"], of "[]" "sort_keys k" "[]"]
  by (auto simp: json_dumps_def sort_keys_ok)

end
