(* ===== verification/AuditChain.thy ===== *)
theory AuditChain
  imports Json "HOL-Library.Option_ord"
begin

text \<open>
  The hash-chained audit logs: the shared verifier of \<open>boxxkite/audit.py\<close>, the SQLite sink
  that writes a chain per session, and the control plane's \<open>exec_log_entries\<close> table
  (\<open>repository.py\<close>, \<open>audit_chain.py\<close>). The digest (SHA-256 in hexadecimal) is a parameter;
  an insert runs under a lock, so it is one step.
\<close>

section \<open>The verifier\<close>

definition genesis_hash :: string where "genesis_hash = replicate 64 CHR ''0''"

definition compute_row_hash :: "(string \<Rightarrow> string) \<Rightarrow> string \<Rightarrow> json \<Rightarrow> string" where
  "compute_row_hash digest prev_hash canonical_fields =
     digest (prev_hash @ ''|'' @ json_dumps canonical_fields)"

record chain_row =
  cr_id :: json
  cr_session :: "string option"
  cr_row_hash :: "string option"
  cr_prev_hash :: "string option"
  cr_fields :: json

datatype chain_detail =
    PrevHashMismatch json string "string option"
  | RowHashMismatch json
  | ChainIntact "json option" string

record chain_result =
  ch_ok :: bool
  ch_rows_checked :: nat
  ch_first_break :: "json option"
  ch_detail :: chain_detail

definition add_to_group ::
    "chain_row \<Rightarrow> (string option, chain_row list) dict \<Rightarrow> (string option, chain_row list) dict" where
  "add_to_group row grouped =
     dict_put (cr_session row)
       ((case dict_get grouped (cr_session row) of None \<Rightarrow> [] | Some rs \<Rightarrow> rs) @ [row]) grouped"

definition group_rows :: "chain_row list \<Rightarrow> (string option, chain_row list) dict" where
  "group_rows rows = fold add_to_group rows []"

text \<open>One session: the number of chained rows, or the first break.\<close>

fun verify_group ::
    "(string \<Rightarrow> string) \<Rightarrow> string \<Rightarrow> nat \<Rightarrow> chain_row list \<Rightarrow> (nat \<times> json \<times> chain_detail) + nat" where
  "verify_group digest expected_prev checked [] = Inr checked"
| "verify_group digest expected_prev checked (row # rows) =
     (case cr_row_hash row of
        None \<Rightarrow> verify_group digest expected_prev checked rows
      | Some h \<Rightarrow>
          (if cr_prev_hash row \<noteq> Some expected_prev
           then Inl (checked + 1, cr_id row, PrevHashMismatch (cr_id row) expected_prev (cr_prev_hash row))
           else if compute_row_hash digest expected_prev (cr_fields row) \<noteq> h
           then Inl (checked + 1, cr_id row, RowHashMismatch (cr_id row))
           else verify_group digest h (checked + 1) rows))"

fun verify_groups ::
    "(string \<Rightarrow> string) \<Rightarrow> nat \<Rightarrow> (string option, chain_row list) dict \<Rightarrow> (nat \<times> json \<times> chain_detail) + nat" where
  "verify_groups digest checked [] = Inr checked"
| "verify_groups digest checked ((s, rows) # groups) =
     (case verify_group digest genesis_hash checked rows of
        Inl b \<Rightarrow> Inl b
      | Inr n \<Rightarrow> verify_groups digest n groups)"

definition chained :: "chain_row \<Rightarrow> bool" where
  "chained row = (cr_row_hash row \<noteq> None)"

definition verify_chain_rows :: "(string \<Rightarrow> string) \<Rightarrow> chain_row list \<Rightarrow> chain_result" where
  "verify_chain_rows digest rows =
     (case verify_groups digest 0 (group_rows rows) of
        Inl (n, row_id, detail) \<Rightarrow>
          \<lparr>ch_ok = False, ch_rows_checked = n, ch_first_break = Some row_id, ch_detail = detail\<rparr>
      | Inr n \<Rightarrow>
          (let last_chained = (case filter chained (rev rows) of [] \<Rightarrow> None | row # _ \<Rightarrow> Some row);
               head_hash = (case last_chained of None \<Rightarrow> genesis_hash
                            | Some row \<Rightarrow> (case cr_row_hash row of None \<Rightarrow> genesis_hash | Some h \<Rightarrow> h))
           in \<lparr>ch_ok = True, ch_rows_checked = n, ch_first_break = None,
               ch_detail = ChainIntact (map_option cr_id last_chained) head_hash\<rparr>))"

section \<open>The SQLite sink\<close>

record audit_entry =
  ae_id :: nat
  ae_kind :: string
  ae_organization :: "string option"
  ae_work_item :: "string option"
  ae_session :: "string option"
  ae_agent :: "string option"
  ae_detail :: json
  ae_recorded_at :: string
  ae_row_hash :: "string option"
  ae_prev_hash :: "string option"

definition json_opt :: "string option \<Rightarrow> json" where
  "json_opt s = (case s of None \<Rightarrow> JNull | Some x \<Rightarrow> JStr x)"

definition entry_fields :: "audit_entry \<Rightarrow> json" where
  "entry_fields e = JObj
     [(''id'', JNum (decimal (ae_id e))), (''kind'', JStr (ae_kind e)),
      (''organization_id'', json_opt (ae_organization e)), (''work_item_id'', json_opt (ae_work_item e)),
      (''session_id'', json_opt (ae_session e)), (''agent_name'', json_opt (ae_agent e)),
      (''detail'', ae_detail e), (''recorded_at'', JStr (ae_recorded_at e))]"

text \<open>What a record call passes to the insert, with the clock's reading.\<close>

record audit_event =
  av_kind :: string
  av_organization :: "string option"
  av_work_item :: "string option"
  av_session :: "string option"
  av_agent :: "string option"
  av_detail :: json
  av_recorded_at :: string

definition next_entry_id :: "audit_entry list \<Rightarrow> nat" where
  "next_entry_id t = fold max (map ae_id t) 0 + 1"

text \<open>\<open>SELECT row_hash ... ORDER BY id DESC LIMIT 1\<close> among the chained rows of a session.\<close>

definition last_entry_hash :: "string option \<Rightarrow> audit_entry list \<Rightarrow> string option" where
  "last_entry_hash s t =
     (case rev (sort_key ae_id (filter (\<lambda>e. ae_session e = s \<and> ae_row_hash e \<noteq> None) t)) of
        [] \<Rightarrow> None
      | e # _ \<Rightarrow> ae_row_hash e)"

definition new_entry :: "audit_event \<Rightarrow> nat \<Rightarrow> audit_entry" where
  "new_entry v n =
     \<lparr>ae_id = n, ae_kind = av_kind v, ae_organization = av_organization v,
      ae_work_item = av_work_item v, ae_session = av_session v, ae_agent = av_agent v,
      ae_detail = av_detail v, ae_recorded_at = av_recorded_at v,
      ae_row_hash = None, ae_prev_hash = None\<rparr>"

text \<open>The insert of the plain sink, and of the hash-chaining one.\<close>

definition plain_insert :: "audit_event \<Rightarrow> audit_entry list \<Rightarrow> audit_entry list" where
  "plain_insert v t = t @ [new_entry v (next_entry_id t)]"

definition chained_insert ::
    "(string \<Rightarrow> string) \<Rightarrow> audit_event \<Rightarrow> audit_entry list \<Rightarrow> audit_entry list" where
  "chained_insert digest v t =
     (let e = new_entry v (next_entry_id t);
          prev = (case last_entry_hash (av_session v) t of None \<Rightarrow> genesis_hash | Some h \<Rightarrow> h)
      in t @ [e\<lparr>ae_row_hash := Some (compute_row_hash digest prev (entry_fields e)),
                ae_prev_hash := Some prev\<rparr>])"

definition record_file_write ::
    "string option \<Rightarrow> string option \<Rightarrow> string option \<Rightarrow> string option \<Rightarrow> string \<Rightarrow> string \<Rightarrow> string \<Rightarrow> audit_event" where
  "record_file_write org work session agent file_path content now =
     \<lparr>av_kind = ''file_write'', av_organization = org, av_work_item = work, av_session = session,
      av_agent = agent, av_detail = JObj [(''file_path'', JStr file_path), (''size_bytes'', JNum (decimal (length content)))],
      av_recorded_at = now\<rparr>"

definition record_file_registered ::
    "string option \<Rightarrow> string option \<Rightarrow> string option \<Rightarrow> string option \<Rightarrow> string \<Rightarrow> string \<Rightarrow> nat \<Rightarrow> string \<Rightarrow> audit_event" where
  "record_file_registered org work session agent file_path storage_key size_bytes now =
     \<lparr>av_kind = ''file_registered'', av_organization = org, av_work_item = work, av_session = session,
      av_agent = agent, av_detail = JObj [(''file_path'', JStr file_path), (''storage_key'', JStr storage_key),
                        (''size_bytes'', JNum (decimal size_bytes))],
      av_recorded_at = now\<rparr>"

definition record_exec ::
    "string option \<Rightarrow> string option \<Rightarrow> string option \<Rightarrow> string option \<Rightarrow> string \<Rightarrow> int \<Rightarrow> int \<Rightarrow> string \<Rightarrow> audit_event" where
  "record_exec org work session agent command exit_code duration_ms now =
     \<lparr>av_kind = ''exec'', av_organization = org, av_work_item = work, av_session = session,
      av_agent = agent, av_detail = JObj [(''command'', JStr command), (''exit_code'', json_int exit_code),
                        (''duration_ms'', json_int duration_ms)],
      av_recorded_at = now\<rparr>"

definition list_for_session :: "string \<Rightarrow> audit_entry list \<Rightarrow> audit_entry list" where
  "list_for_session s t = sort_key ae_id (filter (\<lambda>e. ae_session e = Some s) t)"

definition entry_chain_row :: "audit_entry \<Rightarrow> chain_row" where
  "entry_chain_row e =
     \<lparr>cr_id = JNum (decimal (ae_id e)), cr_session = ae_session e, cr_row_hash = ae_row_hash e,
      cr_prev_hash = ae_prev_hash e, cr_fields = entry_fields e\<rparr>"

definition verify_chain :: "(string \<Rightarrow> string) \<Rightarrow> string option \<Rightarrow> audit_entry list \<Rightarrow> chain_result" where
  "verify_chain digest session_id t =
     verify_chain_rows digest (map entry_chain_row
       (case session_id of
          Some s \<Rightarrow> list_for_session s t
        | None \<Rightarrow> sort_key ae_session (sort_key ae_id t)))"

section \<open>The control plane's execution log\<close>

text \<open>A datetime: its clock reading in microseconds and the offset from UTC, if aware.\<close>

record datetime =
  dt_clock :: int
  dt_offset :: "int option"

definition utc_micros :: "datetime \<Rightarrow> int" where
  "utc_micros d = (case dt_offset d of None \<Rightarrow> dt_clock d | Some o' \<Rightarrow> dt_clock d - o')"

definition canonical_started_at :: "(int \<Rightarrow> string) \<Rightarrow> datetime \<Rightarrow> string" where
  "canonical_started_at isoformat d = isoformat (utc_micros d)"

record exec_log_entry =
  xl_id :: string
  xl_session :: string
  xl_account :: string
  xl_source :: string
  xl_operation :: string
  xl_detail :: json
  xl_exit_code :: "int option"
  xl_output :: "string option"
  xl_started_at :: datetime
  xl_duration_ms :: int
  xl_row_hash :: "string option"
  xl_prev_hash :: "string option"

definition exec_fields :: "(int \<Rightarrow> string) \<Rightarrow> exec_log_entry \<Rightarrow> json" where
  "exec_fields isoformat x = JObj
     [(''id'', JStr (xl_id x)), (''session_id'', JStr (xl_session x)), (''account_id'', JStr (xl_account x)),
      (''source'', JStr (xl_source x)), (''operation'', JStr (xl_operation x)), (''detail'', xl_detail x),
      (''exit_code'', case xl_exit_code x of None \<Rightarrow> JNull | Some n \<Rightarrow> json_int n),
      (''output_truncated'', json_opt (xl_output x)),
      (''started_at'', JStr (canonical_started_at isoformat (xl_started_at x))),
      (''duration_ms'', json_int (xl_duration_ms x))]"

text \<open>\<open>ORDER BY started_at, id\<close>.\<close>

definition log_order :: "exec_log_entry list \<Rightarrow> exec_log_entry list" where
  "log_order rows = sort_key (\<lambda>x. utc_micros (xl_started_at x)) (sort_key xl_id rows)"

definition last_chained_row_hash :: "string \<Rightarrow> exec_log_entry list \<Rightarrow> string" where
  "last_chained_row_hash s t =
     (case rev (log_order (filter (\<lambda>x. xl_session x = s \<and> xl_row_hash x \<noteq> None) t)) of
        [] \<Rightarrow> genesis_hash
      | x # _ \<Rightarrow> (case xl_row_hash x of None \<Rightarrow> genesis_hash | Some h \<Rightarrow> h))"

text \<open>\<open>create\<close>: the argument carries the row's fields, with both hashes unset.\<close>

definition create_log_entry ::
    "(string \<Rightarrow> string) \<Rightarrow> (int \<Rightarrow> string) \<Rightarrow> exec_log_entry \<Rightarrow> exec_log_entry list \<Rightarrow> exec_log_entry list" where
  "create_log_entry digest isoformat x t =
     (let prev = last_chained_row_hash (xl_session x) t in
      t @ [x\<lparr>xl_row_hash := Some (compute_row_hash digest prev (exec_fields isoformat x)),
             xl_prev_hash := Some prev\<rparr>])"

definition exec_chain_row :: "(int \<Rightarrow> string) \<Rightarrow> exec_log_entry \<Rightarrow> chain_row" where
  "exec_chain_row isoformat x =
     \<lparr>cr_id = JStr (xl_id x), cr_session = Some (xl_session x), cr_row_hash = xl_row_hash x,
      cr_prev_hash = xl_prev_hash x, cr_fields = exec_fields isoformat x\<rparr>"

definition verify_exec_log_chain ::
    "(string \<Rightarrow> string) \<Rightarrow> (int \<Rightarrow> string) \<Rightarrow> string option \<Rightarrow> exec_log_entry list \<Rightarrow> chain_result" where
  "verify_exec_log_chain digest isoformat session_id t =
     verify_chain_rows digest (map (exec_chain_row isoformat)
       (sort_key xl_session (log_order
          (case session_id of None \<Rightarrow> t | Some s \<Rightarrow> filter (\<lambda>x. xl_session x = s) t))))"

end
