(* ===== verification/AuditSafety.thy ===== *)
theory AuditSafety
  imports AuditChain "HOL-Library.Multiset"
begin

text \<open>
  What the audit chain guarantees. A chained log is a locale: an append links one row to
  the head of its session's chain. Both tables are instances, the execution log only for
  rows that arrive in the order of their start times. Two verified chains with one head
  have the same contents, or exhibit a collision of the digest among what they hashed.
\<close>

section \<open>Chains\<close>

fun chain_ok :: "(string \<Rightarrow> string) \<Rightarrow> string \<Rightarrow> chain_row list \<Rightarrow> bool" where
  "chain_ok digest prev [] = True"
| "chain_ok digest prev (row # rows) =
     (cr_prev_hash row = Some prev \<and>
      cr_row_hash row = Some (compute_row_hash digest prev (cr_fields row)) \<and>
      chain_ok digest (compute_row_hash digest prev (cr_fields row)) rows)"

text \<open>The hash a chain ends in, and the texts that were hashed along it.\<close>

fun chain_end :: "(string \<Rightarrow> string) \<Rightarrow> string \<Rightarrow> chain_row list \<Rightarrow> string" where
  "chain_end digest prev [] = prev"
| "chain_end digest prev (row # rows) =
     chain_end digest (compute_row_hash digest prev (cr_fields row)) rows"

fun hashed_texts :: "(string \<Rightarrow> string) \<Rightarrow> string \<Rightarrow> chain_row list \<Rightarrow> string list" where
  "hashed_texts digest prev [] = []"
| "hashed_texts digest prev (row # rows) =
     (prev @ ''|'' @ json_dumps (cr_fields row)) #
     hashed_texts digest (compute_row_hash digest prev (cr_fields row)) rows"

definition link :: "(string \<Rightarrow> string) \<Rightarrow> string \<Rightarrow> chain_row \<Rightarrow> bool" where
  "link digest prev row =
     (cr_prev_hash row = Some prev \<and> cr_row_hash row = Some (compute_row_hash digest prev (cr_fields row)))"

lemma chain_ok_append:
  "chain_ok digest prev (rows @ rows') \<longleftrightarrow>
     chain_ok digest prev rows \<and> chain_ok digest (chain_end digest prev rows) rows'"
  by (induction rows arbitrary: prev) auto

lemma chain_ok_snoc:
  "chain_ok digest prev (rows @ [row]) \<longleftrightarrow> chain_ok digest prev rows \<and> link digest (chain_end digest prev rows) row"
  by (induction rows arbitrary: prev) (auto simp: link_def)

lemma chain_end_snoc:
  "chain_end digest prev (rows @ [row]) = compute_row_hash digest (chain_end digest prev rows) (cr_fields row)"
  by (induction rows arbitrary: prev) auto

lemma hashed_texts_snoc:
  "hashed_texts digest prev (rows @ [row]) =
     hashed_texts digest prev rows @ [chain_end digest prev rows @ ''|'' @ json_dumps (cr_fields row)]"
  by (induction rows arbitrary: prev) auto

lemma chain_end_last:
  "chain_ok digest prev rows \<Longrightarrow> rows \<noteq> [] \<Longrightarrow> cr_row_hash (last rows) = Some (chain_end digest prev rows)"
  by (induction rows arbitrary: prev) auto

lemma chain_ok_chained: "chain_ok digest prev rows \<Longrightarrow> filter chained rows = rows"
  by (induction rows arbitrary: prev) (auto simp: chained_def)

section \<open>The verifier decides chains\<close>

lemma verify_group_ok:
  "verify_group digest prev n rows = Inr m \<longleftrightarrow>
     chain_ok digest prev (filter chained rows) \<and> m = n + length (filter chained rows)"
proof (induction digest prev n rows rule: verify_group.induct)
  case (2 digest prev n row rows)
  then show ?case by (cases "cr_row_hash row") (auto simp: chained_def)
qed auto

lemma verify_groups_ok:
  "verify_groups digest n groups = Inr m \<longleftrightarrow>
     list_all (\<lambda>(s, rows). chain_ok digest genesis_hash (filter chained rows)) groups \<and>
     m = n + sum_list (map (\<lambda>(s, rows). length (filter chained rows)) groups)"
proof (induction digest n groups rule: verify_groups.induct)
  case (2 digest n s rows groups)
  show ?case
  proof (cases "verify_group digest genesis_hash n rows")
    case (Inl b)
    then have "\<not> chain_ok digest genesis_hash (filter chained rows)"
      using verify_group_ok [of digest genesis_hash n rows] by auto
    then show ?thesis using Inl by simp
  next
    case (Inr k)
    then have "chain_ok digest genesis_hash (filter chained rows)" "k = n + length (filter chained rows)"
      using verify_group_ok by blast+
    then show ?thesis using Inr 2 by auto
  qed
qed auto

abbreviation of_session :: "string option \<Rightarrow> chain_row list \<Rightarrow> chain_row list" where
  "of_session s rows \<equiv> filter (\<lambda>r. cr_session r = s) rows"

lemma group_rows_snoc: "group_rows (rows @ [row]) = add_to_group row (group_rows rows)"
  by (simp add: group_rows_def)

lemma group_rows_get:
  "dict_get (group_rows rows) s = (if of_session s rows = [] then None else Some (of_session s rows))"
proof (induction rows rule: rev_induct)
  case (snoc row rows)
  then show ?case
    by (auto simp: group_rows_snoc add_to_group_def dict_simps split: option.splits if_splits)
qed (simp add: group_rows_def)

lemma group_rows_ok: "dict_ok (group_rows rows)"
proof (induction rows rule: rev_induct)
  case (snoc row rows)
  then show ?case by (simp add: group_rows_snoc add_to_group_def)
qed (simp add: group_rows_def)

lemma sum_put:
  "dict_ok d \<Longrightarrow> dict_get d k = Some v \<Longrightarrow>
     sum_list (map (\<lambda>(s, rs). f rs) (dict_put k w d)) + f v = sum_list (map (\<lambda>(s, rs). f rs) d) + (f w :: nat)"
  "dict_get d k = None \<Longrightarrow>
     sum_list (map (\<lambda>(s, rs). f rs) (dict_put k w d)) = sum_list (map (\<lambda>(s, rs). f rs) d) + (f w :: nat)"
  by (induction d) auto

lemma group_rows_total:
  "sum_list (map (\<lambda>(s, rs). length (filter chained rs)) (group_rows rows)) = length (filter chained rows)"
proof (induction rows rule: rev_induct)
  case (snoc row rows)
  show ?case
  proof (cases "dict_get (group_rows rows) (cr_session row)")
    case None
    then show ?thesis
      using snoc sum_put(2) [OF None, of "\<lambda>rs. length (filter chained rs)" "[row]"]
      by (simp add: group_rows_snoc add_to_group_def)
  next
    case (Some rs)
    then show ?thesis
      using snoc sum_put(1) [OF group_rows_ok Some, of "\<lambda>rs. length (filter chained rs)" "rs @ [row]"]
      by (simp add: group_rows_snoc add_to_group_def)
  qed
qed (simp add: group_rows_def)

lemma group_rows_all:
  "list_all (\<lambda>(s, rs). P rs) (group_rows rows) \<longleftrightarrow> (\<forall>s. of_session s rows \<noteq> [] \<longrightarrow> P (of_session s rows))"
proof -
  have mem: "(s, rs) \<in> set (group_rows rows) \<longleftrightarrow> of_session s rows \<noteq> [] \<and> rs = of_session s rows" for s rs
    using map_of_eq_Some_iff [OF group_rows_ok, of rows s rs]
    by (simp only: group_rows_get) (simp split: if_splits, blast?)
  have "list_all (\<lambda>(s, rs). P rs) (group_rows rows) \<longleftrightarrow> (\<forall>s rs. (s, rs) \<in> set (group_rows rows) \<longrightarrow> P rs)"
    unfolding list_all_iff by (rule iffI) (blast, auto)
  then show ?thesis unfolding mem by simp
qed

text \<open>Verification succeeds exactly if every session's chained rows form a chain from genesis.\<close>

lemma verify_chain_rows_ok:
  "ch_ok (verify_chain_rows digest rows) \<longleftrightarrow>
     (\<forall>s. chain_ok digest genesis_hash (filter chained (of_session s rows)))"
  "ch_ok (verify_chain_rows digest rows) \<Longrightarrow>
     ch_rows_checked (verify_chain_rows digest rows) = length (filter chained rows)"
proof -
  have "ch_ok (verify_chain_rows digest rows) \<longleftrightarrow> (\<exists>m. verify_groups digest 0 (group_rows rows) = Inr m)"
    by (auto simp: verify_chain_rows_def Let_def split: sum.splits)
  also have "\<dots> \<longleftrightarrow> (\<forall>s. chain_ok digest genesis_hash (filter chained (of_session s rows)))"
  proof -
    have "(\<exists>m. verify_groups digest 0 (group_rows rows) = Inr m) \<longleftrightarrow>
        (\<forall>s. of_session s rows \<noteq> [] \<longrightarrow> chain_ok digest genesis_hash (filter chained (of_session s rows)))"
      unfolding verify_groups_ok group_rows_all by simp
    moreover have "chain_ok digest genesis_hash (filter chained (of_session s rows))"
      if "of_session s rows = []" for s unfolding that by simp
    ultimately show ?thesis by blast
  qed
  finally show "ch_ok (verify_chain_rows digest rows) \<longleftrightarrow>
     (\<forall>s. chain_ok digest genesis_hash (filter chained (of_session s rows)))" .
  assume ok: "ch_ok (verify_chain_rows digest rows)"
  then obtain m where m: "verify_groups digest 0 (group_rows rows) = Inr m"
    by (auto simp: verify_chain_rows_def split: sum.splits)
  then have "m = length (filter chained rows)" by (simp add: verify_groups_ok group_rows_total)
  then show "ch_rows_checked (verify_chain_rows digest rows) = length (filter chained rows)"
    using m by (simp add: verify_chain_rows_def Let_def)
qed

section \<open>Equal heads mean equal contents\<close>

lemma bar_split:
  "CHR ''|'' \<notin> set p \<Longrightarrow> CHR ''|'' \<notin> set q \<Longrightarrow> p @ ''|'' @ a = q @ ''|'' @ b \<Longrightarrow> p = q \<and> a = b"
proof (induction p arbitrary: q)
  case Nil
  then show ?case by (cases q) auto
next
  case (Cons c p)
  then show ?case by (cases q) auto
qed

lemma chain_end_no_bar:
  "\<forall>s. CHR ''|'' \<notin> set (digest s) \<Longrightarrow> CHR ''|'' \<notin> set (chain_end digest genesis_hash rows)"
  by (cases rows rule: rev_cases) (auto simp: chain_end_snoc compute_row_hash_def genesis_hash_def)

lemma chain_binding:
  assumes no_bar: "\<forall>s. CHR ''|'' \<notin> set (digest s)"
    and "chain_end digest genesis_hash rows = chain_end digest genesis_hash rows'"
  shows "map (json_dumps \<circ> cr_fields) rows = map (json_dumps \<circ> cr_fields) rows' \<or>
    (\<exists>x\<in>set (hashed_texts digest genesis_hash rows). \<exists>y\<in>set (hashed_texts digest genesis_hash rows').
       x \<noteq> y \<and> digest x = digest y) \<or>
    (\<exists>x\<in>set (hashed_texts digest genesis_hash rows @ hashed_texts digest genesis_hash rows').
       digest x = genesis_hash)"
  using assms(2)
proof (induction rows arbitrary: rows' rule: rev_induct)
  case Nil
  then show ?case
    by (cases rows' rule: rev_cases) (auto simp: chain_end_snoc hashed_texts_snoc compute_row_hash_def)
next
  case (snoc row rows)
  show ?case
  proof (cases rows' rule: rev_cases)
    case Nil
    then show ?thesis
      using snoc.prems by (auto simp: chain_end_snoc hashed_texts_snoc compute_row_hash_def)
  next
    case r': (snoc qs q)
    let ?x = "chain_end digest genesis_hash rows @ ''|'' @ json_dumps (cr_fields row)"
    let ?y = "chain_end digest genesis_hash qs @ ''|'' @ json_dumps (cr_fields q)"
    have eq: "digest ?x = digest ?y"
      using snoc.prems r' by (simp add: chain_end_snoc compute_row_hash_def)
    show ?thesis
    proof (cases "?x = ?y")
      case True
      then have "chain_end digest genesis_hash rows = chain_end digest genesis_hash qs \<and>
          json_dumps (cr_fields row) = json_dumps (cr_fields q)"
        using bar_split chain_end_no_bar [OF no_bar] by blast
      then show ?thesis using snoc.IH [of qs] r' by (auto simp: hashed_texts_snoc)
    next
      case False
      then show ?thesis using eq r' by (auto simp: hashed_texts_snoc)
    qed
  qed
qed

section \<open>Logs that extend their chains\<close>

text \<open>\<open>entries db s\<close> are the chained rows of a session in verification order; \<open>append e db\<close>
  inserts, \<open>session_of e\<close> names the session it goes to, \<open>in_order e db\<close> is what the log needs
  of the new row.\<close>

locale chained_log =
  fixes digest :: "string \<Rightarrow> string"
    and entries :: "'db \<Rightarrow> string option \<Rightarrow> chain_row list"
    and append :: "'e \<Rightarrow> 'db \<Rightarrow> 'db"
    and session_of :: "'e \<Rightarrow> string option"
    and in_order :: "'e \<Rightarrow> 'db \<Rightarrow> bool"
  assumes append_links: "in_order e db \<Longrightarrow> chain_ok digest genesis_hash (entries db (session_of e)) \<Longrightarrow>
      \<exists>row. entries (append e db) (session_of e) = entries db (session_of e) @ [row] \<and>
        link digest (chain_end digest genesis_hash (entries db (session_of e))) row"
    and append_other: "s \<noteq> session_of e \<Longrightarrow> entries (append e db) s = entries db s"
begin

fun all_in_order :: "'e list \<Rightarrow> 'db \<Rightarrow> bool" where
  "all_in_order [] db = True"
| "all_in_order (e # es) db = (in_order e db \<and> all_in_order es (append e db))"

lemma append_chain:
  assumes "in_order e db" and "\<forall>s. chain_ok digest genesis_hash (entries db s)"
  shows "\<forall>s. chain_ok digest genesis_hash (entries (append e db) s)"
proof
  fix s
  show "chain_ok digest genesis_hash (entries (append e db) s)"
  proof (cases "s = session_of e")
    case True
    then show ?thesis using append_links [OF assms(1)] assms(2) by (auto simp: chain_ok_snoc)
  next
    case False
    then show ?thesis using append_other assms(2) by simp
  qed
qed

lemma append_length:
  assumes "in_order e db" and "\<forall>s. chain_ok digest genesis_hash (entries db s)"
  shows "length (entries (append e db) s) = length (entries db s) + (if s = session_of e then 1 else 0)"
  using append_links [OF assms(1)] append_other [of s e db] assms(2) by auto

lemma run_chain:
  "all_in_order es db \<Longrightarrow> \<forall>s. chain_ok digest genesis_hash (entries db s) \<Longrightarrow>
     (\<forall>s. chain_ok digest genesis_hash (entries (fold append es db) s)) \<and>
     (\<forall>s. length (entries (fold append es db) s) =
        length (entries db s) + length (filter (\<lambda>e. session_of e = s) es))"
proof (induction es arbitrary: db)
  case (Cons e es)
  then have "in_order e db" "all_in_order es (append e db)" by simp_all
  then show ?case
    using Cons.IH [of "append e db"] append_chain append_length [of e db] Cons.prems(2) by auto
qed simp

end

lemma sort_key_snoc:
  assumes "\<forall>x\<in>set xs. f x \<le> f y"
  shows "sort_key f (xs @ [y]) = sort_key f xs @ [y]"
proof (rule properties_for_sort_key)
  show "mset (sort_key f xs @ [y]) = mset (xs @ [y])" by simp
  show "\<And>k. k \<in> set (sort_key f xs @ [y]) \<Longrightarrow>
      filter (\<lambda>x. f k = f x) (sort_key f xs @ [y]) = filter (\<lambda>x. f k = f x) (xs @ [y])"
    using sort_key_stable [of f] by (simp add: filter_sort) (metis (mono_tags, lifting) filter_cong filter_sort)
  show "sorted (map f (sort_key f xs @ [y]))" using assms by (auto simp: sorted_append)
qed

lemma fold_max_ge: "x \<in> set xs \<Longrightarrow> x \<le> fold max xs (n :: nat)" "n \<le> fold max xs n"
proof (induction xs arbitrary: n)
  case (Cons a xs)
  {
    case 1
    then show ?case using Cons(1) [of "max a n"] Cons(2) [of "max a n"]
      by (auto intro: order_trans)
  next
    case 2
    show ?case using Cons(2) [of "max a n"] by simp
  }
qed simp_all

lemma next_entry_id_gt: "e \<in> set t \<Longrightarrow> ae_id e < next_entry_id t"
  unfolding next_entry_id_def using fold_max_ge(1) [of "ae_id e" "map ae_id t" 0] by auto

definition sqlite_entries :: "audit_entry list \<Rightarrow> string option \<Rightarrow> chain_row list" where
  "sqlite_entries t s =
     map entry_chain_row (sort_key ae_id (filter (\<lambda>e. ae_session e = s \<and> ae_row_hash e \<noteq> None) t))"

text \<open>The hash a log looks up is the one its chain ends in.\<close>

lemma chain_end_hd:
  "chain_ok digest genesis_hash (map f xs) \<Longrightarrow>
     chain_end digest genesis_hash (map f xs) =
       (case rev xs of [] \<Rightarrow> genesis_hash
        | x # _ \<Rightarrow> (case cr_row_hash (f x) of None \<Rightarrow> genesis_hash | Some h \<Rightarrow> h))"
  using chain_end_last [of digest genesis_hash "map f xs"]
  by (cases xs rule: rev_cases) (auto simp: chain_ok_snoc)

interpretation sqlite_log: chained_log digest sqlite_entries "chained_insert digest" "av_session :: audit_event \<Rightarrow> string option"
    "\<lambda>v t. True"
  for digest
proof
  fix v :: audit_event and t
  assume ok: "chain_ok digest genesis_hash (sqlite_entries t (av_session v))"
  define prev where "prev = (case last_entry_hash (av_session v) t of None \<Rightarrow> genesis_hash | Some h \<Rightarrow> h)"
  define e where "e = new_entry v (next_entry_id t)"
  define e' where "e' = e\<lparr>ae_row_hash := Some (compute_row_hash digest prev (entry_fields e)),
      ae_prev_hash := Some prev\<rparr>"
  have ins: "chained_insert digest v t = t @ [e']"
    by (simp add: chained_insert_def Let_def prev_def e_def e'_def)
  have end_prev: "chain_end digest genesis_hash (sqlite_entries t (av_session v)) = prev"
    using ok unfolding sqlite_entries_def prev_def last_entry_hash_def
    by (subst chain_end_hd) (auto simp: entry_chain_row_def split: list.splits option.splits)
  have fields: "entry_fields e' = entry_fields e" "ae_session e' = av_session v" "ae_id e' = next_entry_id t"
    by (simp_all add: e'_def e_def entry_fields_def new_entry_def)
  have "sqlite_entries (t @ [e']) (av_session v) = sqlite_entries t (av_session v) @ [entry_chain_row e']"
    unfolding sqlite_entries_def
    by (simp add: fields(2) e'_def, subst sort_key_snoc)
       (auto simp: e_def new_entry_def dest: next_entry_id_gt)
  moreover have "link digest prev (entry_chain_row e')"
    by (simp add: link_def entry_chain_row_def fields) (simp add: e'_def)
  ultimately show "\<exists>row. sqlite_entries (chained_insert digest v t) (av_session v) =
        sqlite_entries t (av_session v) @ [row] \<and>
      link digest (chain_end digest genesis_hash (sqlite_entries t (av_session v))) row"
    unfolding ins end_prev by blast
next
  fix s and v :: audit_event and t
  assume "s \<noteq> av_session v"
  then show "sqlite_entries (chained_insert digest v t) s = sqlite_entries t s"
    by (simp add: sqlite_entries_def chained_insert_def Let_def new_entry_def)
qed

abbreviation instant :: "exec_log_entry \<Rightarrow> int" where
  "instant x \<equiv> utc_micros (xl_started_at x)"

definition exec_entries :: "(int \<Rightarrow> string) \<Rightarrow> exec_log_entry list \<Rightarrow> string option \<Rightarrow> chain_row list" where
  "exec_entries isoformat t s =
     map (exec_chain_row isoformat)
       (log_order (filter (\<lambda>x. Some (xl_session x) = s \<and> xl_row_hash x \<noteq> None) t))"

text \<open>The new row starts after every chained row of its session.\<close>

definition starts_last :: "exec_log_entry \<Rightarrow> exec_log_entry list \<Rightarrow> bool" where
  "starts_last x t =
     list_all (\<lambda>y. xl_session y = xl_session x \<and> xl_row_hash y \<noteq> None \<longrightarrow> instant y < instant x) t"

lemma sort_key_const: "\<forall>x\<in>set xs. f x = c \<Longrightarrow> sort_key f xs = xs"
  by (rule sort_key_id_if_sorted) (induction xs, auto)

lemma log_order_insert:
  assumes fresh: "\<forall>y\<in>set xs. instant y \<noteq> instant x"
    and xs: "log_order xs = as @ bs" and sorted: "sorted (map instant (as @ x # bs))"
  shows "log_order (xs @ [x]) = as @ x # bs"
  unfolding log_order_def
proof (rule properties_for_sort_key)
  have "mset (as @ bs) = mset xs" using xs by (metis log_order_def mset_sort)
  then show "mset (as @ x # bs) = mset (sort_key xl_id (xs @ [x]))" by simp
  show "sorted (map instant (as @ x # bs))" by (rule sorted)
  fix k
  have old: "filter (\<lambda>y. instant k = instant y) (as @ bs) = sort_key xl_id (filter (\<lambda>y. instant k = instant y) xs)"
    unfolding xs [symmetric] log_order_def filter_sort
    by (rule sort_key_const [where c = "instant k"]) simp
  show "filter (\<lambda>y. instant k = instant y) (as @ x # bs) =
      filter (\<lambda>y. instant k = instant y) (sort_key xl_id (xs @ [x]))"
  proof (cases "instant k = instant x")
    case True
    then have none: "filter (\<lambda>y. instant k = instant y) xs = []" using fresh by (auto simp: filter_empty_conv)
    then have "filter (\<lambda>y. instant k = instant y) (as @ bs) = []" using old by simp
    then show ?thesis using True none by (simp add: filter_sort)
  next
    case False
    then show ?thesis using old by (simp add: filter_sort)
  qed
qed

lemma log_order_sorted: "sorted (map instant (log_order xs))"
  by (simp add: log_order_def)

lemma log_order_set [simp]: "set (log_order xs) = set xs"
  by (simp add: log_order_def)

lemma log_order_snoc:
  assumes "\<forall>y\<in>set xs. instant y < instant x"
  shows "log_order (xs @ [x]) = log_order xs @ [x]"
  using assms log_order_sorted [of xs]
  by (intro log_order_insert) (auto simp: sorted_append intro: less_imp_le)

lemma filter_log_order: "filter P (log_order xs) = log_order (filter P xs)"
  by (simp add: log_order_def filter_sort)

interpretation exec_log: chained_log digest "exec_entries isoformat" "create_log_entry digest isoformat"
    "\<lambda>x :: exec_log_entry. Some (xl_session x)" starts_last
  for digest isoformat
proof
  fix x :: exec_log_entry and t
  assume later: "starts_last x t"
    and ok: "chain_ok digest genesis_hash (exec_entries isoformat t (Some (xl_session x)))"
  define mine where "mine = filter (\<lambda>y. xl_session y = xl_session x \<and> xl_row_hash y \<noteq> None) t"
  define prev where "prev = last_chained_row_hash (xl_session x) t"
  define x' where "x' = x\<lparr>xl_row_hash := Some (compute_row_hash digest prev (exec_fields isoformat x)),
      xl_prev_hash := Some prev\<rparr>"
  have ins: "create_log_entry digest isoformat x t = t @ [x']"
    by (simp add: create_log_entry_def Let_def prev_def x'_def)
  have old: "exec_entries isoformat t (Some (xl_session x)) = map (exec_chain_row isoformat) (log_order mine)"
    by (simp add: exec_entries_def mine_def)
  have end_prev: "chain_end digest genesis_hash (exec_entries isoformat t (Some (xl_session x))) = prev"
    using ok unfolding old prev_def last_chained_row_hash_def mine_def [symmetric]
    by (subst chain_end_hd) (auto simp: exec_chain_row_def split: list.splits option.splits)
  have fields: "exec_fields isoformat x' = exec_fields isoformat x" "xl_session x' = xl_session x"
      "instant x' = instant x" "xl_row_hash x' \<noteq> None"
    by (simp_all add: x'_def exec_fields_def)
  have "\<forall>y\<in>set mine. instant y < instant x'"
    using later by (auto simp: mine_def starts_last_def list_all_iff fields)
  then have "log_order (mine @ [x']) = log_order mine @ [x']" by (rule log_order_snoc)
  moreover have "exec_entries isoformat (t @ [x']) (Some (xl_session x)) =
      map (exec_chain_row isoformat) (log_order (mine @ [x']))"
    using fields by (simp add: exec_entries_def mine_def)
  ultimately have "exec_entries isoformat (t @ [x']) (Some (xl_session x)) =
      exec_entries isoformat t (Some (xl_session x)) @ [exec_chain_row isoformat x']"
    by (simp add: old)
  moreover have "link digest prev (exec_chain_row isoformat x')"
    by (simp add: link_def exec_chain_row_def fields(1)) (simp add: x'_def)
  ultimately show "\<exists>row. exec_entries isoformat (create_log_entry digest isoformat x t) (Some (xl_session x)) =
        exec_entries isoformat t (Some (xl_session x)) @ [row] \<and>
      link digest (chain_end digest genesis_hash (exec_entries isoformat t (Some (xl_session x)))) row"
    unfolding ins end_prev by blast
next
  fix s and x :: exec_log_entry and t
  assume "s \<noteq> Some (xl_session x)"
  then show "exec_entries isoformat (create_log_entry digest isoformat x t) s = exec_entries isoformat t s"
    by (auto simp: exec_entries_def create_log_entry_def Let_def)
qed

section \<open>The SQLite log\<close>

lemma filter_sort_const:
  "\<forall>x\<in>set xs. P x \<longrightarrow> f x = c \<Longrightarrow> filter P (sort_key f xs) = filter P xs"
  unfolding filter_sort by (rule sort_key_const [where c = c]) simp

lemma entry_chain_row_simps [simp]:
  "cr_session (entry_chain_row e) = ae_session e"
  "chained (entry_chain_row e) \<longleftrightarrow> ae_row_hash e \<noteq> None"
  by (simp_all add: entry_chain_row_def chained_def)

abbreviation chain_of :: "string option \<Rightarrow> chain_row list \<Rightarrow> chain_row list" where
  "chain_of s rows \<equiv> filter (\<lambda>r. cr_session r = s \<and> chained r) rows"

lemma sqlite_rows:
  "chain_of s (map entry_chain_row (sort_key ae_session (sort_key ae_id t))) = sqlite_entries t s"
  "chain_of s (map entry_chain_row (list_for_session q t)) =
     (if s = Some q then sqlite_entries t s else [])"
proof -
  have "filter (\<lambda>e. ae_session e = s \<and> ae_row_hash e \<noteq> None) (sort_key ae_session (sort_key ae_id t)) =
      filter (\<lambda>e. ae_session e = s \<and> ae_row_hash e \<noteq> None) (sort_key ae_id t)"
    by (rule filter_sort_const [where c = s]) simp
  then show "chain_of s (map entry_chain_row (sort_key ae_session (sort_key ae_id t))) = sqlite_entries t s"
    by (simp only: sqlite_entries_def filter_map o_def entry_chain_row_simps filter_sort)
  show "chain_of s (map entry_chain_row (list_for_session q t)) =
      (if s = Some q then sqlite_entries t s else [])"
    unfolding sqlite_entries_def filter_map o_def list_for_session_def entry_chain_row_simps
    by (auto simp: filter_sort filter_empty_conv intro!: arg_cong [where f = "sort_key ae_id"] filter_cong)
qed

lemma sqlite_verify_ok:
  "ch_ok (verify_chain digest None t) \<longleftrightarrow> (\<forall>s. chain_ok digest genesis_hash (sqlite_entries t s))"
  "ch_ok (verify_chain digest (Some q) t) \<longleftrightarrow> chain_ok digest genesis_hash (sqlite_entries t (Some q))"
  by (simp_all add: verify_chain_def verify_chain_rows_ok(1) sqlite_rows del: filter_map)

lemma sqlite_verify_count:
  assumes "chain_ok digest genesis_hash (sqlite_entries t (Some q))"
  shows "ch_rows_checked (verify_chain digest (Some q) t) = length (sqlite_entries t (Some q))"
proof -
  let ?rows = "map entry_chain_row (list_for_session q t)"
  have "of_session (Some q) ?rows = ?rows"
    by (auto simp: list_for_session_def entry_chain_row_def filter_id_conv)
  then have "filter chained ?rows = sqlite_entries t (Some q)"
    using sqlite_rows(2) [of "Some q" q t] by (metis (no_types) filter_filter)
  then show ?thesis
    using verify_chain_rows_ok(2) [of digest ?rows] assms sqlite_verify_ok(2) [of digest q t]
    by (simp add: verify_chain_def)
qed

lemma sqlite_in_order [simp]: "sqlite_log.all_in_order digest vs t"
  by (induction vs arbitrary: t) auto

text \<open>C13: Whatever sequence of audit events the hash-chaining sink records, in whatever
  interleaving of sessions, on top of a table that holds only rows from before chaining, the log
  verifies: as a whole, and for each session, with exactly that session's events checked.\<close>

theorem sqlite_chain_verifies:
  assumes legacy: "list_all (\<lambda>e. ae_row_hash e = None) t"
  shows "ch_ok (verify_chain digest None (fold (chained_insert digest) events t)) \<and>
    ch_ok (verify_chain digest (Some s) (fold (chained_insert digest) events t)) \<and>
    ch_rows_checked (verify_chain digest (Some s) (fold (chained_insert digest) events t)) =
      length (filter (\<lambda>v. av_session v = Some s) events)"
proof -
  have "sqlite_entries t q = []" for q
    using legacy by (auto simp: sqlite_entries_def list_all_iff filter_empty_conv)
  then have "(\<forall>q. chain_ok digest genesis_hash (sqlite_entries (fold (chained_insert digest) events t) q)) \<and>
      (\<forall>q. length (sqlite_entries (fold (chained_insert digest) events t) q) =
         length (filter (\<lambda>v. av_session v = q) events))"
    using sqlite_log.run_chain [of digest events t] by simp
  then show ?thesis by (simp add: sqlite_verify_ok sqlite_verify_count)
qed

text \<open>A legacy row, two agents' commands in one session, and one in another.\<close>

lemma sqlite_chain_verifies_witness:
  defines "digest \<equiv> (\<lambda>text'. CHR ''h'' # text')"
    and "old \<equiv> [new_entry (record_exec None None (Some ''s1'') None ''id'' 0 3 ''2026-01-01 00:00:00'') 1]"
    and "events \<equiv> [record_exec None None (Some ''s1'') None ''ls'' 0 12 ''2026-01-02 00:00:00'',
      record_exec None None (Some ''s2'') None ''pwd'' 0 5 ''2026-01-02 00:00:01'',
      record_exec None None (Some ''s1'') None ''rm x'' (- 1) 7 ''2026-01-02 00:00:02'']"
  shows "ch_ok (verify_chain digest None (fold (chained_insert digest) events old)) \<and>
    ch_rows_checked (verify_chain digest (Some ''s1'') (fold (chained_insert digest) events old)) = 2"
  using sqlite_chain_verifies [of old digest events "''s1''"]
  by (simp add: old_def events_def new_entry_def record_exec_def)

section \<open>The execution log\<close>

lemma exec_chain_row_simps [simp]:
  "cr_session (exec_chain_row isoformat x) = Some (xl_session x)"
  "chained (exec_chain_row isoformat x) \<longleftrightarrow> xl_row_hash x \<noteq> None"
  by (simp_all add: exec_chain_row_def chained_def)

lemma exec_rows:
  "chain_of s (map (exec_chain_row isoformat) (sort_key xl_session (log_order t))) = exec_entries isoformat t s"
proof -
  have "filter (\<lambda>x. Some (xl_session x) = s \<and> xl_row_hash x \<noteq> None) (sort_key xl_session (log_order t)) =
      filter (\<lambda>x. Some (xl_session x) = s \<and> xl_row_hash x \<noteq> None) (log_order t)"
    by (rule filter_sort_const [where c = "the s"]) auto
  then show ?thesis
    by (simp only: exec_entries_def filter_map o_def exec_chain_row_simps filter_log_order)
qed

lemma exec_entries_filter:
  "exec_entries isoformat (filter (\<lambda>x. xl_session x = q) t) s =
     (if s = Some q then exec_entries isoformat t s else [])"
proof (cases "s = Some q")
  case True
  then have "filter (\<lambda>x. Some (xl_session x) = s \<and> xl_row_hash x \<noteq> None) (filter (\<lambda>x. xl_session x = q) t) =
      filter (\<lambda>x. Some (xl_session x) = s \<and> xl_row_hash x \<noteq> None) t"
    unfolding filter_filter by (intro filter_cong) auto
  then show ?thesis using True by (simp only: exec_entries_def if_True simp_thms)
next
  case False
  then have "filter (\<lambda>x. Some (xl_session x) = s \<and> xl_row_hash x \<noteq> None) (filter (\<lambda>x. xl_session x = q) t) = []"
    by (auto simp: filter_empty_conv)
  then show ?thesis using False by (simp only: exec_entries_def if_False) (simp add: log_order_def)
qed

lemma exec_verify_ok:
  "ch_ok (verify_exec_log_chain digest isoformat None t) \<longleftrightarrow>
     (\<forall>s. chain_ok digest genesis_hash (exec_entries isoformat t s))"
  "ch_ok (verify_exec_log_chain digest isoformat (Some q) t) \<longleftrightarrow>
     chain_ok digest genesis_hash (exec_entries isoformat t (Some q))"
  by (simp_all add: verify_exec_log_chain_def verify_chain_rows_ok(1) exec_rows exec_entries_filter
      del: filter_map)

lemma starts_last_append:
  assumes "starts_last x t" and "xl_session y = xl_session x \<longrightarrow> instant y < instant x"
  shows "starts_last x (create_log_entry digest isoformat y t)"
  using assms by (simp add: starts_last_def create_log_entry_def Let_def)

lemma sorted_all_in_order:
  "sorted_wrt (\<lambda>x y. xl_session x = xl_session y \<longrightarrow> instant x < instant y) xs \<Longrightarrow>
     list_all (\<lambda>x. starts_last x t) xs \<Longrightarrow> exec_log.all_in_order digest isoformat xs t"
proof (induction xs arbitrary: t)
  case (Cons x xs)
  then have "list_all (\<lambda>y. starts_last y (create_log_entry digest isoformat x t)) xs"
    by (auto simp: list_all_iff intro!: starts_last_append)
  then show ?case using Cons by simp
qed simp

text \<open>If the operations of every session are logged in the order in which they started, and
  no two of them start in the same microsecond, the execution log verifies, for any
  interleaving of the sessions and whatever aware or naive start times the rows carry.\<close>

theorem exec_log_verifies_in_order:
  assumes "sorted_wrt (\<lambda>x y. xl_session x = xl_session y \<longrightarrow>
      utc_micros (xl_started_at x) < utc_micros (xl_started_at y)) xs"
  shows "ch_ok (verify_exec_log_chain digest isoformat None (fold (create_log_entry digest isoformat) xs []))"
proof -
  have "exec_log.all_in_order digest isoformat xs []"
    using assms by (intro sorted_all_in_order) (simp_all add: starts_last_def list_all_iff)
  moreover have "\<forall>s. chain_ok digest genesis_hash (exec_entries isoformat [] s)"
    by (simp add: exec_entries_def log_order_def)
  ultimately show ?thesis using exec_log.run_chain exec_verify_ok(1) by blast
qed

text \<open>Two sessions, interleaved; one row carries an aware start time, another a naive one.\<close>

lemma exec_log_verifies_in_order_witness:
  defines "digest \<equiv> (\<lambda>text'. CHR ''h'' # text')" and "isoformat \<equiv> (\<lambda>n. decimal (nat n))"
    and "row i s k \<equiv> \<lparr>xl_id = i, xl_session = s, xl_account = ''a'', xl_source = ''rest'',
      xl_operation = ''exec'', xl_detail = JNull, xl_exit_code = Some 0, xl_output = None,
      xl_started_at = k, xl_duration_ms = 5, xl_row_hash = None, xl_prev_hash = None\<rparr>"
  shows "ch_ok (verify_exec_log_chain digest isoformat None (fold (create_log_entry digest isoformat)
      [row ''r2'' ''s'' \<lparr>dt_clock = 100, dt_offset = Some 60\<rparr>, row ''r1'' ''q'' \<lparr>dt_clock = 10, dt_offset = None\<rparr>,
       row ''r0'' ''s'' \<lparr>dt_clock = 41, dt_offset = None\<rparr>] []))"
  by (rule exec_log_verifies_in_order) (simp add: row_def utc_micros_def)

lemma exec_entries_break:
  assumes ok: "chain_ok digest genesis_hash (exec_entries isoformat t (Some (xl_session x)))"
    and hashes: "distinct (Some genesis_hash # map xl_row_hash
       (filter (\<lambda>y. xl_session y = xl_session x \<and> xl_row_hash y \<noteq> None) t))"
    and no_tie: "list_all (\<lambda>y. xl_session y = xl_session x \<and> xl_row_hash y \<noteq> None \<longrightarrow> instant y \<noteq> instant x) t"
    and later: "y \<in> set t" "xl_session y = xl_session x" "xl_row_hash y \<noteq> None" "instant x < instant y"
  shows "\<not> chain_ok digest genesis_hash
    (exec_entries isoformat (create_log_entry digest isoformat x t) (Some (xl_session x)))"
proof -
  define mine where "mine = filter (\<lambda>y. xl_session y = xl_session x \<and> xl_row_hash y \<noteq> None) t"
  define prev where "prev = last_chained_row_hash (xl_session x) t"
  define x' where "x' = x\<lparr>xl_row_hash := Some (compute_row_hash digest prev (exec_fields isoformat x)),
      xl_prev_hash := Some prev\<rparr>"
  define as bs where "as = filter (\<lambda>y. instant y < instant x) (log_order mine)"
    and "bs = filter (\<lambda>y. \<not> instant y < instant x) (log_order mine)"
  have split: "log_order mine = as @ bs"
    unfolding as_def bs_def by (rule sorted_split [OF log_order_sorted])
  have inst: "instant x' = instant x" by (simp add: x'_def)
  have new: "exec_entries isoformat (create_log_entry digest isoformat x t) (Some (xl_session x)) =
      map (exec_chain_row isoformat) (as @ x' # bs)"
  proof -
    have "sorted (map instant (as @ x' # bs))"
      using log_order_sorted [of mine] unfolding split by (auto simp: sorted_append inst as_def bs_def)
    then have "log_order (mine @ [x']) = as @ x' # bs"
      using no_tie by (intro log_order_insert split) (auto simp: mine_def list_all_iff inst)
    then show ?thesis
      by (simp add: exec_entries_def create_log_entry_def Let_def mine_def x'_def prev_def)
  qed
  have "bs \<noteq> []" using later by (auto simp: bs_def mine_def filter_empty_conv)
  then obtain b bs' where bs: "bs = bs' @ [b]" by (cases bs rule: rev_cases) auto
  have b: "xl_row_hash b = Some prev"
  proof -
    have "b \<in> set mine" using log_order_set [of mine] by (auto simp: split bs)
    then show ?thesis
      unfolding prev_def last_chained_row_hash_def mine_def [symmetric] split bs by (auto simp: mine_def)
  qed
  have "distinct (map xl_row_hash (as @ bs))" "Some genesis_hash \<notin> xl_row_hash ` set (as @ bs)"
  proof -
    have "mset (as @ bs) = mset mine" unfolding split [symmetric] by (simp add: log_order_def)
    then have "mset (map xl_row_hash (as @ bs)) = mset (map xl_row_hash mine)" by (simp only: mset_map)
    then show "distinct (map xl_row_hash (as @ bs))"
      using hashes mset_eq_imp_distinct_iff unfolding mine_def [symmetric] by (metis distinct.simps(2))
    show "Some genesis_hash \<notin> xl_row_hash ` set (as @ bs)"
      using hashes log_order_set [of mine] unfolding mine_def [symmetric] split by simp
  qed
  moreover have "Some (chain_end digest genesis_hash (map (exec_chain_row isoformat) as)) \<in>
      insert (Some genesis_hash) (xl_row_hash ` set as)"
  proof (cases as rule: rev_cases)
    case (snoc as' a)
    have "chain_ok digest genesis_hash (map (exec_chain_row isoformat) as)"
      using ok split unfolding mine_def by (simp add: exec_entries_def chain_ok_append)
    then show ?thesis using chain_end_last snoc by (fastforce simp: exec_chain_row_def)
  qed simp
  ultimately have "chain_end digest genesis_hash (map (exec_chain_row isoformat) as) \<noteq> prev"
    using b by (auto simp: bs)
  then show ?thesis unfolding new by (auto simp: chain_ok_append x'_def exec_chain_row_def)
qed

text \<open>The chain is written in the order of the inserts but read in the order of the start
  times. So a log that verified stops verifying, with nobody having touched it, as soon as an
  operation is logged that started before a chained operation of its session (a long command
  that finishes after a short one), provided the chain's hashes are pairwise distinct.\<close>

theorem exec_log_out_of_order_breaks:
  assumes "ch_ok (verify_exec_log_chain digest isoformat (Some (xl_session x)) t)"
    and "distinct (Some genesis_hash # map xl_row_hash
      (filter (\<lambda>y. xl_session y = xl_session x \<and> xl_row_hash y \<noteq> None) t))"
    and "list_all (\<lambda>y. xl_session y = xl_session x \<and> xl_row_hash y \<noteq> None \<longrightarrow>
      utc_micros (xl_started_at y) \<noteq> utc_micros (xl_started_at x)) t"
    and "y \<in> set t" and "xl_session y = xl_session x" and "xl_row_hash y \<noteq> None"
    and "utc_micros (xl_started_at x) < utc_micros (xl_started_at y)"
  shows "\<not> ch_ok (verify_exec_log_chain digest isoformat (Some (xl_session x))
    (create_log_entry digest isoformat x t))"
  using exec_entries_break assms unfolding exec_verify_ok by blast

text \<open>A command that ran from 100 to 900 is logged after one that ran from 200 to 300.\<close>

lemma exec_log_out_of_order_breaks_witness:
  defines "isoformat \<equiv> (\<lambda>n. decimal (nat n))"
    and "row i k n \<equiv> \<lparr>xl_id = i, xl_session = ''s'', xl_account = ''a'', xl_source = ''rest'',
      xl_operation = ''exec'', xl_detail = JNull, xl_exit_code = Some 0, xl_output = None,
      xl_started_at = \<lparr>dt_clock = k, dt_offset = None\<rparr>, xl_duration_ms = n, xl_row_hash = None, xl_prev_hash = None\<rparr>"
    and "digest \<equiv> (\<lambda>text'. CHR ''h'' # text')"
  defines "quick \<equiv> create_log_entry digest isoformat (row ''r1'' 200 100) []"
  shows "ch_ok (verify_exec_log_chain digest isoformat (Some ''s'') quick) \<and>
    \<not> ch_ok (verify_exec_log_chain digest isoformat (Some ''s'')
        (create_log_entry digest isoformat (row ''r2'' 100 800) quick))"
proof -
  have quick: "quick = [(row ''r1'' 200 100)\<lparr>xl_prev_hash := Some genesis_hash,
      xl_row_hash := Some (CHR ''h'' # genesis_hash @ ''|'' @ json_dumps (exec_fields isoformat (row ''r1'' 200 100)))\<rparr>]"
    by (simp add: quick_def create_log_entry_def last_chained_row_hash_def log_order_def digest_def
        compute_row_hash_def row_def)
  have "exec_fields isoformat (hd quick) = exec_fields isoformat (row ''r1'' 200 100)"
    by (simp add: quick exec_fields_def row_def)
  then have ok: "ch_ok (verify_exec_log_chain digest isoformat (Some ''s'') quick)"
    unfolding exec_verify_ok
    by (simp add: quick exec_entries_def log_order_def exec_chain_row_def digest_def compute_row_hash_def row_def)
  moreover have "genesis_hash \<noteq> CHR ''h'' # r" for r by (simp add: genesis_hash_def numeral_eq_Suc)
  ultimately show ?thesis
    using exec_log_out_of_order_breaks [of digest isoformat "row ''r2'' 100 800" quick "hd quick"]
    by (simp add: quick row_def utc_micros_def)
qed

section \<open>Tamper evidence\<close>

lemma json_dumps_map:
  "list_all json_ok js \<Longrightarrow> list_all json_ok ks \<Longrightarrow> map json_dumps js = map json_dumps ks \<Longrightarrow>
     map sort_keys js = map sort_keys ks"
proof (induction js arbitrary: ks)
  case (Cons j js)
  from Cons.prems obtain k ks' where ks: "ks = k # ks'" by (cases ks) simp_all
  have "sort_keys j = sort_keys k" using Cons.prems json_dumps_inj [of j k] unfolding ks by simp
  then show ?case using Cons unfolding ks by simp
qed simp

text \<open>C14: Two verified chains that end in the same hash have the same contents, row for row
  (the canonical JSON fields up to the order of the keys), unless the texts hashed along them
  exhibit a collision of the digest, or one whose digest is the genesis constant. So who keeps
  a chain's head hash detects every later edit, deletion, insertion or reordering.\<close>

theorem verified_chains_bind:
  assumes no_bar: "\<forall>text'. CHR ''|'' \<notin> set (digest text')"
    and "list_all (\<lambda>r. cr_session r = s \<and> chained r \<and> json_ok (cr_fields r)) rows"
    and "list_all (\<lambda>r. cr_session r = s \<and> chained r \<and> json_ok (cr_fields r)) rows'"
    and "ch_ok (verify_chain_rows digest rows)" and "ch_ok (verify_chain_rows digest rows')"
    and "rows \<noteq> []" and "rows' \<noteq> []" and "cr_row_hash (last rows) = cr_row_hash (last rows')"
  shows "map (sort_keys \<circ> cr_fields) rows = map (sort_keys \<circ> cr_fields) rows' \<or>
    (\<exists>x\<in>set (hashed_texts digest genesis_hash rows). \<exists>y\<in>set (hashed_texts digest genesis_hash rows').
       x \<noteq> y \<and> digest x = digest y) \<or>
    (\<exists>x\<in>set (hashed_texts digest genesis_hash rows @ hashed_texts digest genesis_hash rows').
       digest x = genesis_hash)"
proof -
  have ok: "chain_ok digest genesis_hash rs"
    if "list_all (\<lambda>r. cr_session r = s \<and> chained r \<and> json_ok (cr_fields r)) rs"
      "ch_ok (verify_chain_rows digest rs)" for rs
  proof -
    have "filter chained (of_session s rs) = rs"
      using that(1) unfolding filter_filter by (auto simp: list_all_iff intro: filter_True)
    then show ?thesis using that(2) verify_chain_rows_ok(1) by metis
  qed
  have "chain_end digest genesis_hash rows = chain_end digest genesis_hash rows'"
    using chain_end_last [OF ok] assms by simp
  note bound = chain_binding [OF no_bar this]
  have same: "map (sort_keys \<circ> cr_fields) rows = map (sort_keys \<circ> cr_fields) rows'"
    if "map (json_dumps \<circ> cr_fields) rows = map (json_dumps \<circ> cr_fields) rows'"
    using json_dumps_map [of "map cr_fields rows" "map cr_fields rows'"] that assms(2,3)
    by (simp add: list_all_iff)
  from bound show ?thesis by (rule disj_forward) (rule same)
qed

text \<open>One row, stored with its keys in two orders.\<close>

lemma verified_chains_bind_witness:
  defines "digest \<equiv> filter (\<lambda>c. c \<noteq> CHR ''|'')"
    and "f \<equiv> JObj [(''id'', JNum ''7''), (''kind'', JStr ''exec'')]"
    and "g \<equiv> JObj [(''kind'', JStr ''exec''), (''id'', JNum ''7'')]"
  defines "row h j \<equiv> \<lparr>cr_id = JNull, cr_session = None, cr_row_hash = Some h, cr_prev_hash = Some genesis_hash, cr_fields = j\<rparr>"
    and "h \<equiv> compute_row_hash digest genesis_hash f"
  shows "map (sort_keys \<circ> cr_fields) [row h f] = map (sort_keys \<circ> cr_fields) [row h g] \<or>
    (\<exists>x\<in>set (hashed_texts digest genesis_hash [row h f]). \<exists>y\<in>set (hashed_texts digest genesis_hash [row h g]).
       x \<noteq> y \<and> digest x = digest y) \<or>
    (\<exists>x\<in>set (hashed_texts digest genesis_hash [row h f] @ hashed_texts digest genesis_hash [row h g]).
       digest x = genesis_hash)"
proof -
  have ok: "json_ok f" "json_ok g"
    by (simp_all add: f_def g_def number_text_def number_char_def)
  have "json_dumps f = json_dumps g" unfolding f_def g_def by code_simp
  then have h: "compute_row_hash digest genesis_hash g = h" by (simp add: h_def compute_row_hash_def)
  have "ch_ok (verify_chain_rows digest [row h j])" if "compute_row_hash digest genesis_hash j = h" for j
    using that by (simp add: verify_chain_rows_ok row_def chained_def)
  note intact = this [of f, OF h_def [symmetric, THEN meta_eq_to_obj_eq]] this [of g, OF h]
  show ?thesis
    by (rule verified_chains_bind [where s = None])
       (simp_all only: intact, simp_all add: row_def chained_def ok digest_def)
qed

end
