(* ===== verification/SecretCapability.thy ===== *)
theory SecretCapability
  imports Json
begin

text \<open>
  The capability tokens of the secrets broker: the control plane resolves a session's
  \<open>secret_names\<close> and mints one token per session (\<open>usage_policy.py\<close>,
  \<open>secret_capability.py\<close>); the session's sidecar presents it to the internal resolve
  endpoint (\<open>routers/internal_secrets.py\<close>). Signing and verifying a token (PyJWT) and
  decrypting a secret are parameters. A secret belongs to an account and carries its
  allowed hosts; the database is the list of its rows.
\<close>

section \<open>The two tables\<close>

record secret_row =
  sx_id :: string
  sx_account :: string
  sx_name :: string
  sx_allowed_hosts :: "string list"
  sx_sealed :: string
  sx_last_used :: "int option"

record mcp_row =
  mx_account :: string
  mx_label :: string
  mx_host :: string

definition resolve_secret_names ::
    "string \<Rightarrow> string list \<Rightarrow> secret_row list \<Rightarrow> (string, secret_row) dict" where
  "resolve_secret_names account names t =
     (if names = [] then []
      else foldl (\<lambda>d r. dict_put (sx_name r) r d) []
             (filter (\<lambda>r. sx_account r = account \<and> sx_name r \<in> set names) t))"

definition resolve_mcp_names ::
    "string \<Rightarrow> string list \<Rightarrow> mcp_row list \<Rightarrow> (string, mcp_row) dict" where
  "resolve_mcp_names account names t =
     (if names = [] then []
      else foldl (\<lambda>d r. dict_put (mx_label r) r d) []
             (filter (\<lambda>r. mx_account r = account \<and> mx_label r \<in> set names) t))"

definition get_by_name_for_account :: "string \<Rightarrow> string \<Rightarrow> secret_row list \<Rightarrow> secret_row option" where
  "get_by_name_for_account account name t =
     List.find (\<lambda>r. sx_account r = account \<and> sx_name r = name) t"

definition touch_last_used :: "string \<Rightarrow> int \<Rightarrow> secret_row list \<Rightarrow> secret_row list" where
  "touch_last_used i now t = map (\<lambda>r. if sx_id r = i then r\<lparr>sx_last_used := Some now\<rparr> else r) t"

section \<open>Minting and decoding\<close>

definition capability_token_type :: string where
  "capability_token_type = ''secret_capability''"

text \<open>\<open>int(t.timestamp())\<close> of a time in microseconds.\<close>

definition unix_seconds :: "int \<Rightarrow> int" where
  "unix_seconds t = sgn t * (\<bar>t\<bar> div 1000000)"

type_synonym claims = "(string, json) dict"

text \<open>The clock is read for the expiry first and for \<open>iat\<close> afterwards.\<close>

definition capability_claims :: "int \<Rightarrow> int \<Rightarrow> int \<Rightarrow> string \<Rightarrow> string \<Rightarrow> string list \<Rightarrow> claims" where
  "capability_claims ttl now1 now2 account session names =
     [(''type'', JStr capability_token_type), (''account_id'', JStr account),
      (''session_id'', JStr session),
      (''secret_names'', JArr (map JStr (sort (remdups names)))),
      (''iat'', json_int (unix_seconds now2)),
      (''exp'', json_int (unix_seconds (now1 + ttl * 1000000)))]"

definition create_capability_token ::
    "(claims \<Rightarrow> string) \<Rightarrow> int \<Rightarrow> int \<Rightarrow> int \<Rightarrow> string \<Rightarrow> string \<Rightarrow> string list \<Rightarrow> string" where
  "create_capability_token jwt_encode ttl now1 now2 account session names =
     jwt_encode (capability_claims ttl now1 now2 account session names)"

text \<open>\<open>jwt_decode\<close> answers \<open>None\<close> for a bad signature, an expired or a malformed token.\<close>

definition decode_capability_token ::
    "(string \<Rightarrow> claims option) \<Rightarrow> string \<Rightarrow> string \<Rightarrow> claims option" where
  "decode_capability_token jwt_decode token expected_session_id =
     (case jwt_decode token of
        None \<Rightarrow> None
      | Some payload \<Rightarrow>
          (if dict_get payload ''type'' \<noteq> Some (JStr capability_token_type) then None
           else if dict_get payload ''session_id'' \<noteq> Some (JStr expected_session_id) then None
           else Some payload))"

section \<open>The grants of a session\<close>

datatype grant_error =
    SecretsNotConfigured500
  | SecretNotFound404 "string list"
  | SecretsBrokerNotConfigured500
  | McpNotConfigured500
  | McpConnectionNotFound404 "string list"

type_synonym host_grant = "string \<times> string list"

text \<open>\<open>secrets\<close> is \<open>None\<close> when the policy was built without that repository.\<close>

definition resolve_secret_grants ::
    "secret_row list option \<Rightarrow> string \<Rightarrow> (string list \<Rightarrow> string) \<Rightarrow> string \<Rightarrow> string list option \<Rightarrow>
     grant_error + (host_grant list \<times> string option)" where
  "resolve_secret_grants secrets control_plane_url mint account secret_names =
     (case secret_names of
        None \<Rightarrow> Inr ([], None)
      | Some [] \<Rightarrow> Inr ([], None)
      | Some names \<Rightarrow>
          (case secrets of
             None \<Rightarrow> Inl SecretsNotConfigured500
           | Some t \<Rightarrow>
               (let resolved = resolve_secret_names account names t;
                    missing = filter (\<lambda>n. dict_get resolved n = None) names
                in if missing \<noteq> [] then Inl (SecretNotFound404 (sort (remdups missing)))
                   else if control_plane_url = [] then Inl SecretsBrokerNotConfigured500
                   else Inr (map (\<lambda>n. (n, case dict_get resolved n of None \<Rightarrow> [] | Some r \<Rightarrow> sx_allowed_hosts r)) names,
                             Some (mint names)))))"

definition resolve_mcp_connection_grants ::
    "mcp_row list option \<Rightarrow> string \<Rightarrow> string list option \<Rightarrow> grant_error + host_grant list" where
  "resolve_mcp_connection_grants mcps account mcp_connection_names =
     (case mcp_connection_names of
        None \<Rightarrow> Inr []
      | Some [] \<Rightarrow> Inr []
      | Some names \<Rightarrow>
          (case mcps of
             None \<Rightarrow> Inl McpNotConfigured500
           | Some t \<Rightarrow>
               (let resolved = resolve_mcp_names account names t;
                    missing = filter (\<lambda>n. dict_get resolved n = None) names
                in if missing \<noteq> [] then Inl (McpConnectionNotFound404 (sort (remdups missing)))
                   else Inr (map (\<lambda>n. (n, case dict_get resolved n of None \<Rightarrow> [] | Some r \<Rightarrow> [mx_host r])) names))))"

section \<open>The resolve endpoint\<close>

datatype resolve_answer =
    MissingCredentials401
  | InvalidToken401
  | NotReferenced404
  | DecryptFailed500
  | ResolveCrashed500
  | Resolved string string

definition capability_token_from_header :: "string option \<Rightarrow> string option" where
  "capability_token_from_header authorization =
     (case authorization of
        None \<Rightarrow> None
      | Some a \<Rightarrow>
          (if a = [] \<or> \<not> py_startswith (py_lower a) ''bearer '' then None
           else let token = py_strip (drop 7 a) in if token = [] then None else Some token))"

text \<open>\<open>name in set(payload.get("secret_names", []))\<close>; a value that is no list of strings
  raises or has no such member.\<close>

definition granted_in_token :: "claims \<Rightarrow> string \<Rightarrow> bool option" where
  "granted_in_token payload name =
     (case dict_get payload ''secret_names'' of
        None \<Rightarrow> Some False
      | Some (JArr xs) \<Rightarrow>
          (if list_all (\<lambda>x. case x of JArr _ \<Rightarrow> False | JObj _ \<Rightarrow> False | _ \<Rightarrow> True) xs
           then Some (JStr name \<in> set xs) else None)
      | Some (JStr s) \<Rightarrow> Some (\<exists>c\<in>set s. name = [c])
      | Some (JObj kvs) \<Rightarrow> Some (name \<in> fst ` set kvs)
      | Some _ \<Rightarrow> None)"

definition resolve_secret ::
    "(string \<Rightarrow> claims option) \<Rightarrow> (string \<Rightarrow> string option) \<Rightarrow> string option \<Rightarrow> string \<Rightarrow> string \<Rightarrow> int \<Rightarrow>
     secret_row list \<Rightarrow> resolve_answer \<times> secret_row list" where
  "resolve_secret jwt_decode decrypt authorization session_id secret_name now t =
     (case capability_token_from_header authorization of
        None \<Rightarrow> (MissingCredentials401, t)
      | Some token \<Rightarrow>
          (case decode_capability_token jwt_decode token session_id of
             None \<Rightarrow> (InvalidToken401, t)
           | Some payload \<Rightarrow>
               (case granted_in_token payload secret_name of
                  None \<Rightarrow> (ResolveCrashed500, t)
                | Some False \<Rightarrow> (NotReferenced404, t)
                | Some True \<Rightarrow>
                    (case dict_get payload ''account_id'' of
                       Some (JStr account_id) \<Rightarrow>
                         (case get_by_name_for_account account_id secret_name t of
                            None \<Rightarrow> (NotReferenced404, t)
                          | Some row \<Rightarrow>
                              (case decrypt (sx_sealed row) of
                                 None \<Rightarrow> (DecryptFailed500, t)
                               | Some value \<Rightarrow>
                                   (Resolved (sx_name row) value, touch_last_used (sx_id row) now t)))
                     | Some JNull \<Rightarrow> (NotReferenced404, t)
                     | _ \<Rightarrow> (ResolveCrashed500, t)))))"

section \<open>Tenants and sessions\<close>

lemma foldl_put_get:
  "dict_get (foldl (\<lambda>d r. dict_put (f r) r d) d0 rs) n =
     (case List.find (\<lambda>r. f r = n) (rev rs) of None \<Rightarrow> dict_get d0 n | Some r \<Rightarrow> Some r)"
  by (induction rs rule: rev_induct) (auto simp: dict_simps split: option.splits)

lemma find_Some_mem: "List.find P xs = Some x \<Longrightarrow> x \<in> set xs \<and> P x"
  by (induction xs) (auto split: if_splits)

lemma resolve_secret_names_get:
  assumes "dict_get (resolve_secret_names account names t) n = Some r"
  shows "r \<in> set t \<and> sx_account r = account \<and> sx_name r = n \<and> n \<in> set names"
proof -
  have "List.find (\<lambda>r. sx_name r = n) (rev (filter (\<lambda>r. sx_account r = account \<and> sx_name r \<in> set names) t)) = Some r"
    using assms by (simp add: resolve_secret_names_def foldl_put_get split: if_splits option.splits)
  from find_Some_mem [OF this] show ?thesis by auto
qed

lemma resolve_secret_names_own:
  "resolve_secret_names account names (filter (\<lambda>r. sx_account r = account) t) =
     resolve_secret_names account names t"
  by (simp add: resolve_secret_names_def conj_commute cong: conj_cong)

text \<open>What a session is granted depends on the rows of its own account only, and when the
  grants are made every requested name is granted, in order, with the hosts of a row of that
  account and that name: another tenant's secrets can neither be granted nor detected.\<close>

theorem secret_grants_tenant_scoped:
  "resolve_secret_grants (Some t) url mint account names =
     resolve_secret_grants (Some (filter (\<lambda>r. sx_account r = account) t)) url mint account names \<and>
   (\<forall>gs token. resolve_secret_grants (Some t) url mint account names = Inr (gs, token) \<longrightarrow>
      map fst gs = (case names of None \<Rightarrow> [] | Some ns \<Rightarrow> ns) \<and>
      (\<forall>(n, hosts)\<in>set gs. \<exists>r\<in>set t. sx_account r = account \<and> sx_name r = n \<and> sx_allowed_hosts r = hosts) \<and>
      token = (if gs = [] then None else Some (mint (map fst gs))))"
proof (intro conjI allI impI)
  show "resolve_secret_grants (Some t) url mint account names =
     resolve_secret_grants (Some (filter (\<lambda>r. sx_account r = account) t)) url mint account names"
    by (simp add: resolve_secret_grants_def resolve_secret_names_own split: option.splits list.splits)
  fix gs token
  assume *: "resolve_secret_grants (Some t) url mint account names = Inr (gs, token)"
  show "map fst gs = (case names of None \<Rightarrow> [] | Some ns \<Rightarrow> ns)"
    using * by (auto simp: resolve_secret_grants_def Let_def o_def split: option.splits list.splits if_splits)
  show "token = (if gs = [] then None else Some (mint (map fst gs)))"
    using * by (auto simp: resolve_secret_grants_def Let_def o_def split: option.splits list.splits if_splits)
  show "\<forall>(n, hosts)\<in>set gs. \<exists>r\<in>set t. sx_account r = account \<and> sx_name r = n \<and> sx_allowed_hosts r = hosts"
  proof (clarify)
    fix n hosts
    assume "(n, hosts) \<in> set gs"
    then obtain ns where ns: "names = Some ns" "n \<in> set ns"
      "filter (\<lambda>n. dict_get (resolve_secret_names account ns t) n = None) ns = []"
      "hosts = (case dict_get (resolve_secret_names account ns t) n of None \<Rightarrow> [] | Some r \<Rightarrow> sx_allowed_hosts r)"
      using * by (auto simp: resolve_secret_grants_def Let_def split: option.splits list.splits if_splits)
    then obtain r where r: "dict_get (resolve_secret_names account ns t) n = Some r"
      by (auto simp: filter_empty_conv)
    then show "\<exists>r\<in>set t. sx_account r = account \<and> sx_name r = n \<and> sx_allowed_hosts r = hosts"
      using resolve_secret_names_get [OF r] ns(4) by auto
  qed
qed

lemma secret_grants_tenant_scoped_witness:
  defines "row a h \<equiv> \<lparr>sx_id = a, sx_account = a, sx_name = ''KEY'', sx_allowed_hosts = [h], sx_sealed = [], sx_last_used = None\<rparr>"
  defines "rows \<equiv> [row ''a1'' ''x.com'', row ''a2'' ''y.com'']"
  shows "resolve_secret_grants (Some rows) ''http://cp'' concat ''a1'' (Some [''KEY'']) =
      Inr ([(''KEY'', [''x.com''])], Some ''KEY'') \<and>
    (\<exists>r\<in>set rows. sx_account r = ''a1'' \<and> sx_name r = ''KEY'' \<and> sx_allowed_hosts r = [''x.com''])"
proof -
  have run: "resolve_secret_grants (Some rows) ''http://cp'' concat ''a1'' (Some [''KEY'']) =
      Inr ([(''KEY'', [''x.com''])], Some ''KEY'')"
    by (simp add: resolve_secret_grants_def resolve_secret_names_def row_def rows_def Let_def)
  note scoped = conjunct2 [OF secret_grants_tenant_scoped, THEN spec, THEN spec, THEN mp, OF run]
  have "\<exists>r\<in>set rows. sx_account r = ''a1'' \<and> sx_name r = ''KEY'' \<and> sx_allowed_hosts r = [''x.com'']"
    using conjunct1 [OF conjunct2 [OF scoped]] by (simp only: list.set ball_simps prod.case)
  then show ?thesis by (rule conjI [OF run])
qed

record minted =
  mt_account :: string
  mt_session :: string
  mt_names :: "string list"
  mt_ttl :: int
  mt_clock :: "int \<times> int"

definition minted_claims :: "minted \<Rightarrow> claims" where
  "minted_claims g =
     capability_claims (mt_ttl g) (fst (mt_clock g)) (snd (mt_clock g)) (mt_account g) (mt_session g) (mt_names g)"

lemma minted_claims_get:
  "dict_get (minted_claims g) ''session_id'' = Some (JStr (mt_session g))"
  "dict_get (minted_claims g) ''account_id'' = Some (JStr (mt_account g))"
  "granted_in_token (minted_claims g) n = Some (n \<in> set (mt_names g))"
  by (auto simp: minted_claims_def capability_claims_def granted_in_token_def list_all_iff)

text \<open>C18: If no token of this type verifies that the control plane has not minted (other
  tokens under the same key carry another type), then a value the resolve endpoint returns is
  the decrypted secret of that name, of the account for which a token was minted for exactly
  the session named in the request, with that name among its grants.\<close>

theorem resolved_secret_was_granted:
  assumes unforgeable: "\<forall>token payload. jwt_decode token = Some payload \<longrightarrow>
      dict_get payload ''type'' \<noteq> Some (JStr capability_token_type) \<or> payload \<in> minted_claims ` set mints"
    and answer: "resolve_secret jwt_decode decrypt authorization session_id secret_name now t = (Resolved name v, t')"
  shows "name = secret_name \<and> (\<exists>g\<in>set mints. mt_session g = session_id \<and> secret_name \<in> set (mt_names g) \<and>
    (\<exists>r\<in>set t. sx_account r = mt_account g \<and> sx_name r = secret_name \<and> decrypt (sx_sealed r) = Some v))"
proof -
  obtain token payload where
    decoded: "decode_capability_token jwt_decode token session_id = Some payload"
    and granted: "granted_in_token payload secret_name = Some True"
    and rest: "(case dict_get payload ''account_id'' of
        Some (JStr account_id) \<Rightarrow>
          (case get_by_name_for_account account_id secret_name t of
             None \<Rightarrow> (NotReferenced404, t)
           | Some row \<Rightarrow> (case decrypt (sx_sealed row) of
                None \<Rightarrow> (DecryptFailed500, t)
              | Some value \<Rightarrow> (Resolved (sx_name row) value, touch_last_used (sx_id row) now t)))
      | Some JNull \<Rightarrow> (NotReferenced404, t)
      | _ \<Rightarrow> (ResolveCrashed500, t)) = (Resolved name v, t')"
    using answer unfolding resolve_secret_def by (auto split: option.splits bool.splits)
  from decoded obtain g where g: "g \<in> set mints" "payload = minted_claims g"
    "dict_get payload ''session_id'' = Some (JStr session_id)"
    using unforgeable by (auto simp: decode_capability_token_def split: option.splits if_splits)
  obtain row where row: "get_by_name_for_account (mt_account g) secret_name t = Some row"
    "decrypt (sx_sealed row) = Some v" "name = sx_name row"
    using rest by (auto simp: g(2) minted_claims_get split: option.splits)
  show ?thesis
    using g row(2,3) granted find_Some_mem [OF row(1) [unfolded get_by_name_for_account_def]]
    by (auto simp: minted_claims_get)
qed

text \<open>One minted token, and a secret of the same name in another account.\<close>

lemma resolved_secret_was_granted_witness:
  defines "g \<equiv> \<lparr>mt_account = ''a1'', mt_session = ''s1'', mt_names = [''KEY'', ''DB''], mt_ttl = 3600, mt_clock = (5, 6)\<rparr>"
  defines "jwt_decode \<equiv> (\<lambda>token. if token = ''tok'' then Some (minted_claims g) else None)"
    and "row \<equiv> \<lparr>sx_id = ''1'', sx_account = ''a1'', sx_name = ''KEY'', sx_allowed_hosts = [''h''], sx_sealed = ''xyz'', sx_last_used = None\<rparr>"
    and "other \<equiv> \<lparr>sx_id = ''2'', sx_account = ''a2'', sx_name = ''KEY'', sx_allowed_hosts = [''h''], sx_sealed = ''zzz'', sx_last_used = None\<rparr>"
  shows "resolve_secret jwt_decode (\<lambda>c. Some (rev c)) (Some ''Bearer tok'') ''s1'' ''KEY'' 9 [other, row] =
      (Resolved ''KEY'' ''zyx'', [other, row\<lparr>sx_last_used := Some 9\<rparr>]) \<and>
    (\<exists>r\<in>set [other, row]. sx_account r = mt_account g \<and> rev (sx_sealed r) = ''zyx'')"
proof -
  have header: "capability_token_from_header (Some ''Bearer tok'') = Some ''tok''"
    by code_simp
  have type: "dict_get (minted_claims g) ''type'' = Some (JStr capability_token_type)"
    by (simp add: minted_claims_def capability_claims_def)
  have run: "resolve_secret jwt_decode (\<lambda>c. Some (rev c)) (Some ''Bearer tok'') ''s1'' ''KEY'' 9 [other, row] =
      (Resolved ''KEY'' ''zyx'', [other, row\<lparr>sx_last_used := Some 9\<rparr>])"
    by (simp add: resolve_secret_def header decode_capability_token_def jwt_decode_def type minted_claims_get)
       (simp add: g_def minted_claims_get get_by_name_for_account_def row_def other_def touch_last_used_def)
  then show ?thesis
    using resolved_secret_was_granted [OF _ run, of "[g]"] by (auto simp: jwt_decode_def g_def)
qed

end
