(* ===== verification/Sessions.thy ===== *)
theory Sessions
  imports SecretCapability CapabilityPolicy Complex_Main
begin

text \<open>
  The control plane's sandbox sessions: the \<open>sandbox_sessions\<close> table
  (\<open>SandboxSessionRepository\<close>), the fair-use policy that creates and destroys sessions
  (\<open>usage_policy.py\<close>) and the reaper (\<open>reaper.py\<close>). Times are microseconds since
  the epoch, in UTC. A creation is a sequence of steps, each one database transaction, one
  call of the sandbox manager or one lock operation, so that any interleaving is a
  schedule; the manager's answers and the failures of a step are parameters.
\<close>

section \<open>The table\<close>

record session_row =
  se_id :: string
  se_account :: string
  se_pod_name :: "string option"
  se_label :: "string option"
  se_created_at :: int
  se_destroyed_at :: "int option"
  se_duration :: "real option"
  se_reason :: "string option"
  se_size :: "string option"
  se_storage_gb :: "real option"
  se_image_id :: "string option"
  se_secret_names :: "string list option"
  se_volume_mounts :: "(string, string) dict option"
  se_mcp_names :: "string list option"
  se_gpu_count :: "int option"

type_synonym sessions = "session_row list"

abbreviation active :: "session_row \<Rightarrow> bool" where
  "active r \<equiv> se_destroyed_at r = None"

definition session_by_id :: "string \<Rightarrow> sessions \<Rightarrow> session_row option" where
  "session_by_id i t = List.find (\<lambda>r. se_id r = i) t"

text \<open>\<open>None\<close>: the primary key is taken.\<close>

definition create_row :: "session_row \<Rightarrow> sessions \<Rightarrow> sessions option" where
  "create_row r t = (if se_id r \<in> se_id ` set t then None else Some (t @ [r]))"

definition delete_row :: "string \<Rightarrow> sessions \<Rightarrow> sessions" where
  "delete_row i t = filter (\<lambda>r. se_id r \<noteq> i) t"

definition set_pod_name :: "string \<Rightarrow> string option \<Rightarrow> sessions \<Rightarrow> sessions" where
  "set_pod_name i p t = map (\<lambda>r. if se_id r = i then r\<lparr>se_pod_name := p\<rparr> else r) t"

definition get_for_account :: "string \<Rightarrow> string \<Rightarrow> sessions \<Rightarrow> session_row option" where
  "get_for_account i account t = List.find (\<lambda>r. se_id r = i \<and> se_account r = account) t"

definition list_for_account :: "string \<Rightarrow> bool \<Rightarrow> sessions \<Rightarrow> sessions" where
  "list_for_account account active_only t =
     sort_key (\<lambda>r. - se_created_at r)
       (filter (\<lambda>r. se_account r = account \<and> (active_only \<longrightarrow> active r)) t)"

definition count_active_for_account :: "string \<Rightarrow> sessions \<Rightarrow> nat" where
  "count_active_for_account account t = length (filter (\<lambda>r. se_account r = account \<and> active r) t)"

definition count_active_total :: "sessions \<Rightarrow> nat" where
  "count_active_total t = length (filter active t)"

definition count_by_account :: "sessions \<Rightarrow> (string, nat) dict" where
  "count_by_account t =
     foldl (\<lambda>d r. dict_put (se_account r)
        ((case dict_get d (se_account r) of None \<Rightarrow> 0 | Some n \<Rightarrow> n) + 1) d) [] t"

definition count_active_by_account :: "sessions \<Rightarrow> (string, nat) dict" where
  "count_active_by_account t = count_by_account (filter active t)"

definition count_total_by_account :: "sessions \<Rightarrow> (string, nat) dict" where
  "count_total_by_account t = count_by_account t"

definition count_total_for_account :: "string \<Rightarrow> sessions \<Rightarrow> nat" where
  "count_total_for_account account t = length (filter (\<lambda>r. se_account r = account) t)"

definition sessions_created_since_all :: "int \<Rightarrow> sessions \<Rightarrow> sessions" where
  "sessions_created_since_all since t = filter (\<lambda>r. since \<le> se_created_at r) t"

definition sessions_created_since :: "string \<Rightarrow> int \<Rightarrow> sessions \<Rightarrow> sessions" where
  "sessions_created_since account since t =
     filter (\<lambda>r. se_account r = account \<and> since \<le> se_created_at r) t"

definition mark_destroyed :: "string \<Rightarrow> real \<Rightarrow> string \<Rightarrow> int \<Rightarrow> sessions \<Rightarrow> sessions" where
  "mark_destroyed i duration reason now t =
     map (\<lambda>r. if se_id r = i
        then r\<lparr>se_destroyed_at := Some now, se_duration := Some duration, se_reason := Some reason\<rparr>
        else r) t"

definition list_active_older_than :: "int \<Rightarrow> sessions \<Rightarrow> sessions" where
  "list_active_older_than cutoff t = filter (\<lambda>r. active r \<and> se_created_at r \<le> cutoff) t"

definition list_active_older_than_for_account :: "string \<Rightarrow> int \<Rightarrow> sessions \<Rightarrow> sessions" where
  "list_active_older_than_for_account account cutoff t =
     filter (\<lambda>r. active r \<and> se_account r = account \<and> se_created_at r \<le> cutoff) t"

section \<open>Monthly hours\<close>

text \<open>The day of the month of a day counted from 1970-01-01, in the Gregorian calendar:
  days of an era of 400 years from a first of March, its year and the day in that year.\<close>

definition day_of_month :: "int \<Rightarrow> int" where
  "day_of_month z =
     (let doe = (z + 719468) mod 146097;
          yoe = (doe - doe div 1460 + doe div 36524 - doe div 146096) div 365;
          doy = doe - (365 * yoe + yoe div 4 - yoe div 100);
          mp = (5 * doy + 2) div 153
      in doy - (153 * mp + 2) div 5 + 1)"

definition day_micros :: int where "day_micros = 86400000000"

definition start_of_current_month :: "int \<Rightarrow> int" where
  "start_of_current_month now =
     (let d = now div day_micros in (d - (day_of_month d - 1)) * day_micros)"

definition total_seconds :: "int \<Rightarrow> real" where
  "total_seconds d = real_of_int d / 1000000"

definition session_hours :: "int \<Rightarrow> session_row \<Rightarrow> real" where
  "session_hours now r =
     (let end' = (case se_destroyed_at r of None \<Rightarrow> now | Some t \<Rightarrow> t)
      in max 0 (total_seconds (end' - se_created_at r)) / 3600)"

definition monthly_hours_used :: "string \<Rightarrow> int \<Rightarrow> sessions \<Rightarrow> real" where
  "monthly_hours_used account now t =
     sum_list (map (session_hours now) (sessions_created_since account (start_of_current_month now) t))"

definition monthly_hours_used_total :: "int \<Rightarrow> sessions \<Rightarrow> real" where
  "monthly_hours_used_total now t =
     sum_list (map (session_hours now) (sessions_created_since_all (start_of_current_month now) t))"

section \<open>Creating and destroying\<close>

record quota_settings =
  global_max :: int
  account_max :: int
  monthly_hours :: real
  max_size :: string
  max_storage_gb :: real
  control_plane_url :: string
  usage_lock_backend :: string

definition size_order :: "(string, int) dict" where
  "size_order = [(''small'', 0), (''medium'', 1), (''large'', 2)]"

record create_request =
  rq_session_id :: string
  rq_account :: string
  rq_label :: "string option"
  rq_size :: string
  rq_storage_gb :: "real option"
  rq_image_id :: "string option"
  rq_secret_names :: "string list option"
  rq_volume_mounts :: "(string, string) dict option"
  rq_mcp_names :: "string list option"
  rq_gpu_count :: "int option"
  rq_commands :: "allow_entry list option"

datatype create_outcome =
    SizeLimit429
  | StorageLimit429
  | GrantFailed grant_error
  | PolicyRaised policy_error
  | GlobalCapacity429 nat
  | ConcurrentLimit429 nat
  | MonthlyLimit429 real
  | RowConflict500
  | ManagerRaised
  | PodNameRaised
  | Created "string option"

definition size_refused :: "quota_settings \<Rightarrow> create_request \<Rightarrow> bool" where
  "size_refused st rq =
     (case (dict_get size_order (rq_size rq), dict_get size_order (max_size st)) of
        (Some requested, Some allowed) \<Rightarrow> allowed < requested
      | _ \<Rightarrow> False)"

definition storage_refused :: "quota_settings \<Rightarrow> create_request \<Rightarrow> bool" where
  "storage_refused st rq =
     (case rq_storage_gb rq of None \<Rightarrow> False | Some gb \<Rightarrow> max_storage_gb st < gb)"

text \<open>What the creation reads of the accounts' secrets and connections, and what the steps
  outside the database answer: the manager's call (\<open>None\<close>: it raises), whether the update
  with the pod's name raises, whether the clean-up of the pod raises.\<close>

record create_env =
  en_secrets :: "secret_row list option"
  en_mcps :: "mcp_row list option"
  en_mint :: "string list \<Rightarrow> string"
  en_manager :: "string option option"
  en_name_raises :: bool
  en_cleanup_raises :: bool

type_synonym session_grants = "host_grant list \<times> host_grant list \<times> string option"

text \<open>The checks before the lock. The policy object is only built, checked and logged.\<close>

definition before_lock ::
    "quota_settings \<Rightarrow> create_env \<Rightarrow> create_request \<Rightarrow> create_outcome + session_grants" where
  "before_lock st en rq =
     (if size_refused st rq then Inl SizeLimit429
      else if storage_refused st rq then Inl StorageLimit429
      else case resolve_secret_grants (en_secrets en) (control_plane_url st) (en_mint en)
             (rq_account rq) (rq_secret_names rq) of
        Inl e \<Rightarrow> Inl (GrantFailed e)
      | Inr (secret_grants, token) \<Rightarrow>
          (case resolve_mcp_connection_grants (en_mcps en) (rq_account rq) (rq_mcp_names rq) of
             Inl e \<Rightarrow> Inl (GrantFailed e)
           | Inr mcp_grants \<Rightarrow>
               (case build_session_capability_policy (rq_account rq) (rq_session_id rq) (rq_commands rq)
                       (Some secret_grants) (Some mcp_grants) token of
                  Inl e \<Rightarrow> Inl (PolicyRaised e)
                | Inr policy \<Rightarrow> Inr (secret_grants, mcp_grants, token))))"

datatype session_event =
    SandboxCreated string string "string option" "string option" string
  | SandboxDestroyed string string "string option" real string

record quota_state =
  qs_rows :: sessions
  qs_pods :: "string list"
  qs_locks :: "(nat, nat) dict"
  qs_events :: "session_event list"

text \<open>\<open>Locked\<close> to \<open>HoursOk\<close> hold the lock; the time is the one read on entering it.\<close>

datatype create_phase =
    Arrived
  | Waiting
  | Locked
  | GlobalOk int
  | AccountOk int
  | HoursOk
  | Reserved
  | RollingBack
  | PodUp "string option"
  | Orphaned
  | Named "string option"
  | Finished create_outcome

definition new_row :: "create_request \<Rightarrow> int \<Rightarrow> session_row" where
  "new_row rq now =
     \<lparr>se_id = rq_session_id rq, se_account = rq_account rq, se_pod_name = None,
      se_label = rq_label rq, se_created_at = now, se_destroyed_at = None, se_duration = None,
      se_reason = None, se_size = Some (rq_size rq), se_storage_gb = rq_storage_gb rq,
      se_image_id = rq_image_id rq, se_secret_names = rq_secret_names rq,
      se_volume_mounts = rq_volume_mounts rq, se_mcp_names = rq_mcp_names rq,
      se_gpu_count = rq_gpu_count rq\<rparr>"

abbreviation release :: "nat \<Rightarrow> quota_state \<Rightarrow> quota_state" where
  "release k s \<equiv> s\<lparr>qs_locks := dict_del k (qs_locks s)\<rparr>"

text \<open>One step of the creation that runs as task \<open>i\<close> under the lock \<open>k\<close>, at time \<open>now\<close>.\<close>

fun create_step ::
    "quota_settings \<Rightarrow> create_env \<Rightarrow> create_request \<Rightarrow> nat \<Rightarrow> nat \<Rightarrow> int \<Rightarrow> create_phase \<Rightarrow> quota_state \<Rightarrow>
     create_phase \<times> quota_state" where
  "create_step st en rq k i now Arrived s =
     (case before_lock st en rq of Inl e \<Rightarrow> (Finished e, s) | Inr grants \<Rightarrow> (Waiting, s))"
| "create_step st en rq k i now Waiting s =
     (case dict_get (qs_locks s) k of
        None \<Rightarrow> (Locked, s\<lparr>qs_locks := dict_put k i (qs_locks s)\<rparr>)
      | Some j \<Rightarrow> (Waiting, s))"
| "create_step st en rq k i now Locked s =
     (let n = count_active_total (qs_rows s) in
      if global_max st \<le> int n then (Finished (GlobalCapacity429 n), release k s) else (GlobalOk now, s))"
| "create_step st en rq k i now (GlobalOk t0) s =
     (let n = count_active_for_account (rq_account rq) (qs_rows s) in
      if account_max st \<le> int n then (Finished (ConcurrentLimit429 n), release k s) else (AccountOk t0, s))"
| "create_step st en rq k i now (AccountOk t0) s =
     (let h = monthly_hours_used (rq_account rq) t0 (qs_rows s) in
      if monthly_hours st \<le> h then (Finished (MonthlyLimit429 h), release k s) else (HoursOk, s))"
| "create_step st en rq k i now HoursOk s =
     (case create_row (new_row rq now) (qs_rows s) of
        None \<Rightarrow> (Finished RowConflict500, release k s)
      | Some t \<Rightarrow> (Reserved, release k s\<lparr>qs_rows := t\<rparr>))"
| "create_step st en rq k i now Reserved s =
     (case en_manager en of
        None \<Rightarrow> (RollingBack, s)
      | Some pod \<Rightarrow> (PodUp pod, s\<lparr>qs_pods := qs_pods s @ [rq_session_id rq]\<rparr>))"
| "create_step st en rq k i now RollingBack s =
     (Finished ManagerRaised, s\<lparr>qs_rows := delete_row (rq_session_id rq) (qs_rows s)\<rparr>)"
| "create_step st en rq k i now (PodUp pod) s =
     (if en_name_raises en then (Orphaned, s)
      else (Named pod, s\<lparr>qs_rows := set_pod_name (rq_session_id rq) pod (qs_rows s)\<rparr>))"
| "create_step st en rq k i now Orphaned s =
     (Finished PodNameRaised,
      if en_cleanup_raises en then s else s\<lparr>qs_pods := removeAll (rq_session_id rq) (qs_pods s)\<rparr>)"
| "create_step st en rq k i now (Named pod) s =
     (Finished (Created pod),
      s\<lparr>qs_events := qs_events s @
          [SandboxCreated (rq_account rq) (rq_session_id rq) (rq_label rq) pod (rq_size rq)]\<rparr>)"
| "create_step st en rq k i now (Finished r) s = (Finished r, s)"

text \<open>The whole call, undisturbed: ten steps are enough.\<close>

definition create_session ::
    "quota_settings \<Rightarrow> create_env \<Rightarrow> create_request \<Rightarrow> nat \<Rightarrow> nat \<Rightarrow> int \<Rightarrow> quota_state \<Rightarrow>
     create_phase \<times> quota_state" where
  "create_session st en rq k i now s =
     ((\<lambda>(p, s). create_step st en rq k i now p s) ^^ 10) (Arrived, s)"

text \<open>Destroying: the row was fetched before; the manager may raise, which is logged only.\<close>

record destroy_request =
  dr_row :: session_row
  dr_reason :: string
  dr_manager_raises :: bool

datatype destroy_phase = AtManager | AtMark real | AtEvent real | Destroyed

fun destroy_step ::
    "destroy_request \<Rightarrow> int \<Rightarrow> destroy_phase \<Rightarrow> quota_state \<Rightarrow> destroy_phase \<times> quota_state" where
  "destroy_step dr now AtManager s =
     (AtMark (max 0 (total_seconds (now - se_created_at (dr_row dr)))),
      if dr_manager_raises dr then s else s\<lparr>qs_pods := removeAll (se_id (dr_row dr)) (qs_pods s)\<rparr>)"
| "destroy_step dr now (AtMark duration) s =
     (AtEvent duration,
      s\<lparr>qs_rows := mark_destroyed (se_id (dr_row dr)) duration (dr_reason dr) now (qs_rows s)\<rparr>)"
| "destroy_step dr now (AtEvent duration) s =
     (Destroyed,
      s\<lparr>qs_events := qs_events s @ [SandboxDestroyed (se_account (dr_row dr)) (se_id (dr_row dr))
          (se_label (dr_row dr)) duration (dr_reason dr)]\<rparr>)"
| "destroy_step dr now Destroyed s = (Destroyed, s)"

text \<open>The whole call, undisturbed.\<close>

definition destroy_session :: "destroy_request \<Rightarrow> int \<Rightarrow> quota_state \<Rightarrow> quota_state" where
  "destroy_session dr now s =
     (case destroy_step dr now AtManager s of (p1, s1) \<Rightarrow>
      (case destroy_step dr now p1 s1 of (p2, s2) \<Rightarrow> snd (destroy_step dr now p2 s2)))"

text \<open>\<open>DELETE /v1/sandboxes/{id}\<close>; \<open>None\<close> is the 404.\<close>

definition delete_sandbox ::
    "string \<Rightarrow> string \<Rightarrow> bool \<Rightarrow> int \<Rightarrow> quota_state \<Rightarrow> quota_state option" where
  "delete_sandbox session account manager_raises now s =
     (case get_for_account session account (qs_rows s) of
        None \<Rightarrow> None
      | Some r \<Rightarrow>
          (if \<not> active r then None
           else Some (destroy_session
             \<lparr>dr_row = r, dr_reason = ''caller_requested'', dr_manager_raises = manager_raises\<rparr> now s)))"

section \<open>The reaper\<close>

record reaper_settings =
  max_session_minutes :: int
  demo_enabled :: bool
  demo_account :: "string option"
  demo_lifetime_minutes :: int

definition minutes :: "int \<Rightarrow> int" where "minutes n = n * 60000000"

definition reap_list :: "reaper_settings \<Rightarrow> int \<Rightarrow> sessions \<Rightarrow> (session_row \<times> string) list" where
  "reap_list rs now t =
     (let expired = list_active_older_than (now - minutes (max_session_minutes rs)) t;
          demo = (case (if demo_enabled rs then demo_account rs else None) of
                    None \<Rightarrow> []
                  | Some account \<Rightarrow>
                      list_active_older_than_for_account account (now - minutes (demo_lifetime_minutes rs)) t);
          ids = map se_id expired
      in map (\<lambda>r. (r, if se_id r \<in> se_id ` set demo then ''demo_lifetime_exceeded''
                      else ''max_session_minutes_exceeded''))
           (expired @ filter (\<lambda>r. se_id r \<notin> set ids) demo))"

definition reap_once ::
    "reaper_settings \<Rightarrow> (string \<Rightarrow> bool) \<Rightarrow> int \<Rightarrow> quota_state \<Rightarrow> quota_state" where
  "reap_once rs manager_raises now s =
     fold (\<lambda>(r, reason). destroy_session
         \<lparr>dr_row = r, dr_reason = reason, dr_manager_raises = manager_raises (se_id r)\<rparr> now)
       (reap_list rs now (qs_rows s)) s"

section \<open>Schedules\<close>

record creation =
  ct_request :: create_request
  ct_env :: create_env
  ct_replica :: nat

datatype task = CreateTask creation create_phase | DestroyTask destroy_request destroy_phase

text \<open>The memory backend has one lock per process, the advisory lock is one for all.\<close>

definition lock_key :: "quota_settings \<Rightarrow> creation \<Rightarrow> nat" where
  "lock_key st c = (if usage_lock_backend st = ''postgres'' then 0 else ct_replica c)"

fun task_step :: "quota_settings \<Rightarrow> nat \<Rightarrow> int \<Rightarrow> task \<Rightarrow> quota_state \<Rightarrow> task \<times> quota_state" where
  "task_step st i now (CreateTask c p) s =
     (case create_step st (ct_env c) (ct_request c) (lock_key st c) i now p s of
        (p', s') \<Rightarrow> (CreateTask c p', s'))"
| "task_step st i now (DestroyTask d p) s =
     (case destroy_step d now p s of (p', s') \<Rightarrow> (DestroyTask d p', s'))"

fun run_tasks ::
    "quota_settings \<Rightarrow> (nat \<times> int) list \<Rightarrow> task list \<times> quota_state \<Rightarrow> task list \<times> quota_state" where
  "run_tasks st [] (ts, s) = (ts, s)"
| "run_tasks st ((i, now) # sched) (ts, s) =
     (if i < length ts then
        (case task_step st i now (ts ! i) s of (t', s') \<Rightarrow> run_tasks st sched (ts[i := t'], s'))
      else run_tasks st sched (ts, s))"

end
