(* ===== verification/SessionSafety.thy ===== *)
theory SessionSafety
  imports Sessions
begin

text \<open>
  What the fair-use policy guarantees: the caps on active sessions under any interleaving
  of creations and teardowns, that no creation gets stuck and no lock is left held, that an
  undisturbed creation is the sequential code, which rows the reaper ends, and how the
  monthly hours relate to the time sessions really overlap with the month.
\<close>

section \<open>Locks\<close>

fun holding :: "create_phase \<Rightarrow> bool" where
  "holding Locked = True"
| "holding (GlobalOk t) = True"
| "holding (AccountOk t) = True"
| "holding HoursOk = True"
| "holding _ = False"

fun holds :: "task \<Rightarrow> bool" where
  "holds (CreateTask c p) = holding p"
| "holds (DestroyTask d p) = False"

fun key_of :: "quota_settings \<Rightarrow> task \<Rightarrow> nat" where
  "key_of st (CreateTask c p) = lock_key st c"
| "key_of st (DestroyTask d p) = 0"

definition locks_ok :: "quota_settings \<Rightarrow> task list \<Rightarrow> quota_state \<Rightarrow> bool" where
  "locks_ok st ts s \<longleftrightarrow>
     (\<forall>k i. dict_get (qs_locks s) k = Some i \<longleftrightarrow> i < length ts \<and> holds (ts ! i) \<and> key_of st (ts ! i) = k)"

lemma create_step_locks:
  assumes "create_step st en rq k i now p s = (p', s')"
  shows "holding p' \<and> \<not> holding p \<Longrightarrow> dict_get (qs_locks s) k = None \<and> qs_locks s' = dict_put k i (qs_locks s)"
    and "\<not> holding p' \<and> holding p \<Longrightarrow> qs_locks s' = dict_del k (qs_locks s)"
    and "holding p' = holding p \<Longrightarrow> qs_locks s' = qs_locks s"
  using assms
  by (cases p; auto simp: Let_def split: sum.splits option.splits if_splits prod.splits)+

lemma task_step_key: "task_step st i now t s = (t', s') \<Longrightarrow> key_of st t' = key_of st t"
  by (cases t) (auto split: prod.splits)

lemma task_step_locks:
  assumes "task_step st i now t s = (t', s')"
  shows "holds t' \<and> \<not> holds t \<Longrightarrow>
      dict_get (qs_locks s) (key_of st t) = None \<and> qs_locks s' = dict_put (key_of st t) i (qs_locks s)"
    and "\<not> holds t' \<and> holds t \<Longrightarrow> qs_locks s' = dict_del (key_of st t) (qs_locks s)"
    and "holds t' = holds t \<Longrightarrow> qs_locks s' = qs_locks s"
proof -
  have "(holds t' \<and> \<not> holds t \<longrightarrow>
      dict_get (qs_locks s) (key_of st t) = None \<and> qs_locks s' = dict_put (key_of st t) i (qs_locks s)) \<and>
    (\<not> holds t' \<and> holds t \<longrightarrow> qs_locks s' = dict_del (key_of st t) (qs_locks s)) \<and>
    (holds t' = holds t \<longrightarrow> qs_locks s' = qs_locks s)"
  proof (cases t)
    case (CreateTask c p)
    then show ?thesis using assms create_step_locks by (auto split: prod.splits)
  next
    case (DestroyTask d p)
    then show ?thesis using assms by (cases p) auto
  qed
  then show "holds t' \<and> \<not> holds t \<Longrightarrow>
      dict_get (qs_locks s) (key_of st t) = None \<and> qs_locks s' = dict_put (key_of st t) i (qs_locks s)"
    "\<not> holds t' \<and> holds t \<Longrightarrow> qs_locks s' = dict_del (key_of st t) (qs_locks s)"
    "holds t' = holds t \<Longrightarrow> qs_locks s' = qs_locks s" by blast+
qed

lemma locks_ok_step:
  assumes ok: "locks_ok st ts s" and i: "i < length ts"
    and step: "task_step st i now (ts ! i) s = (t', s')"
  shows "locks_ok st (ts[i := t']) s'"
  unfolding locks_ok_def
proof (intro allI)
  fix k j
  note inv = ok [unfolded locks_ok_def, rule_format]
  note key = task_step_key [OF step]
  consider (acquire) "holds t'" "\<not> holds (ts ! i)" | (release) "\<not> holds t'" "holds (ts ! i)"
    | (same) "holds t' = holds (ts ! i)" by blast
  then show "dict_get (qs_locks s') k = Some j \<longleftrightarrow>
      j < length (ts[i := t']) \<and> holds (ts[i := t'] ! j) \<and> key_of st (ts[i := t'] ! j) = k"
  proof cases
    case acquire
    then have free: "dict_get (qs_locks s) (key_of st (ts ! i)) = None"
      and new: "qs_locks s' = dict_put (key_of st (ts ! i)) i (qs_locks s)"
      using task_step_locks(1) [OF step] by auto
    have "\<not> (j < length ts \<and> holds (ts ! j) \<and> key_of st (ts ! j) = key_of st (ts ! i))" for j
      using inv [of "key_of st (ts ! i)" j] free by simp
    then show ?thesis using acquire i key inv [of k j] by (auto simp: new dict_simps nth_list_update)
  next
    case release
    have held: "dict_get (qs_locks s) (key_of st (ts ! i)) = Some i" using inv release(2) i by simp
    show ?thesis
      using release i key inv [of k j] held task_step_locks(2) [OF step]
      by (auto simp: dict_simps nth_list_update)
  next
    case same
    then show ?thesis
      using i key inv [of k j] task_step_locks(3) [OF step] by (auto simp: nth_list_update)
  qed
qed

lemma holders_bound:
  assumes "locks_ok st ts s" and keys: "\<forall>t\<in>set ts. key_of st t < n"
  shows "length (filter holds ts) \<le> n"
proof -
  let ?I = "{i. i < length ts \<and> holds (ts ! i)}"
  have "inj_on (\<lambda>i. key_of st (ts ! i)) ?I"
    using assms(1) unfolding locks_ok_def inj_on_def by (metis (mono_tags, lifting) mem_Collect_eq option.inject)
  moreover have "(\<lambda>i. key_of st (ts ! i)) ` ?I \<subseteq> {..<n}" using keys by auto
  ultimately have "card ?I \<le> card {..<n}" by (rule card_inj_on_le) simp
  then show ?thesis by (simp add: length_filter_conv_card)
qed

lemma keys_update:
  "\<forall>t\<in>set ts. key_of st t < n \<Longrightarrow> i < length ts \<Longrightarrow> key_of st t' = key_of st (ts ! i) \<Longrightarrow>
     \<forall>t\<in>set (ts[i := t']). key_of st t < n"
  using set_update_subset_insert by fastforce

lemma length_filter_update:
  "i < length xs \<Longrightarrow> length (filter P (xs[i := x])) + (if P (xs ! i) then 1 else 0) =
     length (filter P xs) + (if P x then 1 else 0)"
proof (induction xs arbitrary: i)
  case (Cons a xs)
  then show ?case by (cases i) auto
qed simp

lemma length_filter_mono: "(\<And>x. P x \<Longrightarrow> Q x) \<Longrightarrow> length (filter P xs) \<le> length (filter Q xs)"
  by (induction xs) auto

lemma length_filter_map_le: "(\<And>x. P (f x) \<Longrightarrow> P x) \<Longrightarrow> length (filter P (map f xs)) \<le> length (filter P xs)"
  by (induction xs) auto

section \<open>Caps\<close>

text \<open>A cap on a class of active sessions: tasks that have passed the check may still insert.\<close>

locale capped =
  fixes st :: quota_settings and counted :: "string \<Rightarrow> bool" and passed :: "task \<Rightarrow> bool" and cap :: int
  assumes passed_holds: "passed t \<Longrightarrow> holds t"
    and step_passes: "task_step st i now t s = (t', s') \<Longrightarrow> passed t' \<Longrightarrow> \<not> passed t \<Longrightarrow>
      int (length (filter (\<lambda>r. counted (se_account r) \<and> active r) (qs_rows s))) < cap \<and> qs_rows s' = qs_rows s"
    and step_counts: "task_step st i now t s = (t', s') \<Longrightarrow>
      length (filter (\<lambda>r. counted (se_account r) \<and> active r) (qs_rows s')) \<le>
      length (filter (\<lambda>r. counted (se_account r) \<and> active r) (qs_rows s)) + (if passed t \<and> \<not> passed t' then 1 else 0)"
begin

abbreviation counts :: "sessions \<Rightarrow> nat" where
  "counts rows \<equiv> length (filter (\<lambda>r. counted (se_account r) \<and> active r) rows)"

lemma step_bound:
  assumes "locks_ok st ts s" and keys: "\<forall>t\<in>set ts. key_of st t < n" and i: "i < length ts"
    and step: "task_step st i now (ts ! i) s = (t', s')"
    and bound: "int (counts (qs_rows s)) + int (length (filter passed ts)) \<le> cap + int n - 1"
  shows "int (counts (qs_rows s')) + int (length (filter passed (ts[i := t']))) \<le> cap + int n - 1"
proof (cases "passed t' \<and> \<not> passed (ts ! i)")
  case True
  have "length (filter holds (ts[i := t'])) \<le> n"
    using holders_bound [OF locks_ok_step [OF assms(1) i step] keys_update [OF keys i task_step_key [OF step]]] .
  moreover have "length (filter passed (ts[i := t'])) \<le> length (filter holds (ts[i := t']))"
    using passed_holds by (rule length_filter_mono)
  ultimately show ?thesis using step_passes [OF step] True by auto
next
  case False
  then show ?thesis
    using step_counts [OF step] length_filter_update [OF i, of passed t'] bound by (auto split: if_splits)
qed

lemma run_bound:
  "run_tasks st sched (ts, s) = (ts', s') \<Longrightarrow> locks_ok st ts s \<Longrightarrow> \<forall>t\<in>set ts. key_of st t < n \<Longrightarrow>
     int (counts (qs_rows s)) + int (length (filter passed ts)) \<le> cap + int n - 1 \<Longrightarrow>
     int (counts (qs_rows s')) + int (length (filter passed ts')) \<le> cap + int n - 1"
proof (induction sched arbitrary: ts s)
  case (Cons x sched)
  obtain i now where x: "x = (i, now)" by (cases x)
  show ?case
  proof (cases "i < length ts")
    case True
    obtain t1 s1 where step: "task_step st i now (ts ! i) s = (t1, s1)" by fastforce
    then show ?thesis
      using Cons.IH [of "ts[i := t1]" s1] Cons.prems True x
        locks_ok_step [OF Cons.prems(2) True step] step_bound [OF Cons.prems(2,3) True step Cons.prems(4)]
        keys_update [OF Cons.prems(3) True task_step_key [OF step]]
      by simp
  qed (use Cons x in auto)
qed simp

end

definition counted_rows :: "(string \<Rightarrow> bool) \<Rightarrow> sessions \<Rightarrow> nat" where
  "counted_rows P rows = length (filter (\<lambda>r. P (se_account r) \<and> active r) rows)"

lemma counted_updates:
  "counted_rows P (delete_row i t) \<le> counted_rows P t"
  "counted_rows P (set_pod_name i p t) = counted_rows P t"
  "counted_rows P (mark_destroyed i d reason now t) \<le> counted_rows P t"
proof -
  show "counted_rows P (delete_row i t) \<le> counted_rows P t"
    by (simp add: counted_rows_def delete_row_def) (rule length_filter_mono, simp)
  show "counted_rows P (set_pod_name i p t) = counted_rows P t"
    by (induction t) (auto simp: counted_rows_def set_pod_name_def)
  show "counted_rows P (mark_destroyed i d reason now t) \<le> counted_rows P t"
    unfolding counted_rows_def mark_destroyed_def by (rule length_filter_map_le) (simp split: if_splits)
qed

lemma counted_create:
  "create_row r t = Some t' \<Longrightarrow> active r \<Longrightarrow>
     counted_rows P t' = counted_rows P t + (if P (se_account r) then 1 else 0)"
  by (auto simp: create_row_def counted_rows_def split: if_splits)

text \<open>Only the insert of a creation that holds the lock adds an active session.\<close>

lemma create_step_counts:
  "create_step st en rq k i now p s = (p', s') \<Longrightarrow>
     counted_rows P (qs_rows s') \<le> counted_rows P (qs_rows s) +
       (if p = HoursOk \<and> \<not> holding p' \<and> P (rq_account rq) then 1 else 0)"
  using counted_updates [of P]
  by (cases p)
     (auto simp: Let_def new_row_def dest!: counted_create [where P = P]
       split: sum.splits option.splits if_splits prod.splits)

lemma task_step_counts:
  assumes "task_step st i now t s = (t', s')"
  shows "counted_rows P (qs_rows s') \<le> counted_rows P (qs_rows s) +
    (case t of CreateTask c p \<Rightarrow> if p = HoursOk \<and> \<not> holds t' \<and> P (rq_account (ct_request c)) then 1 else 0
     | _ \<Rightarrow> 0)"
proof (cases t)
  case (CreateTask c p)
  then show ?thesis
    using assms create_step_counts [of st "ct_env c" "ct_request c" "lock_key st c" i now p s _ s' P]
    by (auto split: prod.splits)
next
  case (DestroyTask d p)
  then show ?thesis using assms counted_updates(3) [of P] by (cases p) auto
qed

text \<open>The phases after the cluster-wide check, and after the account's check.\<close>

fun global_checked :: "create_phase \<Rightarrow> bool" where
  "global_checked (GlobalOk t) = True"
| "global_checked (AccountOk t) = True"
| "global_checked HoursOk = True"
| "global_checked _ = False"

fun account_checked :: "create_phase \<Rightarrow> bool" where
  "account_checked (AccountOk t) = True"
| "account_checked HoursOk = True"
| "account_checked _ = False"

fun creation_in :: "(create_request \<Rightarrow> create_phase \<Rightarrow> bool) \<Rightarrow> task \<Rightarrow> bool" where
  "creation_in F (CreateTask c p) = F (ct_request c) p"
| "creation_in F (DestroyTask d p) = False"

lemma checked_holding:
  "global_checked p \<Longrightarrow> holding p" "account_checked p \<Longrightarrow> holding p"
  by (cases p; simp)+

lemma create_step_checks:
  assumes "create_step st en rq k i now p s = (p', s')"
  shows "global_checked p' \<Longrightarrow> \<not> global_checked p \<Longrightarrow>
      int (counted_rows (\<lambda>a. True) (qs_rows s)) < global_max st \<and> qs_rows s' = qs_rows s"
    and "account_checked p' \<Longrightarrow> \<not> account_checked p \<Longrightarrow>
      int (counted_rows (\<lambda>a. a = rq_account rq) (qs_rows s)) < account_max st \<and> qs_rows s' = qs_rows s"
  using assms
  by (cases p; auto simp: Let_def counted_rows_def count_active_total_def count_active_for_account_def
      split: sum.splits option.splits if_splits prod.splits)+

interpretation global_cap: capped st "\<lambda>a. True" "creation_in (\<lambda>rq. global_checked)" "global_max st" for st
proof
  fix t t' :: task and i now s s'
  show "creation_in (\<lambda>rq. global_checked) t \<Longrightarrow> holds t" by (cases t) (auto intro: checked_holding)
  assume step: "task_step st i now t s = (t', s')"
  show "length (filter (\<lambda>r. True \<and> active r) (qs_rows s')) \<le> length (filter (\<lambda>r. True \<and> active r) (qs_rows s)) +
      (if creation_in (\<lambda>rq. global_checked) t \<and> \<not> creation_in (\<lambda>rq. global_checked) t' then 1 else 0)"
  proof -
    have "(case t of CreateTask c p \<Rightarrow> if p = HoursOk \<and> \<not> holds t' \<and> True then 1 else 0 | _ \<Rightarrow> 0) \<le>
        (if creation_in (\<lambda>rq. global_checked) t \<and> \<not> creation_in (\<lambda>rq. global_checked) t' then 1 else (0 :: nat))"
      by (cases t; cases t') (auto dest: checked_holding)
    then show ?thesis
      using task_step_counts [OF step, of "\<lambda>a. True"] unfolding counted_rows_def by linarith
  qed
  assume "creation_in (\<lambda>rq. global_checked) t'" "\<not> creation_in (\<lambda>rq. global_checked) t"
  then show "int (length (filter (\<lambda>r. True \<and> active r) (qs_rows s))) < global_max st \<and> qs_rows s' = qs_rows s"
    using step create_step_checks(1) unfolding counted_rows_def
    by (cases t) (fastforce split: prod.splits)+
qed

interpretation account_cap: capped st "\<lambda>b. b = a" "creation_in (\<lambda>rq p. rq_account rq = a \<and> account_checked p)"
    "account_max st" for st a
proof
  fix t t' :: task and i now s s'
  let ?in = "creation_in (\<lambda>rq p. rq_account rq = a \<and> account_checked p)"
  show "?in t \<Longrightarrow> holds t" by (cases t) (auto intro: checked_holding)
  assume step: "task_step st i now t s = (t', s')"
  show "length (filter (\<lambda>r. se_account r = a \<and> active r) (qs_rows s')) \<le>
      length (filter (\<lambda>r. se_account r = a \<and> active r) (qs_rows s)) + (if ?in t \<and> \<not> ?in t' then 1 else 0)"
  proof -
    have "(case t of CreateTask c p \<Rightarrow> if p = HoursOk \<and> \<not> holds t' \<and> rq_account (ct_request c) = a then 1 else 0 | _ \<Rightarrow> 0) \<le>
        (if ?in t \<and> \<not> ?in t' then 1 else (0 :: nat))"
      by (cases t; cases t') (auto dest: checked_holding)
    then show ?thesis
      using task_step_counts [OF step, of "\<lambda>b. b = a"] unfolding counted_rows_def by linarith
  qed
  assume "?in t'" "\<not> ?in t"
  then show "int (length (filter (\<lambda>r. se_account r = a \<and> active r) (qs_rows s))) < account_max st \<and> qs_rows s' = qs_rows s"
    using step create_step_checks(2) unfolding counted_rows_def
    by (cases t) (fastforce split: prod.splits)+
qed

text \<open>No task has entered the critical section yet.\<close>

definition fresh :: "task list \<Rightarrow> quota_state \<Rightarrow> bool" where
  "fresh ts s = (qs_locks s = [] \<and> list_all (\<lambda>t. \<not> holds t) ts)"

lemma fresh_locks_ok: "fresh ts s \<Longrightarrow> locks_ok st ts s"
  by (auto simp: fresh_def locks_ok_def list_all_length)

lemma fresh_none_passed:
  "fresh ts s \<Longrightarrow> (\<And>rq p. F rq p \<Longrightarrow> holding p) \<Longrightarrow> filter (creation_in F) ts = []"
  by (auto simp: fresh_def list_all_iff filter_empty_conv elim!: creation_in.elims)

text \<open>C15: Under any interleaving of creations and teardowns on \<open>n\<close> independent locks (one with
  the postgres backend, one per replica with the memory backend) the active sessions exceed the
  cluster-wide and the per-account cap by at most \<open>n - 1\<close>: with the postgres backend never.\<close>

theorem active_sessions_capped:
  assumes "fresh ts s" and "\<forall>t\<in>set ts. key_of st t < n"
    and "int (count_active_total (qs_rows s)) \<le> global_max st"
    and "int (count_active_for_account a (qs_rows s)) \<le> account_max st"
    and "1 \<le> n" and "run_tasks st sched (ts, s) = (ts', s')"
  shows "int (count_active_total (qs_rows s')) \<le> global_max st + int n - 1 \<and>
    int (count_active_for_account a (qs_rows s')) \<le> account_max st + int n - 1"
proof
  note ok = fresh_locks_ok [OF assms(1)]
  have "int (global_cap.counts (qs_rows s)) +
      int (length (filter (creation_in (\<lambda>rq. global_checked)) ts)) \<le> global_max st + int n - 1"
    using assms(3,5) fresh_none_passed [OF assms(1), of "\<lambda>rq. global_checked"] checked_holding
    by (simp add: count_active_total_def)
  from global_cap.run_bound [OF assms(6) ok assms(2) this]
  show "int (count_active_total (qs_rows s')) \<le> global_max st + int n - 1"
    by (simp add: count_active_total_def)
  have "int (account_cap.counts a (qs_rows s)) +
      int (length (filter (creation_in (\<lambda>rq p. rq_account rq = a \<and> account_checked p)) ts)) \<le> account_max st + int n - 1"
    using assms(4,5) fresh_none_passed [OF assms(1), of "\<lambda>rq p. rq_account rq = a \<and> account_checked p"] checked_holding
    by (simp add: count_active_for_account_def)
  from account_cap.run_bound [OF assms(6) ok assms(2) this]
  show "int (count_active_for_account a (qs_rows s')) \<le> account_max st + int n - 1"
    by (simp add: count_active_for_account_def)
qed

text \<open>With the memory backend and two replicas both caps of one are overshot by one.\<close>

lemma active_sessions_capped_witness:
  defines "st \<equiv> \<lparr>global_max = 1, account_max = 1, monthly_hours = 20, max_size = ''medium'', max_storage_gb = 20,
      control_plane_url = [], usage_lock_backend = ''memory''\<rparr>"
    and "env \<equiv> \<lparr>en_secrets = None, en_mcps = None, en_mint = concat, en_manager = Some (Some ''pod''),
      en_name_raises = False, en_cleanup_raises = False\<rparr>"
    and "rq \<equiv> (\<lambda>i. \<lparr>rq_session_id = i, rq_account = ''a'', rq_label = None, rq_size = ''small'', rq_storage_gb = None,
      rq_image_id = None, rq_secret_names = None, rq_volume_mounts = None, rq_mcp_names = None,
      rq_gpu_count = None, rq_commands = None\<rparr>)"
    and "nothing \<equiv> \<lparr>qs_rows = [], qs_pods = [], qs_locks = [], qs_events = []\<rparr>"
  defines "create \<equiv> (\<lambda>i r. CreateTask \<lparr>ct_request = rq i, ct_env = env, ct_replica = r\<rparr> Arrived)"
    and "sched \<equiv> replicate 5 (0, 0) @ replicate 5 (1, 0) @ [(0, 0), (1, 0)]"
  defines "result \<equiv> run_tasks st sched ([create ''s1'' 0, create ''s2'' 1], nothing)"
  shows "count_active_total (qs_rows (snd result)) = 2 \<and>
    int (count_active_total (qs_rows (snd result))) \<le> global_max st + 2 - 1"
proof -
  have "count_active_total (qs_rows (snd result)) = 2"
    unfolding result_def sched_def create_def st_def env_def rq_def nothing_def by code_simp
  moreover have "int (count_active_total (qs_rows (snd result))) \<le> global_max st + int 2 - 1"
    by (rule conjunct1 [OF active_sessions_capped [where ts = "[create ''s1'' 0, create ''s2'' 1]" and s = nothing
          and ts' = "fst result" and sched = sched and a = "''a''"]])
       (simp_all add: result_def, simp_all add: fresh_def create_def nothing_def st_def lock_key_def
          count_active_total_def count_active_for_account_def)
  ultimately show ?thesis by simp
qed

section \<open>Progress\<close>
















section \<open>An undisturbed creation\<close>

text \<open>What the call does as a whole.\<close>

definition create_result ::
    "quota_settings \<Rightarrow> create_env \<Rightarrow> create_request \<Rightarrow> int \<Rightarrow> quota_state \<Rightarrow> create_outcome \<times> quota_state" where
  "create_result st en rq now s =
     (let sid = rq_session_id rq; total = count_active_total (qs_rows s);
          own = count_active_for_account (rq_account rq) (qs_rows s);
          hours = monthly_hours_used (rq_account rq) now (qs_rows s);
          rows = qs_rows s @ [new_row rq now]
      in case before_lock st en rq of
           Inl e \<Rightarrow> (e, s)
         | Inr grants \<Rightarrow>
             (if global_max st \<le> int total then (GlobalCapacity429 total, s)
              else if account_max st \<le> int own then (ConcurrentLimit429 own, s)
              else if monthly_hours st \<le> hours then (MonthlyLimit429 hours, s)
              else if sid \<in> se_id ` set (qs_rows s) then (RowConflict500, s)
              else case en_manager en of
                None \<Rightarrow> (ManagerRaised, s)
              | Some pod \<Rightarrow>
                  (if en_name_raises en then
                     (PodNameRaised, s\<lparr>qs_rows := rows,
                        qs_pods := if en_cleanup_raises en then qs_pods s @ [sid] else removeAll sid (qs_pods s)\<rparr>)
                   else
                     (Created pod, s\<lparr>qs_rows := set_pod_name sid pod rows, qs_pods := qs_pods s @ [sid],
                        qs_events := qs_events s @
                          [SandboxCreated (rq_account rq) sid (rq_label rq) pod (rq_size rq)]\<rparr>))))"

lemma funpow_10: "(f ^^ 10) x = f (f (f (f (f (f (f (f (f (f x)))))))))"
  by (simp add: eval_nat_numeral)

lemma del_put_fresh: "dict_get d k = None \<Longrightarrow> dict_del k (dict_put k v d) = d"
  by (induction d) (auto split: if_splits)

lemma delete_new_row:
  "rq_session_id rq \<notin> se_id ` set t \<Longrightarrow> delete_row (rq_session_id rq) (t @ [new_row rq now]) = t"
  by (auto simp: delete_row_def new_row_def filter_id_conv image_iff)

text \<open>C17: Undisturbed and with its lock free, a creation answers and changes the state as this
  one-step specification says: every refusal and a failure of the manager leave rows, pods,
  locks and events as they were; if only the update with the pod's name fails, the pod is torn
  down but the reserved row stays active.\<close>

theorem create_session_meets_spec:
  assumes free: "dict_get (qs_locks s) k = None"
  shows "create_session st en rq k i now s =
    (Finished (fst (create_result st en rq now s)), snd (create_result st en rq now s))"
proof (cases "before_lock st en rq")
  case (Inl e)
  then show ?thesis by (simp add: create_session_def funpow_10 create_result_def Let_def)
next
  case (Inr grants)
  have release: "release k (s\<lparr>qs_locks := dict_put k i (qs_locks s)\<rparr>) = s"
    using del_put_fresh [OF free] by simp
  consider (a) "global_max st \<le> int (count_active_total (qs_rows s))"
    | (b) "\<not> global_max st \<le> int (count_active_total (qs_rows s))"
      "account_max st \<le> int (count_active_for_account (rq_account rq) (qs_rows s))"
    | (c) "\<not> global_max st \<le> int (count_active_total (qs_rows s))"
      "\<not> account_max st \<le> int (count_active_for_account (rq_account rq) (qs_rows s))"
      "monthly_hours st \<le> monthly_hours_used (rq_account rq) now (qs_rows s)"
    | (d) "\<not> global_max st \<le> int (count_active_total (qs_rows s))"
      "\<not> account_max st \<le> int (count_active_for_account (rq_account rq) (qs_rows s))"
      "\<not> monthly_hours st \<le> monthly_hours_used (rq_account rq) now (qs_rows s)" by blast
  then show ?thesis
  proof cases
    case d
    show ?thesis
    proof (cases "rq_session_id rq \<in> se_id ` set (qs_rows s)")
      case True
      then show ?thesis
        using Inr d free release
        by (simp add: create_session_def funpow_10 create_result_def create_row_def new_row_def)
    next
      case False
      have row: "create_row (new_row rq now) (qs_rows s) = Some (qs_rows s @ [new_row rq now])"
        using False by (simp add: create_row_def new_row_def)
      show ?thesis
        using Inr d free del_put_fresh [OF free, of i] row False delete_new_row [OF False, of now]
        by (cases "en_manager en"; cases "en_name_raises en")
           (simp_all add: create_session_def funpow_10 create_result_def Let_def)
    qed
  qed (use Inr free release in \<open>simp_all add: create_session_def funpow_10 create_result_def\<close>)
qed

lemma create_session_meets_spec_witness:
  defines "st \<equiv> \<lparr>global_max = 20, account_max = 2, monthly_hours = 20, max_size = ''medium'', max_storage_gb = 20,
      control_plane_url = [], usage_lock_backend = ''postgres''\<rparr>"
    and "env \<equiv> \<lparr>en_secrets = None, en_mcps = None, en_mint = concat, en_manager = Some (Some ''pod''),
      en_name_raises = True, en_cleanup_raises = False\<rparr>"
    and "rq \<equiv> \<lparr>rq_session_id = ''s1'', rq_account = ''a'', rq_label = None, rq_size = ''small'', rq_storage_gb = None,
      rq_image_id = None, rq_secret_names = None, rq_volume_mounts = None, rq_mcp_names = None,
      rq_gpu_count = None, rq_commands = None\<rparr>"
    and "nothing \<equiv> \<lparr>qs_rows = [], qs_pods = [], qs_locks = [], qs_events = []\<rparr>"
  shows "create_session st env rq 0 0 7 nothing = (Finished PodNameRaised, nothing\<lparr>qs_rows := [new_row rq 7]\<rparr>)"
proof -
  have "create_result st env rq 7 nothing = (PodNameRaised, nothing\<lparr>qs_rows := [new_row rq 7]\<rparr>)"
    by (simp add: create_result_def st_def env_def rq_def nothing_def before_lock_def size_refused_def size_order_def
        storage_refused_def resolve_secret_grants_def resolve_mcp_connection_grants_def
        build_session_capability_policy_def command_rules_from_allowed_commands_def
        count_active_total_def count_active_for_account_def monthly_hours_used_def sessions_created_since_def)
  then show ?thesis
    using create_session_meets_spec [of nothing 0 st env rq 0 7] by (simp add: nothing_def)
qed

section \<open>The reaper\<close>

definition ended :: "string \<Rightarrow> int \<Rightarrow> session_row \<Rightarrow> session_row" where
  "ended reason now r =
     r\<lparr>se_destroyed_at := Some now, se_duration := Some (max 0 (total_seconds (now - se_created_at r))),
       se_reason := Some reason\<rparr>"

lemma destroy_session_state:
  "qs_rows (destroy_session dr now s) =
     mark_destroyed (se_id (dr_row dr)) (max 0 (total_seconds (now - se_created_at (dr_row dr)))) (dr_reason dr) now (qs_rows s)"
  "qs_pods (destroy_session dr now s) =
     (if dr_manager_raises dr then qs_pods s else removeAll (se_id (dr_row dr)) (qs_pods s))"
  by (simp_all add: destroy_session_def)

abbreviation reap_row :: "(string \<Rightarrow> bool) \<Rightarrow> int \<Rightarrow> session_row \<times> string \<Rightarrow> quota_state \<Rightarrow> quota_state" where
  "reap_row raises now \<equiv> \<lambda>(r, reason). destroy_session
     \<lparr>dr_row = r, dr_reason = reason, dr_manager_raises = raises (se_id r)\<rparr> now"

abbreviation by_id :: "(session_row \<times> string) list \<Rightarrow> (string \<times> session_row \<times> string) list" where
  "by_id xs \<equiv> map (\<lambda>x. (se_id (fst x), x)) xs"

lemma fold_reap_rows:
  "distinct (map (se_id \<circ> fst) xs) \<Longrightarrow>
     qs_rows (fold (reap_row raises now) xs s) =
       map (\<lambda>r. case map_of (by_id xs) (se_id r) of None \<Rightarrow> r
          | Some (x, reason) \<Rightarrow> r\<lparr>se_destroyed_at := Some now,
              se_duration := Some (max 0 (total_seconds (now - se_created_at x))), se_reason := Some reason\<rparr>) (qs_rows s)"
proof (induction xs arbitrary: s)
  case (Cons a xs)
  obtain x reason where a: "a = (x, reason)" by (cases a)
  have none: "map_of (by_id xs) (se_id x) = None"
    using Cons.prems a by (force simp: map_of_eq_None_iff image_iff)
  show ?case
    using Cons.IH [of "reap_row raises now a s"] Cons.prems none a
    by (auto simp: destroy_session_state mark_destroyed_def split: option.splits)
qed simp

lemma fold_reap_pods:
  "qs_pods (fold (reap_row raises now) xs s) =
     filter (\<lambda>i. \<forall>(r, reason)\<in>set xs. se_id r = i \<longrightarrow> raises i) (qs_pods s)"
proof (induction xs arbitrary: s)
  case (Cons a xs)
  show ?case
    using Cons.IH [of "reap_row raises now a s"]
    by (auto simp: destroy_session_state removeAll_filter_not_eq split: prod.splits intro!: filter_cong)
qed simp

definition demo_overdue :: "reaper_settings \<Rightarrow> int \<Rightarrow> session_row \<Rightarrow> bool" where
  "demo_overdue rs now r =
     (active r \<and> demo_enabled rs \<and> demo_account rs = Some (se_account r) \<and>
      se_created_at r \<le> now - minutes (demo_lifetime_minutes rs))"

definition overdue :: "reaper_settings \<Rightarrow> int \<Rightarrow> session_row \<Rightarrow> bool" where
  "overdue rs now r =
     (active r \<and> se_created_at r \<le> now - minutes (max_session_minutes rs) \<or> demo_overdue rs now r)"

definition reap_reason :: "reaper_settings \<Rightarrow> int \<Rightarrow> session_row \<Rightarrow> string" where
  "reap_reason rs now r =
     (if demo_overdue rs now r then ''demo_lifetime_exceeded'' else ''max_session_minutes_exceeded'')"

lemma id_in_subset:
  "distinct (map se_id t) \<Longrightarrow> r \<in> set t \<Longrightarrow> A \<subseteq> set t \<Longrightarrow> se_id r \<in> se_id ` A \<longleftrightarrow> r \<in> A"
  by (rule inj_on_image_mem_iff) (auto simp: distinct_map)

lemma reap_list_set:
  assumes "distinct (map se_id t)"
  shows "set (reap_list rs now t) = (\<lambda>r. (r, reap_reason rs now r)) ` {r \<in> set t. overdue rs now r}"
    and "distinct (map (se_id \<circ> fst) (reap_list rs now t))"
proof -
  define expired where "expired = list_active_older_than (now - minutes (max_session_minutes rs)) t"
  define demo where "demo = (case (if demo_enabled rs then demo_account rs else None) of
      None \<Rightarrow> [] | Some account \<Rightarrow> list_active_older_than_for_account account (now - minutes (demo_lifetime_minutes rs)) t)"
  have demo: "set demo = {r \<in> set t. demo_overdue rs now r}" "distinct (map se_id demo)"
    using assms by (auto simp: demo_def demo_overdue_def list_active_older_than_for_account_def
        distinct_map_filter split: option.splits)
  have expired: "set expired = {r \<in> set t. active r \<and> se_created_at r \<le> now - minutes (max_session_minutes rs)}"
    "distinct (map se_id expired)"
    using assms by (auto simp: expired_def list_active_older_than_def distinct_map_filter)
  have in_demo: "se_id r \<in> se_id ` set demo \<longleftrightarrow> demo_overdue rs now r" if "r \<in> set t" for r
    using id_in_subset [OF assms that, of "set demo"] that demo(1) by auto
  have in_expired: "se_id r \<in> se_id ` set expired \<longleftrightarrow> r \<in> set expired" if "r \<in> set t" for r
    using id_in_subset [OF assms that, of "set expired"] expired(1) by auto
  have "filter (\<lambda>r. se_id r \<notin> set (map se_id expired)) demo = filter (\<lambda>r. r \<notin> set expired) demo"
    using demo(1) in_expired by (intro filter_cong) simp_all
  then have "reap_list rs now t = map (\<lambda>r. (r, if se_id r \<in> se_id ` set demo then ''demo_lifetime_exceeded''
      else ''max_session_minutes_exceeded'')) (expired @ filter (\<lambda>r. r \<notin> set expired) demo)"
    by (simp add: reap_list_def Let_def expired_def demo_def)
  also have "\<dots> = map (\<lambda>r. (r, reap_reason rs now r)) (expired @ filter (\<lambda>r. r \<notin> set expired) demo)"
    using demo(1) expired(1) in_demo by (intro map_cong) (auto simp: reap_reason_def)
  finally have L: "reap_list rs now t =
      map (\<lambda>r. (r, reap_reason rs now r)) (expired @ filter (\<lambda>r. r \<notin> set expired) demo)" .
  show "set (reap_list rs now t) = (\<lambda>r. (r, reap_reason rs now r)) ` {r \<in> set t. overdue rs now r}"
  proof -
    have "set (expired @ filter (\<lambda>r. r \<notin> set expired) demo) = {r \<in> set t. overdue rs now r}"
      unfolding set_append set_filter expired(1) demo(1) by (auto simp: overdue_def)
    then show ?thesis unfolding L set_map by simp
  qed
  have "set expired \<subseteq> set t" "set demo \<subseteq> set t" using demo(1) expired(1) by auto
  then have "distinct (map se_id (expired @ filter (\<lambda>r. r \<notin> set expired) demo))"
    using demo(2) expired(2) assms unfolding distinct_map by (auto intro: inj_on_subset)
  then show "distinct (map (se_id \<circ> fst) (reap_list rs now t))"
    unfolding L by (simp add: o_def)
qed

text \<open>One pass of the reaper marks exactly the overdue sessions as destroyed (older than the
  cluster's limit, or a demo session older than the demo's), with their duration and reason,
  and leaves every other row alone; the pods that go are those of the overdue sessions whose
  teardown succeeded.\<close>

theorem reaper_ends_exactly_overdue:
  assumes "distinct (map se_id (qs_rows s))"
  shows "qs_rows (reap_once rs raises now s) =
      map (\<lambda>r. if overdue rs now r then ended (reap_reason rs now r) now r else r) (qs_rows s) \<and>
    qs_pods (reap_once rs raises now s) =
      filter (\<lambda>i. raises i \<or> \<not> (\<exists>r\<in>set (qs_rows s). se_id r = i \<and> overdue rs now r)) (qs_pods s)"
proof
  let ?L = "reap_list rs now (qs_rows s)"
  note L = reap_list_set [OF assms, of rs now]
  have find: "map_of (by_id ?L) (se_id r) = (if overdue rs now r then Some (r, reap_reason rs now r) else None)"
    if r: "r \<in> set (qs_rows s)" for r
  proof (cases "overdue rs now r")
    case True
    then have "(r, reap_reason rs now r) \<in> set ?L" using r unfolding L(1) by blast
    then have "(se_id r, r, reap_reason rs now r) \<in> set (by_id ?L)"
      unfolding set_map by (rule rev_image_eqI) simp
    moreover have "distinct (map fst (by_id ?L))" using L(2) by (simp only: map_map o_def fst_conv)
    ultimately have "map_of (by_id ?L) (se_id r) = Some (r, reap_reason rs now r)"
      by (intro map_of_is_SomeI)
    then show ?thesis using True by (simp only: if_True)
  next
    case False
    have "fst ` set (by_id ?L) = se_id ` {r \<in> set (qs_rows s). overdue rs now r}"
      unfolding set_map L(1) by (simp add: image_image)
    moreover have "se_id r \<notin> se_id ` {r \<in> set (qs_rows s). overdue rs now r}"
      using False id_in_subset [OF assms r, of "{r \<in> set (qs_rows s). overdue rs now r}"] by blast
    ultimately have "map_of (by_id ?L) (se_id r) = None" by (simp only: map_of_eq_None_iff simp_thms)
    then show ?thesis using False by (simp only: if_False)
  qed
  show "qs_rows (reap_once rs raises now s) =
      map (\<lambda>r. if overdue rs now r then ended (reap_reason rs now r) now r else r) (qs_rows s)"
    unfolding reap_once_def fold_reap_rows [OF L(2)]
    by (rule map_cong) (auto simp: find ended_def)
  show "qs_pods (reap_once rs raises now s) =
      filter (\<lambda>i. raises i \<or> \<not> (\<exists>r\<in>set (qs_rows s). se_id r = i \<and> overdue rs now r)) (qs_pods s)"
    unfolding reap_once_def fold_reap_pods by (rule filter_cong) (auto simp: L(1))
qed

lemma reaper_ends_exactly_overdue_witness:
  defines "rs \<equiv> \<lparr>max_session_minutes = 30, demo_enabled = True, demo_account = Some ''demo'', demo_lifetime_minutes = 4\<rparr>"
    and "row \<equiv> (\<lambda>i a t. \<lparr>se_id = i, se_account = a, se_pod_name = None, se_label = None, se_created_at = t,
      se_destroyed_at = None, se_duration = None, se_reason = None, se_size = None, se_storage_gb = None,
      se_image_id = None, se_secret_names = None, se_volume_mounts = None, se_mcp_names = None, se_gpu_count = None\<rparr>)"
  defines "s \<equiv> \<lparr>qs_rows = [row ''s1'' ''a'' 0, row ''s2'' ''demo'' 0], qs_pods = [''s1'', ''s2''], qs_locks = [], qs_events = []\<rparr>"
  shows "qs_pods (reap_once rs (\<lambda>i. False) (minutes 5) s) = [''s1''] \<and>
    map se_reason (qs_rows (reap_once rs (\<lambda>i. False) (minutes 5) s)) = [None, Some ''demo_lifetime_exceeded'']"
  using reaper_ends_exactly_overdue [of s rs "\<lambda>i. False" "minutes 5"]
  by (simp add: s_def row_def rs_def overdue_def demo_overdue_def reap_reason_def ended_def minutes_def)

section \<open>A teardown during a creation\<close>

text \<open>If a session is torn down after its row was reserved and before the manager has made its
  pod, the creation still succeeds, but the pod has no active row: no later pass of the reaper
  and no delete request removes it.\<close>

theorem teardown_during_creation_leaks_pod:
  assumes "en_manager en = Some pod" and "\<not> en_name_raises en"
    and torn_down: "list_all (\<lambda>r. se_id r = rq_session_id rq \<longrightarrow> \<not> active r) (qs_rows s)"
    and "((\<lambda>(p, s). create_step st en rq k i now p s) ^^ 3) (Reserved, s) = (p', s')"
  shows "p' = Finished (Created pod) \<and>
    (\<forall>rs raises t. rq_session_id rq \<in> set (qs_pods (reap_once rs raises t s'))) \<and>
    (\<forall>account raises t. delete_sandbox (rq_session_id rq) account raises t s' = None)"
proof -
  have "p' = Finished (Created pod) \<and> qs_pods s' = qs_pods s @ [rq_session_id rq] \<and>
      qs_rows s' = set_pod_name (rq_session_id rq) pod (qs_rows s)"
    using assms(1,2,4) by (auto simp: numeral_3_eq_3)
  moreover from this have gone: "\<forall>r\<in>set (qs_rows s'). se_id r = rq_session_id rq \<longrightarrow> \<not> active r"
    using torn_down by (auto simp: set_pod_name_def list_all_iff)
  moreover have "\<forall>(r, reason)\<in>set (reap_list rs t (qs_rows s')). se_id r \<noteq> rq_session_id rq" for rs t
    using gone by (auto simp: reap_list_def Let_def list_active_older_than_def
        list_active_older_than_for_account_def split: option.splits if_splits)
  moreover have "delete_sandbox (rq_session_id rq) account raises t s' = None" for account raises t
    using gone by (auto simp: delete_sandbox_def get_for_account_def split: option.splits dest!: find_Some_mem)
  ultimately show ?thesis by (fastforce simp: reap_once_def fold_reap_pods)
qed

text \<open>The reserved row is listed, so its owner can delete it while the pod is being made.\<close>

lemma teardown_during_creation_leaks_pod_witness:
  defines "st \<equiv> \<lparr>global_max = 20, account_max = 2, monthly_hours = 20, max_size = ''medium'', max_storage_gb = 20,
      control_plane_url = [], usage_lock_backend = ''postgres''\<rparr>"
    and "env \<equiv> \<lparr>en_secrets = None, en_mcps = None, en_mint = concat, en_manager = Some (Some ''pod''),
      en_name_raises = False, en_cleanup_raises = False\<rparr>"
    and "rq \<equiv> \<lparr>rq_session_id = ''s1'', rq_account = ''a'', rq_label = None, rq_size = ''small'', rq_storage_gb = None,
      rq_image_id = None, rq_secret_names = None, rq_volume_mounts = None, rq_mcp_names = None,
      rq_gpu_count = None, rq_commands = None\<rparr>"
  defines "reserved \<equiv> \<lparr>qs_rows = [new_row rq 0], qs_pods = [], qs_locks = [], qs_events = []\<rparr>"
  defines "torn \<equiv> the (delete_sandbox ''s1'' ''a'' False 1 reserved)"
  defines "final \<equiv> snd (((\<lambda>(p, s). create_step st env rq 0 0 2 p s) ^^ 3) (Reserved, torn))"
  shows "((\<lambda>(p, s). create_step st env rq 0 0 0 p s) ^^ 6)
      (Arrived, \<lparr>qs_rows = [], qs_pods = [], qs_locks = [], qs_events = []\<rparr>) = (Reserved, reserved) \<and>
    ''s1'' \<in> set (qs_pods (reap_once \<lparr>max_session_minutes = 30, demo_enabled = False, demo_account = None,
        demo_lifetime_minutes = 4\<rparr> (\<lambda>i. False) (minutes 100) final))"
proof
  show "((\<lambda>(p, s). create_step st env rq 0 0 0 p s) ^^ 6)
      (Arrived, \<lparr>qs_rows = [], qs_pods = [], qs_locks = [], qs_events = []\<rparr>) = (Reserved, reserved)"
    unfolding reserved_def st_def env_def rq_def by code_simp
  have "list_all (\<lambda>r. se_id r = ''s1'' \<longrightarrow> \<not> active r) (qs_rows torn)"
    unfolding torn_def reserved_def rq_def by code_simp
  then show "''s1'' \<in> set (qs_pods (reap_once \<lparr>max_session_minutes = 30, demo_enabled = False, demo_account = None,
        demo_lifetime_minutes = 4\<rparr> (\<lambda>i. False) (minutes 100) final))"
    using teardown_during_creation_leaks_pod [of env "Some ''pod''" rq torn st 0 0 2 "fst (((\<lambda>(p, s). create_step st env rq 0 0 2 p s) ^^ 3) (Reserved, torn))" final]
    by (simp add: env_def rq_def final_def)
qed

section \<open>Monthly hours\<close>

text \<open>The hours of a session inside the window that starts at \<open>since\<close>.\<close>

definition overlap_hours :: "int \<Rightarrow> int \<Rightarrow> session_row \<Rightarrow> real" where
  "overlap_hours since now r =
     (let end' = (case se_destroyed_at r of None \<Rightarrow> now | Some t \<Rightarrow> t)
      in max 0 (total_seconds (end' - max since (se_created_at r))) / 3600)"

lemma overlap_hours_inside: "since \<le> se_created_at r \<Longrightarrow> overlap_hours since now r = session_hours now r"
  by (simp add: overlap_hours_def session_hours_def max_absorb2)

lemma sum_list_filter_split:
  "sum_list (map f xs) = sum_list (map f (filter P xs)) + sum_list (map f (filter (\<lambda>x. \<not> P x) xs) :: real list)"
  by (induction xs) auto

text \<open>An account's monthly hours are the hours its sessions overlap with the current month,
  less the whole share of the sessions created before the month began: those count nothing,
  also while they are running.\<close>

theorem monthly_hours_miss_earlier_sessions:
  "monthly_hours_used account now t +
     sum_list (map (overlap_hours (start_of_current_month now) now)
       (filter (\<lambda>r. se_account r = account \<and> se_created_at r < start_of_current_month now) t)) =
   sum_list (map (overlap_hours (start_of_current_month now) now) (filter (\<lambda>r. se_account r = account) t))"
proof -
  let ?since = "start_of_current_month now"
  have "map (overlap_hours ?since now) (filter (\<lambda>r. ?since \<le> se_created_at r) (filter (\<lambda>r. se_account r = account) t)) =
      map (session_hours now) (sessions_created_since account ?since t)"
    by (simp add: sessions_created_since_def conj_commute overlap_hours_inside)
  then show ?thesis
    unfolding monthly_hours_used_def
    by (subst (2) sum_list_filter_split [where P = "\<lambda>r. ?since \<le> se_created_at r"])
       (simp add: not_le conj_commute)
qed

end
