(* ===== verification/Webhooks.thy ===== *)
theory Webhooks
  imports SecretsBroker Json
begin

text \<open>
  Outbound webhooks of the control plane: events are turned into one pending delivery per
  matching subscription (\<open>webhooks.py\<close>), and a background worker sends due deliveries,
  retries them with a backoff and gives up after a number of attempts
  (\<open>webhook_delivery.py\<close>, the two repositories in \<open>repository.py\<close>). DNS, URL parsing,
  decryption, the HMAC, the receivers' answers and the texts of numbers and dates are
  parameters. Times are microseconds since the epoch.
\<close>

section \<open>Rows\<close>

record subscription =
  wh_id :: string
  wh_account :: string
  wh_url :: string
  wh_description :: "string option"
  wh_event_types :: "string list"
  wh_sealed_secret :: string
  wh_active :: bool
  wh_format :: string
  wh_sealed_hec :: "string option"
  wh_created_at :: int
  wh_last_triggered :: "int option"

datatype delivery_status = Pending | Delivered | Failed

record delivery =
  dl_id :: string
  dl_subscription :: string
  dl_account :: string
  dl_event_type :: string
  dl_payload :: json
  dl_status :: delivery_status
  dl_attempts :: nat
  dl_next_at :: int
  dl_last_at :: "int option"
  dl_code :: "nat option"
  dl_response :: "string option"
  dl_reason :: "string option"
  dl_created_at :: int
  dl_delivered_at :: "int option"

record webhook_db =
  wd_subscriptions :: "subscription list"
  wd_deliveries :: "delivery list"

definition subscription_for_account :: "string \<Rightarrow> string \<Rightarrow> subscription list \<Rightarrow> subscription option" where
  "subscription_for_account i account t = List.find (\<lambda>w. wh_id w = i \<and> wh_account w = account) t"

definition subscriptions_of_account :: "string \<Rightarrow> subscription list \<Rightarrow> subscription list" where
  "subscriptions_of_account account t =
     sort_key (\<lambda>w. - wh_created_at w) (filter (\<lambda>w. wh_account w = account) t)"

definition active_for_account_and_event :: "string \<Rightarrow> string \<Rightarrow> subscription list \<Rightarrow> subscription list" where
  "active_for_account_and_event account event_type t =
     filter (\<lambda>w. event_type \<in> set (wh_event_types w))
       (filter (\<lambda>w. wh_account w = account \<and> wh_active w) t)"

definition count_subscriptions :: "string \<Rightarrow> subscription list \<Rightarrow> nat" where
  "count_subscriptions account t = length (filter (\<lambda>w. wh_account w = account) t)"

definition touch_last_triggered :: "string \<Rightarrow> int \<Rightarrow> subscription list \<Rightarrow> subscription list" where
  "touch_last_triggered i now t = map (\<lambda>w. if wh_id w = i then w\<lparr>wh_last_triggered := Some now\<rparr> else w) t"

text \<open>The foreign key deletes the deliveries along.\<close>

definition delete_subscription :: "string \<Rightarrow> string \<Rightarrow> webhook_db \<Rightarrow> bool \<times> webhook_db" where
  "delete_subscription account i db =
     (case subscription_for_account i account (wd_subscriptions db) of
        None \<Rightarrow> (False, db)
      | Some w \<Rightarrow> (True,
          \<lparr>wd_subscriptions = filter (\<lambda>x. wh_id x \<noteq> i) (wd_subscriptions db),
           wd_deliveries = filter (\<lambda>d. dl_subscription d \<noteq> i) (wd_deliveries db)\<rparr>))"

definition create_delivery :: "string \<Rightarrow> string \<Rightarrow> string \<Rightarrow> string \<Rightarrow> json \<Rightarrow> int \<Rightarrow> delivery list \<Rightarrow> delivery list" where
  "create_delivery i subscription_id account event_type payload now t =
     t @ [\<lparr>dl_id = i, dl_subscription = subscription_id, dl_account = account,
           dl_event_type = event_type, dl_payload = payload, dl_status = Pending, dl_attempts = 0,
           dl_next_at = now, dl_last_at = None, dl_code = None, dl_response = None, dl_reason = None,
           dl_created_at = now, dl_delivered_at = None\<rparr>]"

text \<open>Postgres and SQLite leave the order among equal times open; here it is the row order.\<close>

definition list_due :: "int \<Rightarrow> nat \<Rightarrow> delivery list \<Rightarrow> delivery list" where
  "list_due now limit t =
     take limit (sort_key dl_next_at (filter (\<lambda>d. dl_status d = Pending \<and> dl_next_at d \<le> now) t))"

definition deliveries_of_subscription :: "string \<Rightarrow> string \<Rightarrow> nat \<Rightarrow> nat \<Rightarrow> delivery list \<Rightarrow> delivery list" where
  "deliveries_of_subscription subscription_id account limit offset t =
     take limit (drop offset (sort_key (\<lambda>d. - dl_created_at d)
       (filter (\<lambda>d. dl_subscription d = subscription_id \<and> dl_account d = account) t)))"

definition mark_delivered :: "string \<Rightarrow> nat \<Rightarrow> string \<Rightarrow> int \<Rightarrow> delivery list \<Rightarrow> delivery list" where
  "mark_delivered i code body now t =
     map (\<lambda>d. if dl_id d = i
        then d\<lparr>dl_status := Delivered, dl_attempts := dl_attempts d + 1, dl_last_at := Some now,
               dl_code := Some code, dl_response := Some body, dl_delivered_at := Some now\<rparr>
        else d) t"

definition record_failed_attempt ::
    "string \<Rightarrow> int option \<Rightarrow> nat option \<Rightarrow> string option \<Rightarrow> string \<Rightarrow> bool \<Rightarrow> int \<Rightarrow> delivery list \<Rightarrow> delivery list" where
  "record_failed_attempt i next_attempt_at code body reason exhausted now t =
     map (\<lambda>d. if dl_id d = i
        then (let d' = d\<lparr>dl_attempts := dl_attempts d + 1, dl_last_at := Some now, dl_code := code,
                dl_response := body, dl_reason := Some reason\<rparr>
              in if exhausted then d'\<lparr>dl_status := Failed\<rparr>
                 else case next_attempt_at of None \<Rightarrow> d' | Some n \<Rightarrow> d'\<lparr>dl_next_at := n\<rparr>)
        else d) t"

section \<open>Events and payloads\<close>

text \<open>The texts the standard library makes of a time: \<open>isoformat()\<close>, its inverse and a float.\<close>

record clock_text =
  iso_text :: "int \<Rightarrow> string"
  iso_parse :: "string \<Rightarrow> int option"
  float_text :: "int \<Rightarrow> string"

definition build_event_payload :: "clock_text \<Rightarrow> string \<Rightarrow> int \<Rightarrow> string \<Rightarrow> string \<Rightarrow> json \<Rightarrow> json" where
  "build_event_payload ck event_id now event_type account data =
     JObj [(''event_id'', JStr event_id), (''event'', JStr event_type),
           (''created_at'', JStr (iso_text ck now)), (''account_id'', JStr account), (''data'', data)]"

text \<open>\<open>None\<close> where the function raises.\<close>

definition build_splunk_hec_payload :: "clock_text \<Rightarrow> json \<Rightarrow> json option" where
  "build_splunk_hec_payload ck payload =
     (case payload of
        JObj kvs \<Rightarrow>
          (case (dict_get kvs ''created_at'', dict_get kvs ''event'') of
             (Some (JStr created_at), Some (JStr event)) \<Rightarrow>
               map_option (\<lambda>t. JObj
                   [(''time'', JNum (float_text ck t)), (''host'', JStr ''boxxkite''),
                    (''source'', JStr (''boxxkite:'' @ event)), (''sourcetype'', JStr ''_json''),
                    (''event'', payload)])
                 (iso_parse ck created_at)
           | _ \<Rightarrow> None)
      | _ \<Rightarrow> None)"

definition sign_payload :: "(string \<Rightarrow> string \<Rightarrow> string) \<Rightarrow> string \<Rightarrow> nat \<Rightarrow> string \<Rightarrow> string" where
  "sign_payload hmac secret timestamp body = hmac secret (decimal timestamp @ ''.'' @ body)"

definition build_signature_header :: "(string \<Rightarrow> string \<Rightarrow> string) \<Rightarrow> string \<Rightarrow> nat \<Rightarrow> string \<Rightarrow> string" where
  "build_signature_header hmac secret timestamp body =
     ''t='' @ decimal timestamp @ '',v1='' @ sign_payload hmac secret timestamp body"

text \<open>\<open>new_ids\<close> are the fresh identifiers of the rows.\<close>

definition enqueue_event ::
    "clock_text \<Rightarrow> (nat \<Rightarrow> string) \<Rightarrow> string \<Rightarrow> int \<Rightarrow> string \<Rightarrow> string \<Rightarrow> json \<Rightarrow> webhook_db \<Rightarrow> nat \<times> webhook_db" where
  "enqueue_event ck new_ids event_id now account event_type data db =
     (let subs = active_for_account_and_event account event_type (wd_subscriptions db) in
      if subs = [] then (0, db)
      else let payload = build_event_payload ck event_id now event_type account data;
               rows = foldl (\<lambda>t (n, w). create_delivery (new_ids n) (wh_id w) account event_type payload now t)
                        (wd_deliveries db) (enumerate 0 subs)
           in (length subs, db\<lparr>wd_deliveries := rows\<rparr>))"

section \<open>Registration\<close>

record webhook_request =
  wr_url :: string
  wr_event_types :: "string list"
  wr_description :: "string option"
  wr_format :: string
  wr_hec_token :: "string option"

datatype register_error =
    WebhookLimit429
  | NoHostname422
  | UnsafeUrl422
  | UrlCrashed500

text \<open>\<open>parse_url\<close> answers \<open>None\<close> where \<open>urlparse\<close> or the host name raises.\<close>

definition validate_webhook_url ::
    "(string \<Rightarrow> parsed_url option) \<Rightarrow> resolver \<Rightarrow> string \<Rightarrow> register_error option" where
  "validate_webhook_url parse_url getaddrinfo url =
     (case parse_url url of
        None \<Rightarrow> Some UrlCrashed500
      | Some u \<Rightarrow>
          (case pu_hostname u of
             None \<Rightarrow> Some NoHostname422
           | Some h \<Rightarrow>
               (if h = [] then Some NoHostname422
                else if resolve_host_is_unsafe getaddrinfo h then Some UnsafeUrl422 else None)))"

definition create_webhook ::
    "nat \<Rightarrow> (string \<Rightarrow> parsed_url option) \<Rightarrow> resolver \<Rightarrow> (string \<Rightarrow> string) \<Rightarrow> string \<Rightarrow> string \<Rightarrow> string \<Rightarrow> int \<Rightarrow>
     webhook_request \<Rightarrow> webhook_db \<Rightarrow> register_error + webhook_db" where
  "create_webhook max_webhooks parse_url getaddrinfo seal secret account new_id now rq db =
     (if max_webhooks \<le> count_subscriptions account (wd_subscriptions db) then Inl WebhookLimit429
      else case validate_webhook_url parse_url getaddrinfo (wr_url rq) of
        Some e \<Rightarrow> Inl e
      | None \<Rightarrow> Inr (db\<lparr>wd_subscriptions := wd_subscriptions db @
          [\<lparr>wh_id = new_id, wh_account = account, wh_url = wr_url rq, wh_description = wr_description rq,
            wh_event_types = wr_event_types rq, wh_sealed_secret = seal secret, wh_active = True,
            wh_format = wr_format rq,
            wh_sealed_hec = (case wr_hec_token rq of None \<Rightarrow> None | Some [] \<Rightarrow> None | Some x \<Rightarrow> Some (seal x)),
            wh_created_at = now, wh_last_triggered = None\<rparr>]\<rparr>))"

section \<open>Delivery\<close>

record delivery_config =
  max_attempts :: nat
  retry_base :: nat
  retry_max :: nat
  batch_limit :: nat

text \<open>What the worker meets outside: a receiver answers with a status and a text, or the
  client raises with a text.\<close>

record delivery_env =
  de_parse_url :: "string \<Rightarrow> parsed_url option"
  de_getaddrinfo :: resolver
  de_decrypt :: "string \<Rightarrow> string option"
  de_hmac :: "string \<Rightarrow> string \<Rightarrow> string"
  de_clock :: clock_text
  de_send :: "outgoing \<Rightarrow> string + (nat \<times> string)"

definition next_backoff_seconds :: "delivery_config \<Rightarrow> nat \<Rightarrow> nat" where
  "next_backoff_seconds cfg n = min (retry_base cfg * 2 ^ (n - 1)) (retry_max cfg)"

definition record_failure ::
    "delivery_config \<Rightarrow> int \<Rightarrow> delivery \<Rightarrow> nat option \<Rightarrow> string option \<Rightarrow> string \<Rightarrow> delivery list \<Rightarrow> delivery list" where
  "record_failure cfg now d code body reason t =
     (let n = dl_attempts d + 1;
          exhausted = max_attempts cfg \<le> n;
          next = (if exhausted then None else Some (now + int (next_backoff_seconds cfg n) * 1000000))
      in record_failed_attempt (dl_id d) next code body reason exhausted now t)"

definition delivery_headers ::
    "delivery_env \<Rightarrow> string \<Rightarrow> nat \<Rightarrow> string \<Rightarrow> string \<Rightarrow> delivery \<Rightarrow> subscription \<Rightarrow> (string, string) dict" where
  "delivery_headers en secret timestamp body hostname d w =
     (let base =
        [(''Content-Type'', ''application/json''),
         (''X-Boxxkite-Webhook-Signature'', build_signature_header (de_hmac en) secret timestamp body),
         (''X-Boxxkite-Webhook-Event'', dl_event_type d),
         (''X-Boxxkite-Webhook-Id'', dl_id d),
         (''Host'', hostname)]
      in if wh_format w = ''splunk_hec'' then
           (case (case wh_sealed_hec w of None \<Rightarrow> None | Some c \<Rightarrow> de_decrypt en c) of
              None \<Rightarrow> base
            | Some [] \<Rightarrow> base
            | Some token \<Rightarrow> base @ [(''Authorization'', ''Splunk '' @ token)])
         else base)"

text \<open>One attempt: the request sent, if any, and the database, or \<open>None\<close> where the function
  raises (the caller logs that and goes on).\<close>

definition attempt_delivery ::
    "delivery_config \<Rightarrow> delivery_env \<Rightarrow> int \<Rightarrow> delivery \<Rightarrow> subscription \<Rightarrow> webhook_db \<Rightarrow>
     (outgoing option \<times> webhook_db) option" where
  "attempt_delivery cfg en now d w db =
     (case de_parse_url en (wh_url w) of
        None \<Rightarrow> None
      | Some u \<Rightarrow>
          (case (case pu_hostname u of None \<Rightarrow> None | Some [] \<Rightarrow> None
                 | Some h \<Rightarrow> map_option (Pair h) (resolve_and_validate_destination_ip (de_getaddrinfo en) h)) of
             None \<Rightarrow> Some (None, db\<lparr>wd_deliveries :=
               record_failure cfg now d None None ''destination_not_allowed'' (wd_deliveries db)\<rparr>)
           | Some (hostname, ip) \<Rightarrow>
               (case (if wh_format w = ''splunk_hec'' then build_splunk_hec_payload (de_clock en) (dl_payload d)
                      else Some (dl_payload d)) of
                  None \<Rightarrow> None
                | Some body_payload \<Rightarrow>
                    (let body = json_dumps body_payload; timestamp = nat (now div 1000000) in
                     case de_decrypt en (wh_sealed_secret w) of
                       None \<Rightarrow> Some (None, db\<lparr>wd_deliveries :=
                         record_failed_attempt (dl_id d) None None None ''signing_secret_unavailable'' True now
                           (wd_deliveries db)\<rparr>)
                     | Some secret \<Rightarrow>
                         (case pu_port u of
                            Inl _ \<Rightarrow> None
                          | Inr port \<Rightarrow>
                              (let out = \<lparr>og_method = ''POST'', og_scheme = pu_scheme u, og_ip = ip,
                                    og_port = (case port of Some 0 \<Rightarrow> None | p \<Rightarrow> p),
                                    og_target = pu_target u, og_sni = hostname,
                                    og_headers = delivery_headers en secret timestamp body hostname d w,
                                    og_body = Some body\<rparr>
                               in case de_send en out of
                                    Inl exc \<Rightarrow> Some (Some out, db\<lparr>wd_deliveries :=
                                      record_failure cfg now d None None (take 500 exc) (wd_deliveries db)\<rparr>)
                                  | Inr (code, answer) \<Rightarrow>
                                      (let body' = take 4096 answer in
                                       if 200 \<le> code \<and> code < 300 then
                                         Some (Some out,
                                           \<lparr>wd_subscriptions = touch_last_triggered (wh_id w) now (wd_subscriptions db),
                                            wd_deliveries = mark_delivered (dl_id d) code body' now (wd_deliveries db)\<rparr>)
                                       else Some (Some out, db\<lparr>wd_deliveries :=
                                         record_failure cfg now d (Some code) (Some body')
                                           (''non_2xx_response:'' @ decimal code) (wd_deliveries db)\<rparr>))))))))"

text \<open>One pass of the worker. The subscriptions are looked up before the first attempt.\<close>

fun deliver_each ::
    "delivery_config \<Rightarrow> delivery_env \<Rightarrow> int \<Rightarrow> (delivery \<times> subscription option) list \<Rightarrow> webhook_db \<Rightarrow>
     (string \<times> outgoing) list \<times> webhook_db" where
  "deliver_each cfg en now [] db = ([], db)"
| "deliver_each cfg en now ((d, sub) # rest) db =
     (case (case sub of None \<Rightarrow> None | Some w \<Rightarrow> if wh_active w then Some w else None) of
        None \<Rightarrow> deliver_each cfg en now rest
          (db\<lparr>wd_deliveries := record_failed_attempt (dl_id d) None None None
              ''subscription_deleted_or_inactive'' True now (wd_deliveries db)\<rparr>)
      | Some w \<Rightarrow>
          (case attempt_delivery cfg en now d w db of
             None \<Rightarrow> deliver_each cfg en now rest db
           | Some (sent, db') \<Rightarrow>
               (case deliver_each cfg en now rest db' of
                  (lg, db'') \<Rightarrow> ((case sent of None \<Rightarrow> lg | Some out \<Rightarrow> (dl_id d, out) # lg), db''))))"

definition deliver_once ::
    "delivery_config \<Rightarrow> delivery_env \<Rightarrow> int \<Rightarrow> webhook_db \<Rightarrow> (string \<times> outgoing) list \<times> webhook_db" where
  "deliver_once cfg en now db =
     deliver_each cfg en now
       (map (\<lambda>d. (d, subscription_for_account (dl_subscription d) (dl_account d) (wd_subscriptions db)))
         (list_due now (batch_limit cfg) (wd_deliveries db))) db"

text \<open>The passes of the worker, each at its time and in its environment.\<close>

fun run_passes ::
    "delivery_config \<Rightarrow> (int \<times> delivery_env) list \<Rightarrow> webhook_db \<Rightarrow> (string \<times> outgoing) list \<times> webhook_db" where
  "run_passes cfg [] db = ([], db)"
| "run_passes cfg ((now, en) # passes) db =
     (case deliver_once cfg en now db of
        (lg, db1) \<Rightarrow> (case run_passes cfg passes db1 of (lg', db2) \<Rightarrow> (lg @ lg', db2)))"

end
