(* ===== verification/WebhookSafety.thy ===== *)
theory WebhookSafety
  imports Webhooks
begin

text \<open>
  What webhook delivery guarantees: which requests leave the worker and to where, how many
  there can be for one delivery, when every delivery is settled, and how deliveries whose
  URL makes the attempt raise hold up all others.
\<close>

section \<open>One attempt\<close>

abbreviation plain :: "subscription \<Rightarrow> subscription" where
  "plain w \<equiv> w\<lparr>wh_last_triggered := None\<rparr>"

text \<open>What a settled or failed attempt at \<open>d\<close> does to a row.\<close>

definition attempted :: "delivery_config \<Rightarrow> int \<Rightarrow> delivery \<Rightarrow> delivery \<Rightarrow> delivery \<Rightarrow> bool" where
  "attempted cfg now d x x' \<longleftrightarrow>
     dl_id x' = dl_id x \<and> dl_payload x' = dl_payload x \<and>
     (if dl_id x = dl_id d
      then dl_attempts x' = Suc (dl_attempts x) \<and>
        (dl_status x' = Pending \<longrightarrow> dl_status x = Pending \<and> Suc (dl_attempts d) < max_attempts cfg \<and>
           dl_next_at x' \<le> now + int (retry_max cfg) * 1000000)
      else x' = x)"

lemma list_all2_map_self: "(\<And>x. R x (f x)) \<Longrightarrow> list_all2 R xs (map f xs)"
  by (simp add: list.rel_map list.rel_refl)

lemma list_all2_back: "list_all2 R xs ys \<Longrightarrow> y \<in> set ys \<Longrightarrow> \<exists>x\<in>set xs. R x y"
  by (induction rule: list_all2_induct) auto

lemma attempted_record_failed:
  "exhausted \<Longrightarrow> list_all2 (attempted cfg now d) t (record_failed_attempt (dl_id d) n code body reason exhausted now' t)"
  unfolding record_failed_attempt_def by (rule list_all2_map_self) (simp add: attempted_def Let_def)

lemma attempted_record_failure:
  "list_all2 (attempted cfg now d) t (record_failure cfg now d code body reason t)"
  unfolding record_failure_def record_failed_attempt_def Let_def
  by (rule list_all2_map_self) (simp add: attempted_def next_backoff_seconds_def)

lemma attempted_mark_delivered:
  "list_all2 (attempted cfg now d) t (mark_delivered (dl_id d) code body now' t)"
  unfolding mark_delivered_def by (rule list_all2_map_self) (simp add: attempted_def)

lemma plain_touch: "map plain (touch_last_triggered i now t) = map plain t"
  by (simp add: touch_last_triggered_def)

lemma attempt_delivery_rows:
  assumes "attempt_delivery cfg en now d w db = Some (sent, db')"
  shows "list_all2 (attempted cfg now d) (wd_deliveries db) (wd_deliveries db')"
    and "map plain (wd_subscriptions db') = map plain (wd_subscriptions db)"
  using assms attempted_record_failed attempted_record_failure attempted_mark_delivered plain_touch
  unfolding attempt_delivery_def Let_def
  by (auto split: option.splits sum.splits if_splits prod.splits list.splits)

text \<open>What is sent, and where to.\<close>

definition signed_request :: "delivery_env \<Rightarrow> delivery \<Rightarrow> subscription \<Rightarrow> outgoing \<Rightarrow> bool" where
  "signed_request en d w out \<longleftrightarrow>
     (\<exists>u infos secret stamp body.
        de_parse_url en (wh_url w) = Some u \<and> pu_hostname u = Some (og_sni out) \<and>
        de_getaddrinfo en (og_sni out) = Some (og_ip out # infos) \<and>
        \<not> list_ex is_disallowed_destination_ip (og_ip out # infos) \<and>
        de_decrypt en (wh_sealed_secret w) = Some secret \<and> og_body out = Some body \<and>
        dict_get (og_headers out) ''X-Boxxkite-Webhook-Signature'' =
          Some (build_signature_header (de_hmac en) secret stamp body) \<and>
        dict_get (og_headers out) ''Host'' = Some (og_sni out) \<and>
        dict_get (og_headers out) ''X-Boxxkite-Webhook-Id'' = Some (dl_id d))"

lemma delivery_headers_get:
  "dict_get (delivery_headers en secret stamp body h d w) ''X-Boxxkite-Webhook-Signature'' =
     Some (build_signature_header (de_hmac en) secret stamp body)"
  "dict_get (delivery_headers en secret stamp body h d w) ''Host'' = Some h"
  "dict_get (delivery_headers en secret stamp body h d w) ''X-Boxxkite-Webhook-Id'' = Some (dl_id d)"
  by (auto simp: delivery_headers_def Let_def split: option.splits list.splits)

lemma validated:
  "resolve_and_validate_destination_ip getaddrinfo h = Some ip \<Longrightarrow>
     \<exists>infos. getaddrinfo h = Some (ip # infos) \<and> \<not> list_ex is_disallowed_destination_ip (ip # infos)"
  by (auto simp: resolve_and_validate_destination_ip_def collect_allowed_eq neq_Nil_conv
      split: option.splits if_splits)

lemma attempt_delivery_sends:
  assumes "attempt_delivery cfg en now d w db = Some (Some out, db')"
  shows "signed_request en d w out"
proof -
  obtain u h ip body_payload secret port where
    u: "de_parse_url en (wh_url w) = Some u" and h: "pu_hostname u = Some h" and
    ip: "resolve_and_validate_destination_ip (de_getaddrinfo en) h = Some ip" and
    secret: "de_decrypt en (wh_sealed_secret w) = Some secret" and
    out: "og_sni out = h" "og_ip out = ip" "og_body out = Some (json_dumps body_payload)"
      "og_headers out = delivery_headers en secret (nat (now div 1000000)) (json_dumps body_payload) h d w"
    using assms unfolding attempt_delivery_def Let_def
    by (auto split: option.splits sum.splits if_splits prod.splits list.splits)
  from validated [OF ip] show ?thesis
    unfolding signed_request_def using u h secret out delivery_headers_get by metis
qed

text \<open>When an attempt raises instead of recording a result: a URL that does not parse, or, for
  an allowed destination, a payload that cannot be wrapped or a port that cannot be read.\<close>

definition destination :: "delivery_env \<Rightarrow> parsed_url \<Rightarrow> (string \<times> string) option" where
  "destination en u =
     (case pu_hostname u of None \<Rightarrow> None | Some [] \<Rightarrow> None
      | Some h \<Rightarrow> map_option (Pair h) (resolve_and_validate_destination_ip (de_getaddrinfo en) h))"

definition body_of :: "delivery_env \<Rightarrow> delivery \<Rightarrow> subscription \<Rightarrow> json option" where
  "body_of en d w =
     (if wh_format w = ''splunk_hec'' then build_splunk_hec_payload (de_clock en) (dl_payload d)
      else Some (dl_payload d))"

definition raises :: "delivery_env \<Rightarrow> delivery \<Rightarrow> subscription \<Rightarrow> bool" where
  "raises en d w =
     (case de_parse_url en (wh_url w) of
        None \<Rightarrow> True
      | Some u \<Rightarrow> destination en u \<noteq> None \<and>
          (body_of en d w = None \<or> de_decrypt en (wh_sealed_secret w) \<noteq> None \<and> pu_port u = Inl ()))"

lemma attempt_delivery_raises: "attempt_delivery cfg en now d w db = None \<longleftrightarrow> raises en d w"
proof (cases "de_parse_url en (wh_url w)")
  case (Some u)
  note u = this
  show ?thesis
  proof (cases "destination en u")
    case None
    then show ?thesis using u
      by (simp add: attempt_delivery_def raises_def destination_def [symmetric])
  next
    case (Some hip)
    then obtain h ip where dest: "destination en u = Some (h, ip)" by (cases hip) auto
    show ?thesis
    proof (cases "body_of en d w")
      case None
      then show ?thesis using u dest
        by (simp add: attempt_delivery_def raises_def destination_def [symmetric] body_of_def [symmetric])
    next
      case (Some body)
      then show ?thesis using u dest
        unfolding attempt_delivery_def raises_def destination_def [symmetric] body_of_def [symmetric] Let_def
        by (simp split: option.splits sum.splits prod.splits)
    qed
  qed
qed (simp add: attempt_delivery_def raises_def)

lemma raises_plain: "raises en d (plain w) = raises en d w"
  by (cases "de_parse_url en (wh_url w)") (simp_all add: raises_def body_of_def)

section \<open>One pass\<close>

abbreviation sent_count :: "(string \<times> outgoing) list \<Rightarrow> string \<Rightarrow> nat" where
  "sent_count lg i \<equiv> length (filter (\<lambda>e. fst e = i) lg)"

type_synonym work = "(delivery \<times> subscription option) list"

abbreviation work_ids :: "work \<Rightarrow> string list" where
  "work_ids R \<equiv> map (\<lambda>x. dl_id (fst x)) R"

text \<open>The rows that are still to be attempted are as they were read.\<close>

definition unchanged :: "work \<Rightarrow> delivery list \<Rightarrow> bool" where
  "unchanged R t \<longleftrightarrow> (\<forall>(d, sub)\<in>set R. \<forall>x\<in>set t. dl_id x = dl_id d \<longrightarrow> x = d)"

definition skipped :: "delivery_env \<Rightarrow> delivery \<Rightarrow> subscription option \<Rightarrow> bool" where
  "skipped en d sub \<longleftrightarrow> (\<exists>w. sub = Some w \<and> wh_active w \<and> raises en d w)"

definition pass_row ::
    "delivery_config \<Rightarrow> delivery_env \<Rightarrow> int \<Rightarrow> work \<Rightarrow> (string \<times> outgoing) list \<Rightarrow> delivery \<Rightarrow> delivery \<Rightarrow> bool" where
  "pass_row cfg en now R lg x x' \<longleftrightarrow>
     (dl_id x \<notin> set (work_ids R) \<and> x' = x \<and> sent_count lg (dl_id x) = 0) \<or>
     (\<exists>sub. (x, sub) \<in> set R \<and>
        (skipped en x sub \<and> x' = x \<and> sent_count lg (dl_id x) = 0 \<or>
         attempted cfg now x x x' \<and> sent_count lg (dl_id x) \<le> 1))"

text \<open>One item: no effect, or a row relation and at most one request.\<close>

definition work_step ::
    "delivery_config \<Rightarrow> delivery_env \<Rightarrow> int \<Rightarrow> delivery \<times> subscription option \<Rightarrow> webhook_db \<Rightarrow>
     (string \<times> outgoing) list \<times> webhook_db" where
  "work_step cfg en now item db = deliver_each cfg en now [item] db"

lemma deliver_each_Cons:
  "deliver_each cfg en now (item # R) db =
     (case work_step cfg en now item db of (lg, db1) \<Rightarrow>
        (case deliver_each cfg en now R db1 of (lg', db2) \<Rightarrow> (lg @ lg', db2)))"
  by (cases item) (auto simp: work_step_def split: option.splits prod.splits)

lemma work_step_rows:
  assumes "work_step cfg en now (d, sub) db = (lg, db')"
  shows "skipped en d sub \<and> lg = [] \<and> db' = db \<or>
    \<not> skipped en d sub \<and> list_all2 (attempted cfg now d) (wd_deliveries db) (wd_deliveries db') \<and>
      (\<forall>i. sent_count lg i \<le> (if i = dl_id d then 1 else 0))"
    and "map plain (wd_subscriptions db') = map plain (wd_subscriptions db)"
proof -
  let ?P = "(skipped en d sub \<and> lg = [] \<and> db' = db \<or>
    \<not> skipped en d sub \<and> list_all2 (attempted cfg now d) (wd_deliveries db) (wd_deliveries db') \<and>
      (\<forall>i. sent_count lg i \<le> (if i = dl_id d then 1 else 0))) \<and>
    map plain (wd_subscriptions db') = map plain (wd_subscriptions db)"
  have ?P
  proof (cases "\<exists>w. sub = Some w \<and> wh_active w")
    case False
    then have "(case sub of None \<Rightarrow> None | Some w \<Rightarrow> if wh_active w then Some w else None) = None"
      by (auto split: option.splits)
    then show ?thesis
      using assms False attempted_record_failed by (auto simp: work_step_def skipped_def)
  next
    case True
    then obtain w where w: "sub = Some w" "wh_active w" by blast
    show ?thesis
    proof (cases "attempt_delivery cfg en now d w db")
      case None
      then have "raises en d w" by (simp add: attempt_delivery_raises)
      then show ?thesis using assms None w by (auto simp: work_step_def skipped_def)
    next
      case (Some res)
      obtain sent db1 where res: "attempt_delivery cfg en now d w db = Some (sent, db1)"
        using Some by (cases res) auto
      then have "\<not> raises en d w" by (simp add: attempt_delivery_raises [symmetric, where cfg = cfg and now = now and db = db])
      then show ?thesis
        using assms w res attempt_delivery_rows [OF res]
        by (auto simp: work_step_def skipped_def split: option.splits)
    qed
  qed
  then show "skipped en d sub \<and> lg = [] \<and> db' = db \<or>
    \<not> skipped en d sub \<and> list_all2 (attempted cfg now d) (wd_deliveries db) (wd_deliveries db') \<and>
      (\<forall>i. sent_count lg i \<le> (if i = dl_id d then 1 else 0))"
    "map plain (wd_subscriptions db') = map plain (wd_subscriptions db)" by blast+
qed

lemma deliver_each_rows:
  "deliver_each cfg en now R db = (lg, db') \<Longrightarrow> distinct (work_ids R) \<Longrightarrow> unchanged R (wd_deliveries db) \<Longrightarrow>
     list_all2 (pass_row cfg en now R lg) (wd_deliveries db) (wd_deliveries db') \<and>
     map plain (wd_subscriptions db') = map plain (wd_subscriptions db)"
proof (induction R arbitrary: db lg)
  case Nil
  then show ?case by (auto simp: pass_row_def list.rel_refl)
next
  case (Cons item R)
  obtain d sub where item: "item = (d, sub)" by (cases item)
  obtain lg1 db1 where step: "work_step cfg en now (d, sub) db = (lg1, db1)" by fastforce
  obtain lg2 where rest: "deliver_each cfg en now R db1 = (lg2, db')" and lg: "lg = lg1 @ lg2"
    using Cons.prems(1) step by (auto simp: deliver_each_Cons item split: prod.splits)
  have d: "dl_id d \<notin> set (work_ids R)" "distinct (work_ids R)" using Cons.prems(2) item by auto
  have own: "x = d" if "x \<in> set (wd_deliveries db)" "dl_id x = dl_id d" for x
    using Cons.prems(3) that by (auto simp: unchanged_def item)
  note effect = work_step_rows [OF step]
  have rows1: "list_all2 (\<lambda>x x1. (dl_id x \<noteq> dl_id d \<and> x1 = x \<and> sent_count lg1 (dl_id x) = 0) \<or>
      (x = d \<and> (skipped en d sub \<and> x1 = d \<and> sent_count lg1 (dl_id d) = 0 \<or>
         attempted cfg now d d x1 \<and> sent_count lg1 (dl_id d) \<le> 1)))
      (wd_deliveries db) (wd_deliveries db1)"
    using effect(1)
  proof
    assume "skipped en d sub \<and> lg1 = [] \<and> db1 = db"
    then show ?thesis using own by (auto intro!: list.rel_refl_strong)
  next
    assume *: "\<not> skipped en d sub \<and> list_all2 (attempted cfg now d) (wd_deliveries db) (wd_deliveries db1) \<and>
      (\<forall>i. sent_count lg1 i \<le> (if i = dl_id d then 1 else 0))"
    then have "list_all2 (attempted cfg now d) (wd_deliveries db) (wd_deliveries db1)" by blast
    then show ?thesis
    proof (rule list.rel_mono_strong)
      fix x x1
      assume x: "x \<in> set (wd_deliveries db)" "attempted cfg now d x x1"
      have "sent_count lg1 (dl_id x) \<le> (if dl_id x = dl_id d then 1 else 0)" using * by blast
      with x show "(dl_id x \<noteq> dl_id d \<and> x1 = x \<and> sent_count lg1 (dl_id x) = 0) \<or>
          (x = d \<and> (skipped en d sub \<and> x1 = d \<and> sent_count lg1 (dl_id d) = 0 \<or>
             attempted cfg now d d x1 \<and> sent_count lg1 (dl_id d) \<le> 1))"
        using own [of x] by (cases "dl_id x = dl_id d") (auto simp: attempted_def)
    qed
  qed
  have "unchanged R (wd_deliveries db1)"
    unfolding unchanged_def
  proof (clarify)
    fix d' sub' x1
    assume r: "(d', sub') \<in> set R" "x1 \<in> set (wd_deliveries db1)" "dl_id x1 = dl_id d'"
    from r(2) rows1 obtain x where x: "x \<in> set (wd_deliveries db)"
      "(dl_id x \<noteq> dl_id d \<and> x1 = x) \<or> (x = d \<and> dl_id x1 = dl_id d)"
      by (auto simp: in_set_conv_nth list_all2_conv_all_nth attempted_def) metis
    moreover have "dl_id d' \<noteq> dl_id d" using d(1) r(1) by force
    ultimately show "x1 = d'" using Cons.prems(3) r(1,3) by (fastforce simp: unchanged_def item)
  qed
  note IH = Cons.IH [OF rest d(2) this]
  have "list_all2 (pass_row cfg en now (item # R) lg) (wd_deliveries db) (wd_deliveries db')"
  proof (rule list_all2_trans [OF _ rows1 conjunct1 [OF IH]])
    fix x x1 x'
    assume "(dl_id x \<noteq> dl_id d \<and> x1 = x \<and> sent_count lg1 (dl_id x) = 0) \<or>
        (x = d \<and> (skipped en d sub \<and> x1 = d \<and> sent_count lg1 (dl_id d) = 0 \<or>
           attempted cfg now d d x1 \<and> sent_count lg1 (dl_id d) \<le> 1))"
      and later: "pass_row cfg en now R lg2 x1 x'"
    then consider (other) "dl_id x \<noteq> dl_id d" "x1 = x" "sent_count lg1 (dl_id x) = 0"
      | (skip) "x = d" "skipped en d sub" "x1 = d" "sent_count lg1 (dl_id d) = 0"
      | (tried) "x = d" "attempted cfg now d d x1" "sent_count lg1 (dl_id d) \<le> 1" by blast
    then show "pass_row cfg en now (item # R) lg x x'"
    proof cases
      case other
      then show ?thesis using later by (auto simp: pass_row_def item lg)
    next
      case skip
      then have "x' = d" "sent_count lg2 (dl_id d) = 0"
        using later d(1) by (auto simp: pass_row_def) force+
      then show ?thesis using skip by (auto simp: pass_row_def item lg)
    next
      case tried
      then have "dl_id x1 = dl_id d" by (simp add: attempted_def)
      then have "x' = x1" "sent_count lg2 (dl_id d) = 0"
        using later d(1) by (auto simp: pass_row_def) force+
      then show ?thesis using tried by (auto simp: pass_row_def item lg)
    qed
  qed
  then show ?case using IH effect(2) by simp
qed

definition work_of :: "delivery_config \<Rightarrow> int \<Rightarrow> webhook_db \<Rightarrow> work" where
  "work_of cfg now db =
     map (\<lambda>d. (d, subscription_for_account (dl_subscription d) (dl_account d) (wd_subscriptions db)))
       (list_due now (batch_limit cfg) (wd_deliveries db))"

lemma deliver_once_work: "deliver_once cfg en now db = deliver_each cfg en now (work_of cfg now db) db"
  by (simp add: deliver_once_def work_of_def)

lemma list_due_set:
  "d \<in> set (list_due now limit t) \<Longrightarrow> d \<in> set t \<and> dl_status d = Pending \<and> dl_next_at d \<le> now"
  unfolding list_due_def by (drule in_set_takeD) simp

lemma list_due_ids:
  assumes "distinct (map dl_id t)"
  shows "distinct (map dl_id (list_due now limit t))"
proof -
  have "distinct t" "inj_on dl_id (set t)" using assms by (simp_all add: distinct_map)
  then have "distinct (list_due now limit t)" by (simp add: list_due_def)
  moreover have "inj_on dl_id (set (list_due now limit t))"
    by (rule inj_on_subset [OF \<open>inj_on dl_id (set t)\<close>]) (auto dest: list_due_set)
  ultimately show ?thesis by (simp add: distinct_map)
qed

lemma deliver_once_rows:
  assumes "distinct (map dl_id (wd_deliveries db))" and "deliver_once cfg en now db = (lg, db')"
  shows "list_all2 (pass_row cfg en now (work_of cfg now db) lg) (wd_deliveries db) (wd_deliveries db')"
    and "map plain (wd_subscriptions db') = map plain (wd_subscriptions db)"
proof -
  have "distinct (work_ids (work_of cfg now db))"
    using list_due_ids [OF assms(1)] by (simp add: work_of_def o_def)
  moreover have "unchanged (work_of cfg now db) (wd_deliveries db)"
    unfolding unchanged_def
  proof (clarify)
    fix d sub x
    assume "(d, sub) \<in> set (work_of cfg now db)" "x \<in> set (wd_deliveries db)" "dl_id x = dl_id d"
    then show "x = d"
      using assms(1) list_due_set [of d now "batch_limit cfg" "wd_deliveries db"]
      by (auto simp: work_of_def distinct_map dest: inj_onD)
  qed
  ultimately show "list_all2 (pass_row cfg en now (work_of cfg now db) lg) (wd_deliveries db) (wd_deliveries db')"
    "map plain (wd_subscriptions db') = map plain (wd_subscriptions db)"
    using deliver_each_rows assms(2) unfolding deliver_once_work by blast+
qed

lemma in_work:
  "(x, sub) \<in> set (work_of cfg now db) \<Longrightarrow> x \<in> set (wd_deliveries db) \<and> dl_status x = Pending \<and>
     dl_next_at x \<le> now \<and> sub = subscription_for_account (dl_subscription x) (dl_account x) (wd_subscriptions db)"
  by (auto simp: work_of_def dest: list_due_set)

lemma ids_kept: "list_all2 (\<lambda>x x'. dl_id x' = dl_id x) t t' \<Longrightarrow> map dl_id t' = map dl_id t"
  by (induction rule: list_all2_induct) auto

lemma deliver_once_ids:
  assumes "distinct (map dl_id (wd_deliveries db))" and "deliver_once cfg en now db = (lg, db')"
  shows "map dl_id (wd_deliveries db') = map dl_id (wd_deliveries db)"
  by (rule ids_kept, rule list.rel_mono_strong [OF deliver_once_rows(1) [OF assms]])
     (auto simp: pass_row_def attempted_def)

section \<open>Guarded requests\<close>

lemma deliver_each_sends:
  "deliver_each cfg en now R db = (lg, db') \<Longrightarrow> (i, out) \<in> set lg \<Longrightarrow>
     \<exists>d w. (d, Some w) \<in> set R \<and> dl_id d = i \<and> wh_active w \<and> signed_request en d w out"
proof (induction cfg en now R db arbitrary: lg db' rule: deliver_each.induct)
  case (2 cfg en now d sub R db)
  show ?case
  proof (cases "\<exists>w. sub = Some w \<and> wh_active w")
    case False
    then have none: "(case sub of None \<Rightarrow> None | Some w \<Rightarrow> if wh_active w then Some w else None) = None"
      by (auto split: option.splits)
    then show ?thesis using 2 by fastforce
  next
    case True
    then obtain w where w: "sub = Some w" "wh_active w" by blast
    show ?thesis
    proof (cases "attempt_delivery cfg en now d w db")
      case None
      then show ?thesis using 2 w by fastforce
    next
      case (Some res)
      obtain sent db1 where res: "attempt_delivery cfg en now d w db = Some (sent, db1)"
        using Some by (cases res) auto
      obtain lg1 db2 where rest: "deliver_each cfg en now R db1 = (lg1, db2)" by fastforce
      have lg: "lg = (case sent of None \<Rightarrow> lg1 | Some o' \<Rightarrow> (dl_id d, o') # lg1)"
        using 2(4) w res rest by (auto split: option.splits)
      show ?thesis
      proof (cases "(i, out) \<in> set lg1")
        case True
        then show ?thesis using 2(3) w res rest by fastforce
      next
        case False
        then have "sent = Some out" "i = dl_id d" using 2(5) lg by (auto split: option.splits)
        then show ?thesis using attempt_delivery_sends res w by fastforce
      qed
    qed
  qed
qed simp

text \<open>C19: Every request a pass sends belongs to a due, pending delivery and to an active
  subscription of the delivery's own account; it connects to an address that this attempt's own
  resolution of the subscription's host returned first together with no internal address, with
  that host as server name, and carries a signature under the subscription's secret of exactly
  the bytes sent.\<close>

theorem webhook_request_guarded:
  assumes "deliver_once cfg en now db = (lg, db')" and "(i, out) \<in> set lg"
  shows "\<exists>d w. d \<in> set (wd_deliveries db) \<and> w \<in> set (wd_subscriptions db) \<and> dl_id d = i \<and>
    dl_status d = Pending \<and> dl_next_at d \<le> now \<and>
    wh_id w = dl_subscription d \<and> wh_account w = dl_account d \<and> wh_active w \<and> signed_request en d w out"
proof -
  obtain d w where *: "(d, Some w) \<in> set (work_of cfg now db)" "dl_id d = i" "wh_active w" "signed_request en d w out"
    using deliver_each_sends assms unfolding deliver_once_work by blast
  then have "List.find (\<lambda>w. wh_id w = dl_subscription d \<and> wh_account w = dl_account d) (wd_subscriptions db) = Some w"
    using in_work [OF *(1)] by (simp add: subscription_for_account_def)
  then have "w \<in> set (wd_subscriptions db) \<and> wh_id w = dl_subscription d \<and> wh_account w = dl_account d"
    by (auto simp: find_Some_iff)
  then show ?thesis using * in_work [OF *(1)] by blast
qed

section \<open>Bounded attempts\<close>

definition row_ok :: "delivery_config \<Rightarrow> delivery \<Rightarrow> bool" where
  "row_ok cfg x = (dl_attempts x \<le> max_attempts cfg \<and> (dl_status x = Pending \<longrightarrow> dl_attempts x < max_attempts cfg))"

definition within_attempts :: "delivery_config \<Rightarrow> (string \<times> outgoing) list \<Rightarrow> delivery \<Rightarrow> delivery \<Rightarrow> bool" where
  "within_attempts cfg lg x x' =
     (dl_id x' = dl_id x \<and> dl_attempts x + sent_count lg (dl_id x) \<le> dl_attempts x' \<and> row_ok cfg x')"

lemma deliver_once_attempts:
  assumes "distinct (map dl_id (wd_deliveries db))" and "list_all (row_ok cfg) (wd_deliveries db)"
    and "deliver_once cfg en now db = (lg, db')"
  shows "list_all2 (within_attempts cfg lg) (wd_deliveries db) (wd_deliveries db')"
proof (rule list.rel_mono_strong [OF deliver_once_rows(1) [OF assms(1,3)]])
  fix x x'
  assume "x \<in> set (wd_deliveries db)" "pass_row cfg en now (work_of cfg now db) lg x x'"
  then show "within_attempts cfg lg x x'"
    using assms(2) by (auto simp: pass_row_def within_attempts_def row_ok_def attempted_def list_all_iff dest!: in_work)
qed

lemma within_attempts_trans:
  "within_attempts cfg lg x y \<Longrightarrow> within_attempts cfg lg' y z \<Longrightarrow> within_attempts cfg (lg @ lg') x z"
  by (auto simp: within_attempts_def)

lemma run_passes_attempts:
  "distinct (map dl_id (wd_deliveries db)) \<Longrightarrow> list_all (row_ok cfg) (wd_deliveries db) \<Longrightarrow>
     run_passes cfg passes db = (lg, db') \<Longrightarrow>
     list_all2 (within_attempts cfg lg) (wd_deliveries db) (wd_deliveries db')"
proof (induction passes arbitrary: db lg)
  case Nil
  then show ?case by (auto simp: within_attempts_def list_all_iff intro!: list.rel_refl_strong)
next
  case (Cons p passes)
  obtain now en where p: "p = (now, en)" by (cases p)
  obtain lg1 db1 where one: "deliver_once cfg en now db = (lg1, db1)" by fastforce
  obtain lg2 where rest: "run_passes cfg passes db1 = (lg2, db')" and lg: "lg = lg1 @ lg2"
    using Cons.prems(3) one by (auto simp: p split: prod.splits)
  note first = deliver_once_attempts [OF Cons.prems(1,2) one]
  have "list_all (row_ok cfg) (wd_deliveries db1)"
    using first by (auto simp: list_all_length list_all2_conv_all_nth within_attempts_def)
  then have second: "list_all2 (within_attempts cfg lg2) (wd_deliveries db1) (wd_deliveries db')"
    using Cons.IH [OF _ _ rest] deliver_once_ids [OF Cons.prems(1) one] Cons.prems(1) by simp
  show ?case unfolding lg by (rule list_all2_trans [OF within_attempts_trans first second])
qed

text \<open>C20: Over any number of passes, at any times and whatever the receivers answer, a delivery is
  sent at most as often as its attempts are counted, its count never exceeds the configured
  maximum, and it is no longer pending once it reaches it.\<close>

theorem webhook_attempts_bounded:
  assumes "distinct (map dl_id (wd_deliveries db))" and "list_all (row_ok cfg) (wd_deliveries db)"
    and "run_passes cfg passes db = (lg, db')"
  shows "list_all2 (\<lambda>x x'. dl_id x' = dl_id x \<and> dl_attempts x + sent_count lg (dl_id x) \<le> dl_attempts x' \<and>
      dl_attempts x' \<le> max_attempts cfg \<and> (dl_attempts x' = max_attempts cfg \<longrightarrow> dl_status x' \<noteq> Pending))
    (wd_deliveries db) (wd_deliveries db')"
  using run_passes_attempts [OF assms]
  by (rule list.rel_mono_strong) (auto simp: within_attempts_def row_ok_def)

section \<open>Settling\<close>

text \<open>Passes far enough apart that whatever was put off is due again.\<close>

fun spaced :: "delivery_config \<Rightarrow> int \<Rightarrow> (int \<times> delivery_env) list \<Rightarrow> bool" where
  "spaced cfg t [] = True"
| "spaced cfg t ((now, en) # passes) = (t \<le> now \<and> spaced cfg (now + int (retry_max cfg) * 1000000) passes)"

definition never_raises :: "(int \<times> delivery_env) list \<Rightarrow> webhook_db \<Rightarrow> bool" where
  "never_raises passes db =
     (\<forall>(now, en)\<in>set passes. \<forall>d\<in>set (wd_deliveries db). \<forall>w\<in>set (wd_subscriptions db). \<not> raises en d w)"

lemma raises_cong:
  assumes "dl_payload d = dl_payload d'" and "plain w = plain w'"
  shows "raises en d w = raises en d' w'"
proof -
  have "raises en d (plain w) = raises en d' (plain w)"
    by (cases "de_parse_url en (wh_url w)") (simp_all add: raises_def body_of_def assms(1))
  then show ?thesis using raises_plain [of en d w] raises_plain [of en d' w'] assms(2) by simp
qed

lemma deliver_once_never_raises:
  assumes "distinct (map dl_id (wd_deliveries db))" and "deliver_once cfg en now db = (lg, db')"
    and "never_raises passes db"
  shows "never_raises passes db'"
  unfolding never_raises_def
proof (clarify)
  fix now' en' d' w'
  assume *: "(now', en') \<in> set passes" "d' \<in> set (wd_deliveries db')" "w' \<in> set (wd_subscriptions db')" "raises en' d' w'"
  obtain d where d: "d \<in> set (wd_deliveries db)" "dl_payload d' = dl_payload d"
    using list_all2_back [OF deliver_once_rows(1) [OF assms(1,2)] *(2)]
    by (auto simp: pass_row_def attempted_def)
  have "plain w' \<in> plain ` set (wd_subscriptions db)"
    using *(3) deliver_once_rows(2) [OF assms(1,2)] by (metis image_eqI image_set)
  then obtain w where "w \<in> set (wd_subscriptions db)" "plain w' = plain w" by auto
  then show False using assms(3) *(1,4) d raises_cong [OF d(2), of w' w en'] unfolding never_raises_def by fastforce
qed

definition pending_from :: "int \<Rightarrow> nat \<Rightarrow> webhook_db \<Rightarrow> bool" where
  "pending_from t k db =
     list_all (\<lambda>x. dl_status x = Pending \<longrightarrow> k \<le> dl_attempts x \<and> dl_next_at x \<le> t) (wd_deliveries db)"

lemma all_due_in_work:
  assumes "length (wd_deliveries db) \<le> batch_limit cfg" and "x \<in> set (wd_deliveries db)"
    and "dl_status x = Pending" and "dl_next_at x \<le> now"
  shows "dl_id x \<in> set (work_ids (work_of cfg now db))"
proof -
  let ?due = "filter (\<lambda>d. dl_status d = Pending \<and> dl_next_at d \<le> now) (wd_deliveries db)"
  have "length ?due \<le> batch_limit cfg" using assms(1) length_filter_le order_trans by blast
  then have "list_due now (batch_limit cfg) (wd_deliveries db) = sort_key dl_next_at ?due"
    by (simp add: list_due_def)
  then show ?thesis using assms(2-4) by (auto simp: work_of_def)
qed

lemma deliver_once_progress:
  assumes "distinct (map dl_id (wd_deliveries db))" and "deliver_once cfg en now db = (lg, db')"
    and "length (wd_deliveries db) \<le> batch_limit cfg" and "never_raises [(now, en)] db"
    and "pending_from t k db" and "t \<le> now"
  shows "pending_from (now + int (retry_max cfg) * 1000000) (Suc k) db'"
proof -
  have "dl_status x' = Pending \<longrightarrow> Suc k \<le> dl_attempts x' \<and> dl_next_at x' \<le> now + int (retry_max cfg) * 1000000"
    if x: "x \<in> set (wd_deliveries db)" and row: "pass_row cfg en now (work_of cfg now db) lg x x'" for x x'
  proof (cases "dl_status x = Pending")
    case True
    have k: "k \<le> dl_attempts x" and due: "dl_next_at x \<le> now"
      using x True assms(5,6) by (auto simp: pending_from_def list_all_iff)
    have "\<not> skipped en x sub" if "(x, sub) \<in> set (work_of cfg now db)" for sub
    proof
      assume "skipped en x sub"
      then obtain w where w: "sub = Some w" "raises en x w" by (auto simp: skipped_def)
      then have "w \<in> set (wd_subscriptions db)"
        using in_work [OF that] by (auto simp: subscription_for_account_def find_Some_iff)
      then show False using assms(4) x w(2) by (auto simp: never_raises_def)
    qed
    then have "attempted cfg now x x x'"
      using row all_due_in_work [OF assms(3) x True due] unfolding pass_row_def by blast
    then show ?thesis using k by (auto simp: attempted_def)
  next
    case False
    then show ?thesis using row by (auto simp: pass_row_def attempted_def dest: in_work)
  qed
  then show ?thesis
    using deliver_once_rows(1) [OF assms(1,2)]
    unfolding pending_from_def list_all_length list_all2_conv_all_nth by (metis nth_mem)
qed

lemma run_passes_progress:
  "run_passes cfg passes db = (lg, db') \<Longrightarrow> distinct (map dl_id (wd_deliveries db)) \<Longrightarrow>
     length (wd_deliveries db) \<le> batch_limit cfg \<Longrightarrow> never_raises passes db \<Longrightarrow> pending_from t k db \<Longrightarrow>
     spaced cfg t passes \<Longrightarrow>
     list_all (\<lambda>x. dl_status x = Pending \<longrightarrow> k + length passes \<le> dl_attempts x) (wd_deliveries db')"
proof (induction passes arbitrary: db lg t k)
  case Nil
  then show ?case by (auto simp: pending_from_def list_all_iff)
next
  case (Cons p passes)
  obtain now en where p: "p = (now, en)" by (cases p)
  obtain lg1 db1 where one: "deliver_once cfg en now db = (lg1, db1)" by fastforce
  obtain lg2 where rest: "run_passes cfg passes db1 = (lg2, db')"
    using Cons.prems(1) one by (auto simp: p split: prod.splits)
  have calm: "never_raises [(now, en)] db" "never_raises passes db"
    using Cons.prems(4) by (simp_all add: never_raises_def p)
  note ids = deliver_once_ids [OF Cons.prems(2) one]
  have "pending_from (now + int (retry_max cfg) * 1000000) (Suc k) db1"
    using deliver_once_progress [OF Cons.prems(2) one Cons.prems(3) calm(1) Cons.prems(5)] Cons.prems(6) by (simp add: p)
  moreover have "length (wd_deliveries db1) = length (wd_deliveries db)" using ids by (metis length_map)
  ultimately show ?case
    using Cons.IH [OF rest _ _ deliver_once_never_raises [OF Cons.prems(2) one calm(2)], of "now + int (retry_max cfg) * 1000000" "Suc k"]
      ids Cons.prems(2,3,6) by (simp add: p)
qed

text \<open>As long as no attempt raises and the batch holds all rows, every delivery is settled:
  after as many passes as attempts are allowed, each at least the longest backoff after the one
  before, no delivery is pending any more, whatever the receivers answered.\<close>

theorem webhook_deliveries_settle:
  assumes "distinct (map dl_id (wd_deliveries db))" and "list_all (row_ok cfg) (wd_deliveries db)"
    and "length (wd_deliveries db) \<le> batch_limit cfg" and "never_raises passes db"
    and "list_all (\<lambda>x. dl_status x = Pending \<longrightarrow> dl_next_at x \<le> t) (wd_deliveries db)" and "spaced cfg t passes"
    and "max_attempts cfg \<le> length passes" and "run_passes cfg passes db = (lg, db')"
  shows "list_all (\<lambda>x. dl_status x \<noteq> Pending) (wd_deliveries db')"
proof -
  have "pending_from t 0 db" using assms(5) by (simp add: pending_from_def)
  from run_passes_progress [OF assms(8,1,3,4) this assms(6)]
  have "list_all (\<lambda>x. dl_status x = Pending \<longrightarrow> length passes \<le> dl_attempts x) (wd_deliveries db')" by simp
  moreover have "list_all (row_ok cfg) (wd_deliveries db')"
  proof -
    have "list_all2 (within_attempts cfg lg) (wd_deliveries db) (wd_deliveries db')"
      by (rule run_passes_attempts [OF assms(1,2,8)])
    then show ?thesis by (auto simp: list_all_length list_all2_conv_all_nth within_attempts_def)
  qed
  ultimately show ?thesis using assms(7) unfolding list_all_iff row_ok_def by (meson le_trans not_le)
qed

section \<open>Starvation\<close>

text \<open>An attempt at this delivery raises: its destination is allowed, but its port is unreadable.\<close>

definition unreadable_port :: "delivery_env \<Rightarrow> webhook_db \<Rightarrow> delivery \<Rightarrow> bool" where
  "unreadable_port en db d \<longleftrightarrow>
     (case subscription_for_account (dl_subscription d) (dl_account d) (wd_subscriptions db) of
        None \<Rightarrow> False
      | Some w \<Rightarrow> wh_active w \<and> wh_format w \<noteq> ''splunk_hec'' \<and> de_decrypt en (wh_sealed_secret w) \<noteq> None \<and>
          (case de_parse_url en (wh_url w) of
             None \<Rightarrow> False
           | Some u \<Rightarrow> pu_port u = Inl () \<and> destination en u \<noteq> None))"

lemma unreadable_skipped:
  "unreadable_port en db d \<Longrightarrow>
     skipped en d (subscription_for_account (dl_subscription d) (dl_account d) (wd_subscriptions db))"
  by (auto simp: unreadable_port_def skipped_def raises_def body_of_def split: option.splits)

lemma deliver_each_skipped:
  "list_all (\<lambda>(d, sub). skipped en d sub) R \<Longrightarrow> deliver_each cfg en now R db = ([], db)"
proof (induction R)
  case (Cons item R)
  obtain d sub where item: "item = (d, sub)" by (cases item)
  obtain w where w: "sub = Some w" "wh_active w" "raises en d w"
    using Cons.prems by (auto simp: item skipped_def)
  then have "attempt_delivery cfg en now d w db = None" by (simp add: attempt_delivery_raises)
  then show ?case using Cons w by (simp add: item)
qed simp

lemma list_due_early:
  assumes "t0 \<le> now" and "limit \<le> length (filter (\<lambda>d. dl_status d = Pending \<and> dl_next_at d \<le> t0) t)"
    and "d \<in> set (list_due now limit t)"
  shows "dl_next_at d \<le> t0"
proof -
  let ?s = "sort_key dl_next_at (filter (\<lambda>d. dl_status d = Pending \<and> dl_next_at d \<le> now) t)"
  define A B where "A = filter (\<lambda>d. dl_next_at d < t0 + 1) ?s" and "B = filter (\<lambda>d. \<not> dl_next_at d < t0 + 1) ?s"
  have s: "?s = A @ B" unfolding A_def B_def by (rule sorted_split) simp
  have "filter (\<lambda>d. (dl_status d = Pending \<and> dl_next_at d \<le> now) \<and> dl_next_at d < t0 + 1) t =
      filter (\<lambda>d. dl_status d = Pending \<and> dl_next_at d \<le> t0) t"
    using assms(1) by (intro filter_cong) auto
  then have "limit \<le> length A" using assms(2) unfolding A_def filter_sort filter_filter by (simp only: length_sort)
  then have "take limit ?s = take limit A" by (subst s) simp
  then have "d \<in> set A" using assms(3) unfolding list_due_def by (auto dest: in_set_takeD)
  then show ?thesis by (simp add: A_def)
qed

text \<open>If at least as many pending deliveries as one batch holds go to URLs with an unreadable
  port, and they are the earliest ones, then no later pass sends, records or settles anything:
  every other account's deliveries wait forever behind them.\<close>

theorem unreadable_ports_starve_all:
  assumes "batch_limit cfg \<le> length (filter (\<lambda>d. dl_status d = Pending \<and> dl_next_at d \<le> t0) (wd_deliveries db))"
    and "\<forall>(now, en)\<in>set passes. t0 \<le> now \<and>
      list_all (\<lambda>d. dl_status d = Pending \<and> dl_next_at d \<le> t0 \<longrightarrow> unreadable_port en db d) (wd_deliveries db)"
  shows "run_passes cfg passes db = ([], db)"
  using assms(2)
proof (induction passes)
  case (Cons p passes)
  obtain now en where p: "p = (now, en)" by (cases p)
  have "list_all (\<lambda>(d, sub). skipped en d sub) (work_of cfg now db)"
    unfolding list_all_iff
  proof (clarify)
    fix d sub
    assume work: "(d, sub) \<in> set (work_of cfg now db)"
    then have "dl_next_at d \<le> t0"
      using list_due_early [OF _ assms(1), of now d] Cons.prems by (auto simp: p work_of_def)
    then show "skipped en d sub"
      using in_work [OF work] Cons.prems unreadable_skipped by (auto simp: p list_all_iff)
  qed
  then have "deliver_once cfg en now db = ([], db)" by (simp add: deliver_once_work deliver_each_skipped)
  then show ?case using Cons by (simp add: p)
qed simp

section \<open>A worked example\<close>

text \<open>One subscription with a readable port, one with port 99999, and a delivery for each; the
  receiver answers every request with the given status.\<close>

definition sample_config :: "nat \<Rightarrow> delivery_config" where
  "sample_config n = \<lparr>max_attempts = 2, retry_base = 30, retry_max = 60, batch_limit = n\<rparr>"

definition sample_env :: "nat \<Rightarrow> delivery_env" where
  "sample_env code =
     \<lparr>de_parse_url = (\<lambda>u. Some \<lparr>pu_scheme = ''https'', pu_hostname = Some ''h'',
         pu_port = (if u = ''https://h:99999/'' then Inl () else Inr None), pu_target = ''/''\<rparr>),
      de_getaddrinfo = (\<lambda>h. Some [''8.8.8.8'']), de_decrypt = Some,
      de_hmac = (\<lambda>secret text'. secret @ text'),
      de_clock = \<lparr>iso_text = (\<lambda>t. decimal (nat t)), iso_parse = (\<lambda>x. None), float_text = (\<lambda>t. decimal (nat t))\<rparr>,
      de_send = (\<lambda>out. Inr (code, ''ok''))\<rparr>"

definition sample_subscription :: "string \<Rightarrow> string \<Rightarrow> string \<Rightarrow> subscription" where
  "sample_subscription i account url =
     \<lparr>wh_id = i, wh_account = account, wh_url = url, wh_description = None, wh_event_types = [''sandbox.created''],
      wh_sealed_secret = ''whsec'', wh_active = True, wh_format = ''boxxkite_v1'', wh_sealed_hec = None,
      wh_created_at = 0, wh_last_triggered = None\<rparr>"

definition sample_delivery :: "string \<Rightarrow> string \<Rightarrow> string \<Rightarrow> int \<Rightarrow> delivery" where
  "sample_delivery i subscription_id account next_at =
     hd (create_delivery i subscription_id account ''sandbox.created'' (JObj [(''event'', JStr ''e'')]) next_at [])"

definition sample_db :: webhook_db where
  "sample_db = \<lparr>wd_subscriptions = [sample_subscription ''w1'' ''a1'' ''https://h/''],
     wd_deliveries = [sample_delivery ''d1'' ''w1'' ''a1'' 1]\<rparr>"

definition poisoned_db :: webhook_db where
  "poisoned_db = \<lparr>wd_subscriptions = [sample_subscription ''w1'' ''a1'' ''https://h/'', sample_subscription ''w2'' ''a2'' ''https://h:99999/''],
     wd_deliveries = [sample_delivery ''d1'' ''w1'' ''a1'' 3, sample_delivery ''d2'' ''w2'' ''a2'' 2]\<rparr>"

lemma sample_destination:
  "resolve_and_validate_destination_ip (\<lambda>h. Some [''8.8.8.8'']) h = Some ''8.8.8.8''"
  "\<not> resolve_host_is_unsafe (\<lambda>h. Some [''8.8.8.8'']) ''h''"
proof -
  have "\<not> is_disallowed_destination_ip ''8.8.8.8''"
    by (simp add: is_disallowed_destination_ip.simps parse_eval disallowed_class_def v4_is_private_def
        v4_private_networks_def v4_private_exceptions_def in_net_def in_cgnat_def cgnat_network_def)
  moreover have "\<not> hostname_is_obviously_unsafe ''h''" by code_simp
  ultimately show "resolve_and_validate_destination_ip (\<lambda>h. Some [''8.8.8.8'']) h = Some ''8.8.8.8''"
    "\<not> resolve_host_is_unsafe (\<lambda>h. Some [''8.8.8.8'']) ''h''"
    by (simp_all add: resolve_and_validate_destination_ip_def resolve_host_is_unsafe_def)
qed

lemmas sample_run = sample_config_def sample_env_def sample_subscription_def sample_delivery_def create_delivery_def
  sample_destination(1) deliver_once_def list_due_def subscription_for_account_def attempt_delivery_def Let_def
  record_failure_def record_failed_attempt_def mark_delivered_def touch_last_triggered_def next_backoff_seconds_def

lemma webhook_request_guarded_witness:
  "map fst (fst (deliver_once (sample_config 10) (sample_env 200) 5 sample_db)) = [''d1''] \<and>
   (\<exists>d w. dl_id d = ''d1'' \<and> wh_active w \<and>
      signed_request (sample_env 200) d w (snd (hd (fst (deliver_once (sample_config 10) (sample_env 200) 5 sample_db)))))"
proof -
  have sent: "map fst (fst (deliver_once (sample_config 10) (sample_env 200) 5 sample_db)) = [''d1'']"
    by (simp add: sample_db_def sample_run)
  obtain lg db' where run: "deliver_once (sample_config 10) (sample_env 200) 5 sample_db = (lg, db')" by fastforce
  then obtain out where lg: "lg = [(''d1'', out)]" using sent by (cases lg) auto
  have "(''d1'', out) \<in> set lg" using lg by simp
  from webhook_request_guarded [OF run this] show ?thesis using sent run lg by auto
qed

lemma webhook_attempts_bounded_witness:
  "dl_attempts (hd (wd_deliveries (snd (run_passes (sample_config 10)
      [(5, sample_env 500), (60000000, sample_env 500), (120000000, sample_env 500)] sample_db)))) = 2 \<and>
   sent_count (fst (run_passes (sample_config 10)
      [(5, sample_env 500), (60000000, sample_env 500), (120000000, sample_env 500)] sample_db)) ''d1'' \<le> 2"
proof -
  let ?passes = "[(5, sample_env 500), (60000000, sample_env 500), (120000000, sample_env 500)]"
  obtain lg db' where run: "run_passes (sample_config 10) ?passes sample_db = (lg, db')" by fastforce
  have two: "dl_attempts (hd (wd_deliveries (snd (run_passes (sample_config 10) ?passes sample_db)))) = 2"
    by (simp add: sample_db_def sample_run)
  have "distinct (map dl_id (wd_deliveries sample_db))" "list_all (row_ok (sample_config 10)) (wd_deliveries sample_db)"
    by (simp_all add: sample_db_def sample_run row_ok_def)
  from webhook_attempts_bounded [OF this run] show ?thesis
    using two run by (auto simp: sample_db_def sample_run list_all2_Cons1)
qed

lemma webhook_deliveries_settle_witness:
  "list_all (\<lambda>x. dl_status x \<noteq> Pending) (wd_deliveries (snd (run_passes (sample_config 10)
      [(5, sample_env 500), (60000005, sample_env 200)] sample_db)))"
proof -
  have ok: "distinct (map dl_id (wd_deliveries sample_db))" "list_all (row_ok (sample_config 10)) (wd_deliveries sample_db)"
    "length (wd_deliveries sample_db) \<le> batch_limit (sample_config 10)"
    "never_raises [(5, sample_env 500), (60000005, sample_env 200)] sample_db"
    "list_all (\<lambda>x. dl_status x = Pending \<longrightarrow> dl_next_at x \<le> 2) (wd_deliveries sample_db)"
    "spaced (sample_config 10) 2 [(5, sample_env 500), (60000005, sample_env 200)]"
    "max_attempts (sample_config 10) \<le> length [(5 :: int, sample_env 500), (60000005, sample_env 200)]"
    by (simp_all add: sample_db_def sample_run row_ok_def never_raises_def raises_def destination_def body_of_def)
  show ?thesis by (rule webhook_deliveries_settle [OF ok, OF prod.collapse [symmetric]])
qed

text \<open>The bad URL passes registration, and its delivery alone blocks a batch of one.\<close>

lemma unreadable_ports_starve_all_witness:
  "validate_webhook_url (de_parse_url (sample_env 200)) (de_getaddrinfo (sample_env 200)) ''https://h:99999/'' = None \<and>
   run_passes (sample_config 1) [(5, sample_env 200), (60000000, sample_env 200)] poisoned_db = ([], poisoned_db)"
proof
  show "validate_webhook_url (de_parse_url (sample_env 200)) (de_getaddrinfo (sample_env 200)) ''https://h:99999/'' = None"
    by (simp add: validate_webhook_url_def sample_env_def sample_destination(2))
  have "batch_limit (sample_config 1) \<le>
      length (filter (\<lambda>d. dl_status d = Pending \<and> dl_next_at d \<le> 2) (wd_deliveries poisoned_db))"
    "\<forall>(now, en)\<in>set [(5 :: int, sample_env 200), (60000000, sample_env 200)]. 2 \<le> now \<and>
       list_all (\<lambda>d. dl_status d = Pending \<and> dl_next_at d \<le> 2 \<longrightarrow> unreadable_port en poisoned_db d) (wd_deliveries poisoned_db)"
    by (simp_all add: poisoned_db_def sample_run unreadable_port_def destination_def)
  then show "run_passes (sample_config 1) [(5, sample_env 200), (60000000, sample_env 200)] poisoned_db = ([], poisoned_db)"
    by (rule unreadable_ports_starve_all)
qed

end
