(* ===== verification/FileSystem.thy ===== *)
theory FileSystem
  imports Prelude
begin

text \<open>
  The file system the sidecar's file operations run on. A file system maps canonical
  absolute paths (lists of names) to directories, regular files and symbolic links.
  Two resolutions of a path are defined on it: the kernel's (\<open>walk\<close>, which
  fails after too many links and, when strict, on a missing or non-directory prefix) and
  \<open>os.path.realpath\<close> of CPython's \<open>posixpath\<close>, which never fails, caches
  the links it has resolved, and on a cycle returns the rest of the path unresolved. The
  main lemma, \<open>realpath_walk\<close>, says that whenever the kernel can follow a path,
  realpath gives the place it leads to. Path strings contain no NUL character (CPython
  raises \<open>ValueError\<close> on them).
\<close>

section \<open>Nodes and paths\<close>

text \<open>The bytes of a regular file are the UTF-8 text of a string, or cannot be decoded: then
  the text a reader gets before the decoder fails, and the size in bytes, are kept.\<close>

datatype content = Utf8 string | Undecodable string nat

datatype node = Directory | Regular content | Symlink string

type_synonym path = "string list"
type_synonym fs = "(path, node) dict"

definition node_at :: "fs \<Rightarrow> path \<Rightarrow> node option" where
  "node_at fs p = (if p = [] then Some Directory else dict_get fs p)"

definition link_at :: "fs \<Rightarrow> path \<Rightarrow> string option" where
  "link_at fs p = (case node_at fs p of Some (Symlink t) \<Rightarrow> Some t | _ \<Rightarrow> None)"

definition ok_name :: "string \<Rightarrow> bool" where
  "ok_name n = (n \<noteq> [] \<and> n \<noteq> ''.'' \<and> n \<noteq> ''..'' \<and> CHR ''/'' \<notin> set n)"

definition path_text :: "path \<Rightarrow> string" where
  "path_text p = ''/'' @ py_join ''/'' p"

definition names :: "string \<Rightarrow> string list" where
  "names s = filter (\<lambda>n. n \<noteq> [] \<and> n \<noteq> ''.'') (py_split CHR ''/'' s)"

definition is_abs :: "string \<Rightarrow> bool" where
  "is_abs s = py_startswith s ''/''"

text \<open>A link is resolved from the root when its target is absolute, else from its directory.\<close>

definition link_base :: "path \<Rightarrow> string \<Rightarrow> path" where
  "link_base p t = (if is_abs t then [] else p)"

section \<open>Resolution by the kernel\<close>

definition max_symlinks :: nat where
  "max_symlinks = 40"

function walk :: "bool \<Rightarrow> fs \<Rightarrow> nat \<Rightarrow> path \<Rightarrow> string list \<Rightarrow> (nat \<times> path) option" where
  "walk strict fs k p [] = Some (k, p)"
| "walk strict fs k p (n # ns) =
     (if strict \<and> node_at fs p \<noteq> Some Directory then None
      else if n = ''..'' then walk strict fs k (butlast p) ns
      else case link_at fs (p @ [n]) of
             None \<Rightarrow> walk strict fs k (p @ [n]) ns
           | Some t \<Rightarrow>
               (case k of 0 \<Rightarrow> None
                | Suc j \<Rightarrow> walk strict fs j (link_base p t) (names t @ ns)))"
  by pat_completeness auto
termination by (relation "measures [\<lambda>(strict, fs, k, p, ns). k, \<lambda>(strict, fs, k, p, ns). length ns]") auto

declare walk.simps(2) [simp del]

definition follow :: "fs \<Rightarrow> string \<Rightarrow> path option" where
  "follow fs s = map_option snd (walk True fs max_symlinks [] (names s))"

definition stat_node :: "fs \<Rightarrow> string \<Rightarrow> node option" where
  "stat_node fs s = (case follow fs s of None \<Rightarrow> None | Some r \<Rightarrow> node_at fs r)"

definition path_exists :: "fs \<Rightarrow> string \<Rightarrow> bool" where
  "path_exists fs s = (stat_node fs s \<noteq> None)"

definition path_isdir :: "fs \<Rightarrow> string \<Rightarrow> bool" where
  "path_isdir fs s = (stat_node fs s = Some Directory)"

section \<open>os.path.realpath\<close>

text \<open>\<open>os.path.join(a, b)\<close> for an absolute \<open>a\<close>.\<close>

definition path_join :: "string \<Rightarrow> string \<Rightarrow> string" where
  "path_join a b = (if is_abs b then b else if py_endswith a ''/'' then a @ b else a @ ''/'' @ b)"

text \<open>\<open>os.path.normpath\<close> of an absolute path: exactly two leading slashes are kept.\<close>

definition norm_step :: "string \<Rightarrow> path \<Rightarrow> path" where
  "norm_step n acc = (if n = ''..'' then butlast acc else acc @ [n])"

definition abs_normpath :: "string \<Rightarrow> string" where
  "abs_normpath s =
     (if py_startswith s ''//'' \<and> \<not> py_startswith s ''///'' then ''/'' else [])
       @ path_text (fold norm_step (names s) [])"

datatype resolution = Resolved path | Cyclic string

type_synonym link_cache = "(path, path option) dict"

text \<open>\<open>partition("/")\<close> of a non-empty rest.\<close>

definition next_name :: "string \<Rightarrow> string \<times> string" where
  "next_name s = (case split_once CHR ''/'' s of (a, b) \<Rightarrow> (a, case b of None \<Rightarrow> [] | Some r \<Rightarrow> r))"

lemma next_name_shorter: "s \<noteq> [] \<Longrightarrow> length (snd (next_name s)) < length s"
proof (induction s)
  case (Cons c s)
  then show ?case
    by (cases "s = []") (auto simp: next_name_def split: prod.splits option.splits)
qed simp

definition unseen :: "fs \<Rightarrow> link_cache \<Rightarrow> nat" where
  "unseen fs seen = length (filter (\<lambda>e. link_at fs (fst e) \<noteq> None \<and> dict_get seen (fst e) = None) fs)"

text \<open>
  The loop of \<open>_joinrealpath\<close>. Its recursive calls on link targets are a stack of
  the links being resolved, each with the rest of the path it stands in; on a cycle every
  pending call returns its own rest joined to what the inner call returned.
\<close>

function joinreal :: "fs \<Rightarrow> link_cache \<Rightarrow> path \<Rightarrow> string \<Rightarrow> (path \<times> string) list \<Rightarrow> resolution" where
  "joinreal fs seen p rest stack =
     (if rest = [] then
        (case stack of
           [] \<Rightarrow> Resolved p
         | (l, outer) # stack' \<Rightarrow> joinreal fs (dict_put l (Some p) seen) p outer stack')
      else
        (case next_name rest of
           (n, rest') \<Rightarrow>
             (if n = [] \<or> n = ''.'' then joinreal fs seen p rest' stack
              else if n = ''..'' then joinreal fs seen (butlast p) rest' stack
              else case link_at fs (p @ [n]) of
                None \<Rightarrow> joinreal fs seen (p @ [n]) rest' stack
              | Some t \<Rightarrow>
                  (case dict_get seen (p @ [n]) of
                     Some (Some q) \<Rightarrow> joinreal fs seen q rest' stack
                   | Some None \<Rightarrow>
                       Cyclic (fold (\<lambda>e a. path_join a (snd e)) stack
                                 (path_join (path_text (p @ [n])) rest'))
                   | None \<Rightarrow>
                       joinreal fs (dict_put (p @ [n]) None seen) (link_base p t)
                         (if is_abs t then tl t else t) ((p @ [n], rest') # stack)))))"
  by pat_completeness auto

lemma unseen_put_le:
  "length (filter (\<lambda>e. P (fst e) \<and> dict_get (dict_put l v seen) (fst e) = None) es)
     \<le> length (filter (\<lambda>e. P (fst e) \<and> dict_get seen (fst e) = None) es)"
  by (induction es) (auto simp: dict_simps)

lemma unseen_put_less:
  "l \<in> set (dict_keys es) \<Longrightarrow> P l \<Longrightarrow> dict_get seen l = None \<Longrightarrow>
     length (filter (\<lambda>e. P (fst e) \<and> dict_get (dict_put l v seen) (fst e) = None) es)
       < length (filter (\<lambda>e. P (fst e) \<and> dict_get seen (fst e) = None) es)"
proof (induction es)
  case (Cons e es)
  then show ?case
    using unseen_put_le [of P l v seen es] by (cases "fst e = l") (auto simp: dict_simps)
qed simp

lemma unseen_put: "unseen fs (dict_put l v seen) \<le> unseen fs seen"
  unfolding unseen_def by (rule unseen_put_le)

lemma link_at_mem: "link_at fs l = Some t \<Longrightarrow> l \<in> set (dict_keys fs)"
  by (rule ccontr) (auto simp: link_at_def node_at_def map_of_eq_None_iff [symmetric]
      simp del: map_of_eq_None_iff split: if_splits)

lemma unseen_put_None:
  "link_at fs l = Some t \<Longrightarrow> dict_get seen l = None \<Longrightarrow> unseen fs (dict_put l v seen) < unseen fs seen"
  unfolding unseen_def by (rule unseen_put_less) (auto dest: link_at_mem)

lemma next_name_rest: "(a, r) = next_name s \<Longrightarrow> s \<noteq> [] \<Longrightarrow> length r < length s"
  using next_name_shorter [of s] by (metis snd_conv)

definition pending_length :: "string \<Rightarrow> (path \<times> string) list \<Rightarrow> nat" where
  "pending_length rest stack = length rest + sum_list (map (\<lambda>e. Suc (length (snd e))) stack)"

lemma unseen_put_cases:
  "unseen fs (dict_put l v seen) < unseen fs seen \<or> unseen fs (dict_put l v seen) = unseen fs seen"
  using unseen_put [of fs l v seen] by auto

termination joinreal
  apply (relation "measures [\<lambda>(fs, seen, p, rest, stack). unseen fs seen,
    \<lambda>(fs, seen, p, rest, stack). pending_length rest stack]")
  apply (simp_all add: pending_length_def unseen_put_None next_name_rest)
  apply (metis lessI snd_conv unseen_put_cases)
  done

declare joinreal.simps [simp del]

text \<open>The source only asks for absolute paths.\<close>

definition realpath :: "fs \<Rightarrow> string \<Rightarrow> string" where
  "realpath fs s =
     abs_normpath (case joinreal fs [] [] (tl s) [] of Resolved p \<Rightarrow> path_text p | Cyclic t \<Rightarrow> t)"

section \<open>Names and texts of paths\<close>

lemma py_split_next:
  "py_split CHR ''/'' s = fst (next_name s) #
     (if CHR ''/'' \<in> set s then py_split CHR ''/'' (snd (next_name s)) else [])"
  by (induction s) (auto simp: next_name_def split: prod.splits option.splits if_splits)

lemma next_name_no_slash: "CHR ''/'' \<notin> set s \<Longrightarrow> next_name s = (s, [])"
  by (induction s) (auto simp: next_name_def split: prod.splits option.splits)

lemma names_Nil [simp]: "names [] = []"
  by (simp add: names_def)

lemma names_next:
  "next_name s = (n, r) \<Longrightarrow> s \<noteq> [] \<Longrightarrow>
     names s = (if n = [] \<or> n = ''.'' then names r else n # names r)"
  using py_split_next [of s] next_name_no_slash [of s]
  by (cases "CHR ''/'' \<in> set s") (auto simp: names_def)

lemma names_slash [simp]: "names (CHR ''/'' # s) = names s"
  by (simp add: names_def)

lemma py_split_slash_free: "n \<in> set (py_split CHR ''/'' s) \<Longrightarrow> CHR ''/'' \<notin> set n"
  by (induction s arbitrary: n) (auto split: list.splits if_splits)

lemma names_ok: "n \<in> set (names s) \<Longrightarrow> n = ''..'' \<or> ok_name n"
  by (auto simp: names_def ok_name_def dest: py_split_slash_free)

lemma split_slash_free_append:
  "CHR ''/'' \<notin> set n \<Longrightarrow> py_split CHR ''/'' (n @ CHR ''/'' # s) = n # py_split CHR ''/'' s"
  by (induction n) auto

lemma split_slash_free: "CHR ''/'' \<notin> set n \<Longrightarrow> py_split CHR ''/'' n = [n]"
  by (induction n) auto

lemma names_join: "list_all ok_name p \<Longrightarrow> names (py_join ''/'' p) = p"
  by (induction "''/''" p rule: py_join.induct)
     (auto simp: names_def ok_name_def split_slash_free split_slash_free_append)

lemma names_path_text [simp]: "list_all ok_name p \<Longrightarrow> names (path_text p) = p"
  by (simp add: path_text_def names_join)

lemma fold_norm_step: "list_all ok_name p \<Longrightarrow> fold norm_step p acc = acc @ p"
  by (induction p arbitrary: acc) (auto simp: norm_step_def ok_name_def)

lemma path_text_single: "list_all ok_name p \<Longrightarrow> \<not> py_startswith (path_text p) ''//''"
  by (induction "''/''" p rule: py_join.induct)
     (auto simp: path_text_def py_startswith_def ok_name_def neq_Nil_conv)

lemma abs_normpath_path_text: "list_all ok_name p \<Longrightarrow> abs_normpath (path_text p) = path_text p"
  by (simp add: abs_normpath_def path_text_single fold_norm_step)

lemma path_text_inj: "list_all ok_name p \<Longrightarrow> list_all ok_name q \<Longrightarrow> path_text p = path_text q \<longleftrightarrow> p = q"
  by (metis names_path_text)

section \<open>Following a path\<close>

lemma walk_append:
  "walk strict fs k p (xs @ ys) = (case walk strict fs k p xs of None \<Rightarrow> None | Some (j, q) \<Rightarrow> walk strict fs j q ys)"
  by (induction strict fs k p xs rule: walk.induct) (auto simp: walk.simps(2) split: option.splits nat.splits)

text \<open>A successful walk uses a fixed number of links, and no smaller allowance is enough.\<close>

lemma walk_cost:
  "walk strict fs k p ns = Some (k', r) \<Longrightarrow> k' \<le> k \<and> (\<forall>d. walk strict fs (k - k' + d) p ns = Some (d, r))"
proof (induction strict fs k p ns rule: walk.induct)
  case (2 strict fs k p n ns)
  consider "n = ''..''" | "n \<noteq> ''..''" "link_at fs (p @ [n]) = None"
    | t where "n \<noteq> ''..''" "link_at fs (p @ [n]) = Some t" by auto
  then show ?case
  proof cases
    case 3
    then obtain j where j: "k = Suc j" and dir: "strict \<longrightarrow> node_at fs p = Some Directory"
      and w: "walk strict fs j (link_base p t) (names t @ ns) = Some (k', r)"
      using 2(4) by (auto simp: walk.simps(2) split: nat.splits if_splits)
    have ih: "k' \<le> j" "\<And>d. walk strict fs (j - k' + d) (link_base p t) (names t @ ns) = Some (d, r)"
      using 2(3) [OF _ 3 j] dir w by auto
    have "walk strict fs (k - k' + d) p (n # ns) = Some (d, r)" for d
      using ih dir 3 j by (simp add: walk.simps(2) Suc_diff_le)
    then show ?thesis using ih j by auto
  qed (use 2 in \<open>auto simp: walk.simps(2) split: if_splits\<close>)
qed simp

lemma walk_exact: "walk strict fs k p ns = Some (k', r) \<Longrightarrow> walk strict fs (k - k') p ns = Some (0, r)"
  using walk_cost [of strict fs k p ns k' r] by (metis add_0_right)

lemma walk_exact_unique:
  assumes "walk strict fs k p ns = Some (0, r)" "walk strict fs j p ns = Some (0, q)"
  shows "k = j \<and> r = q"
  using walk_cost [OF assms(1)] walk_cost [OF assms(2)] assms
  by (metis add.commute add_0_right diff_zero le_add_diff_inverse le_cases option.inject prod.inject)

lemma walk_too_few: "walk strict fs k p ns = Some (0, r) \<Longrightarrow> j < k \<Longrightarrow> walk strict fs j p ns = None"
proof (rule ccontr)
  assume w: "walk strict fs k p ns = Some (0, r)" "j < k" and "walk strict fs j p ns \<noteq> None"
  then obtain j' q where w': "walk strict fs j p ns = Some (j', q)" by auto
  have "walk strict fs (j - j') p ns = Some (0, q)" by (rule walk_exact [OF w'])
  then have "j - j' = k" using walk_exact_unique w(1) by blast
  then show False using w(2) by simp
qed

lemma walk_ok_names:
  "walk strict fs k p ns = Some (k', r) \<Longrightarrow> list_all ok_name p \<Longrightarrow> \<forall>n\<in>set ns. n = ''..'' \<or> ok_name n \<Longrightarrow>
     list_all ok_name r"
proof (induction strict fs k p ns rule: walk.induct)
  case (2 strict fs k p n ns)
  have "list_all ok_name (butlast p)" using 2(5) by (auto simp: list_all_iff dest: in_set_butlastD)
  moreover have "\<forall>m\<in>set (names t @ ns). m = ''..'' \<or> ok_name m" for t
    using 2(6) names_ok by auto
  moreover have "list_all ok_name (link_base p t)" for t using 2(5) by (simp add: link_base_def)
  ultimately show ?case
    using 2 by (auto simp: walk.simps(2) split: if_splits option.splits nat.splits)
qed simp

section \<open>realpath agrees with the kernel\<close>

text \<open>
  The invariant of the link cache: a resolved link leads where the cache says, and a link
  still being resolved cannot be followed with \<open>k\<close> links, so a walk that needs at
  most \<open>k\<close> never meets it.
\<close>

definition resolved_ok :: "bool \<Rightarrow> fs \<Rightarrow> link_cache \<Rightarrow> bool" where
  "resolved_ok strict fs seen =
     (\<forall>l q. dict_get seen l = Some (Some q) \<longrightarrow> (\<exists>j. walk strict fs j (butlast l) [last l] = Some (0, q)))"

definition pending_ok :: "bool \<Rightarrow> fs \<Rightarrow> nat \<Rightarrow> link_cache \<Rightarrow> bool" where
  "pending_ok strict fs k seen =
     (\<forall>l. dict_get seen l = Some None \<longrightarrow> (\<forall>j\<le>k. walk strict fs j (butlast l) [last l] = None))"

lemma pending_ok_less: "pending_ok strict fs k seen \<Longrightarrow> j \<le> k \<Longrightarrow> pending_ok strict fs j seen"
  by (auto simp: pending_ok_def)

lemma walk_link:
  assumes "link_at fs (p @ [n]) = Some t" "n \<noteq> ''..''" "strict \<longrightarrow> node_at fs p = Some Directory"
  shows "walk strict fs k p (n # ns) = (case k of 0 \<Rightarrow> None | Suc j \<Rightarrow> walk strict fs j (link_base p t) (names t @ ns))"
  using assms by (subst walk.simps(2)) auto

lemma joinreal_step:
  assumes "rest \<noteq> []" "next_name rest = (n, rest')" "n \<noteq> []" "n \<noteq> ''.''" "n \<noteq> ''..''"
  shows "link_at fs (p @ [n]) = None \<Longrightarrow> joinreal fs seen p rest stack = joinreal fs seen (p @ [n]) rest' stack"
    and "link_at fs (p @ [n]) = Some t \<Longrightarrow> dict_get seen (p @ [n]) = Some (Some q) \<Longrightarrow>
           joinreal fs seen p rest stack = joinreal fs seen q rest' stack"
    and "link_at fs (p @ [n]) = Some t \<Longrightarrow> dict_get seen (p @ [n]) = None \<Longrightarrow>
           joinreal fs seen p rest stack =
             joinreal fs (dict_put (p @ [n]) None seen) (link_base p t) (if is_abs t then tl t else t)
               ((p @ [n], rest') # stack)"
  using assms by (subst joinreal.simps; simp)+

lemma joinreal_dots:
  assumes "rest \<noteq> []" "next_name rest = (n, rest')"
  shows "n = [] \<or> n = ''.'' \<Longrightarrow> joinreal fs seen p rest stack = joinreal fs seen p rest' stack"
    and "n = ''..'' \<Longrightarrow> joinreal fs seen p rest stack = joinreal fs seen (butlast p) rest' stack"
  using assms by (subst joinreal.simps; simp)+

lemma joinreal_pop:
  "joinreal fs seen p [] ((l, outer) # stack) = joinreal fs (dict_put l (Some p) seen) p outer stack"
  by (subst joinreal.simps) simp

lemma names_target: "names (if is_abs t then tl t else t) = names t"
  by (cases t) (auto simp: is_abs_def py_startswith_def)

text \<open>What one resolution of a path does to the cache.\<close>

definition resolves_to :: "bool \<Rightarrow> fs \<Rightarrow> link_cache \<Rightarrow> path \<Rightarrow> string \<Rightarrow> path \<Rightarrow> bool" where
  "resolves_to strict fs seen p rest r =
     (\<exists>seen'. (\<forall>stack. joinreal fs seen p rest stack = joinreal fs seen' r [] stack) \<and>
        resolved_ok strict fs seen' \<and> (\<forall>l. dict_get seen' l = Some None \<longleftrightarrow> dict_get seen l = Some None))"

lemma resolves_to_first:
  "(\<And>stack. joinreal fs seen p rest stack = joinreal fs seen q rest' stack) \<Longrightarrow>
     resolves_to strict fs seen q rest' r \<Longrightarrow> resolves_to strict fs seen p rest r"
  by (simp add: resolves_to_def)

lemma joinreal_walk_link:
  assumes rest: "rest \<noteq> []" "next_name rest = (n, rest')" "n \<noteq> []" "n \<noteq> ''.''" "n \<noteq> ''..''"
    and link: "link_at fs (p @ [n]) = Some t" and dir: "strict \<longrightarrow> node_at fs p = Some Directory"
    and target: "walk strict fs c (link_base p t) (names t) = Some (0, mid)" and c: "Suc c \<le> k"
    and ok: "resolved_ok strict fs seen" "pending_ok strict fs k seen"
    and inner: "\<And>seen. resolved_ok strict fs seen \<Longrightarrow> pending_ok strict fs c seen \<Longrightarrow>
      resolves_to strict fs seen (link_base p t) (if is_abs t then tl t else t) mid"
    and outer: "\<And>seen. resolved_ok strict fs seen \<Longrightarrow> pending_ok strict fs (k - Suc c) seen \<Longrightarrow>
      resolves_to strict fs seen mid rest' r"
  shows "resolves_to strict fs seen p rest r"
proof -
  have whole: "walk strict fs (Suc c) p [n] = Some (0, mid)"
    using walk_link [OF link rest(5) dir, of "Suc c" "[]"] target by simp
  have low: "pending_ok strict fs (k - Suc c) seen" using ok(2) by (rule pending_ok_less) simp
  consider "dict_get seen (p @ [n]) = None" | q where "dict_get seen (p @ [n]) = Some (Some q)"
    | "dict_get seen (p @ [n]) = Some None" by (metis option.exhaust)
  then show ?thesis
  proof cases
    case 1
    let ?s = "dict_put (p @ [n]) None seen"
    have "walk strict fs j p [n] = None" if "j \<le> c" for j
      using walk_too_few [OF whole] that by simp
    then have "pending_ok strict fs c ?s" "resolved_ok strict fs ?s"
      using ok c by (auto simp: pending_ok_def resolved_ok_def dict_simps)
    from inner [OF this(2,1)] obtain seen' where
      s': "\<And>stack. joinreal fs ?s (link_base p t) (if is_abs t then tl t else t) stack = joinreal fs seen' mid [] stack"
        "resolved_ok strict fs seen'" "\<And>l. dict_get seen' l = Some None \<longleftrightarrow> dict_get ?s l = Some None"
      by (auto simp: resolves_to_def)
    let ?t = "dict_put (p @ [n]) (Some mid) seen'"
    have "resolved_ok strict fs ?t" using s'(2) whole by (auto simp: resolved_ok_def dict_simps)
    moreover have same: "dict_get ?t l = Some None \<longleftrightarrow> dict_get seen l = Some None" for l
      using s'(3) [of l] 1 by (auto simp: dict_simps)
    then have "pending_ok strict fs (k - Suc c) ?t" using low by (simp add: pending_ok_def)
    ultimately have "resolves_to strict fs ?t mid rest' r" by (rule outer)
    moreover have "joinreal fs seen p rest stack = joinreal fs ?t mid rest' stack" for stack
      using joinreal_step(3) [OF rest link 1] s'(1) by (simp add: joinreal_pop)
    ultimately show ?thesis using same by (auto simp: resolves_to_def)
  next
    case (2 q)
    obtain j where "walk strict fs j p [n] = Some (0, q)" using ok(1) 2 by (force simp: resolved_ok_def)
    then have "q = mid" using walk_exact_unique [OF whole] by blast
    with 2 have hit: "dict_get seen (p @ [n]) = Some (Some mid)" by simp
    show ?thesis by (rule resolves_to_first [OF joinreal_step(2) [OF rest link hit] outer [OF ok(1) low]])
  next
    case 3
    then have "walk strict fs (Suc c) p [n] = None" using ok(2) c by (force simp: pending_ok_def)
    then show ?thesis using whole by simp
  qed
qed

lemma joinreal_walk:
  "walk strict fs k p (names rest) = Some (0, r) \<Longrightarrow> resolved_ok strict fs seen \<Longrightarrow> pending_ok strict fs k seen \<Longrightarrow>
     resolves_to strict fs seen p rest r"
proof (induction k arbitrary: p rest r seen rule: less_induct)
  case (less k)
  note fewer = less.IH
  show ?case using less.prems
  proof (induction "length rest" arbitrary: p rest seen rule: less_induct)
    case (less rest)
    note shorter = less.hyps and walk = less.prems(1) and ok = less.prems(2,3)
    show ?case
    proof (cases "rest = []")
      case True
      then have "p = r" using walk by simp
      then show ?thesis using True ok by (auto simp: resolves_to_def)
    next
      case False
      obtain n rest' where nx: "next_name rest = (n, rest')" by (cases "next_name rest")
      have len: "length rest' < length rest" using next_name_shorter [OF False] nx by simp
      have nm: "names rest = (if n = [] \<or> n = ''.'' then names rest' else n # names rest')"
        by (rule names_next [OF nx False])
      consider (skip) "n = [] \<or> n = ''.''" | (up) "n = ''..''"
        | (down) "n \<noteq> []" "n \<noteq> ''.''" "n \<noteq> ''..''" by blast
      then show ?thesis
      proof cases
        case skip
        then have "resolves_to strict fs seen p rest' r" using walk nm ok by (intro shorter [OF len]) auto
        then show ?thesis by (rule resolves_to_first [OF joinreal_dots(1) [OF False nx skip]])
      next
        case up
        then have "resolves_to strict fs seen (butlast p) rest' r"
          using walk nm ok by (intro shorter [OF len]) (auto simp: walk.simps(2) split: if_splits)
        then show ?thesis by (rule resolves_to_first [OF joinreal_dots(2) [OF False nx up]])
      next
        case down
        have w: "walk strict fs k p (n # names rest') = Some (0, r)" using walk nm down by simp
        then have dir: "strict \<longrightarrow> node_at fs p = Some Directory" by (simp add: walk.simps(2) split: if_splits)
        show ?thesis
        proof (cases "link_at fs (p @ [n])")
          case None
          then have "resolves_to strict fs seen (p @ [n]) rest' r"
            using w down dir ok by (intro shorter [OF len]) (auto simp: walk.simps(2))
          then show ?thesis by (rule resolves_to_first [OF joinreal_step(1) [OF False nx down None]])
        next
          case (Some t)
          obtain j where j: "k = Suc j" and wj: "walk strict fs j (link_base p t) (names t @ names rest') = Some (0, r)"
            using w unfolding walk_link [OF Some down(3) dir] by (cases k) auto
          then obtain i mid where i: "walk strict fs j (link_base p t) (names t) = Some (i, mid)"
            and wi: "walk strict fs i mid (names rest') = Some (0, r)"
            unfolding walk_append by (auto split: option.splits)
          have le: "i \<le> j" using walk_cost [OF i] by simp
          have target: "walk strict fs (j - i) (link_base p t) (names t) = Some (0, mid)" by (rule walk_exact [OF i])
          show ?thesis
          proof (rule joinreal_walk_link [OF False nx down Some dir target _ ok])
            fix s assume "resolved_ok strict fs s" "pending_ok strict fs (j - i) s"
            then show "resolves_to strict fs s (link_base p t) (if is_abs t then tl t else t) mid"
              using target j by (intro fewer [of "j - i"]) (auto simp only: names_target)
          next
            fix s assume "resolved_ok strict fs s" "pending_ok strict fs (k - Suc (j - i)) s"
            then show "resolves_to strict fs s mid rest' r"
              using wi j le by (intro fewer [of i]) auto
          qed (use j le in auto)
        qed
      qed
    qed
  qed
qed

theorem realpath_walk:
  assumes "is_abs s" and "walk strict fs k [] (names s) = Some (k', r)"
  shows "realpath fs s = path_text r" and "list_all ok_name r"
proof -
  have nm: "names (tl s) = names s" using assms(1) names_target [of s] by simp
  have "walk strict fs (k - k') [] (names (tl s)) = Some (0, r)" using walk_exact [OF assms(2)] nm by simp
  then have "resolves_to strict fs [] [] (tl s) r"
    by (rule joinreal_walk) (auto simp: resolved_ok_def pending_ok_def)
  then obtain seen where "joinreal fs [] [] (tl s) [] = joinreal fs seen r [] []"
    by (auto simp: resolves_to_def)
  then have "joinreal fs [] [] (tl s) [] = Resolved r" by (simp add: joinreal.simps)
  moreover show ok: "list_all ok_name r" using walk_ok_names [OF assms(2)] names_ok by auto
  ultimately show "realpath fs s = path_text r" by (simp add: realpath_def abs_normpath_path_text)
qed

section \<open>Paths without links\<close>

definition link_free :: "fs \<Rightarrow> path \<Rightarrow> bool" where
  "link_free fs p = list_all (\<lambda>i. link_at fs (take i p) = None) [0..<Suc (length p)]"

lemma link_free_iff: "link_free fs p \<longleftrightarrow> (\<forall>i\<le>length p. link_at fs (take i p) = None)"
  unfolding link_free_def list_all_iff by (simp only: set_upt) (auto simp: less_Suc_eq_le)

lemma link_free_Nil [simp]: "link_free fs []"
  by (simp add: link_free_iff link_at_def node_at_def)

lemma link_free_snoc: "link_free fs (p @ [n]) \<longleftrightarrow> link_free fs p \<and> link_at fs (p @ [n]) = None"
  by (auto simp: link_free_iff le_Suc_eq)

lemma link_free_butlast: "link_free fs p \<Longrightarrow> link_free fs (butlast p)"
  by (cases p rule: rev_cases) (auto simp: link_free_snoc)

definition canonical :: "fs \<Rightarrow> path \<Rightarrow> bool" where
  "canonical fs p = (link_free fs p \<and> list_all ok_name p)"

lemma canonical_Nil [simp]: "canonical fs []"
  by (simp add: canonical_def)

lemma canonical_snoc: "canonical fs (p @ [n]) \<longleftrightarrow> canonical fs p \<and> ok_name n \<and> link_at fs (p @ [n]) = None"
  by (auto simp: canonical_def link_free_snoc)

lemma canonical_butlast: "canonical fs p \<Longrightarrow> canonical fs (butlast p)"
  by (cases p rule: rev_cases) (auto simp: canonical_snoc)

lemma canonical_append: "canonical fs (p @ q) \<Longrightarrow> canonical fs p"
  by (induction q rule: rev_induct) (simp_all add: canonical_snoc flip: append_assoc)

lemma next_name_slash_free: "CHR ''/'' \<notin> set (fst (next_name s))"
  using split_once_fst [of "CHR ''/''" s] by (auto simp: next_name_def split: prod.splits)

text \<open>Unless it meets a cycle, realpath returns a path none of whose prefixes is a link.\<close>

lemma joinreal_canonical:
  "joinreal fs seen p rest stack = Resolved r \<Longrightarrow> canonical fs p \<Longrightarrow>
     \<forall>l q. dict_get seen l = Some (Some q) \<longrightarrow> canonical fs q \<Longrightarrow> canonical fs r"
proof (induction fs seen p rest stack rule: joinreal.induct)
  case (1 fs seen p rest stack)
  show ?case
  proof (cases "rest = []")
    case True
    show ?thesis
    proof (cases stack)
      case Nil
      then show ?thesis using 1(7,8) True by (simp add: joinreal.simps)
    next
      case (Cons e stack')
      obtain l outer where e: "e = (l, outer)" by (cases e)
      show ?thesis
        using 1(1) [OF True Cons e [symmetric]] 1(7-9) True Cons e
        by (simp add: joinreal_pop dict_simps)
    qed
  next
    case False
    obtain n rest' where nx: "next_name rest = (n, rest')" by (cases "next_name rest")
    note nx' = nx [symmetric]
    consider (skip) "n = [] \<or> n = ''.''" | (up) "\<not> (n = [] \<or> n = ''.'')" "n = ''..''"
      | (down) "n \<noteq> []" "n \<noteq> ''.''" "n \<noteq> ''..''" by blast
    then show ?thesis
    proof cases
      case skip
      then show ?thesis using 1(2) [OF False nx' skip] 1(7-9) joinreal_dots(1) [OF False nx skip] by simp
    next
      case up
      then show ?thesis
        using 1(3) [OF False nx' up] 1(7-9) joinreal_dots(2) [OF False nx up(2)] canonical_butlast by simp
    next
      case down
      then have d: "\<not> (n = [] \<or> n = ''.'')" by simp
      have nm: "ok_name n" using down next_name_slash_free [of rest] nx by (simp add: ok_name_def)
      show ?thesis
      proof (cases "link_at fs (p @ [n])")
        case None
        then show ?thesis
          using 1(4) [OF False nx' d down(3) None] 1(7-9) nm joinreal_step(1) [OF False nx down None]
          by (simp add: canonical_snoc)
      next
        case (Some t)
        consider "dict_get seen (p @ [n]) = None" | q where "dict_get seen (p @ [n]) = Some (Some q)"
          | "dict_get seen (p @ [n]) = Some None" by (metis option.exhaust)
        then show ?thesis
        proof cases
          case a: 1
          then show ?thesis
            using 1(5) [OF False nx' d down(3) Some a] 1(7-9) joinreal_step(3) [OF False nx down Some a]
            by (simp add: link_base_def dict_simps canonical_Nil)
        next
          case (2 q)
          then show ?thesis
            using 1(6) [OF False nx' d down(3) Some 2 refl] 1(7-9) joinreal_step(2) [OF False nx down Some 2]
            by simp
        next
          case 3
          then show ?thesis using 1(7) False nx down Some by (subst (asm) joinreal.simps) simp
        qed
      qed
    qed
  qed
qed


definition acyclic_path :: "fs \<Rightarrow> string \<Rightarrow> bool" where
  "acyclic_path fs s = (case joinreal fs [] [] (tl s) [] of Resolved _ \<Rightarrow> True | Cyclic _ \<Rightarrow> False)"

lemma realpath_canonical: "acyclic_path fs s \<Longrightarrow> \<exists>p. realpath fs s = path_text p \<and> canonical fs p"
  using joinreal_canonical [of fs "[]" "[]" "tl s" "[]"]
  by (auto simp: acyclic_path_def realpath_def canonical_def abs_normpath_path_text split: resolution.splits)

lemma next_name_ok: "ok_name n \<Longrightarrow> next_name (n @ CHR ''/'' # s) = (n, s)" "ok_name n \<Longrightarrow> next_name n = (n, [])"
proof -
  have "CHR ''/'' \<notin> set n \<Longrightarrow> split_once CHR ''/'' (n @ CHR ''/'' # s) = (n, Some s)"
    by (induction n) auto
  then show "ok_name n \<Longrightarrow> next_name (n @ CHR ''/'' # s) = (n, s)" by (simp add: next_name_def ok_name_def)
qed (simp add: next_name_no_slash ok_name_def)

lemma joinreal_through:
  "canonical fs (q @ p) \<Longrightarrow> joinreal fs seen q (py_join ''/'' p) [] = Resolved (q @ p)"
proof (induction "''/''" p arbitrary: q rule: py_join.induct)
  case 1
  then show ?case by (simp add: joinreal.simps)
next
  case (2 x)
  then show ?case
    using next_name_ok(2) [of x] by (subst joinreal.simps) (auto simp: canonical_snoc ok_name_def joinreal.simps)
next
  case (3 x y ys)
  have "canonical fs ((q @ [x]) @ y # ys)" using 3(2) by simp
  moreover have "canonical fs (q @ [x])" by (rule canonical_append [OF calculation])
  ultimately show ?case
    using 3(1) [of "q @ [x]"] next_name_ok(1) [of x "py_join ''/'' (y # ys)"]
    by (subst joinreal.simps) (auto simp: canonical_snoc ok_name_def)
qed

lemma realpath_id: "canonical fs p \<Longrightarrow> realpath fs (path_text p) = path_text p"
  using joinreal_through [of fs "[]" p "[]"]
  using abs_normpath_path_text [of p] by (simp add: realpath_def canonical_def) (simp add: path_text_def)

end
