(* ===== verification/SidecarPaths.thy ===== *)
theory SidecarPaths
  imports FileSystem "HOL-Library.Sublist"
begin

text \<open>
  Path resolution and containment in the sidecar (\<open>sidecar_paths.py\<close>): user paths are
  mapped to absolute ones, resolved with \<open>os.path.realpath\<close> on the file system, and
  accepted when the result is one of the typed roots or below it. The operations raise
  \<open>HTTPException\<close>s, of which the model keeps the status. The lemmas say what an
  accepted path is: an absolute, normalised path of the file system below a root, and the
  place the kernel goes to if it can follow it.
\<close>

datatype http_exception = HTTPException nat

definition workspace_dir :: string where "workspace_dir = ''/workspace''"
definition uploads_dir :: string where "uploads_dir = ''/mnt/user-data/uploads''"
definition outputs_dir :: string where "outputs_dir = ''/mnt/user-data/outputs''"
definition skills_dir :: string where "skills_dir = ''/mnt/skills''"
definition tmp_dir :: string where "tmp_dir = ''/tmp''"

lemmas sandbox_dirs = workspace_dir_def uploads_dir_def outputs_dir_def skills_dir_def tmp_dir_def

section \<open>Operations\<close>

definition is_under_root :: "string \<Rightarrow> string \<Rightarrow> bool" where
  "is_under_root p root = (p = root \<or> py_startswith p (root @ ''/''))"

definition slashed :: "string \<Rightarrow> string" where
  "slashed s = map (\<lambda>c. if c = CHR 0x5C then CHR ''/'' else c) s"

fun drop_dot_slash :: "string \<Rightarrow> string" where
  "drop_dot_slash (c # d # s) = (if c = CHR ''.'' \<and> d = CHR ''/'' then drop_dot_slash s else c # d # s)"
| "drop_dot_slash s = s"

definition lstrip_slash :: "string \<Rightarrow> string" where
  "lstrip_slash s = dropWhile (\<lambda>c. c = CHR ''/'') s"

definition alias_path :: "string \<Rightarrow> string \<Rightarrow> string \<Rightarrow> string" where
  "alias_path alias dir raw =
     (let suffix = lstrip_slash (drop (length alias) raw)
      in if suffix = [] then dir else path_join dir suffix)"

definition normalize_input_path :: "string \<Rightarrow> http_exception + string" where
  "normalize_input_path p =
     (let raw = slashed (py_strip p) in
      if raw = [] then Inl (HTTPException 400)
      else if raw = ''/'' then Inr workspace_dir
      else if \<not> py_startswith raw ''/'' then
        (if raw = ''workspace'' \<or> raw = ''.'' then Inr workspace_dir
         else let rel = (if py_startswith raw ''workspace/'' then drop 10 raw else raw)
              in Inr (path_join workspace_dir (drop_dot_slash rel)))
      else if raw = ''/uploads'' \<or> py_startswith raw ''/uploads/'' then Inr (alias_path ''/uploads'' uploads_dir raw)
      else if raw = ''/outputs'' \<or> py_startswith raw ''/outputs/'' then Inr (alias_path ''/outputs'' outputs_dir raw)
      else if raw = ''/skills'' \<or> py_startswith raw ''/skills/'' then Inr (alias_path ''/skills'' skills_dir raw)
      else Inr raw)"

definition typed_allowed_roots :: "fs \<Rightarrow> string list" where
  "typed_allowed_roots fs = map (realpath fs) [workspace_dir, uploads_dir, outputs_dir, skills_dir, tmp_dir]"

definition ls_allowed_roots :: "fs \<Rightarrow> string list" where
  "ls_allowed_roots fs = typed_allowed_roots fs @ [realpath fs ''/mnt'', realpath fs ''/mnt/user-data'']"

definition is_path_contained :: "fs \<Rightarrow> string \<Rightarrow> string list \<Rightarrow> bool" where
  "is_path_contained fs p roots = list_ex (is_under_root (realpath fs p)) roots"

definition path_root :: "fs \<Rightarrow> string \<Rightarrow> string option" where
  "path_root fs p = find (is_under_root (realpath fs p)) (typed_allowed_roots fs)"

text \<open>\<open>os.path.relpath\<close> of absolute paths.\<close>

fun common_names :: "path \<Rightarrow> path \<Rightarrow> nat" where
  "common_names (a # p) (b # q) = (if a = b then Suc (common_names p q) else 0)"
| "common_names _ _ = 0"

definition relpath :: "string \<Rightarrow> string \<Rightarrow> string" where
  "relpath p start =
     (let s = names (abs_normpath start); t = names (abs_normpath p); i = common_names s t;
          rel = replicate (length s - i) ''..'' @ drop i t
      in if rel = [] then ''.'' else py_join ''/'' rel)"

definition to_virtual_path :: "fs \<Rightarrow> string \<Rightarrow> http_exception + string" where
  "to_virtual_path fs full =
     (let abs_path = realpath fs full in
      case path_root fs abs_path of
        None \<Rightarrow> Inl (HTTPException 400)
      | Some root \<Rightarrow>
          (let rel = relpath abs_path root in Inr (if rel = ''.'' then root else root @ ''/'' @ rel)))"

definition resolve_virtual_path :: "fs \<Rightarrow> string \<Rightarrow> http_exception + (string \<times> string)" where
  "resolve_virtual_path fs p =
     (case normalize_input_path p of
        Inl e \<Rightarrow> Inl e
      | Inr normalized \<Rightarrow>
          (let full = realpath fs normalized in
           if list_ex (is_under_root full) (typed_allowed_roots fs)
           then (case to_virtual_path fs full of Inl e \<Rightarrow> Inl e | Inr virtual \<Rightarrow> Inr (virtual, full))
           else Inl (HTTPException 400)))"

definition resolve_ls_path :: "fs \<Rightarrow> string \<Rightarrow> http_exception + string" where
  "resolve_ls_path fs p =
     (case normalize_input_path p of
        Inl e \<Rightarrow> Inl e
      | Inr normalized \<Rightarrow>
          (let full = realpath fs normalized in
           if list_ex (is_under_root full) (ls_allowed_roots fs) then Inr full else Inl (HTTPException 400)))"

definition revalidate_path_or_400 :: "fs \<Rightarrow> string \<Rightarrow> http_exception + string" where
  "revalidate_path_or_400 fs p =
     (let resolved = realpath fs p in
      case path_root fs resolved of None \<Rightarrow> Inl (HTTPException 400) | Some _ \<Rightarrow> Inr resolved)"

definition is_read_only_virtual_path :: "fs \<Rightarrow> string \<Rightarrow> bool" where
  "is_read_only_virtual_path fs virtual =
     (let abs_path = realpath fs virtual in
      is_under_root abs_path (realpath fs uploads_dir) \<or> is_under_root abs_path (realpath fs skills_dir))"

definition storage_bucket_for_virtual_path :: "fs \<Rightarrow> string \<Rightarrow> (string \<times> string) option" where
  "storage_bucket_for_virtual_path fs virtual =
     (let abs_path = realpath fs virtual in
      map_option
        (\<lambda>(namespace, root). (namespace, let rel = relpath abs_path root in if rel = ''.'' then [] else rel))
        (find (\<lambda>(namespace, root). is_under_root abs_path root)
           [(''workspace'', realpath fs workspace_dir), (''outputs'', realpath fs outputs_dir),
            (''uploads'', realpath fs uploads_dir)]))"

text \<open>The two sanitisers of skill payloads raise \<open>ValueError\<close>.\<close>

definition strip_slashes :: "string \<Rightarrow> string" where
  "strip_slashes s = rev (lstrip_slash (rev (lstrip_slash s)))"

definition sanitize_instance_slug :: "string \<Rightarrow> string option" where
  "sanitize_instance_slug slug =
     (let safe = strip_slashes (slashed (py_strip slug)) in
      if safe = [] then None
      else if ''..'' \<in> set (py_split CHR ''/'' safe) then None
      else Some safe)"

definition sanitize_rel_file_path :: "string \<Rightarrow> string option" where
  "sanitize_rel_file_path p =
     (let clean = lstrip_slash (slashed (py_strip p)) in
      if clean = [] \<or> py_startswith clean ''../'' \<or> py_contains clean ''/../'' then None else Some clean)"

section \<open>Absolute and normalised paths\<close>

lemma is_abs_Cons [simp]: "is_abs (c # s) \<longleftrightarrow> c = CHR ''/''"
  by (simp add: is_abs_def py_startswith_def)

lemma is_abs_path_text [simp]: "is_abs (path_text p)"
  by (simp add: path_text_def)

lemma is_abs_path_join: "is_abs a \<Longrightarrow> is_abs (path_join a b)"
  by (cases a) (auto simp: path_join_def is_abs_def py_startswith_def)

lemma sandbox_dirs_abs [simp]:
  "is_abs workspace_dir" "is_abs uploads_dir" "is_abs outputs_dir" "is_abs skills_dir" "is_abs tmp_dir"
  by (simp_all add: sandbox_dirs)

lemma normalize_input_path_abs: "normalize_input_path p = Inr s \<Longrightarrow> is_abs s"
  by (auto simp: normalize_input_path_def Let_def alias_path_def is_abs_path_join is_abs_def [symmetric]
      split: if_splits)

lemma fold_norm_step_ok:
  "\<forall>n\<in>set ns. n = ''..'' \<or> ok_name n \<Longrightarrow> list_all ok_name acc \<Longrightarrow> list_all ok_name (fold norm_step ns acc)"
proof (induction ns arbitrary: acc)
  case (Cons n ns)
  have "list_all ok_name (norm_step n acc)"
    using Cons.prems by (auto simp: norm_step_def list_all_iff dest: in_set_butlastD)
  then show ?case using Cons by simp
qed simp

text \<open>Every result of realpath is a normalised absolute path, up to a doubled leading slash.\<close>

lemma realpath_shape:
  "\<exists>p. list_all ok_name p \<and> (realpath fs s = path_text p \<or> realpath fs s = CHR ''/'' # path_text p)"
proof -
  obtain t where "realpath fs s = abs_normpath t" by (simp add: realpath_def)
  moreover have "list_all ok_name (fold norm_step (names t) [])"
    using names_ok by (intro fold_norm_step_ok) auto
  ultimately show ?thesis by (auto simp: abs_normpath_def)
qed

section \<open>The roots\<close>

text \<open>The directories of the sandbox image are plain directories.\<close>

definition plain_dir :: "fs \<Rightarrow> path \<Rightarrow> bool" where
  "plain_dir fs p = list_all (\<lambda>i. node_at fs (take i p) = Some Directory) [0..<Suc (length p)]"

definition typed_roots :: "path list" where
  "typed_roots = [[''workspace''], [''mnt'', ''user-data'', ''uploads''], [''mnt'', ''user-data'', ''outputs''],
     [''mnt'', ''skills''], [''tmp'']]"

definition roots_plain :: "fs \<Rightarrow> bool" where
  "roots_plain fs = list_all (plain_dir fs) typed_roots"

lemma typed_roots_text:
  "map path_text typed_roots = [workspace_dir, uploads_dir, outputs_dir, skills_dir, tmp_dir]"
  by (simp add: typed_roots_def path_text_def sandbox_dirs)

lemma typed_roots_ok: "root \<in> set typed_roots \<Longrightarrow> list_all ok_name root \<and> root \<noteq> []"
  by (auto simp: typed_roots_def ok_name_def)

lemma walk_plain:
  "list_all ok_name ns \<Longrightarrow> (\<And>i. i < length ns \<Longrightarrow> node_at fs (q @ take i ns) = Some Directory) \<Longrightarrow>
     link_at fs (q @ ns) = None \<Longrightarrow> walk strict fs k q ns = Some (k, q @ ns)"
proof (induction ns arbitrary: q)
  case (Cons n ns)
  have dir: "node_at fs q = Some Directory" using Cons.prems(2) [of 0] by simp
  have rest: "node_at fs ((q @ [n]) @ take i ns) = Some Directory" if "i < length ns" for i
    using Cons.prems(2) [of "Suc i"] that by simp
  have "link_at fs (q @ [n]) = None"
    using Cons.prems(3) rest [of 0] by (cases ns) (auto simp: link_at_def)
  moreover have "n \<noteq> ''..''" using Cons.prems(1) by (simp add: ok_name_def)
  ultimately show ?case
    using Cons.IH [of "q @ [n]"] Cons.prems rest dir by (simp add: walk.simps(2))
qed simp

lemma plain_dirD: "plain_dir fs p \<Longrightarrow> i \<le> length p \<Longrightarrow> node_at fs (take i p) = Some Directory"
  unfolding plain_dir_def list_all_iff by (simp only: set_upt) auto

lemma walk_plain_dir: "plain_dir fs p \<Longrightarrow> list_all ok_name p \<Longrightarrow> walk strict fs k [] p = Some (k, p)"
  using plain_dirD [of fs p "length p"]
  by (subst walk_plain) (auto intro: plain_dirD [OF _ less_imp_le] simp: link_at_def)

lemma realpath_plain_dir: "plain_dir fs p \<Longrightarrow> list_all ok_name p \<Longrightarrow> realpath fs (path_text p) = path_text p"
  by (rule realpath_walk(1) [where k = 0]) (auto simp: walk_plain_dir)

lemma plain_root: "roots_plain fs \<Longrightarrow> root \<in> set typed_roots \<Longrightarrow> realpath fs (path_text root) = path_text root"
  using typed_roots_ok by (intro realpath_plain_dir) (auto simp: roots_plain_def list_all_iff)

lemma typed_allowed_roots_plain: "roots_plain fs \<Longrightarrow> typed_allowed_roots fs = map path_text typed_roots"
  using plain_root [of fs]
  by (simp add: typed_allowed_roots_def typed_roots_text [symmetric] map_idI del: list.map)

lemma sandbox_dirs_plain:
  assumes "roots_plain fs"
  shows "realpath fs workspace_dir = workspace_dir" "realpath fs uploads_dir = uploads_dir"
    "realpath fs outputs_dir = outputs_dir" "realpath fs skills_dir = skills_dir" "realpath fs tmp_dir = tmp_dir"
  using typed_allowed_roots_plain [OF assms] by (simp_all add: typed_roots_text typed_allowed_roots_def)

section \<open>Texts below a root\<close>

lemma py_split_append:
  "py_split CHR ''/'' (a @ CHR ''/'' # b) = py_split CHR ''/'' a @ py_split CHR ''/'' b"
proof (induction a)
  case (Cons c a)
  obtain w ws where "py_split CHR ''/'' a = w # ws" using py_split_next [of a] by blast
  then show ?case using Cons by auto
qed simp

lemma names_append: "names (a @ CHR ''/'' # b) = names a @ names b"
  by (simp add: names_def py_split_append)

lemma py_join_append:
  "p \<noteq> [] \<Longrightarrow> q \<noteq> [] \<Longrightarrow> py_join ''/'' (p @ q) = py_join ''/'' p @ CHR ''/'' # py_join ''/'' q"
  by (induction "''/''" p rule: py_join.induct) (auto simp: neq_Nil_conv)

lemma path_text_append:
  "p \<noteq> [] \<Longrightarrow> q \<noteq> [] \<Longrightarrow> path_text (p @ q) = path_text p @ CHR ''/'' # py_join ''/'' q"
  by (simp add: path_text_def py_join_append)

lemma is_under_root_iff:
  assumes "list_all ok_name p" "list_all ok_name q" "q \<noteq> []"
  shows "is_under_root (path_text p) (path_text q) \<longleftrightarrow> prefix q p"
proof
  assume "is_under_root (path_text p) (path_text q)"
  then consider "path_text p = path_text q" | t where "path_text p = path_text q @ CHR ''/'' # t"
    by (auto simp: is_under_root_def py_startswith_iff)
  then show "prefix q p"
  proof cases
    case (2 t)
    have "p = names (path_text p)" using assms(1) by simp
    also have "\<dots> = q @ names t" using assms(2) by (simp add: 2 names_append)
    finally show ?thesis by (rule prefixI)
  qed (use assms in \<open>simp add: path_text_inj\<close>)
next
  assume "prefix q p"
  then obtain t where t: "p = q @ t" by (rule prefixE)
  then show "is_under_root (path_text p) (path_text q)"
    using assms(3) by (cases "t = []") (auto simp: is_under_root_def path_text_append py_startswith_iff)
qed

lemma double_slash_outside:
  assumes "list_all ok_name q" "q \<noteq> []"
  shows "\<not> is_under_root (CHR ''/'' # path_text p) (path_text q)"
proof -
  obtain c n q' where q: "q = (c # n) # q'" and "c \<noteq> CHR ''/''"
    using assms by (cases q) (auto simp: ok_name_def neq_Nil_conv)
  moreover obtain z where "py_join ''/'' q = c # z" using q by (cases q') auto
  ultimately show ?thesis by (auto simp: is_under_root_def py_startswith_def path_text_def)
qed

lemma relpath_below:
  assumes "list_all ok_name q" "list_all ok_name t"
  shows "relpath (path_text (q @ t)) (path_text q) = (if t = [] then ''.'' else py_join ''/'' t)"
proof -
  have "common_names q (q @ t) = length q" by (induction q) auto
  then show ?thesis using assms by (simp add: relpath_def abs_normpath_path_text)
qed

lemma py_join_not_dot: "list_all ok_name t \<Longrightarrow> t \<noteq> [] \<Longrightarrow> py_join ''/'' t \<noteq> ''.''"
  using names_join [of t] by (auto simp: names_def)

text \<open>What an accepted text is.\<close>

definition below_root :: "path \<Rightarrow> bool" where
  "below_root p = (list_all ok_name p \<and> list_ex (\<lambda>root. prefix root p) typed_roots)"

lemma under_some_root:
  assumes "roots_plain fs" "list_ex (is_under_root (realpath fs s)) (typed_allowed_roots fs)"
  shows "\<exists>p. realpath fs s = path_text p \<and> below_root p"
proof -
  obtain root where root: "root \<in> set typed_roots" and under: "is_under_root (realpath fs s) (path_text root)"
    using assms by (auto simp: typed_allowed_roots_plain list_ex_iff)
  obtain p where ok: "list_all ok_name p"
    and p: "realpath fs s = path_text p \<or> realpath fs s = CHR ''/'' # path_text p"
    using realpath_shape by blast
  have "realpath fs s = path_text p"
    using p under double_slash_outside typed_roots_ok [OF root] by metis
  then show ?thesis
    using under is_under_root_iff [OF ok] typed_roots_ok [OF root] root ok
    by (auto simp: below_root_def list_ex_iff)
qed

lemma path_root_Some_iff:
  "path_root fs s = Some root \<Longrightarrow> list_ex (is_under_root (realpath fs s)) (typed_allowed_roots fs)"
  by (auto simp: path_root_def find_Some_iff list_ex_iff)

lemma path_root_below:
  "roots_plain fs \<Longrightarrow> path_root fs s = Some root \<Longrightarrow> \<exists>p. realpath fs s = path_text p \<and> below_root p"
  using under_some_root path_root_Some_iff by metis

text \<open>A validated path leads, if the kernel can follow it, to a place below a typed root.\<close>

lemma revalidated_below:
  assumes "roots_plain fs" "revalidate_path_or_400 fs s = Inr full" "walk strict fs k [] (names full) = Some (j, r)"
  shows "below_root r"
proof -
  have full: "full = realpath fs s" and "path_root fs full \<noteq> None"
    using assms(2) by (auto simp: revalidate_path_or_400_def Let_def split: option.splits)
  then obtain p where p: "realpath fs full = path_text p" "below_root p"
    using path_root_below [OF assms(1)] by blast
  have "is_abs full" using realpath_shape [of fs s] full by auto
  then have "realpath fs full = path_text r" "list_all ok_name r"
    using realpath_walk [OF _ assms(3)] by auto
  then show ?thesis using p by (auto simp: path_text_inj below_root_def)
qed

lemma revalidated_text:
  "roots_plain fs \<Longrightarrow> revalidate_path_or_400 fs s = Inr full \<Longrightarrow>
     full = realpath fs s \<and> is_abs full \<and> (\<exists>p. realpath fs full = path_text p \<and> below_root p)"
  using realpath_shape [of fs s]
  by (auto simp: revalidate_path_or_400_def Let_def split: option.splits dest: path_root_below)

lemma find_under_root:
  assumes "roots_plain fs" "below_root p"
  shows "\<exists>root\<in>set typed_roots. find (is_under_root (path_text p)) (typed_allowed_roots fs) = Some (path_text root) \<and>
    prefix root p"
proof -
  have ok: "list_all ok_name p" using assms(2) by (simp add: below_root_def)
  obtain root where "root \<in> set typed_roots" "prefix root p"
    using assms(2) by (auto simp: below_root_def list_ex_iff)
  then have "\<exists>x\<in>set (typed_allowed_roots fs). is_under_root (path_text p) x"
    using is_under_root_iff [OF ok] typed_roots_ok assms(1) by (auto simp: typed_allowed_roots_plain)
  then obtain x where x: "find (is_under_root (path_text p)) (typed_allowed_roots fs) = Some x"
    by (metis find_None_iff option.exhaust)
  then have "x \<in> set (typed_allowed_roots fs)" "is_under_root (path_text p) x"
    by (auto simp: find_Some_iff)
  then show ?thesis
    using x is_under_root_iff [OF ok] typed_roots_ok assms(1) by (auto simp: typed_allowed_roots_plain)
qed

text \<open>On a canonical path below a root the virtual path is the path itself.\<close>

lemma to_virtual_canonical:
  assumes "roots_plain fs" "below_root p" "canonical fs p"
  shows "to_virtual_path fs (path_text p) = Inr (path_text p)"
proof -
  obtain root where root: "root \<in> set typed_roots" "prefix root p"
    and find: "find (is_under_root (path_text p)) (typed_allowed_roots fs) = Some (path_text root)"
    using find_under_root [OF assms(1,2)] by blast
  obtain t where t: "p = root @ t" using root(2) by (rule prefixE)
  have ok: "list_all ok_name root" "root \<noteq> []" "list_all ok_name t"
    using typed_roots_ok [OF root(1)] assms(3) t by (auto simp: canonical_def)
  show ?thesis
    using find ok relpath_below [of root t] py_join_not_dot [of t]
    by (simp add: to_virtual_path_def path_root_def realpath_id [OF assms(3)] realpath_id [OF assms(3), unfolded t] t path_text_append Let_def)
qed

lemma resolve_virtual_below:
  "roots_plain fs \<Longrightarrow> resolve_virtual_path fs s = Inr (v, full) \<Longrightarrow>
     \<exists>n p. normalize_input_path s = Inr n \<and> full = realpath fs n \<and> full = path_text p \<and> below_root p"
  by (auto simp: resolve_virtual_path_def Let_def split: sum.splits if_splits dest!: under_some_root)

lemma resolve_virtual_acyclic:
  assumes "roots_plain fs" "resolve_virtual_path fs s = Inr (v, full)"
    and "normalize_input_path s = Inr n" "acyclic_path fs n"
  shows "\<exists>p. v = path_text p \<and> full = path_text p \<and> below_root p \<and> canonical fs p"
proof -
  obtain p where p: "full = path_text p" "below_root p" "full = realpath fs n"
    using resolve_virtual_below [OF assms(1,2)] assms(3) by auto
  obtain q where q: "realpath fs n = path_text q" "canonical fs q" using realpath_canonical [OF assms(4)] by blast
  have "p = q" using p q path_text_inj by (auto simp: below_root_def canonical_def)
  then have "to_virtual_path fs full = Inr full" using to_virtual_canonical [OF assms(1)] p q by simp
  then have "v = full"
    using assms(2,3) p(3) by (auto simp: resolve_virtual_path_def Let_def split: sum.splits if_splits)
  then show ?thesis using p q \<open>p = q\<close> by auto
qed

lemma resolve_ls_below:
  "resolve_ls_path fs s = Inr full \<Longrightarrow> list_ex (is_under_root full) (ls_allowed_roots fs)"
  by (auto simp: resolve_ls_path_def Let_def split: sum.splits if_splits)

text \<open>The writable roots.\<close>

lemma read_only_canonical:
  assumes "roots_plain fs" "canonical fs p"
  shows "is_read_only_virtual_path fs (path_text p) \<longleftrightarrow>
    prefix [''mnt'', ''user-data'', ''uploads''] p \<or> prefix [''mnt'', ''skills''] p"
proof -
  have dirs: "uploads_dir = path_text [''mnt'', ''user-data'', ''uploads'']" "skills_dir = path_text [''mnt'', ''skills'']"
    by (simp_all add: sandbox_dirs path_text_def)
  have "list_all ok_name p" using assms(2) by (simp add: canonical_def)
  then show ?thesis
    unfolding is_read_only_virtual_path_def realpath_id [OF assms(2)] sandbox_dirs_plain [OF assms(1)] Let_def
    unfolding dirs
    by (subst (1 2) is_under_root_iff) (simp_all add: ok_name_def)
qed

lemma storage_bucket_canonical:
  assumes "roots_plain fs" "canonical fs p"
  shows "storage_bucket_for_virtual_path fs (path_text p) \<noteq> None \<longleftrightarrow>
    prefix [''workspace''] p \<or> prefix [''mnt'', ''user-data'', ''outputs''] p \<or>
    prefix [''mnt'', ''user-data'', ''uploads''] p"
proof -
  have dirs: "workspace_dir = path_text [''workspace'']" "outputs_dir = path_text [''mnt'', ''user-data'', ''outputs'']"
    "uploads_dir = path_text [''mnt'', ''user-data'', ''uploads'']"
    by (simp_all add: sandbox_dirs path_text_def)
  have "list_all ok_name p" using assms(2) by (simp add: canonical_def)
  then show ?thesis
    unfolding storage_bucket_for_virtual_path_def realpath_id [OF assms(2)] sandbox_dirs_plain [OF assms(1)] Let_def
    unfolding dirs
    by (simp add: is_under_root_iff ok_name_def)
qed

end
