(* ===== verification/SidecarFiles.thy ===== *)
theory SidecarFiles
  imports SidecarPaths "HOL-Library.Word"
begin

text \<open>
  The file handlers of the sidecar (\<open>sidecar_files.py\<close>): create, view, replace,
  list, search and watch. A handler is a sequence of system calls on the shared file
  system, and processes of the sandbox may change that file system between any two of
  them: every handler takes a function that says what they do at each of its points. The
  \<open>touched\<close> field records where the kernel took each call that changes something.
  \<open>os.makedirs\<close>, and the temporary file and rename of a replacement, are one step
  each.
\<close>

section \<open>State and system calls\<close>

datatype touch = Made path | Chowned path | Wrote path

record file_state =
  files :: fs
  pending_sync :: "string list"
  stale_index :: "string list"
  touched :: "touch list"

definition view_max_file_size_bytes :: int where "view_max_file_size_bytes = 25 * 1024 * 1024"
definition file_content_max_length :: int where "file_content_max_length = 10 * 1024 * 1024"

definition utf8_length :: "string \<Rightarrow> nat" where
  "utf8_length s = sum_list (map (\<lambda>c. if char_code c < 128 then 1 else 2) s)"

definition content_size :: "content \<Rightarrow> nat" where
  "content_size c = (case c of Utf8 s \<Rightarrow> utf8_length s | Undecodable _ n \<Rightarrow> n)"

definition meddled :: "(fs \<Rightarrow> fs) \<Rightarrow> file_state \<Rightarrow> file_state" where
  "meddled f st = st\<lparr>files := f (files st)\<rparr>"

definition mkdir :: "fs \<Rightarrow> path \<Rightarrow> (path \<times> fs) option" where
  "mkdir fs p =
     (if p = [] then None
      else case walk True fs max_symlinks [] (butlast p) of
        None \<Rightarrow> None
      | Some (_, d) \<Rightarrow>
          (let q = d @ [last p]
           in if node_at fs d = Some Directory \<and> node_at fs q = None
              then Some (q, dict_put q Directory fs) else None))"

text \<open>
  \<open>os.makedirs(p, exist_ok=True)\<close> on the reversed names of a path: whether it
  returned, the file system, and the directories made. A \<open>FileExistsError\<close> of the
  recursive call is swallowed by the source and followed by a mkdir that cannot succeed
  (the parent exists as a link that leads nowhere), so it ends the same way.
\<close>

fun makedirs_rev :: "fs \<Rightarrow> path \<Rightarrow> bool \<times> fs \<times> path list" where
  "makedirs_rev fs [] = (True, fs, [])"
| "makedirs_rev fs (n # up) =
     (case (if up \<noteq> [] \<and> \<not> path_exists fs (path_text (rev up)) then makedirs_rev fs up else (True, fs, [])) of
        (ok, fs1, made) \<Rightarrow>
          (if \<not> ok then (False, fs1, made)
           else case mkdir fs1 (rev (n # up)) of
             Some (q, fs2) \<Rightarrow> (True, fs2, made @ [q])
           | None \<Rightarrow> (path_isdir fs1 (path_text (rev (n # up))), fs1, made)))"

definition makedirs :: "fs \<Rightarrow> string \<Rightarrow> bool \<times> fs \<times> path list" where
  "makedirs fs s = makedirs_rev fs (rev (names s))"

text \<open>\<open>open(s, "w")\<close> and the write of a text.\<close>

definition write_text :: "fs \<Rightarrow> string \<Rightarrow> string \<Rightarrow> (path \<times> fs) option" where
  "write_text fs s text_of =
     (case follow fs s of
        None \<Rightarrow> None
      | Some r \<Rightarrow>
          (if r \<noteq> [] \<and> node_at fs r \<noteq> Some Directory \<and> node_at fs (butlast r) = Some Directory
           then Some (r, dict_put r (Regular (Utf8 text_of)) fs) else None))"

text \<open>\<open>os.replace(tmp, s)\<close> for a new file \<open>tmp\<close> in the directory of \<open>s\<close>: the last
  name is not followed.\<close>

definition rename_over :: "fs \<Rightarrow> string \<Rightarrow> string \<Rightarrow> (path \<times> fs) option" where
  "rename_over fs s text_of =
     (if names s = [] then None
      else case walk True fs max_symlinks [] (butlast (names s)) of
        None \<Rightarrow> None
      | Some (_, d) \<Rightarrow>
          (let q = d @ [last (names s)]
           in if node_at fs d = Some Directory \<and> node_at fs q \<noteq> Some Directory
              then Some (q, dict_put q (Regular (Utf8 text_of)) fs) else None))"

definition posix_dirname :: "string \<Rightarrow> string" where
  "posix_dirname s =
     (let head = rev (dropWhile (\<lambda>c. c \<noteq> CHR ''/'') (rev s))
      in if list_all (\<lambda>c. c = CHR ''/'') head then head else rev (lstrip_slash (rev head)))"

definition list_directory :: "fs \<Rightarrow> path \<Rightarrow> string list" where
  "list_directory fs d = map (last \<circ> fst) (filter (\<lambda>e. fst e \<noteq> [] \<and> butlast (fst e) = d) fs)"

section \<open>file_create\<close>

datatype create_point =
    CreateReadOnly | CreateDirCheck | CreateMakedirs | CreateDirRecheck | CreateChown | CreateFileCheck
  | CreateOpen | CreateBucket

record create_response =
  cr_path :: string
  cr_size :: nat

definition prepare_dir :: "(create_point \<Rightarrow> fs \<Rightarrow> fs) \<Rightarrow> string \<Rightarrow> file_state \<Rightarrow> bool \<times> file_state" where
  "prepare_dir meddle full st =
     (let dir = posix_dirname full; st1 = meddled (meddle CreateDirCheck) st in
      if dir = [] then (True, st)
      else case revalidate_path_or_400 (files st1) dir of
        Inl _ \<Rightarrow> (False, st1)
      | Inr d \<Rightarrow>
          (let st2 = meddled (meddle CreateMakedirs) st1 in
           case makedirs (files st2) d of
             (ok, fs, made) \<Rightarrow>
               (let st3 = st2\<lparr>files := fs, touched := touched st2 @ map Made made\<rparr> in
                if \<not> ok then (False, st3)
                else let st4 = meddled (meddle CreateDirRecheck) st3 in
                  case revalidate_path_or_400 (files st4) d of
                    Inl _ \<Rightarrow> (False, st4)
                  | Inr d' \<Rightarrow>
                      (let st5 = meddled (meddle CreateChown) st4 in
                       case follow (files st5) d' of
                         None \<Rightarrow> (False, st5)
                       | Some r \<Rightarrow>
                           (if node_at (files st5) r = None then (False, st5)
                            else (True, st5\<lparr>touched := touched st5 @ [Chowned r]\<rparr>))))))"

definition mark_written :: "string \<Rightarrow> string \<Rightarrow> file_state \<Rightarrow> file_state" where
  "mark_written virtual full st =
     st\<lparr>pending_sync := (if storage_bucket_for_virtual_path (files st) virtual \<noteq> None
                          then List.insert virtual (pending_sync st) else pending_sync st),
        stale_index := full # stale_index st\<rparr>"

definition file_create ::
    "(create_point \<Rightarrow> fs \<Rightarrow> fs) \<Rightarrow> string \<Rightarrow> string \<Rightarrow> file_state \<Rightarrow>
     (http_exception + create_response) \<times> file_state" where
  "file_create meddle p text_of st =
     (case resolve_virtual_path (files st) p of
        Inl e \<Rightarrow> (Inl e, st)
      | Inr (virtual, full) \<Rightarrow>
          (let st1 = meddled (meddle CreateReadOnly) st in
           if is_read_only_virtual_path (files st1) virtual then (Inl (HTTPException 403), st1)
           else case prepare_dir meddle full st1 of
             (ok, st2) \<Rightarrow>
               (if \<not> ok then (Inl (HTTPException 500), st2)
                else let st3 = meddled (meddle CreateFileCheck) st2 in
                  case revalidate_path_or_400 (files st3) full of
                    Inl _ \<Rightarrow> (Inl (HTTPException 500), st3)
                  | Inr full' \<Rightarrow>
                      (let st4 = meddled (meddle CreateOpen) st3 in
                       case write_text (files st4) full' text_of of
                         None \<Rightarrow> (Inl (HTTPException 500), st4)
                       | Some (r, fs) \<Rightarrow>
                           (let st5 = meddled (meddle CreateBucket)
                                  (st4\<lparr>files := fs, touched := touched st4 @ [Wrote r, Chowned r]\<rparr>)
                            in (Inr \<lparr>cr_path = virtual, cr_size = utf8_length text_of\<rparr>,
                                mark_written virtual full' st5))))))"

section \<open>view\<close>

text \<open>Reading in text mode turns every line ending into a line feed.\<close>

fun universal_newlines :: "string \<Rightarrow> string" where
  "universal_newlines [] = []"
| "universal_newlines (c # s) =
     (if c = CHR 0x0D then CHR 0x0A # (case s of [] \<Rightarrow> [] | d # s' \<Rightarrow> universal_newlines (if d = CHR 0x0A then s' else s))
      else c # universal_newlines s)"

definition py_slice :: "'a list \<Rightarrow> int \<Rightarrow> int \<Rightarrow> 'a list" where
  "py_slice xs a b =
     (let n = int (length xs); lo = min n (if a < 0 then max 0 (n + a) else a);
          hi = min n (if b < 0 then max 0 (n + b) else b)
      in take (nat (hi - lo)) (drop (nat lo) xs))"

datatype view_point = ViewCheck | ViewExists | ViewRecheck | ViewStat | ViewOpen

datatype view_response = DirectoryView "string list" | FileView string nat

definition shown_text :: "string \<Rightarrow> int list option \<Rightarrow> view_response" where
  "shown_text text_of view_range =
     (let ls = py_split CHR 0x0A text_of; total = length ls;
          shown = (case view_range of
              Some [start, stop] \<Rightarrow>
                py_join [CHR 0x0A] (py_slice ls (max 0 (start - 1)) (min (int total) stop))
            | _ \<Rightarrow> text_of)
      in FileView (if 100 * 1024 < int (length shown)
                   then take (100 * 1024) shown @ CHR 0x0A # ''... (truncated)'' else shown) total)"

definition view_file ::
    "(view_point \<Rightarrow> fs \<Rightarrow> fs) \<Rightarrow> string \<Rightarrow> int list option \<Rightarrow> fs \<Rightarrow> http_exception + view_response" where
  "view_file meddle p view_range fs0 =
     (case resolve_virtual_path fs0 p of
        Inl e \<Rightarrow> Inl e
      | Inr (_, full0) \<Rightarrow>
          (let fs1 = meddle ViewCheck fs0 in
           case revalidate_path_or_400 fs1 full0 of
             Inl e \<Rightarrow> Inl e
           | Inr full1 \<Rightarrow>
               (let fs2 = meddle ViewExists fs1 in
                case stat_node fs2 full1 of
                  None \<Rightarrow> Inl (HTTPException 404)
                | Some Directory \<Rightarrow>
                    (case follow fs2 full1 of None \<Rightarrow> Inl (HTTPException 404)
                     | Some r \<Rightarrow> Inr (DirectoryView (list_directory fs2 r)))
                | Some _ \<Rightarrow>
                    (let fs3 = meddle ViewRecheck fs2 in
                     case revalidate_path_or_400 fs3 full1 of
                       Inl e \<Rightarrow> Inl e
                     | Inr full \<Rightarrow>
                         (let fs4 = meddle ViewStat fs3; fs5 = meddle ViewOpen fs4 in
                          case stat_node fs4 full of
                            None \<Rightarrow> Inl (HTTPException 500)
                          | Some n \<Rightarrow>
                              (if (case n of Regular c \<Rightarrow> view_max_file_size_bytes < int (content_size c) | _ \<Rightarrow> False)
                               then Inl (HTTPException 422)
                               else case stat_node fs5 full of
                                 Some (Regular (Utf8 s)) \<Rightarrow> Inr (shown_text (universal_newlines s) view_range)
                               | Some (Regular (Undecodable _ _)) \<Rightarrow> Inl (HTTPException 422)
                               | _ \<Rightarrow> Inl (HTTPException 500)))))))"

section \<open>str_replace\<close>

text \<open>\<open>content.count(old)\<close>: occurrences from the left that do not overlap.\<close>

function count_from :: "string \<Rightarrow> string \<Rightarrow> nat" where
  "count_from old [] = 0"
| "count_from old (c # s) =
     (if old \<noteq> [] \<and> py_startswith (c # s) old then Suc (count_from old (drop (length old) (c # s)))
      else count_from old s)"
  by pat_completeness auto

termination
  by (relation "measure (\<lambda>(old, s). length s)") (auto simp: neq_Nil_conv)

definition py_count :: "string \<Rightarrow> string \<Rightarrow> nat" where
  "py_count s old = (if old = [] then Suc (length s) else count_from old s)"

definition py_replace_all :: "string \<Rightarrow> string \<Rightarrow> string \<Rightarrow> string" where
  "py_replace_all s old new =
     (if old = [] then new @ concat (map (\<lambda>c. c # new) s) else py_replace old new s)"

fun py_replace_first :: "string \<Rightarrow> string \<Rightarrow> string \<Rightarrow> string" where
  "py_replace_first [] old new = (if old = [] then new else [])"
| "py_replace_first (c # s) old new =
     (if py_startswith (c # s) old then new @ drop (length old) (c # s)
      else c # py_replace_first s old new)"

datatype replace_point =
    ReplaceReadOnly | ReplaceCheck | ReplaceExists | ReplaceRecheck | ReplaceStat | ReplaceRead
  | ReplaceLastCheck | ReplaceSwap | ReplaceBucket

record replace_response =
  rr_path :: string
  rr_replaced :: bool
  rr_occurrences :: nat

definition replaced_text :: "string \<Rightarrow> string \<Rightarrow> string \<Rightarrow> bool \<Rightarrow> http_exception + (string \<times> nat)" where
  "replaced_text text_of old new replace_every =
     (let n = py_count text_of old in
      if 1 < n \<and> \<not> replace_every then Inl (HTTPException 400)
      else if replace_every then Inr (py_replace_all text_of old new, n)
      else Inr (py_replace_first text_of old new, 1))"

definition write_back ::
    "(replace_point \<Rightarrow> fs \<Rightarrow> fs) \<Rightarrow> string \<Rightarrow> string \<Rightarrow> string \<times> nat \<Rightarrow> file_state \<Rightarrow>
     (http_exception + replace_response) \<times> file_state" where
  "write_back meddle virtual full edit st =
     (let st1 = meddled (meddle ReplaceLastCheck) st in
      case revalidate_path_or_400 (files st1) full of
        Inl e \<Rightarrow> (Inl e, st1)
      | Inr full' \<Rightarrow>
          (let st2 = meddled (meddle ReplaceSwap) st1 in
           if stat_node (files st2) full' = None then (Inl (HTTPException 500), st2)
           else case rename_over (files st2) full' (fst edit) of
             None \<Rightarrow> (Inl (HTTPException 500), st2)
           | Some (r, fs) \<Rightarrow>
               (let st3 = meddled (meddle ReplaceBucket)
                      (st2\<lparr>files := fs, touched := touched st2 @ [Wrote r, Chowned r]\<rparr>)
                in (Inr \<lparr>rr_path = virtual, rr_replaced = True, rr_occurrences = snd edit\<rparr>,
                    mark_written virtual full' st3))))"

definition str_replace ::
    "(replace_point \<Rightarrow> fs \<Rightarrow> fs) \<Rightarrow> string \<Rightarrow> string \<Rightarrow> string \<Rightarrow> bool \<Rightarrow> file_state \<Rightarrow>
     (http_exception + replace_response) \<times> file_state" where
  "str_replace meddle p old new replace_every st =
     (case resolve_virtual_path (files st) p of
        Inl e \<Rightarrow> (Inl e, st)
      | Inr (virtual, full0) \<Rightarrow>
          (let st1 = meddled (meddle ReplaceReadOnly) st in
           if is_read_only_virtual_path (files st1) virtual then (Inl (HTTPException 403), st1)
           else let st2 = meddled (meddle ReplaceCheck) st1 in
             case revalidate_path_or_400 (files st2) full0 of
               Inl e \<Rightarrow> (Inl e, st2)
             | Inr full1 \<Rightarrow>
                 (let st3 = meddled (meddle ReplaceExists) st2 in
                  if \<not> path_exists (files st3) full1 then (Inl (HTTPException 404), st3)
                  else let st4 = meddled (meddle ReplaceRecheck) st3 in
                    case revalidate_path_or_400 (files st4) full1 of
                      Inl e \<Rightarrow> (Inl e, st4)
                    | Inr full \<Rightarrow>
                        (let st5 = meddled (meddle ReplaceStat) st4; st6 = meddled (meddle ReplaceRead) st5 in
                         case stat_node (files st5) full of
                           None \<Rightarrow> (Inl (HTTPException 500), st5)
                         | Some n \<Rightarrow>
                             (if (case n of Regular c \<Rightarrow> file_content_max_length < int (content_size c) | _ \<Rightarrow> False)
                              then (Inl (HTTPException 422), st5)
                              else case stat_node (files st6) full of
                                Some (Regular (Utf8 s)) \<Rightarrow>
                                  (if py_count (universal_newlines s) old = 0
                                   then (Inr \<lparr>rr_path = virtual, rr_replaced = False, rr_occurrences = 0\<rparr>, st6)
                                   else case replaced_text (universal_newlines s) old new replace_every of
                                     Inl e \<Rightarrow> (Inl e, st6)
                                   | Inr edit \<Rightarrow> write_back meddle virtual full edit st6)
                              | _ \<Rightarrow> (Inl (HTTPException 500), st6))))))"

end
