(* ===== verification/SidecarSearch.thy ===== *)
theory SidecarSearch
  imports SidecarFiles "HOL-Library.List_Lexorder" "HOL-Library.Char_ord"
begin

text \<open>
  Listing, searching and watching in the sidecar (\<open>sidecar_files.py\<close>): the handlers
  of \<open>/ls\<close>, \<open>/grep\<close> and \<open>/watch\<close>. The regular expression and
  \<open>fnmatch\<close> are parameters. Directory entries come in the order of the file
  system's table; times of modification are left out.
\<close>

section \<open>ls\<close>

record ls_entry =
  le_path :: string
  le_is_dir :: bool
  le_size :: nat

definition lstat_size :: "node \<Rightarrow> nat" where
  "lstat_size n = (case n of Directory \<Rightarrow> 0 | Regular c \<Rightarrow> content_size c | Symlink t \<Rightarrow> length t)"

definition ls_entry_of :: "fs \<Rightarrow> string \<Rightarrow> path \<times> node \<Rightarrow> ls_entry list" where
  "ls_entry_of fs full e =
     (let entry = path_join full (last (fst e)); is_dir = (snd e = Directory);
          virt = realpath fs entry
      in if \<not> is_path_contained fs entry (ls_allowed_roots fs) then []
         else [\<lparr>le_path = (if is_dir \<and> \<not> py_endswith virt ''/'' then virt @ ''/'' else virt),
                le_is_dir = is_dir, le_size = lstat_size (snd e)\<rparr>])"

definition ls_files :: "fs \<Rightarrow> string \<Rightarrow> http_exception + ls_entry list" where
  "ls_files fs p =
     (case resolve_ls_path fs p of
        Inl e \<Rightarrow> Inl e
      | Inr full \<Rightarrow>
          (case follow fs full of
             None \<Rightarrow> Inr []
           | Some d \<Rightarrow>
               (if node_at fs d \<noteq> Some Directory then Inr []
                else Inr (sort_key le_path
                       (concat (map (ls_entry_of fs full)
                          (filter (\<lambda>e. fst e \<noteq> [] \<and> butlast (fst e) = d) fs)))))))"

section \<open>grep\<close>

record grep_match =
  gm_path :: string
  gm_line :: nat
  gm_text :: string

text \<open>The lines of a text file as iteration gives them, with their line feeds.\<close>

definition text_lines :: "string \<Rightarrow> string list" where
  "text_lines s =
     (let ls = py_split CHR 0x0A (universal_newlines s)
      in map (\<lambda>l. l @ [CHR 0x0A]) (butlast ls) @ (if last ls = [] then [] else [last ls]))"

definition rstrip_newline :: "string \<Rightarrow> string" where
  "rstrip_newline s = rev (dropWhile (\<lambda>c. c = CHR 0x0A) (rev s))"

record grep_progress =
  gp_matches :: "grep_match list"
  gp_scanned :: nat
  gp_truncated :: bool

record grep_limits =
  gl_max_matches :: nat
  gl_max_bytes :: nat

fun grep_lines ::
    "grep_limits \<Rightarrow> (string \<Rightarrow> bool) \<Rightarrow> (http_exception + string) \<Rightarrow> nat \<Rightarrow> string list \<Rightarrow> grep_progress \<Rightarrow>
     http_exception + grep_progress" where
  "grep_lines lim search virtual num [] g = Inr g"
| "grep_lines lim search virtual num (l # ls) g =
     (let g1 = g\<lparr>gp_scanned := gp_scanned g + length l\<rparr>;
          after = (\<lambda>g2. if gl_max_bytes lim \<le> gp_scanned g2 then Inr (g2\<lparr>gp_truncated := True\<rparr>)
                         else grep_lines lim search virtual (Suc num) ls g2)
      in if search l
         then (case virtual of
                 Inl e \<Rightarrow> Inl e
               | Inr v \<Rightarrow>
                   (let g2 = g1\<lparr>gp_matches := gp_matches g1 @
                          [\<lparr>gm_path = v, gm_line = num, gm_text = rstrip_newline l\<rparr>]\<rparr>
                    in if gl_max_matches lim \<le> length (gp_matches g2)
                       then Inr (g2\<lparr>gp_truncated := True\<rparr>) else after g2))
         else after g1)"

definition readable_lines :: "content \<Rightarrow> string list" where
  "readable_lines c = (case c of Utf8 s \<Rightarrow> text_lines s | Undecodable s _ \<Rightarrow> text_lines s)"

definition glob_accepts :: "(string \<Rightarrow> string \<Rightarrow> bool) \<Rightarrow> string option \<Rightarrow> string \<Rightarrow> string \<Rightarrow> string \<Rightarrow> bool" where
  "glob_accepts fnmatch glob base file virtual =
     (case glob of
        None \<Rightarrow> True
      | Some g \<Rightarrow> fnmatch (relpath file base) g \<or> fnmatch (lstrip_slash virtual) g \<or>
          fnmatch (last (py_split CHR ''/'' file)) g)"

text \<open>One file: the file system when it is checked and when it is opened may differ.\<close>

definition grep_file ::
    "grep_limits \<Rightarrow> (string \<Rightarrow> bool) \<Rightarrow> (string \<Rightarrow> string \<Rightarrow> bool) \<Rightarrow> string option \<Rightarrow> string \<Rightarrow> string list \<Rightarrow>
     fs \<Rightarrow> fs \<Rightarrow> string \<Rightarrow> grep_progress \<Rightarrow> http_exception + grep_progress" where
  "grep_file lim search fnmatch glob base roots at_check at_open file g =
     (if \<not> is_path_contained at_check file roots then Inr g
      else case (if glob = None \<or> glob = Some [] then Inr [] else to_virtual_path at_check file) of
        Inl e \<Rightarrow> Inl e
      | Inr v \<Rightarrow>
          (if glob \<noteq> None \<and> glob \<noteq> Some [] \<and> \<not> glob_accepts fnmatch glob base file v then Inr g
           else case stat_node at_open file of
             Some (Regular c) \<Rightarrow> grep_lines lim search (to_virtual_path at_open file) 1 (readable_lines c) g
           | _ \<Rightarrow> Inr g))"

fun grep_loop ::
    "(fs \<Rightarrow> fs \<Rightarrow> string \<Rightarrow> grep_progress \<Rightarrow> http_exception + grep_progress) \<Rightarrow> (fs \<times> fs \<times> string) list \<Rightarrow>
     grep_progress \<Rightarrow> http_exception + grep_progress" where
  "grep_loop one [] g = Inr g"
| "grep_loop one ((c, o', file) # rest) g =
     (case one c o' file g of
        Inl e \<Rightarrow> Inl e
      | Inr g' \<Rightarrow> (if gp_truncated g' then Inr g' else grep_loop one rest g'))"

definition files_to_search :: "fs \<Rightarrow> string \<Rightarrow> path \<Rightarrow> string list" where
  "files_to_search fs base r =
     (if node_at fs r \<noteq> Some Directory then [base]
      else map (\<lambda>e. path_join base (py_join ''/'' (drop (length r) (fst e))))
             (filter (\<lambda>e. strict_prefix r (fst e) \<and> snd e \<noteq> Directory \<and>
                \<not> path_isdir fs (path_text (fst e))) fs))"

text \<open>
  The handler: \<open>at_check\<close> and \<open>at_open\<close> give, for each file searched, the file
  system at its check and at its opening; both are \<open>fs\<close> when nothing interferes.
\<close>

definition grep_files ::
    "(string \<Rightarrow> fs) \<Rightarrow> (string \<Rightarrow> fs) \<Rightarrow> nat \<Rightarrow> (string \<Rightarrow> bool) \<Rightarrow> (string \<Rightarrow> string \<Rightarrow> bool) \<Rightarrow> fs \<Rightarrow> string \<Rightarrow>
     string option \<Rightarrow> int \<Rightarrow> http_exception + (grep_match list \<times> bool)" where
  "grep_files at_check at_open max_bytes search fnmatch fs p glob max_matches =
     (case resolve_virtual_path fs (if p = [] then ''/'' else p) of
        Inl e \<Rightarrow> Inl e
      | Inr (_, base) \<Rightarrow>
          (case follow fs base of
             None \<Rightarrow> Inr ([], False)
           | Some r \<Rightarrow>
               (if node_at fs r = None then Inr ([], False)
                else let lim = \<lparr>gl_max_matches = nat (max 1 (min max_matches 5000)), gl_max_bytes = max_bytes\<rparr>;
                       rel_base = (if path_isdir fs base then base else posix_dirname base)
                  in map_sum id (\<lambda>g. (gp_matches g, gp_truncated g))
                       (grep_loop (grep_file lim search fnmatch glob rel_base (typed_allowed_roots fs))
                          (map (\<lambda>f. (at_check f, at_open f, f)) (files_to_search fs base r))
                          \<lparr>gp_matches = [], gp_scanned = 0, gp_truncated = False\<rparr>))))"

section \<open>watch\<close>

text \<open>An event is a \<open>struct inotify_event\<close>: the watch, the mask, the cookie and the
  length of the padded name, 32 bits each in little-endian order, then the name.\<close>

type_synonym bytes = "8 word list"

definition word_le :: "bytes \<Rightarrow> 32 word" where
  "word_le bs = (case bs of [a, b, c, d] \<Rightarrow>
       or (ucast a) (or (push_bit 8 (ucast b)) (or (push_bit 16 (ucast c)) (push_bit 24 (ucast d))))
     | _ \<Rightarrow> 0)"

definition bytes_le :: "32 word \<Rightarrow> bytes" where
  "bytes_le w = [ucast w, ucast (drop_bit 8 w), ucast (drop_bit 16 w), ucast (drop_bit 24 w)]"

definition inotify_event_size :: nat where "inotify_event_size = 16"

function parse_inotify_events :: "bytes \<Rightarrow> (32 word \<times> bytes) list" where
  "parse_inotify_events data =
     (if length data < inotify_event_size then []
      else let mask = word_le (take 4 (drop 4 data)); name_len = unat (word_le (take 4 (drop 12 data)));
             raw_name = take name_len (drop inotify_event_size data)
        in (mask, takeWhile (\<lambda>b. b \<noteq> 0) raw_name) # parse_inotify_events (drop (inotify_event_size + name_len) data))"
  by pat_completeness auto

termination by (relation "measure length") (auto simp: inotify_event_size_def)

declare parse_inotify_events.simps [simp del]

definition in_create :: "32 word" where "in_create = 0x100"
definition in_modify :: "32 word" where "in_modify = 0x2"
definition in_delete :: "32 word" where "in_delete = 0x200"
definition in_close_write :: "32 word" where "in_close_write = 0x8"
definition in_moved_from :: "32 word" where "in_moved_from = 0x40"
definition in_moved_to :: "32 word" where "in_moved_to = 0x80"

lemmas inotify_masks =
  in_create_def in_modify_def in_delete_def in_close_write_def in_moved_from_def in_moved_to_def

definition watch_event_mask :: "32 word" where
  "watch_event_mask =
     or in_create (or in_modify (or in_delete (or in_close_write (or in_moved_from in_moved_to))))"

datatype event_name = Known string | HexMask "32 word"

definition watch_event_name :: "32 word \<Rightarrow> event_name" where
  "watch_event_name m =
     (case map_of [(in_create, ''created''), (in_modify, ''modified''), (in_delete, ''deleted''),
                   (in_close_write, ''modified''), (in_moved_from, ''moved_from''), (in_moved_to, ''moved_to'')] m of
        Some n \<Rightarrow> Known n
      | None \<Rightarrow> HexMask m)"

text \<open>One read of the watch, after which it is closed.\<close>

definition watch_changes :: "bytes \<Rightarrow> (bytes \<times> event_name) list" where
  "watch_changes data =
     map (\<lambda>(m, n). (n, watch_event_name m)) (filter (\<lambda>(m, n). n \<noteq> []) (parse_inotify_events (take (64 * 1024) data)))"

definition watch_directory ::
    "(string \<Rightarrow> int \<Rightarrow> bytes option option) \<Rightarrow> fs \<Rightarrow> string \<Rightarrow> int \<Rightarrow>
     http_exception + ((bytes \<times> event_name) list \<times> bool)" where
  "watch_directory inotify fs p timeout_millis =
     (case resolve_ls_path fs p of
        Inl e \<Rightarrow> Inl e
      | Inr full \<Rightarrow>
          (if \<not> path_isdir fs full then Inl (HTTPException 400)
           else case inotify full (min (max 100 timeout_millis) 60000) of
             None \<Rightarrow> Inl (HTTPException 500)
           | Some None \<Rightarrow> Inr ([], True)
           | Some (Some data) \<Rightarrow> Inr (watch_changes data, False)))"

end
