(* ===== verification/FileSafety.thy ===== *)
theory FileSafety
  imports SidecarSearch
begin

text \<open>
  What the sidecar's file handlers guarantee: where the calls of a handler go on a file
  system the sandbox changes under it, what a later read returns, and the bounds of a
  search.
\<close>

section \<open>Well-formed file systems\<close>

definition tree_ok :: "fs \<Rightarrow> bool" where
  "tree_ok fs = list_all (\<lambda>e. fst e \<noteq> [] \<and> list_all ok_name (fst e) \<and>
     node_at fs (butlast (fst e)) = Some Directory) fs"

definition sandbox_fs :: "fs \<Rightarrow> bool" where
  "sandbox_fs fs = (tree_ok fs \<and> roots_plain fs)"

lemma tree_okD: "tree_ok fs \<Longrightarrow> node_at fs q = Some n \<Longrightarrow> q = [] \<or> node_at fs (butlast q) = Some Directory"
  by (force simp: tree_ok_def list_all_iff node_at_def dest: map_of_SomeD split: if_splits)

lemma tree_absent: "tree_ok fs \<Longrightarrow> node_at fs q = None \<Longrightarrow> node_at fs (q @ t) = None"
proof (induction t rule: rev_induct)
  case (snoc n t)
  show ?case
  proof (rule ccontr)
    assume "node_at fs (q @ t @ [n]) \<noteq> None"
    then obtain m where "node_at fs ((q @ t) @ [n]) = Some m" by auto
    from tree_okD [OF snoc.prems(1) this] show False using snoc by (simp flip: append_assoc)
  qed
qed simp

lemma node_at_put: "q \<noteq> [] \<Longrightarrow> node_at (dict_put q n fs) p = (if p = q then Some n else node_at fs p)"
  by (auto simp: node_at_def dict_simps)

lemma tree_ok_put:
  assumes "tree_ok fs" "q \<noteq> []" "list_all ok_name q" "node_at fs (butlast q) = Some Directory"
    and "n = Directory \<or> node_at fs q \<noteq> Some Directory"
  shows "tree_ok (dict_put q n fs)"
proof -
  have "butlast q \<noteq> q" using assms(2) by (metis append_butlast_last_id not_Cons_self2 append_self_conv)
  have keep: "node_at (dict_put q n fs) p = Some Directory" if "node_at fs p = Some Directory" for p
    using assms(5) that by (auto simp: node_at_put [OF assms(2)])
  have "fst e \<noteq> [] \<and> list_all ok_name (fst e) \<and> node_at (dict_put q n fs) (butlast (fst e)) = Some Directory"
    if "e \<in> set (dict_put q n fs)" for e
    using that dict_put_preserves_set [of q n fs] assms keep by (fastforce simp: tree_ok_def list_all_iff)
  then show ?thesis by (simp add: tree_ok_def list_all_iff)
qed

lemma roots_plain_mono:
  "roots_plain fs \<Longrightarrow> (\<And>q. node_at fs q = Some Directory \<Longrightarrow> node_at fs' q = Some Directory) \<Longrightarrow> roots_plain fs'"
  by (simp add: roots_plain_def plain_dir_def list_all_iff del: upt_Suc)

lemma sandbox_fs_put:
  assumes "sandbox_fs fs" "q \<noteq> []" "list_all ok_name q" "node_at fs (butlast q) = Some Directory"
    and "n = Directory \<or> node_at fs q \<noteq> Some Directory"
  shows "sandbox_fs (dict_put q n fs)"
  using assms unfolding sandbox_fs_def
  by (auto intro!: tree_ok_put elim!: roots_plain_mono simp: node_at_put)

lemma walk_lax: "walk True fs k p ns = Some x \<Longrightarrow> walk False fs k p ns = Some x"
  by (induction True fs k p ns rule: walk.induct) (auto simp: walk.simps(2) split: if_splits option.splits nat.splits)

lemma walk_absent:
  "tree_ok fs \<Longrightarrow> node_at fs q = None \<Longrightarrow> list_all ok_name ns \<Longrightarrow> walk False fs k q ns = Some (k, q @ ns)"
proof (induction ns arbitrary: q)
  case (Cons n ns)
  have "node_at fs (q @ [n]) = None" using tree_absent [OF Cons.prems(1,2)] .
  then show ?case using Cons by (simp add: walk.simps(2) link_at_def ok_name_def)
qed simp

lemma below_root_outside:
  assumes "roots_plain fs" "below_root (q @ t)" "node_at fs q = None"
  shows "below_root q"
proof -
  obtain root where root: "root \<in> set typed_roots" "prefix root (q @ t)"
    using assms(2) by (auto simp: below_root_def list_ex_iff)
  have "prefix root q"
  proof (rule ccontr)
    assume "\<not> prefix root q"
    then have "prefix q root" using root(2) by (metis prefix_same_cases prefixI)
    then have "q = take (length q) root" "length q \<le> length root"
      by (auto simp: prefix_def)
    then have "node_at fs q = Some Directory"
      using plain_dirD [of fs root "length q"] assms(1) root(1) by (auto simp: roots_plain_def list_all_iff)
    then show False using assms(3) by simp
  qed
  then show ?thesis using root assms(2) by (auto simp: below_root_def list_ex_iff)
qed

section \<open>Making the directories of a validated path\<close>

lemma mkdir_below:
  assumes fs: "sandbox_fs fs" and d: "is_abs d" "realpath fs d = path_text p" "below_root p"
    and nm: "names d = pre @ rest" "list_all ok_name (pre @ rest)"
    and mk: "mkdir fs pre = Some (q, fs')"
  shows "below_root q \<and> sandbox_fs fs' \<and> link_at fs' = link_at fs"
proof -
  obtain k c where w: "walk True fs max_symlinks [] (butlast pre) = Some (k, c)" and pre: "pre \<noteq> []"
    and q: "q = c @ [last pre]" and c: "node_at fs c = Some Directory" "node_at fs q = None"
    and fs': "fs' = dict_put q Directory fs"
    using mk by (auto simp: mkdir_def Let_def split: if_splits option.splits)
  have last: "ok_name (last pre)" and rest: "list_all ok_name rest" and buts: "\<forall>n\<in>set (butlast pre). ok_name n"
    using nm(2) pre by (auto simp: list_all_iff dest: in_set_butlastD)
  have okc: "list_all ok_name c" using walk_ok_names [OF w] buts by auto
  have "walk False fs k c [last pre] = Some (k, q)"
    using last c by (simp add: walk.simps(2) ok_name_def q link_at_def)
  then have "walk False fs max_symlinks [] (butlast pre @ [last pre]) = Some (k, q)"
    using walk_lax [OF w] by (simp add: walk_append)
  moreover have "tree_ok fs" using fs by (simp add: sandbox_fs_def)
  ultimately have "walk False fs max_symlinks [] (names d) = Some (k, q @ rest)"
    using walk_absent [OF _ c(2) rest] pre by (simp add: nm(1) walk_append)
  then have "realpath fs d = path_text (q @ rest)" "list_all ok_name (q @ rest)"
    using realpath_walk [OF d(1)] by blast+
  then have "below_root (q @ rest)" using d by (metis path_text_inj below_root_def)
  then have "below_root q" using below_root_outside [OF _ _ c(2)] fs by (simp add: sandbox_fs_def)
  moreover have "sandbox_fs fs'"
    using fs okc last c unfolding fs' by (intro sandbox_fs_put) (auto simp: q)
  moreover have "link_at fs' = link_at fs"
    using c(2) by (auto simp: fs' link_at_def node_at_put q fun_eq_iff)
  ultimately show ?thesis by blast
qed

text \<open>realpath sees only the links.\<close>

lemma joinreal_links: "link_at fs' = link_at fs \<Longrightarrow> joinreal fs' seen p rest stack = joinreal fs seen p rest stack"
proof (induction fs seen p rest stack rule: joinreal.induct)
  case (1 fs seen p rest stack)
  show ?case
  proof (cases "rest = []")
    case True
    then show ?thesis
      using 1(1) [OF True _ _ 1(7)] by (subst (1 2) joinreal.simps) (auto split: list.split)
  next
    case False
    obtain n rest' where nx: "next_name rest = (n, rest')" by (cases "next_name rest")
    note nx' = nx [symmetric]
    show ?thesis
      using 1(2-6) [OF False nx'] 1(7) False nx
      by (subst (1 2) joinreal.simps) (auto split: option.split)
  qed
qed

lemma realpath_links: "link_at fs' = link_at fs \<Longrightarrow> realpath fs' s = realpath fs s"
  unfolding realpath_def using joinreal_links by metis

lemma makedirs_rev_below:
  "sandbox_fs fs \<Longrightarrow> is_abs d \<Longrightarrow> realpath fs d = path_text p \<Longrightarrow> below_root p \<Longrightarrow>
     names d = rev up @ rest \<Longrightarrow> list_all ok_name (rev up @ rest) \<Longrightarrow> makedirs_rev fs up = (ok, fs', made) \<Longrightarrow>
     list_all below_root made \<and> sandbox_fs fs' \<and> link_at fs' = link_at fs"
proof (induction fs up arbitrary: rest ok fs' made rule: makedirs_rev.induct)
  case (2 fs n up)
  define first where
    "first = (if up \<noteq> [] \<and> \<not> path_exists fs (path_text (rev up)) then makedirs_rev fs up else (True, fs, []))"
  obtain ok1 fs1 made1 where f: "first = (ok1, fs1, made1)" by (cases first)
  have one: "list_all below_root made1 \<and> sandbox_fs fs1 \<and> link_at fs1 = link_at fs"
  proof (cases "up \<noteq> [] \<and> \<not> path_exists fs (path_text (rev up))")
    case True
    then have "makedirs_rev fs up = (ok1, fs1, made1)" using f by (simp add: first_def)
    moreover have "names d = rev up @ [n] @ rest" "list_all ok_name (rev up @ [n] @ rest)" using 2(6,7) by simp_all
    ultimately show ?thesis by (intro 2(1) [OF True 2(2-5)])
  next
    case False
    then have "first = (True, fs, [])" by (simp only: first_def if_False)
    then show ?thesis using f 2(2) by simp
  qed
  have step: "makedirs_rev fs (n # up) =
      (if \<not> ok1 then (False, fs1, made1)
       else case mkdir fs1 (rev (n # up)) of
         Some (q, fs2) \<Rightarrow> (True, fs2, made1 @ [q])
       | None \<Rightarrow> (path_isdir fs1 (path_text (rev (n # up))), fs1, made1))"
    using f by (simp only: makedirs_rev.simps first_def [symmetric] prod.case)
  show ?case
  proof (cases "mkdir fs1 (rev (n # up))")
    case None
    then show ?thesis using step 2(8) one by (auto split: if_splits)
  next
    case (Some qf)
    obtain q fs2 where q: "qf = (q, fs2)" by (cases qf)
    have "realpath fs1 d = path_text p" using 2(4) one realpath_links [of fs1 fs d] by simp
    moreover have "mkdir fs1 (rev (n # up)) = Some (q, fs2)" using Some q by simp
    moreover have "sandbox_fs fs1" using one by simp
    ultimately have two: "below_root q \<and> sandbox_fs fs2 \<and> link_at fs2 = link_at fs1"
      using mkdir_below 2(3,5-7) by blast
    have "(ok, fs', made) = (if \<not> ok1 then (False, fs1, made1) else (True, fs2, made1 @ [q]))"
      using step 2(8) unfolding Some q option.case prod.case by simp
    then show ?thesis using one two by (simp split: if_splits)
  qed
qed simp

lemma realpath_names_ok: "\<exists>p. names (realpath fs s) = p \<and> list_all ok_name p"
  using realpath_shape [of fs s] by auto

lemma makedirs_below:
  assumes "sandbox_fs fs" "revalidate_path_or_400 fs s = Inr d" "makedirs fs d = (ok, fs', made)"
  shows "list_all below_root made \<and> sandbox_fs fs'"
proof -
  obtain p where "d = realpath fs s" "is_abs d" "realpath fs d = path_text p" "below_root p"
    using revalidated_text [OF _ assms(2)] assms(1) by (auto simp: sandbox_fs_def)
  then show ?thesis
    using makedirs_rev_below [OF assms(1), of d p "rev (names d)" "[]" ok fs' made] assms(3)
      realpath_names_ok [of fs s] by (auto simp: makedirs_def)
qed

lemma write_text_below:
  assumes "sandbox_fs fs" "revalidate_path_or_400 fs s = Inr full" "write_text fs full c = Some (r, fs')"
  shows "below_root r \<and> sandbox_fs fs'"
proof -
  obtain k where w: "walk True fs max_symlinks [] (names full) = Some (k, r)" and r: "r \<noteq> []"
    "node_at fs r \<noteq> Some Directory" "node_at fs (butlast r) = Some Directory"
    and fs': "fs' = dict_put r (Regular (Utf8 c)) fs"
    using assms(3) by (auto simp: write_text_def follow_def split: option.splits if_splits)
  have "below_root r" using revalidated_below [OF _ assms(2) w] assms(1) by (simp add: sandbox_fs_def)
  then show ?thesis
    using sandbox_fs_put [OF assms(1) r(1) _ r(3)] r(2) fs' by (simp add: below_root_def)
qed

lemma follow_below:
  "sandbox_fs fs \<Longrightarrow> revalidate_path_or_400 fs s = Inr full \<Longrightarrow> follow fs full = Some r \<Longrightarrow> below_root r"
  using revalidated_below by (auto simp: follow_def sandbox_fs_def)

section \<open>Where the calls of file_create go\<close>

definition tame :: "(fs \<Rightarrow> fs) \<Rightarrow> bool" where
  "tame f = (\<forall>fs. sandbox_fs fs \<longrightarrow> sandbox_fs (f fs))"

primrec touched_path :: "touch \<Rightarrow> path" where
  "touched_path (Made p) = p"
| "touched_path (Chowned p) = p"
| "touched_path (Wrote p) = p"

definition only_below :: "file_state \<Rightarrow> file_state \<Rightarrow> bool" where
  "only_below st st' =
     (sandbox_fs (files st') \<and>
      (\<exists>new. touched st' = touched st @ new \<and> list_all (\<lambda>t. below_root (touched_path t)) new))"

lemma only_below_refl: "sandbox_fs (files st) \<Longrightarrow> only_below st st"
  by (simp add: only_below_def)

lemma only_below_trans: "only_below a b \<Longrightarrow> only_below b c \<Longrightarrow> only_below a c"
  by (auto simp: only_below_def)

lemma only_below_meddled: "sandbox_fs (files st) \<Longrightarrow> tame f \<Longrightarrow> only_below st (meddled f st)"
  by (simp add: only_below_def meddled_def tame_def)

lemma meddled_id [simp]: "meddled id st = st"
  by (simp add: meddled_def)

lemma prepare_dir_below:
  assumes fs: "sandbox_fs (files st)" and tame: "\<And>pt. tame (meddle pt)"
    and idle: "meddle CreateMakedirs = id" "meddle CreateChown = id"
    and run: "prepare_dir meddle full st = (ok, st')"
  shows "only_below st st'"
proof -
  let ?dir = "posix_dirname full"
  define st1 where "st1 = meddled (meddle CreateDirCheck) st"
  have one: "only_below st st1" unfolding st1_def by (rule only_below_meddled [OF fs tame])
  show ?thesis
  proof (cases "?dir = []")
    case True
    then show ?thesis using run fs by (simp add: prepare_dir_def only_below_refl)
  next
    case nonempty: False
    show ?thesis
    proof (cases "revalidate_path_or_400 (files st1) ?dir")
      case (Inl e)
      then show ?thesis using run nonempty one by (simp add: prepare_dir_def st1_def [symmetric])
    next
      case d: (Inr d)
      obtain mok fs3 made where mk: "makedirs (files st1) d = (mok, fs3, made)" by (cases "makedirs (files st1) d")
      define st3 where "st3 = st1\<lparr>files := fs3, touched := touched st1 @ map Made made\<rparr>"
      have "only_below st1 st3"
        using makedirs_below [OF _ d mk] one by (auto simp: only_below_def st3_def list_all_iff)
      then have three: "only_below st st3" by (rule only_below_trans [OF one])
      define st4 where "st4 = meddled (meddle CreateDirRecheck) st3"
      have four: "only_below st st4"
        using only_below_trans [OF three only_below_meddled [OF _ tame]] three
        by (simp add: st4_def only_below_def)
      have run': "(if \<not> mok then (False, st3) else
          case revalidate_path_or_400 (files st4) d of
            Inl _ \<Rightarrow> (False, st4)
          | Inr d' \<Rightarrow> (case follow (files st4) d' of
              None \<Rightarrow> (False, st4)
            | Some r \<Rightarrow> (if node_at (files st4) r = None then (False, st4)
                else (True, st4\<lparr>touched := touched st4 @ [Chowned r]\<rparr>)))) = (ok, st')"
        using run nonempty d mk unfolding st4_def st3_def prepare_dir_def Let_def st1_def [symmetric]
          idle meddled_id
        by simp
      show ?thesis
        using run' three four follow_below [of "files st4" d]
        by (auto simp: only_below_def split: if_splits sum.splits option.splits)
    qed
  qed
qed

lemma file_create_below:
  assumes fs: "sandbox_fs (files st)" and tame: "\<And>pt. tame (meddle pt)"
    and idle: "meddle CreateMakedirs = id" "meddle CreateChown = id" "meddle CreateOpen = id"
    and run: "file_create meddle p c st = (res, st')"
  shows "only_below st st'"
proof (cases "resolve_virtual_path (files st) p")
  case (Inl e)
  then show ?thesis using run fs by (simp add: file_create_def only_below_refl)
next
  case (Inr vf)
  obtain v full where vf: "vf = (v, full)" by (cases vf)
  define st1 where "st1 = meddled (meddle CreateReadOnly) st"
  have one: "only_below st st1" unfolding st1_def by (rule only_below_meddled [OF fs tame])
  obtain ok st2 where two: "prepare_dir meddle full st1 = (ok, st2)" by (cases "prepare_dir meddle full st1")
  have "only_below st1 st2"
    using one prepare_dir_below [OF _ tame idle(1,2) two] by (simp add: only_below_def)
  then have b2: "only_below st st2" by (rule only_below_trans [OF one])
  define st3 where "st3 = meddled (meddle CreateFileCheck) st2"
  have "only_below st2 st3"
    unfolding st3_def using b2 by (intro only_below_meddled [OF _ tame]) (simp add: only_below_def)
  then have b3: "only_below st st3" by (rule only_below_trans [OF b2])
  have written: "only_below st (mark_written v full'
      (meddled (meddle CreateBucket) (st3\<lparr>files := fs, touched := touched st3 @ [Wrote r, Chowned r]\<rparr>)))"
    if "revalidate_path_or_400 (files st3) full = Inr full'" "write_text (files st3) full' c = Some (r, fs)"
    for full' r fs
    using write_text_below [OF _ that] b3 tame [of CreateBucket]
    by (auto simp: only_below_def mark_written_def meddled_def tame_def)
  show ?thesis
    using run b2 b3 one written unfolding file_create_def Inr vf sum.case prod.case Let_def
      st1_def [symmetric] two st3_def [symmetric] idle(3) meddled_id
    by (auto split: if_splits sum.splits option.splits)
qed

text \<open>What a process of the sandbox can do: put a link where it owns the directory.\<close>

definition plant_link :: "path \<Rightarrow> string \<Rightarrow> fs \<Rightarrow> fs" where
  "plant_link q t fs =
     (if q \<noteq> [] \<and> list_all ok_name q \<and> node_at fs (butlast q) = Some Directory \<and>
         list_all (\<lambda>e. butlast (fst e) \<noteq> q) fs \<and> \<not> list_ex (prefix q) typed_roots
      then dict_put q (Symlink t) fs else fs)"

lemma tame_plant_link: "tame (plant_link q t)"
proof -
  have "sandbox_fs (dict_put q (Symlink t) fs)"
    if fs: "sandbox_fs fs" and q: "q \<noteq> []" "list_all ok_name q" "node_at fs (butlast q) = Some Directory"
      and no_child: "list_all (\<lambda>e. butlast (fst e) \<noteq> q) fs" and root: "\<not> list_ex (prefix q) typed_roots" for fs
  proof -
    have "butlast q \<noteq> q" using q(1) by (metis append_butlast_last_id not_Cons_self2 append_self_conv)
    then have "tree_ok (dict_put q (Symlink t) fs)"
      using fs q no_child dict_put_preserves_set [of q "Symlink t" fs]
      by (fastforce simp: sandbox_fs_def tree_ok_def list_all_iff node_at_put)
    moreover have "take i r \<noteq> q" if "r \<in> set typed_roots" for r i
      using root that by (auto simp: list_ex_iff take_is_prefix)
    then have "roots_plain (dict_put q (Symlink t) fs)"
      using fs q(1)
      by (simp add: sandbox_fs_def roots_plain_def plain_dir_def list_all_iff node_at_put del: upt_Suc)
    ultimately show ?thesis by (simp add: sandbox_fs_def)
  qed
  then show ?thesis by (auto simp: tame_def plant_link_def)
qed

lemma tame_id: "tame id"
  by (simp add: tame_def)

definition sample_fs :: fs where
  "sample_fs =
     [([''workspace''], Directory), ([''tmp''], Directory), ([''mnt''], Directory),
      ([''mnt'', ''user-data''], Directory), ([''mnt'', ''user-data'', ''uploads''], Directory),
      ([''mnt'', ''user-data'', ''outputs''], Directory), ([''mnt'', ''skills''], Directory),
      ([''workspace'', ''d''], Directory), ([''workspace'', ''f''], Regular (Utf8 ''one two'')),
      ([''etc''], Directory), ([''etc'', ''passwd''], Regular (Utf8 ''root''))]"

definition sample_files :: file_state where
  "sample_files = \<lparr>files = sample_fs, pending_sync = [], stale_index = [], touched = []\<rparr>"

lemma sample_sandbox: "sandbox_fs sample_fs"
  by code_simp

section \<open>Properties of file creation\<close>

text \<open>C21: If the sandbox's processes do what they like to the file system between the
  system calls of a file creation, except between a call and the check directly before it,
  and leave the directories of the image in place, then every directory, owner and file the
  handler changes is one the kernel reaches below a typed root.\<close>
theorem create_calls_contained:
  assumes "sandbox_fs (files st)" and "\<And>pt. tame (meddle pt)"
    and "meddle CreateMakedirs = id" "meddle CreateChown = id" "meddle CreateOpen = id"
    and "file_create meddle p c st = (res, st')"
  shows "\<exists>new. touched st' = touched st @ new \<and> list_all (\<lambda>t. below_root (touched_path t)) new"
  using file_create_below [OF assms] by (simp add: only_below_def)

definition sample_meddler :: "create_point \<Rightarrow> fs \<Rightarrow> fs" where
  "sample_meddler pt =
     (if pt = CreateDirCheck then plant_link [''workspace'', ''d''] ''/tmp''
      else if pt = CreateFileCheck then plant_link [''tmp'', ''x''] ''/etc/passwd'' else id)"

lemma sample_meddler_tame: "tame (sample_meddler pt)"
  by (simp add: sample_meddler_def tame_plant_link tame_id)

lemma create_calls_contained_witness:
  defines "r \<equiv> file_create sample_meddler ''d/x'' ''data'' sample_files"
  shows "touched (snd r) = [Chowned [''tmp'']] \<and> fst r = Inl (HTTPException 500) \<and>
    (\<exists>new. touched (snd r) = touched sample_files @ new \<and> list_all (\<lambda>t. below_root (touched_path t)) new)"
proof (intro conjI)
  show "touched (snd r) = [Chowned [''tmp'']]" unfolding r_def by code_simp
  show "fst r = Inl (HTTPException 500)" unfolding r_def by code_simp
  show "\<exists>new. touched (snd r) = touched sample_files @ new \<and> list_all (\<lambda>t. below_root (touched_path t)) new"
    unfolding r_def
    by (rule create_calls_contained [OF _ sample_meddler_tame _ _ _ prod.collapse [symmetric]])
      (simp_all add: sample_files_def sample_sandbox sample_meddler_def)
qed






section \<open>Reads\<close>

text \<open>C22: Whatever the sandbox does before the checks of a view, and however it arranges
  links and cycles of links, the text or the listing returned is that of a file or directory
  below a typed root, of the file system as it was at the check before the access.\<close>
theorem viewed_content_contained:
  assumes fs: "sandbox_fs fs" and tame: "\<And>pt. tame (meddle pt)"
    and idle: "meddle ViewExists = id" "meddle ViewStat = id" "meddle ViewOpen = id"
    and run: "view_file meddle p view_range fs = Inr resp"
  shows "\<exists>r. below_root r \<and>
    (resp = DirectoryView (list_directory (meddle ViewCheck fs) r) \<or>
     (\<exists>s. node_at (meddle ViewRecheck (meddle ViewCheck fs)) r = Some (Regular (Utf8 s)) \<and>
        resp = shown_text (universal_newlines s) view_range))"
proof -
  define fs1 where "fs1 = meddle ViewCheck fs"
  define fs3 where "fs3 = meddle ViewRecheck fs1"
  have ok: "sandbox_fs fs1" "sandbox_fs fs3"
    using fs tame unfolding fs1_def fs3_def tame_def by blast+
  obtain v full0 where res: "resolve_virtual_path fs p = Inr (v, full0)"
    using run by (cases "resolve_virtual_path fs p") (auto simp: view_file_def)
  obtain full1 where c1: "revalidate_path_or_400 fs1 full0 = Inr full1"
    using run by (cases "revalidate_path_or_400 fs1 full0") (auto simp: view_file_def res fs1_def)
  note run' = run [unfolded view_file_def res sum.case prod.case Let_def fs1_def [symmetric] c1 idle id_apply
      fs3_def [symmetric]]
  show ?thesis
  proof (cases "stat_node fs1 full1")
    case (Some n)
    show ?thesis
    proof (cases "n = Directory")
      case True
      obtain r where "follow fs1 full1 = Some r" "resp = DirectoryView (list_directory fs1 r)"
        using run' Some True by (auto split: option.splits)
      then show ?thesis using follow_below [OF ok(1) c1] fs1_def by auto
    next
      case False
      have read: "(case revalidate_path_or_400 fs3 full1 of
          Inl e \<Rightarrow> Inl e
        | Inr full \<Rightarrow>
            (case stat_node fs3 full of
               None \<Rightarrow> Inl (HTTPException 500)
             | Some n \<Rightarrow>
                 (if (case n of Regular c \<Rightarrow> view_max_file_size_bytes < int (content_size c) | _ \<Rightarrow> False)
                  then Inl (HTTPException 422)
                  else case stat_node fs3 full of
                    Some (Regular (Utf8 s)) \<Rightarrow> Inr (shown_text (universal_newlines s) view_range)
                  | Some (Regular (Undecodable _ _)) \<Rightarrow> Inl (HTTPException 422)
                  | _ \<Rightarrow> Inl (HTTPException 500)))) = Inr resp"
        using run' Some False by (cases n) auto
      then obtain full where c3: "revalidate_path_or_400 fs3 full1 = Inr full" by (auto split: sum.splits)
      obtain s where s: "stat_node fs3 full = Some (Regular (Utf8 s))"
        and resp: "resp = shown_text (universal_newlines s) view_range"
        using read unfolding c3 sum.case
        by (auto split: option.splits if_splits node.splits content.splits)
      then obtain r where "follow fs3 full = Some r" "node_at fs3 r = Some (Regular (Utf8 s))"
        by (auto simp: stat_node_def split: option.splits)
      then show ?thesis using follow_below [OF ok(2) c3] resp fs3_def fs1_def by auto
    qed
  qed (use run' in auto)
qed

definition view_meddler :: "view_point \<Rightarrow> fs \<Rightarrow> fs" where
  "view_meddler pt = (if pt = ViewCheck then plant_link [''workspace'', ''l''] ''f'' else id)"

lemma viewed_content_contained_witness:
  "view_file view_meddler ''f'' None sample_fs = Inr (FileView ''one two'' 1) \<and>
    (\<exists>r. below_root r \<and>
      (FileView ''one two'' 1 = DirectoryView (list_directory (view_meddler ViewCheck sample_fs) r) \<or>
       (\<exists>s. node_at (view_meddler ViewRecheck (view_meddler ViewCheck sample_fs)) r = Some (Regular (Utf8 s)) \<and>
          FileView ''one two'' 1 = shown_text (universal_newlines s) None)))"
proof
  show run: "view_file view_meddler ''f'' None sample_fs = Inr (FileView ''one two'' 1)" by code_simp
  show "\<exists>r. below_root r \<and>
      (FileView ''one two'' 1 = DirectoryView (list_directory (view_meddler ViewCheck sample_fs) r) \<or>
       (\<exists>s. node_at (view_meddler ViewRecheck (view_meddler ViewCheck sample_fs)) r = Some (Regular (Utf8 s)) \<and>
          FileView ''one two'' 1 = shown_text (universal_newlines s) None))"
    by (rule viewed_content_contained [OF sample_sandbox _ _ _ _ run])
      (simp_all add: view_meddler_def tame_plant_link tame_id)
qed

section \<open>What is written is what is read\<close>

lemma tree_ok_prefix:
  "tree_ok fs \<Longrightarrow> node_at fs p = Some n \<Longrightarrow> i < length p \<Longrightarrow> node_at fs (take i p) = Some Directory"
proof (induction p arbitrary: n rule: rev_induct)
  case (snoc m p)
  have up: "node_at fs p = Some Directory" using tree_okD [OF snoc.prems(1,2)] by simp
  show ?case
  proof (cases "i = length p")
    case False
    then show ?thesis using snoc.IH [OF snoc.prems(1) up] snoc.prems(3) by simp
  qed (use up in simp)
qed simp


lemma follow_canonical:
  assumes "tree_ok fs" "canonical fs p" "node_at fs p = Some n"
  shows "follow fs (path_text p) = Some p" "stat_node fs (path_text p) = Some n"
proof -
  have ok: "list_all ok_name p" and no_link: "link_at fs p = None"
    using assms(2) by (auto simp: canonical_def link_free_iff)
  have "walk True fs max_symlinks [] p = Some (max_symlinks, p)"
    using tree_ok_prefix [OF assms(1,3)] ok no_link by (subst walk_plain) auto
  then show "follow fs (path_text p) = Some p" using ok by (simp add: follow_def)
  then show "stat_node fs (path_text p) = Some n" by (simp add: stat_node_def assms(3))
qed


lemma revalidate_canonical:
  assumes "roots_plain fs" "below_root p" "canonical fs p"
  shows "revalidate_path_or_400 fs (path_text p) = Inr (path_text p)"
  using find_under_root [OF assms(1,2)]
  by (auto simp: revalidate_path_or_400_def path_root_def realpath_id [OF assms(3)])




section \<open>Replacing a string\<close>

lemma count_from_pos: "0 < count_from old s \<Longrightarrow> \<exists>a b. s = a @ old @ b \<and> py_replace_first s old new = a @ new @ b"
proof (induction s)
  case (Cons c s)
  show ?case
  proof (cases "py_startswith (c # s) old")
    case True
    then obtain b where b: "c # s = old @ b" by (auto simp: py_startswith_iff)
    then have "drop (length old) (c # s) = b" by simp
    then have "py_replace_first (c # s) old new = new @ b"
      using True by (simp only: py_replace_first.simps if_True)
    then show ?thesis using b by (metis append_Nil)
  next
    case False
    then obtain a b where "s = a @ old @ b" "py_replace_first s old new = a @ new @ b"
      using Cons by auto
    then have "c # s = (c # a) @ old @ b \<and> py_replace_first (c # s) old new = (c # a) @ new @ b"
      using False by simp
    then show ?thesis by blast
  qed
qed simp

lemma py_count_pos:
  assumes "py_count s old = 1"
  shows "\<exists>a b. s = a @ old @ b \<and> py_replace_first s old new = a @ new @ b"
proof (cases "old = []")
  case True
  then have "s = []" using assms by (simp add: py_count_def)
  then show ?thesis using True by auto
next
  case False
  then show ?thesis using assms count_from_pos [of old s new] by (simp add: py_count_def)
qed

lemma rename_over_canonical:
  assumes "tree_ok fs" "canonical fs q" "q \<noteq> []" "node_at fs q = Some (Regular c)"
  shows "rename_over fs (path_text q) t = Some (q, dict_put q (Regular (Utf8 t)) fs)"
proof -
  have q: "butlast q @ [last q] = q" using assms(3) by simp
  have up: "node_at fs (butlast q) = Some Directory" using tree_okD [OF assms(1,4)] assms(3) by simp
  have "canonical fs (butlast q)" by (rule canonical_butlast [OF assms(2)])
  then have "follow fs (path_text (butlast q)) = Some (butlast q)" "list_all ok_name (butlast q)"
    using follow_canonical [OF assms(1) _ up] by (auto simp: canonical_def)
  then obtain k where "walk True fs max_symlinks [] (butlast q) = Some (k, butlast q)"
    by (auto simp: follow_def)
  then show ?thesis using assms q up by (simp add: rename_over_def canonical_def Let_def)
qed

text \<open>C25: A replacement does what its answer says. When no process interferes and the path
  meets no cycle of links, the handler changes nothing unless the string occurs, refuses
  several occurrences unless all are wanted, and else rewrites exactly this file; the text it
  edits, and writes back, is the file's with all its line endings turned into line feeds.\<close>
theorem str_replace_meets_spec:
  fixes old new :: string and every :: bool
  assumes fs: "sandbox_fs (files st)" and path: "normalize_input_path p = Inr n" "acyclic_path (files st) n"
    and res: "resolve_virtual_path (files st) p = Inr (v, full)"
    and writable: "\<not> is_read_only_virtual_path (files st) v"
    and node: "stat_node (files st) full = Some (Regular (Utf8 s))"
    and small: "int (utf8_length s) \<le> file_content_max_length"
  defines "t \<equiv> universal_newlines s"
  defines "every_new \<equiv> if every then py_replace_all t old new else py_replace_first t old new"
  shows "\<exists>q. v = path_text q \<and>
    str_replace (\<lambda>_. id) p old new every st =
      (if py_count t old = 0 then (Inr \<lparr>rr_path = v, rr_replaced = False, rr_occurrences = 0\<rparr>, st)
       else if 1 < py_count t old \<and> \<not> every then (Inl (HTTPException 400), st)
       else (Inr \<lparr>rr_path = v, rr_replaced = True, rr_occurrences = py_count t old\<rparr>,
             mark_written v v (st\<lparr>files := dict_put q (Regular (Utf8 every_new)) (files st),
               touched := touched st @ [Wrote q, Chowned q]\<rparr>))) \<and>
    (py_count t old = 1 \<longrightarrow> (\<exists>a b. t = a @ old @ b \<and> py_replace_first t old new = a @ new @ b))"
proof -
  obtain q where q: "v = path_text q" "full = path_text q" "below_root q" "canonical (files st) q"
    using resolve_virtual_acyclic [OF _ res path] fs by (auto simp: sandbox_fs_def)
  have "q \<noteq> []" using q(3) typed_roots_ok by (auto simp: below_root_def list_ex_iff)
  obtain r where r: "follow (files st) full = Some r" "node_at (files st) r = Some (Regular (Utf8 s))"
    using node by (auto simp: stat_node_def split: option.splits)
  then obtain k where w: "walk True (files st) max_symlinks [] (names full) = Some (k, r)"
    by (auto simp: follow_def)
  have "is_abs full" using q(2) by simp
  from realpath_walk [OF this w] have "path_text r = realpath (files st) full" "list_all ok_name r" by simp_all
  then have "r = q" using realpath_id [OF q(4)] q by (simp add: path_text_inj canonical_def)
  then have rename: "rename_over (files st) (path_text q) t' =
      Some (q, dict_put q (Regular (Utf8 t')) (files st))" for t'
    using rename_over_canonical [OF _ q(4) \<open>q \<noteq> []\<close>] r fs by (simp add: sandbox_fs_def)
  have reval: "revalidate_path_or_400 (files st) (path_text q) = Inr (path_text q)"
    using revalidate_canonical [OF _ q(3,4)] fs by (simp add: sandbox_fs_def)
  have ex: "path_exists (files st) (path_text q)" using node q(2) by (simp add: path_exists_def)
  have writes: "write_back (\<lambda>_. id) (path_text q) (path_text q) edit st =
      (Inr \<lparr>rr_path = v, rr_replaced = True, rr_occurrences = snd edit\<rparr>,
       mark_written v v (st\<lparr>files := dict_put q (Regular (Utf8 (fst edit))) (files st),
               touched := touched st @ [Wrote q, Chowned q]\<rparr>))" for edit
    using reval rename node q by (simp add: write_back_def Let_def)
  have "str_replace (\<lambda>_. id) p old new every st =
      (if py_count t old = 0 then (Inr \<lparr>rr_path = v, rr_replaced = False, rr_occurrences = 0\<rparr>, st)
       else case replaced_text t old new every of Inl e \<Rightarrow> (Inl e, st)
         | Inr edit \<Rightarrow> write_back (\<lambda>_. id) (path_text q) (path_text q) edit st)"
    using writable reval ex node small q
    unfolding str_replace_def res sum.case prod.case Let_def meddled_id
    by (simp add: content_size_def t_def q(1) split: sum.split)
  then show ?thesis
    using q(1) py_count_pos [of t old new] by (auto simp: writes replaced_text_def every_new_def Let_def)
qed

lemma str_replace_meets_spec_witness:
  "\<exists>q. ''/workspace/f'' = path_text q \<and>
    str_replace (\<lambda>_. id) ''f'' ''two'' ''three'' False sample_files =
      (Inr \<lparr>rr_path = ''/workspace/f'', rr_replaced = True, rr_occurrences = 1\<rparr>,
       mark_written ''/workspace/f'' ''/workspace/f''
         (sample_files\<lparr>files := dict_put q (Regular (Utf8 ''one three'')) sample_fs, touched := [Wrote q, Chowned q]\<rparr>))"
proof -
  have texts: "universal_newlines ''one two'' = ''one two''" "py_count ''one two'' ''two'' = 1"
    "py_replace_first ''one two'' ''two'' ''three'' = ''one three''"
    by code_simp+
  have path: "normalize_input_path ''f'' = Inr ''/workspace/f''" "acyclic_path (files sample_files) ''/workspace/f''"
    and file_at: "resolve_virtual_path (files sample_files) ''f'' = Inr (''/workspace/f'', ''/workspace/f'')"
    "\<not> is_read_only_virtual_path (files sample_files) ''/workspace/f''"
    "stat_node (files sample_files) ''/workspace/f'' = Some (Regular (Utf8 ''one two''))"
    "int (utf8_length ''one two'') \<le> file_content_max_length"
    by code_simp+
  have "sandbox_fs (files sample_files)" by (simp add: sample_files_def sample_sandbox)
  note spec = str_replace_meets_spec [OF this path file_at, where every = False and new = "''three''"
      and old = "''two''", unfolded texts]
  from spec show ?thesis by (elim exE, intro exI) (simp add: sample_files_def)
qed

section \<open>Accepted paths\<close>

text \<open>C23: An accepted path is well formed: the file path is the text of a list of proper
  names, absolute, normalised and below a typed root; and when the path asked for meets no
  cycle of links, none of its prefixes is a link and the virtual path is the same text.\<close>
theorem accepted_path_well_formed:
  assumes "roots_plain fs" and "resolve_virtual_path fs s = Inr (v, full)"
  shows "\<exists>n p. normalize_input_path s = Inr n \<and> full = path_text p \<and> below_root p \<and>
    (acyclic_path fs n \<longrightarrow> v = path_text p \<and> canonical fs p)"
proof -
  obtain n p where n: "normalize_input_path s = Inr n" and p: "full = path_text p" "below_root p"
    using resolve_virtual_below [OF assms] by blast
  have "v = path_text p \<and> canonical fs p" if acyclic: "acyclic_path fs n"
    using resolve_virtual_acyclic [OF assms n acyclic] p by (auto simp: path_text_inj below_root_def)
  then show ?thesis using n p by blast
qed

lemma accepted_path_well_formed_witness:
  defines "asked \<equiv> '' l'' @ [CHR 0x5C] @ ''z ''"
    and "fs \<equiv> plant_link [''workspace'', ''l''] ''../tmp/./y'' sample_fs"
  shows "resolve_virtual_path fs asked = Inr (''/tmp/y/z'', ''/tmp/y/z'') \<and>
    (\<exists>p. ''/tmp/y/z'' = path_text p \<and> below_root p \<and> canonical fs p)"
proof
  show run: "resolve_virtual_path fs asked = Inr (''/tmp/y/z'', ''/tmp/y/z'')"
    unfolding asked_def fs_def by code_simp
  have "normalize_input_path asked = Inr ''/workspace/l/z''" "acyclic_path fs ''/workspace/l/z''"
    unfolding asked_def fs_def by code_simp+
  moreover have "roots_plain fs"
    using sample_sandbox tame_plant_link by (simp add: tame_def sandbox_fs_def fs_def)
  ultimately show "\<exists>p. ''/tmp/y/z'' = path_text p \<and> below_root p \<and> canonical fs p"
    using accepted_path_well_formed [OF _ run] by auto
qed

end
