(* ===== verification/SearchSafety.thy ===== *)
theory SearchSafety
  imports FileSafety
begin

text \<open>
  What the sidecar's search and watch return: the lines a search reports and how many, how a
  cycle of links aborts it, and the events read from a watch.
\<close>

section \<open>One line of a search\<close>

definition line_match :: "string \<Rightarrow> nat \<Rightarrow> string \<Rightarrow> grep_match" where
  "line_match v num l = \<lparr>gm_path = v, gm_line = num, gm_text = rstrip_newline l\<rparr>"

lemma grep_lines_step:
  assumes "grep_lines lim search virtual num (l # ls) g = Inr g'"
  obtains (stop) v where "search l" "virtual = Inr v" "gp_matches g' = gp_matches g @ [line_match v num l]" "gp_truncated g'"
  | (full) "gp_matches g' = gp_matches g" "gp_truncated g'"
  | (hit) v g1 where "search l" "virtual = Inr v" "gp_matches g1 = gp_matches g @ [line_match v num l]"
      "gp_truncated g1 = gp_truncated g" "length (gp_matches g1) < gl_max_matches lim"
      "grep_lines lim search virtual (Suc num) ls g1 = Inr g'"
  | (miss) g1 where "gp_matches g1 = gp_matches g" "gp_truncated g1 = gp_truncated g"
      "grep_lines lim search virtual (Suc num) ls g1 = Inr g'"
proof (cases "search l")
  case True
  then obtain v where v: "virtual = Inr v" using assms by (auto simp: Let_def split: sum.splits)
  let ?g = "g\<lparr>gp_scanned := gp_scanned g + length l, gp_matches := gp_matches g @ [line_match v num l]\<rparr>"
  show ?thesis
    using assms True v stop [OF True v] hit [OF True v, of ?g] by (auto simp: Let_def line_match_def split: if_splits)
next
  case False
  show ?thesis
    using assms False full miss [of "g\<lparr>gp_scanned := gp_scanned g + length l\<rparr>"] by (auto simp: Let_def split: if_splits)
qed

definition within :: "grep_limits \<Rightarrow> grep_progress \<Rightarrow> bool" where
  "within lim g = (length (gp_matches g) \<le> gl_max_matches lim \<and>
     (\<not> gp_truncated g \<longrightarrow> length (gp_matches g) < gl_max_matches lim))"

lemma grep_lines_within:
  "grep_lines lim search virtual num ls g = Inr g' \<Longrightarrow> within lim g \<Longrightarrow> \<not> gp_truncated g \<Longrightarrow> within lim g'"
proof (induction ls arbitrary: num g)
  case (Cons l ls)
  from Cons.prems(1) show ?case
  proof (cases rule: grep_lines_step)
    case (hit v g1)
    then show ?thesis using Cons.IH [OF hit(6)] Cons.prems by (simp add: within_def)
  next
    case (miss g1)
    then show ?thesis using Cons.IH [OF miss(3)] Cons.prems by (simp add: within_def)
  qed (use Cons.prems in \<open>auto simp: within_def\<close>)
qed simp

text \<open>Every match the lines of a file add is one of them.\<close>

definition reports :: "(string \<Rightarrow> bool) \<Rightarrow> string \<Rightarrow> string list \<Rightarrow> grep_match \<Rightarrow> bool" where
  "reports search v ls m =
     list_ex (\<lambda>i. search (ls ! i) \<and> m = line_match v (Suc i) (ls ! i)) [0..<length ls]"

lemma reports_at: "i < length ls \<Longrightarrow> search (ls ! i) \<Longrightarrow> reports search v ls (line_match v (Suc i) (ls ! i))"
  by (auto simp: reports_def list_ex_iff)

definition added :: "grep_progress \<Rightarrow> grep_progress \<Rightarrow> (grep_match \<Rightarrow> bool) \<Rightarrow> bool" where
  "added g g' P = (\<exists>new. gp_matches g' = gp_matches g @ new \<and> list_all P new)"

lemma added_refl: "gp_matches g' = gp_matches g \<Longrightarrow> added g g' P"
  by (simp add: added_def)

lemma added_one: "gp_matches g' = gp_matches g @ [m] \<Longrightarrow> P m \<Longrightarrow> added g g' P"
  by (simp add: added_def)

lemma added_trans: "added g g1 P \<Longrightarrow> added g1 g' P \<Longrightarrow> added g g' P"
  by (auto simp: added_def)

lemma added_mono: "added g g' P \<Longrightarrow> (\<And>m. P m \<Longrightarrow> Q m) \<Longrightarrow> added g g' Q"
  by (auto simp: added_def list_all_iff)

lemma grep_lines_added:
  "grep_lines lim search virtual (Suc (length before)) ls g = Inr g' \<Longrightarrow>
     added g g' (\<lambda>m. \<exists>v. virtual = Inr v \<and> reports search v (before @ ls) m)"
proof (induction ls arbitrary: before g)
  case (Cons l ls)
  have here: "reports search v (before @ l # ls) (line_match v (Suc (length before)) l)" if "search l" for v
    using reports_at [of "length before" "before @ l # ls" search v] that by simp
  have next_line: "added g1 g' (\<lambda>m. \<exists>v. virtual = Inr v \<and> reports search v (before @ l # ls) m)"
    if "grep_lines lim search virtual (Suc (Suc (length before))) ls g1 = Inr g'" for g1
    using Cons.IH [of "before @ [l]" g1] that by simp
  from Cons.prems show ?case
  proof (cases rule: grep_lines_step)
    case (hit v g1)
    then show ?thesis using added_trans [OF added_one next_line] here by blast
  next
    case (miss g1)
    then show ?thesis using added_trans [OF added_refl next_line] by blast
  qed (auto intro: added_one added_refl here)
qed (simp add: added_refl)

section \<open>The files of a search\<close>

lemma walk_canonical:
  "walk strict fs k p ns = Some (k', r) \<Longrightarrow> canonical fs p \<Longrightarrow> \<forall>n\<in>set ns. n = ''..'' \<or> ok_name n \<Longrightarrow> canonical fs r"
proof (induction strict fs k p ns rule: walk.induct)
  case (2 strict fs k p n ns)
  have "canonical fs (butlast p)" using 2(5) canonical_butlast by blast
  moreover have "\<forall>m\<in>set (names t @ ns). m = ''..'' \<or> ok_name m" for t
    using 2(6) names_ok by auto
  moreover have "canonical fs (link_base p t)" for t using 2(5) by (simp add: link_base_def)
  ultimately show ?case
    using 2 by (auto simp: walk.simps(2) canonical_snoc split: if_splits option.splits nat.splits)
qed simp

text \<open>A contained file the kernel can open has the place it leads to as its virtual path.\<close>

lemma contained_file:
  assumes fs: "sandbox_fs fs" and f: "is_abs f" "is_path_contained fs f (typed_allowed_roots fs)"
    and node: "stat_node fs f = Some n"
  shows "\<exists>r. below_root r \<and> node_at fs r = Some n \<and> to_virtual_path fs f = Inr (path_text r)"
proof -
  obtain r where r: "follow fs f = Some r" "node_at fs r = Some n"
    using node by (auto simp: stat_node_def split: option.splits)
  then obtain k where w: "walk True fs max_symlinks [] (names f) = Some (k, r)" by (auto simp: follow_def)
  have rp: "realpath fs f = path_text r" and ok: "list_all ok_name r" using realpath_walk [OF f(1) w] by auto
  have can: "canonical fs r" using walk_canonical [OF w] names_ok by auto
  obtain p where "realpath fs f = path_text p" "below_root p"
    using under_some_root [of fs f] f(2) fs by (auto simp: is_path_contained_def sandbox_fs_def)
  then have below: "below_root r" using rp ok path_text_inj [of p r] by (auto simp: below_root_def)
  have "to_virtual_path fs (path_text r) = Inr (path_text r)"
    using to_virtual_canonical [OF _ below can] fs by (simp add: sandbox_fs_def)
  then have "to_virtual_path fs f = Inr (path_text r)"
    using rp realpath_id [OF can] by (simp add: to_virtual_path_def)
  then show ?thesis using r(2) below by blast
qed

definition true_match :: "fs \<Rightarrow> (string \<Rightarrow> bool) \<Rightarrow> grep_match \<Rightarrow> bool" where
  "true_match fs search m =
     (\<exists>r c. below_root r \<and> node_at fs r = Some (Regular c) \<and> reports search (path_text r) (readable_lines c) m)"

lemma grep_file_sound:
  assumes fs: "sandbox_fs fs" and f: "is_abs f"
    and run: "grep_file lim search fnmatch glob base (typed_allowed_roots fs) fs fs f g = Inr g'"
  shows "added g g' (true_match fs search)" and "within lim g \<Longrightarrow> \<not> gp_truncated g \<Longrightarrow> within lim g'"
proof -
  consider "g' = g" | c where "is_path_contained fs f (typed_allowed_roots fs)" "stat_node fs f = Some (Regular c)"
      "grep_lines lim search (to_virtual_path fs f) 1 (readable_lines c) g = Inr g'"
    using run by (auto simp: grep_file_def split: if_splits sum.splits option.splits node.splits)
  then have "added g g' (true_match fs search) \<and> (within lim g \<longrightarrow> \<not> gp_truncated g \<longrightarrow> within lim g')"
  proof cases
    case (2 c)
    obtain r where r: "below_root r" "node_at fs r = Some (Regular c)" "to_virtual_path fs f = Inr (path_text r)"
      using contained_file [OF fs f 2(1,2)] by blast
    have "added g g' (\<lambda>m. \<exists>v. to_virtual_path fs f = Inr v \<and> reports search v (readable_lines c) m)"
      using grep_lines_added [of lim search "to_virtual_path fs f" "[]"] 2(3) by simp
    then have "added g g' (true_match fs search)"
      by (rule added_mono) (use r in \<open>auto simp: true_match_def\<close>)
    then show ?thesis using grep_lines_within [OF 2(3)] by blast
  qed (simp add: added_refl)
  then show "added g g' (true_match fs search)" "within lim g \<Longrightarrow> \<not> gp_truncated g \<Longrightarrow> within lim g'" by auto
qed

lemma grep_loop_sound:
  "(\<And>f g g'. f \<in> set fl \<Longrightarrow> one fs fs f g = Inr g' \<Longrightarrow>
      added g g' P \<and> (within lim g \<longrightarrow> \<not> gp_truncated g \<longrightarrow> within lim g')) \<Longrightarrow>
     grep_loop one (map (\<lambda>f. (fs, fs, f)) fl) g = Inr g' \<Longrightarrow> within lim g \<Longrightarrow> \<not> gp_truncated g \<Longrightarrow>
     added g g' P \<and> within lim g'"
proof (induction fl arbitrary: g)
  case (Cons f fl)
  obtain g1 where one: "one fs fs f g = Inr g1" using Cons.prems(2) by (auto split: sum.splits)
  have g1: "added g g1 P" "within lim g1" using Cons.prems(1) [of f g g1] one Cons.prems(3,4) by auto
  show ?case
  proof (cases "gp_truncated g1")
    case True
    then show ?thesis using Cons.prems(2) one g1 by simp
  next
    case False
    then have "grep_loop one (map (\<lambda>f. (fs, fs, f)) fl) g1 = Inr g'" using Cons.prems(2) one by simp
    then have "added g1 g' P \<and> within lim g'"
      using Cons.IH Cons.prems(1) g1(2) False by (metis list.set_intros(2))
    then show ?thesis using added_trans [OF g1(1)] by blast
  qed
qed (simp add: added_refl)

lemma files_to_search_abs: "is_abs base \<Longrightarrow> f \<in> set (files_to_search fs base r) \<Longrightarrow> is_abs f"
  by (auto simp: files_to_search_def is_abs_path_join split: if_splits)

text \<open>C27: When no process interferes, whatever links there are, each match of a search is a
  line that matches the pattern of a file below a typed root, with its number, its text and
  the canonical path of the file, and there are at most as many as asked for and 5000.\<close>
theorem grep_matches_true:
  assumes fs: "sandbox_fs fs"
    and run: "grep_files (\<lambda>_. fs) (\<lambda>_. fs) max_bytes search fnmatch fs p glob max_matches = Inr (ms, truncated)"
  shows "list_all (true_match fs search) ms \<and> int (length ms) \<le> max 1 (min max_matches 5000)"
proof -
  define lim where "lim = \<lparr>gl_max_matches = nat (max 1 (min max_matches 5000)), gl_max_bytes = max_bytes\<rparr>"
  define g0 where "g0 = \<lparr>gp_matches = [], gp_scanned = 0, gp_truncated = False\<rparr>"
  have start: "within lim g0" "\<not> gp_truncated g0" "gp_matches g0 = []"
    by (simp_all add: within_def lim_def g0_def)
  obtain v base where res: "resolve_virtual_path fs (if p = [] then ''/'' else p) = Inr (v, base)"
    using run by (auto simp: grep_files_def split: sum.splits)
  then have abs: "is_abs base" using resolve_virtual_below fs by (fastforce simp: sandbox_fs_def)
  consider "ms = []" | r b g' where
      "grep_loop (grep_file lim search fnmatch glob b (typed_allowed_roots fs))
         (map (\<lambda>f. (fs, fs, f)) (files_to_search fs base r)) g0 = Inr g'" "ms = gp_matches g'"
    using run unfolding grep_files_def res sum.case prod.case Let_def lim_def [symmetric] g0_def [symmetric]
    by (cases "follow fs base") (auto split: if_splits sum.splits simp: map_sum_def)
  then show ?thesis
  proof cases
    case (2 r b g')
    have one: "added g g' (true_match fs search) \<and> (within lim g \<longrightarrow> \<not> gp_truncated g \<longrightarrow> within lim g')"
      if "f \<in> set (files_to_search fs base r)"
        "grep_file lim search fnmatch glob b (typed_allowed_roots fs) fs fs f g = Inr g'" for f g g'
      using grep_file_sound [OF fs files_to_search_abs [OF abs that(1)] that(2)] by blast
    have "added g0 g' (true_match fs search) \<and> within lim g'"
      by (rule grep_loop_sound [OF _ 2(1) start(1,2)]) (rule one)
    then show ?thesis using start(3) 2(2) by (auto simp: added_def within_def lim_def)
  qed simp
qed

lemma grep_matches_true_witness:
  defines "fs \<equiv> plant_link [''workspace'', ''l''] ''/etc/passwd'' sample_fs"
  shows "grep_files (\<lambda>_. fs) (\<lambda>_. fs) 1000 (\<lambda>l. py_contains l ''o'') (\<lambda>_ _. False) fs ''/'' None 10 =
      Inr ([line_match ''/workspace/f'' 1 ''one two''], False) \<and>
    list_all (true_match fs (\<lambda>l. py_contains l ''o'')) [line_match ''/workspace/f'' 1 ''one two''] \<and>
    int (length [line_match ''/workspace/f'' 1 ''one two'']) \<le> max 1 (min 10 5000)"
proof
  show run: "grep_files (\<lambda>_. fs) (\<lambda>_. fs) 1000 (\<lambda>l. py_contains l ''o'') (\<lambda>_ _. False) fs ''/'' None 10 =
      Inr ([line_match ''/workspace/f'' 1 ''one two''], False)" unfolding fs_def by code_simp
  have "sandbox_fs fs" using sample_sandbox tame_plant_link by (simp add: tame_def fs_def)
  from grep_matches_true [OF this run]
  show "list_all (true_match fs (\<lambda>l. py_contains l ''o'')) [line_match ''/workspace/f'' 1 ''one two''] \<and>
    int (length [line_match ''/workspace/f'' 1 ''one two'']) \<le> max 1 (min 10 5000)" .
qed

text \<open>A link whose target runs through a link to itself makes a search with a file
  pattern fail as a whole: realpath stops at the cycle and returns the rest of the target,
  which passes the containment check, while the second realpath of the virtual path follows
  it out of the roots and raises. Without a pattern the same search returns its matches.\<close>
theorem cyclic_link_aborts_grep:
  defines "fs \<equiv> plant_link [''workspace'', ''b''] ''l//workspace/a''
      (plant_link [''workspace'', ''l''] ''l'' (plant_link [''workspace'', ''a''] ''/etc/passwd'' sample_fs))"
  shows "sandbox_fs fs \<and> realpath fs ''/workspace/b'' = ''/workspace/a'' \<and> realpath fs ''/workspace/a'' = ''/etc/passwd'' \<and>
    grep_files (\<lambda>_. fs) (\<lambda>_. fs) 1000 (\<lambda>l. py_contains l ''o'') (\<lambda>_ _. True) fs ''/'' (Some ''*'') 10 =
      Inl (HTTPException 400) \<and>
    grep_files (\<lambda>_. fs) (\<lambda>_. fs) 1000 (\<lambda>l. py_contains l ''o'') (\<lambda>_ _. True) fs ''/'' None 10 =
      Inr ([line_match ''/workspace/f'' 1 ''one two''], False)"
  unfolding fs_def by (intro conjI; code_simp)

section \<open>Events of a watch\<close>

lemma word_le_bytes_le: "word_le (bytes_le w) = w"
proof -
  have high: "n - 16 < 8" if "\<not> bit w (24 + (n - 24))" "bit w n" for n
    using that by (cases "24 \<le> n") auto
  show ?thesis
    unfolding word_le_def bytes_le_def list.case
    by (rule bit_word_eqI) (auto simp: bit_simps intro: high)
qed

lemma length_bytes_le [simp]: "length (bytes_le w) = 4"
  by (simp add: bytes_le_def)

text \<open>An event as the kernel writes it: the name is padded with NUL bytes.\<close>

record watch_event =
  we_wd :: "32 word"
  we_mask :: "32 word"
  we_cookie :: "32 word"
  we_name :: bytes
  we_pad :: nat

definition padded_name :: "watch_event \<Rightarrow> bytes" where
  "padded_name e = we_name e @ replicate (we_pad e) 0"

definition event_bytes :: "watch_event \<Rightarrow> bytes" where
  "event_bytes e = bytes_le (we_wd e) @ bytes_le (we_mask e) @ bytes_le (we_cookie e) @
     bytes_le (of_nat (length (padded_name e))) @ padded_name e"

definition event_ok :: "watch_event \<Rightarrow> bool" where
  "event_ok e = (0 \<notin> set (we_name e) \<and> length (padded_name e) < 2 ^ 32)"

lemma takeWhile_padded: "0 \<notin> set n \<Longrightarrow> takeWhile (\<lambda>b. b \<noteq> 0) (n @ replicate k 0) = n"
  by (subst takeWhile_append2) (auto simp: takeWhile_eq_Nil_iff)

lemma parse_inotify_cons:
  assumes "event_ok e"
  shows "parse_inotify_events (event_bytes e @ rest) = (we_mask e, we_name e) # parse_inotify_events rest"
proof -
  have n: "unat (of_nat (length (padded_name e)) :: 32 word) = length (padded_name e)"
    using assms by (simp add: unat_of_nat event_ok_def)
  have name: "takeWhile (\<lambda>b. b \<noteq> 0) (padded_name e) = we_name e"
    using assms by (simp add: padded_name_def event_ok_def takeWhile_padded)
  have whole: "length (event_bytes e) = 16 + length (padded_name e)" by (simp add: event_bytes_def)
  define d where "d = event_bytes e @ rest"
  have split: "take 4 (drop 4 d) = bytes_le (we_mask e)"
    "take 4 (drop 12 d) = bytes_le (of_nat (length (padded_name e)))"
    "drop 16 d = padded_name e @ rest"
    by (simp_all add: d_def event_bytes_def)
  have "drop (16 + length (padded_name e)) d = rest" "\<not> length d < 16" by (simp_all add: d_def whole)
  then show ?thesis
    unfolding d_def [symmetric]
    by (subst parse_inotify_events.simps) (simp add: inotify_event_size_def Let_def split n name word_le_bytes_le)
qed

lemma parse_inotify_roundtrip:
  "list_all event_ok es \<Longrightarrow>
     parse_inotify_events (concat (map event_bytes es)) = map (\<lambda>e. (we_mask e, we_name e)) es"
proof (induction es)
  case Nil
  show ?case by (subst parse_inotify_events.simps) (simp add: inotify_event_size_def)
qed (simp add: parse_inotify_cons)

definition in_isdir :: "32 word" where "in_isdir = 0x40000000"

lemma directory_mask_unnamed: "and m in_isdir = in_isdir \<Longrightarrow> watch_event_name m = HexMask m"
  by (auto simp: watch_event_name_def inotify_masks in_isdir_def)

text \<open>The buffer of a watch is read back as the kernel wrote it: each event with a name
  is reported under its name, in order. But the kernel sets the directory flag in the mask
  of an event on a subdirectory, and such an event is always reported as a number, never as
  created, deleted or moved.\<close>
theorem watch_reports_events:
  assumes "list_all event_ok es" and "length (concat (map event_bytes es)) \<le> 64 * 1024"
  shows "watch_changes (concat (map event_bytes es)) =
      map (\<lambda>e. (we_name e, watch_event_name (we_mask e))) (filter (\<lambda>e. we_name e \<noteq> []) es) \<and>
    list_all (\<lambda>e. and (we_mask e) in_isdir = in_isdir \<longrightarrow> watch_event_name (we_mask e) = HexMask (we_mask e)) es"
proof -
  have "take (64 * 1024) (concat (map event_bytes es)) = concat (map event_bytes es)"
    using assms(2) by (rule take_all)
  then have "watch_changes (concat (map event_bytes es)) =
      map (\<lambda>(m, n). (n, watch_event_name m)) (filter (\<lambda>(m, n). n \<noteq> []) (map (\<lambda>e. (we_mask e, we_name e)) es))"
    unfolding watch_changes_def using parse_inotify_roundtrip [OF assms(1)] by simp
  also have "\<dots> = map (\<lambda>e. (we_name e, watch_event_name (we_mask e))) (filter (\<lambda>e. we_name e \<noteq> []) es)"
    by (induction es) auto
  finally show ?thesis using directory_mask_unnamed by (auto simp: list_all_iff)
qed

definition sample_events :: "watch_event list" where
  "sample_events =
     [\<lparr>we_wd = 1, we_mask = in_create, we_cookie = 0, we_name = [97], we_pad = 15\<rparr>,
      \<lparr>we_wd = 1, we_mask = or in_create in_isdir, we_cookie = 0, we_name = [100], we_pad = 15\<rparr>]"

lemma watch_reports_events_witness:
  "watch_changes (concat (map event_bytes sample_events)) = [([97], Known ''created''), ([100], HexMask 0x40000100)]"
proof -
  have ok: "list_all event_ok sample_events"
    by (simp add: sample_events_def event_ok_def padded_name_def)
  have "length (concat (map event_bytes sample_events)) \<le> 64 * 1024"
    by (simp add: sample_events_def event_bytes_def padded_name_def)
  from watch_reports_events [OF ok this] show ?thesis
    by (simp add: sample_events_def watch_event_name_def inotify_masks in_isdir_def)
qed

end
