(* ===== verification/OAuth.thy ===== *)
theory OAuth
  imports Prelude
begin

text \<open>
  The OAuth 2.1 authorization server for MCP clients (\<open>routers/oauth.py\<close> and its
  repositories): registration, the consent decision that creates an authorization code,
  and the token endpoint with PKCE, refresh-token rotation and reuse detection. A request
  to the token endpoint is a sequence of database transactions; each is one step, and the
  steps of concurrent requests interleave. SHA-256, the PKCE digest, JWTs, identifiers,
  clocks and the login cookie are parameters.
\<close>

section \<open>The tables\<close>

record oauth_client =
  oc_client_id :: string
  oc_redirect_uris :: "string list"

record auth_code =
  ac_id :: nat
  ac_code :: string
  ac_client :: string
  ac_account :: string
  ac_redirect :: string
  ac_challenge :: string
  ac_method :: string
  ac_scope :: "string option"
  ac_expires :: int
  ac_consumed :: "int option"

record oauth_token =
  ot_id :: nat
  ot_hash :: string
  ot_client :: string
  ot_account :: string
  ot_revoked :: "int option"
  ot_from :: "nat option"

record oauth_db =
  clients :: "oauth_client list"
  codes :: "auth_code list"
  tokens :: "oauth_token list"
  deactivated :: "(string, bool) dict"

text \<open>\<open>deactivated\<close> maps each account to whether SCIM has deactivated it.\<close>

definition get_by_client_id :: "oauth_db \<Rightarrow> string \<Rightarrow> oauth_client option" where
  "get_by_client_id db cid = find (\<lambda>c. oc_client_id c = cid) (clients db)"

definition register_client :: "string \<Rightarrow> string list \<Rightarrow> oauth_db \<Rightarrow> oauth_db" where
  "register_client cid uris db = db\<lparr>clients := clients db @ [\<lparr>oc_client_id = cid, oc_redirect_uris = uris\<rparr>]\<rparr>"

definition account_deactivated :: "oauth_db \<Rightarrow> string \<Rightarrow> bool" where
  "account_deactivated db acc = (dict_get (deactivated db) acc \<noteq> Some False)"

definition get_valid_by_code :: "oauth_db \<Rightarrow> int \<Rightarrow> string \<Rightarrow> auth_code option" where
  "get_valid_by_code db now c =
     find (\<lambda>r. ac_code r = c \<and> ac_consumed r = None \<and> now < ac_expires r) (codes db)"

definition mark_consumed :: "int \<Rightarrow> nat \<Rightarrow> oauth_db \<Rightarrow> bool \<times> oauth_db" where
  "mark_consumed now i db =
     (list_ex (\<lambda>r. ac_id r = i \<and> ac_consumed r = None) (codes db),
      db\<lparr>codes := map (\<lambda>r. if ac_id r = i \<and> ac_consumed r = None then r\<lparr>ac_consumed := Some now\<rparr> else r) (codes db)\<rparr>)"

definition get_by_hash :: "oauth_db \<Rightarrow> string \<Rightarrow> oauth_token option" where
  "get_by_hash db h = find (\<lambda>r. ot_hash r = h) (tokens db)"

definition revoke_row :: "int \<Rightarrow> nat \<Rightarrow> oauth_token \<Rightarrow> oauth_token" where
  "revoke_row now i r = (if ot_id r = i \<and> ot_revoked r = None then r\<lparr>ot_revoked := Some now\<rparr> else r)"

definition revoke :: "int \<Rightarrow> nat \<Rightarrow> oauth_db \<Rightarrow> bool \<times> oauth_db" where
  "revoke now i db =
     (list_ex (\<lambda>r. ot_id r = i \<and> ot_revoked r = None) (tokens db),
      db\<lparr>tokens := map (revoke_row now i) (tokens db)\<rparr>)"

definition children :: "oauth_token list \<Rightarrow> nat \<Rightarrow> nat list" where
  "children ts i = map ot_id (filter (\<lambda>r. ot_from r = Some i) ts)"

text \<open>\<open>while pending\<close>: the last entry is popped, its children are appended. The loop is
  partial, since nothing in the code bounds it.\<close>

partial_function (option) family_loop :: "int \<Rightarrow> nat list \<Rightarrow> oauth_token list \<Rightarrow> oauth_token list option" where
  "family_loop now pending ts =
     (if pending = [] then Some ts
      else let i = last pending; ts' = map (revoke_row now i) ts
        in family_loop now (butlast pending @ children ts' i) ts')"

lemma family_loop_code [code]:
  "family_loop now [] ts = Some ts"
  "family_loop now (i # is) ts =
     (let k = last (i # is); ts' = map (revoke_row now k) ts
      in family_loop now (butlast (i # is) @ children ts' k) ts')"
  by (subst family_loop.simps, simp)+

definition revoke_family :: "int \<Rightarrow> nat \<Rightarrow> oauth_db \<Rightarrow> oauth_db option" where
  "revoke_family now i db = map_option (\<lambda>ts. db\<lparr>tokens := ts\<rparr>) (family_loop now [i] (tokens db))"

section \<open>Consent\<close>

record oauth_env =
  hash_secret :: "string \<Rightarrow> string"
  pkce_digest :: "string \<Rightarrow> string"
  access_token :: "string \<Rightarrow> string \<Rightarrow> string \<Rightarrow> int \<Rightarrow> string"
  base_url :: string

definition rstrip_slash :: "string \<Rightarrow> string" where
  "rstrip_slash s = rev (dropWhile (\<lambda>c. c = CHR ''/'') (rev s))"

definition mcp_resource_identifier :: "string \<Rightarrow> string" where
  "mcp_resource_identifier base = rstrip_slash base @ ''/mcp/''"

definition expected_resource :: "oauth_env \<Rightarrow> string" where
  "expected_resource env = mcp_resource_identifier (rstrip_slash (base_url env))"

definition given :: "string option \<Rightarrow> bool" where
  "given s = (case s of None \<Rightarrow> False | Some t \<Rightarrow> t \<noteq> [])"

definition resource_matches :: "oauth_env \<Rightarrow> string option \<Rightarrow> bool" where
  "resource_matches env r = (given r \<and> rstrip_slash (the r) = rstrip_slash (expected_resource env))"

definition verify_pkce_challenge :: "oauth_env \<Rightarrow> string \<Rightarrow> string \<Rightarrow> bool" where
  "verify_pkce_challenge env verifier challenge = (pkce_digest env verifier = challenge)"

record authorize_query =
  q_client_id :: "string option"
  q_redirect_uri :: "string option"
  q_challenge :: "string option"
  q_method :: "string option"
  q_response_type :: "string option"
  q_scope :: "string option"
  q_resource :: "string option"

datatype authorize_answer =
    ErrorPage
  | RedirectError string string
  | LoginPage
  | ConsentPage string
  | ToAuthorize
  | RedirectCode string string

definition registered_client :: "oauth_db \<Rightarrow> authorize_query \<Rightarrow> (oauth_client \<times> string) option" where
  "registered_client db q =
     (case (if given (q_client_id q) then get_by_client_id db (the (q_client_id q)) else None) of
        None \<Rightarrow> None
      | Some c \<Rightarrow> (case q_redirect_uri q of
            None \<Rightarrow> None
          | Some u \<Rightarrow> if u \<in> set (oc_redirect_uris c) then Some (c, u) else None))"

text \<open>\<open>login\<close> is the account of the login cookie, which is none for a deactivated one.\<close>

definition authorize :: "oauth_env \<Rightarrow> oauth_db \<Rightarrow> authorize_query \<Rightarrow> string option \<Rightarrow> authorize_answer" where
  "authorize env db q login =
     (case registered_client db q of
        None \<Rightarrow> ErrorPage
      | Some (c, u) \<Rightarrow>
          (if q_response_type q \<noteq> Some ''code'' then RedirectError u ''unsupported_response_type''
           else if q_method q \<noteq> Some ''S256'' \<or> \<not> given (q_challenge q) then RedirectError u ''invalid_request''
           else if \<not> resource_matches env (q_resource q) then RedirectError u ''invalid_target''
           else case login of None \<Rightarrow> LoginPage | Some acc \<Rightarrow> ConsentPage acc))"

definition or_else :: "string option \<Rightarrow> string \<Rightarrow> string" where
  "or_else s d = (if given s then the s else d)"

definition authorize_decide ::
    "oauth_env \<Rightarrow> int \<Rightarrow> int \<Rightarrow> nat \<Rightarrow> string \<Rightarrow> authorize_query \<Rightarrow> string \<Rightarrow> string option \<Rightarrow> oauth_db \<Rightarrow>
     authorize_answer \<times> oauth_db" where
  "authorize_decide env ttl now fresh_id fresh_code q decision login db =
     (case registered_client db q of
        None \<Rightarrow> (ErrorPage, db)
      | Some (c, u) \<Rightarrow>
          (if \<not> resource_matches env (q_resource q) then (RedirectError u ''invalid_target'', db)
           else case login of
             None \<Rightarrow> (ToAuthorize, db)
           | Some acc \<Rightarrow>
               (if decision \<noteq> ''allow'' then (RedirectError u ''access_denied'', db)
                else (RedirectCode u fresh_code,
                      db\<lparr>codes := codes db @
                        [\<lparr>ac_id = fresh_id, ac_code = fresh_code, ac_client = oc_client_id c, ac_account = acc,
                          ac_redirect = u, ac_challenge = or_else (q_challenge q) [],
                          ac_method = or_else (q_method q) ''S256'', ac_scope = q_scope q,
                          ac_expires = now + ttl, ac_consumed = None\<rparr>]\<rparr>))))"

section \<open>The token endpoint\<close>

record code_form =
  cf_code :: "string option"
  cf_redirect_uri :: "string option"
  cf_client_id :: "string option"
  cf_verifier :: "string option"
  cf_resource :: "string option"

record refresh_form =
  rf_token :: "string option"
  rf_client_id :: "string option"
  rf_resource :: "string option"

record token_pair =
  tp_access :: string
  tp_refresh :: string
  tp_scope :: "string option"
  tp_client :: string
  tp_account :: string

text \<open>A request between its transactions. \<open>Answered\<close> keeps, beside the response, the code or
  token it was issued for.\<close>

datatype token_source = FromCode nat | FromToken nat

datatype token_answer = OAuthError string | Issued token_source token_pair

datatype token_phase =
    CodeStart code_form
  | CodeAccount code_form auth_code
  | CodeConsume code_form auth_code
  | CodeIssue code_form auth_code
  | RefreshStart refresh_form
  | RefreshAccount refresh_form oauth_token
  | RefreshRevoke refresh_form oauth_token
  | RefreshIssue refresh_form oauth_token
  | RevokeFamily nat
  | Answered token_answer

record step_input =
  si_now :: int
  si_id :: nat
  si_raw :: string

definition code_start :: "oauth_env \<Rightarrow> int \<Rightarrow> code_form \<Rightarrow> oauth_db \<Rightarrow> token_phase" where
  "code_start env now f db =
     (if \<not> (given (cf_code f) \<and> given (cf_redirect_uri f) \<and> given (cf_client_id f) \<and> given (cf_verifier f) \<and>
            given (cf_resource f)) then Answered (OAuthError ''invalid_request'')
      else if \<not> resource_matches env (cf_resource f) then Answered (OAuthError ''invalid_target'')
      else case get_valid_by_code db now (the (cf_code f)) of
        None \<Rightarrow> Answered (OAuthError ''invalid_grant'')
      | Some r \<Rightarrow>
          (if ac_client r \<noteq> the (cf_client_id f) \<or> ac_redirect r \<noteq> the (cf_redirect_uri f) \<or>
              \<not> verify_pkce_challenge env (the (cf_verifier f)) (ac_challenge r)
           then Answered (OAuthError ''invalid_grant'') else CodeAccount f r))"

definition refresh_start :: "oauth_env \<Rightarrow> refresh_form \<Rightarrow> oauth_db \<Rightarrow> token_phase" where
  "refresh_start env f db =
     (if \<not> given (rf_token f) \<or> \<not> given (rf_resource f) then Answered (OAuthError ''invalid_request'')
      else if \<not> resource_matches env (rf_resource f) then Answered (OAuthError ''invalid_target'')
      else case get_by_hash db (hash_secret env (the (rf_token f))) of
        None \<Rightarrow> Answered (OAuthError ''invalid_grant'')
      | Some r \<Rightarrow>
          (if given (rf_client_id f) \<and> ot_client r \<noteq> the (rf_client_id f)
           then Answered (OAuthError ''invalid_grant'')
           else if ot_revoked r \<noteq> None then RevokeFamily (ot_id r)
           else RefreshAccount f r))"

definition issue_token_pair ::
    "oauth_env \<Rightarrow> step_input \<Rightarrow> token_source \<Rightarrow> string \<Rightarrow> string \<Rightarrow> string option \<Rightarrow> oauth_db \<Rightarrow>
     token_phase \<times> oauth_db" where
  "issue_token_pair env inp source client acc scope db =
     (Answered (Issued source
        \<lparr>tp_access = access_token env acc client (expected_resource env) (si_now inp), tp_refresh = si_raw inp,
         tp_scope = (if given scope then scope else None), tp_client = client, tp_account = acc\<rparr>),
      db\<lparr>tokens := tokens db @
        [\<lparr>ot_id = si_id inp, ot_hash = hash_secret env (si_raw inp), ot_client = client, ot_account = acc,
          ot_revoked = None, ot_from = (case source of FromToken i \<Rightarrow> Some i | FromCode _ \<Rightarrow> None)\<rparr>]\<rparr>)"

fun token_step :: "oauth_env \<Rightarrow> step_input \<Rightarrow> token_phase \<Rightarrow> oauth_db \<Rightarrow> token_phase \<times> oauth_db" where
  "token_step env inp (CodeStart f) db = (code_start env (si_now inp) f db, db)"
| "token_step env inp (CodeAccount f r) db =
     ((if account_deactivated db (ac_account r) then Answered (OAuthError ''invalid_grant'') else CodeConsume f r), db)"
| "token_step env inp (CodeConsume f r) db =
     (case mark_consumed (si_now inp) (ac_id r) db of
        (ok, db') \<Rightarrow> ((if ok then CodeIssue f r else Answered (OAuthError ''invalid_grant'')), db'))"
| "token_step env inp (CodeIssue f r) db =
     issue_token_pair env inp (FromCode (ac_id r)) (ac_client r) (ac_account r) (ac_scope r) db"
| "token_step env inp (RefreshStart f) db = (refresh_start env f db, db)"
| "token_step env inp (RefreshAccount f r) db =
     ((if account_deactivated db (ot_account r) then Answered (OAuthError ''invalid_grant'') else RefreshRevoke f r), db)"
| "token_step env inp (RefreshRevoke f r) db =
     (case revoke (si_now inp) (ot_id r) db of
        (ok, db') \<Rightarrow> ((if ok then RefreshIssue f r else RevokeFamily (ot_id r)), db'))"
| "token_step env inp (RefreshIssue f r) db =
     issue_token_pair env inp (FromToken (ot_id r)) (ot_client r) (ot_account r) None db"
| "token_step env inp (RevokeFamily i) db =
     (case revoke_family (si_now inp) i db of
        None \<Rightarrow> (RevokeFamily i, db)
      | Some db' \<Rightarrow> (Answered (OAuthError ''invalid_grant''), db'))"
| "token_step env inp (Answered a) db = (Answered a, db)"

text \<open>Concurrent requests, registrations, consent decisions and deactivations, in any order.\<close>

datatype oauth_event =
    TokenStep nat step_input
  | Decide int int nat string authorize_query string "string option"
  | Register string "string list"
  | SetDeactivated string bool

fun oauth_event_step :: "oauth_env \<Rightarrow> oauth_event \<Rightarrow> token_phase list \<times> oauth_db \<Rightarrow> token_phase list \<times> oauth_db" where
  "oauth_event_step env (TokenStep i inp) (ps, db) =
     (if i < length ps then (case token_step env inp (ps ! i) db of (p, db') \<Rightarrow> (ps[i := p], db')) else (ps, db))"
| "oauth_event_step env (Decide ttl now i c q d login) (ps, db) =
     (ps, snd (authorize_decide env ttl now i c q d login db))"
| "oauth_event_step env (Register cid uris) (ps, db) = (ps, register_client cid uris db)"
| "oauth_event_step env (SetDeactivated acc b) (ps, db) = (ps, db\<lparr>deactivated := dict_put acc b (deactivated db)\<rparr>)"

definition oauth_run :: "oauth_env \<Rightarrow> oauth_event list \<Rightarrow> token_phase list \<times> oauth_db \<Rightarrow> token_phase list \<times> oauth_db" where
  "oauth_run env evs s = fold (oauth_event_step env) evs s"

end
