(* ===== verification/OAuthSafety.thy ===== *)
theory OAuthSafety
  imports OAuth
begin

text \<open>
  What the OAuth server guarantees when requests interleave: codes and refresh tokens are
  exchanged once, tokens go back to a consent decision, and reuse detection revokes a token's
  family, as far as it does. The locale \<open>single_use\<close> states the contract of a database
  flag that a conditional update sets; it is interpreted on codes and on refresh tokens.
\<close>

section \<open>Flags set by a conditional update\<close>

definition held :: "('p \<Rightarrow> 'x \<Rightarrow> bool) \<Rightarrow> 'p list \<Rightarrow> 'x \<Rightarrow> nat" where
  "held holds ps x = length (filter (\<lambda>p. holds p x) ps)"

lemma held_update:
  "i < length ps \<Longrightarrow>
     held holds (ps[i := p]) x + (if holds (ps ! i) x then 1 else 0) = held holds ps x + (if holds p x then 1 else 0)"
proof (induction ps arbitrary: i)
  case (Cons a ps)
  then show ?case by (cases i) (auto simp: held_def)
qed simp

lemma held_pos: "i < length ps \<Longrightarrow> holds (ps ! i) x \<Longrightarrow> 0 < held holds ps x"
  by (auto simp: held_def filter_empty_conv)

lemma held_two:
  assumes "i < length ps" "j < length ps" "i \<noteq> j" "holds (ps ! i) x" "holds (ps ! j) x"
  shows "2 \<le> held holds ps x"
proof -
  have "{i, j} \<subseteq> {k. k < length ps \<and> holds (ps ! k) x}" using assms by auto
  then have "card {i, j} \<le> held holds ps x"
    unfolding held_def length_filter_conv_card by (intro card_mono) auto
  then show ?thesis using assms(3) by simp
qed

text \<open>\<open>valid\<close> is what the step may rely on in the database.\<close>

locale single_use =
  fixes step :: "'i \<Rightarrow> 'p \<Rightarrow> 'd \<Rightarrow> 'p \<times> 'd"
    and valid :: "'d \<Rightarrow> bool"
    and avoids :: "'i \<Rightarrow> 'x \<Rightarrow> bool"
    and spent :: "'d \<Rightarrow> 'x \<Rightarrow> bool"
    and holds :: "'p \<Rightarrow> 'x \<Rightarrow> bool"
  assumes spent_mono: "step i p d = (p', d') \<Longrightarrow> valid d \<Longrightarrow> avoids i x \<Longrightarrow> spent d x \<Longrightarrow> spent d' x"
    and acquires: "step i p d = (p', d') \<Longrightarrow> valid d \<Longrightarrow> holds p' x \<Longrightarrow> holds p x \<or> (\<not> spent d x \<and> spent d' x)"
begin

definition single :: "'p list \<Rightarrow> 'd \<Rightarrow> 'x \<Rightarrow> bool" where
  "single ps d x = (held holds ps x \<le> 1 \<and> (0 < held holds ps x \<longrightarrow> spent d x))"

lemma single_step:
  assumes "single ps d x" "i < length ps" "step inp (ps ! i) d = (p', d')" "valid d"
    and "spent d x \<Longrightarrow> avoids inp x"
  shows "single (ps[i := p']) d' x"
proof (cases "holds p' x \<and> \<not> holds (ps ! i) x")
  case True
  then have "\<not> spent d x \<and> spent d' x" using acquires [OF assms(3,4)] by blast
  then show ?thesis using assms(1) held_update [OF assms(2), of holds p' x] True by (auto simp: single_def)
next
  case False
  then show ?thesis
    using assms(1) spent_mono [OF assms(3,4)] assms(5) held_update [OF assms(2), of holds p' x]
    by (auto simp: single_def split: if_splits)
qed

lemma single_other: "single ps d x \<Longrightarrow> (spent d x \<Longrightarrow> spent d' x) \<Longrightarrow> single ps d' x"
  by (auto simp: single_def)

lemma single_distinct:
  assumes "single ps d x" "i < length ps" "j < length ps" "holds (ps ! i) x" "holds (ps ! j) x"
  shows "i = j"
  using held_two [of i ps j holds x] assms by (auto simp: single_def)

end

section \<open>Walking a token's family\<close>

text \<open>The columns revocation leaves alone: identifiers and parents. The table is in
  rotation order when identifiers are distinct and every parent is an earlier row.\<close>

definition shape :: "oauth_token list \<Rightarrow> (nat \<times> nat option) list" where
  "shape ts = map (\<lambda>r. (ot_id r, ot_from r)) ts"

definition rotation_order :: "(nat \<times> nat option) list \<Rightarrow> bool" where
  "rotation_order sh =
     (distinct (map fst sh) \<and>
      (\<forall>j < length sh. case snd (sh ! j) of None \<Rightarrow> True | Some p \<Rightarrow> p \<in> fst ` set (take j sh)))"

definition rotated :: "(nat \<times> nat option) list \<Rightarrow> (nat \<times> nat) set" where
  "rotated sh = {(p, c). (c, Some p) \<in> set sh}"

definition family :: "(nat \<times> nat option) list \<Rightarrow> nat \<Rightarrow> nat set" where
  "family sh i = {j. (i, j) \<in> (rotated sh)\<^sup>*}"

definition revoke_all :: "int \<Rightarrow> nat set \<Rightarrow> oauth_token list \<Rightarrow> oauth_token list" where
  "revoke_all now S ts =
     map (\<lambda>r. if ot_id r \<in> S \<and> ot_revoked r = None then r\<lparr>ot_revoked := Some now\<rparr> else r) ts"

lemma rotation_order_Nil [simp]: "rotation_order []"
  by (simp add: rotation_order_def)

lemma rotation_order_snoc:
  "rotation_order sh \<Longrightarrow> i \<notin> fst ` set sh \<Longrightarrow> (\<And>p. q = Some p \<Longrightarrow> p \<in> fst ` set sh) \<Longrightarrow>
     rotation_order (sh @ [(i, q)])"
  unfolding rotation_order_def
  by (auto simp: nth_append less_Suc_eq split: option.splits)

lemma revoke_row_all: "map (revoke_row now i) ts = revoke_all now {i} ts"
  by (simp add: revoke_all_def revoke_row_def)

lemma revoke_all_empty [simp]: "revoke_all now {} ts = ts"
  by (simp add: revoke_all_def)

lemma revoke_all_Un: "revoke_all now S (revoke_all now T ts) = revoke_all now (S \<union> T) ts"
  by (auto simp: revoke_all_def)

lemma shape_revoke_all [simp]: "shape (revoke_all now S ts) = shape ts"
  by (simp add: shape_def revoke_all_def)

lemma children_shape: "children ts i = map fst (filter (\<lambda>e. snd e = Some i) (shape ts))"
  by (induction ts) (auto simp: children_def shape_def)

lemma children_rotated: "set (children ts i) = {c. (i, c) \<in> rotated (shape ts)}"
  by (auto simp: children_shape rotated_def image_iff)

lemma wf_rotated:
  assumes "rotation_order sh"
  shows "wf ((rotated sh)\<inverse>)"
proof -
  define ix where "ix x = (LEAST k. k < length sh \<and> fst (sh ! k) = x)" for x
  have dist: "distinct (map fst sh)" using assms by (simp add: rotation_order_def)
  have ix: "ix (fst (sh ! k)) = k" if "k < length sh" for k
    unfolding ix_def
  proof (rule Least_equality)
    fix y assume "y < length sh \<and> fst (sh ! y) = fst (sh ! k)"
    then show "k \<le> y" using dist that by (auto simp: distinct_conv_nth)
  qed (use that in simp)
  have "(rotated sh)\<inverse> \<subseteq> measure (\<lambda>x. length sh - ix x)"
  proof
    fix e assume "e \<in> (rotated sh)\<inverse>"
    then obtain c p where e: "e = (c, p)" and "(c, Some p) \<in> set sh" by (auto simp: rotated_def)
    then obtain j where j: "j < length sh" "sh ! j = (c, Some p)" by (auto simp: in_set_conv_nth)
    then have "p \<in> fst ` set (take j sh)"
      using assms unfolding rotation_order_def by fastforce
    then obtain k where k: "k < j" "fst (sh ! k) = p" using j(1) by (auto simp: in_set_conv_nth)
    have "ix c = j" "ix p = k" using ix [of j] ix [of k] j k by auto
    then show "e \<in> measure (\<lambda>x. length sh - ix x)" using e j(1) k(1) by simp
  qed
  then show ?thesis by (rule wf_subset [OF wf_measure])
qed

lemma family_unfold: "family sh i = {i} \<union> (\<Union>c \<in> {c. (i, c) \<in> rotated sh}. family sh c)"
  unfolding family_def by (auto elim: converse_rtranclE intro: converse_rtrancl_into_rtrancl)

text \<open>A pending entry is worked off completely before the ones below it.\<close>

lemma family_loop_entry:
  assumes "rotation_order sh" "shape ts = sh"
  shows "family_loop now (rest @ [i]) ts = family_loop now rest (revoke_all now (family sh i) ts)"
  using wf_rotated [OF assms(1)] assms(2)
proof (induction i arbitrary: ts rest rule: wf_induct_rule)
  case (less i ts rest)
  have subs: "family_loop now (rest @ cs) ts' =
      family_loop now rest (revoke_all now (\<Union>c \<in> set cs. family sh c) ts')"
    if "\<And>c. c \<in> set cs \<Longrightarrow> (i, c) \<in> rotated sh" "shape ts' = sh" for cs ts'
    using that
  proof (induction cs arbitrary: ts' rule: rev_induct)
    case (snoc c cs)
    have c: "(i, c) \<in> rotated sh" using snoc.prems(1) by simp
    have "family_loop now ((rest @ cs) @ [c]) ts' = family_loop now (rest @ cs) (revoke_all now (family sh c) ts')"
      using less.IH [of c ts' "rest @ cs"] snoc.prems(2) c by simp
    also have "\<dots> = family_loop now rest
        (revoke_all now (\<Union>c \<in> set cs. family sh c) (revoke_all now (family sh c) ts'))"
      using snoc by simp
    finally show ?case by (simp add: revoke_all_Un Un_commute)
  qed simp
  have "family_loop now (rest @ [i]) ts =
      family_loop now (rest @ children (revoke_all now {i} ts) i) (revoke_all now {i} ts)"
    by (subst family_loop.simps) (simp add: Let_def revoke_row_all)
  also have "\<dots> = family_loop now rest
      (revoke_all now (\<Union>c \<in> {c. (i, c) \<in> rotated sh}. family sh c) (revoke_all now {i} ts))"
    by (subst subs) (simp_all add: children_rotated less.prems)
  also have "\<dots> = family_loop now rest (revoke_all now (family sh i) ts)"
    by (subst (2) family_unfold) (simp add: revoke_all_Un Un_commute)
  finally show ?case .
qed

lemma revoke_family_exact:
  "rotation_order (shape (tokens db)) \<Longrightarrow>
     revoke_family now i db = Some (db\<lparr>tokens := revoke_all now (family (shape (tokens db)) i) (tokens db)\<rparr>)"
  unfolding revoke_family_def
  using family_loop_entry [of "shape (tokens db)" "tokens db" now "[]" i] by (simp add: family_loop.simps)

section \<open>One step of a request\<close>

definition holds_code :: "token_phase \<Rightarrow> nat \<Rightarrow> bool" where
  "holds_code p x =
     (case p of CodeIssue _ r \<Rightarrow> ac_id r = x | Answered (Issued (FromCode c) _) \<Rightarrow> c = x | _ \<Rightarrow> False)"

definition holds_token :: "token_phase \<Rightarrow> nat \<Rightarrow> bool" where
  "holds_token p x =
     (case p of RefreshIssue _ r \<Rightarrow> ot_id r = x | Answered (Issued (FromToken c) _) \<Rightarrow> c = x | _ \<Rightarrow> False)"

definition token_ids :: "oauth_db \<Rightarrow> nat list" where
  "token_ids db = map ot_id (tokens db)"

definition code_ids :: "oauth_db \<Rightarrow> nat list" where
  "code_ids db = map ac_id (codes db)"

definition code_spent :: "oauth_db \<Rightarrow> nat \<Rightarrow> bool" where
  "code_spent db x = (x \<in> set (code_ids db) \<and> (\<forall>r \<in> set (codes db). ac_id r = x \<longrightarrow> ac_consumed r \<noteq> None))"

definition token_spent :: "oauth_db \<Rightarrow> nat \<Rightarrow> bool" where
  "token_spent db x = (x \<in> set (token_ids db) \<and> (\<forall>r \<in> set (tokens db). ot_id r = x \<longrightarrow> ot_revoked r \<noteq> None))"

definition known :: "oauth_db \<Rightarrow> token_phase \<Rightarrow> bool" where
  "known db p =
     (case p of RefreshAccount _ r \<Rightarrow> ot_id r \<in> set (token_ids db) | RefreshRevoke _ r \<Rightarrow> ot_id r \<in> set (token_ids db)
      | RefreshIssue _ r \<Rightarrow> ot_id r \<in> set (token_ids db) | _ \<Rightarrow> True)"

definition in_order :: "oauth_db \<Rightarrow> bool" where
  "in_order db = rotation_order (shape (tokens db))"

lemma token_ids_shape: "token_ids db = map fst (shape (tokens db))"
  by (simp add: token_ids_def shape_def)

text \<open>What a step does to the tokens: it revokes some, or appends the one it issues.\<close>

definition tokens_step :: "step_input \<Rightarrow> token_phase \<Rightarrow> oauth_token list \<Rightarrow> oauth_token list \<Rightarrow> bool" where
  "tokens_step inp p ts ts' =
     ((\<exists>S. ts' = revoke_all (si_now inp) S ts) \<or>
      (\<exists>r. ts' = ts @ [r] \<and> ot_id r = si_id inp \<and> (case ot_from r of None \<Rightarrow> True | Some q \<Rightarrow> (\<exists>f u. p = RefreshIssue f u \<and> q = ot_id u))))"

lemma tokens_same: "tokens_step inp p ts ts"
  unfolding tokens_step_def by (metis revoke_all_empty)

lemma tokens_revoked: "tokens_step inp p ts (revoke_all (si_now inp) S ts)"
  unfolding tokens_step_def by blast

lemma token_step_tokens:
  "token_step env inp p db = (p', db') \<Longrightarrow> in_order db \<Longrightarrow> tokens_step inp p (tokens db) (tokens db')"
  by (cases p)
     (auto simp: in_order_def tokens_same tokens_revoked mark_consumed_def revoke_def revoke_row_all revoke_family_exact
       issue_token_pair_def tokens_step_def [of inp "CodeIssue _ _"] tokens_step_def [of inp "RefreshIssue _ _"])

lemma revoke_family_codes: "revoke_family now i db = Some db' \<Longrightarrow> codes db' = codes db"
  by (auto simp: revoke_family_def)

lemma token_step_codes:
  "token_step env inp p db = (p', db') \<Longrightarrow>
     codes db' = codes db \<or> (\<exists>f r. p = CodeConsume f r \<and> db' = snd (mark_consumed (si_now inp) (ac_id r) db))"
  by (cases p) (auto simp: revoke_def issue_token_pair_def revoke_family_codes split: option.splits prod.splits)

lemma code_ids_mark [simp]: "code_ids (snd (mark_consumed now i d)) = code_ids d"
  by (auto simp: code_ids_def mark_consumed_def)

lemma token_ids_revoke_all: "tokens d' = revoke_all now S (tokens d) \<Longrightarrow> token_ids d' = token_ids d"
  by (auto simp: token_ids_def revoke_all_def)

lemma code_spent_codes: "codes d' = codes d \<Longrightarrow> code_spent d' x = code_spent d x"
  by (simp add: code_spent_def code_ids_def)

lemma code_spent_mark: "code_spent d x \<Longrightarrow> code_spent (snd (mark_consumed now i d)) x"
  unfolding code_spent_def code_ids_mark by (auto simp: mark_consumed_def)

lemma mark_consumed_spends:
  "mark_consumed now x d = (True, d') \<Longrightarrow> \<not> code_spent d x \<and> code_spent d' x"
  using code_ids_mark [of now x d]
  by (auto simp: code_spent_def mark_consumed_def list_ex_iff code_ids_def)

lemma holds_code_new:
  "token_step env inp p d = (p', d') \<Longrightarrow> holds_code p' x \<Longrightarrow>
     holds_code p x \<or> (\<exists>f r. p = CodeConsume f r \<and> ac_id r = x \<and> mark_consumed (si_now inp) x d = (True, d'))"
  by (cases p)
     (auto simp: holds_code_def code_start_def refresh_start_def issue_token_pair_def Let_def
       split: if_splits option.splits prod.splits)

interpretation code_use: single_use "token_step env" "\<lambda>_. True" "\<lambda>_ _. True" code_spent holds_code for env
proof unfold_locales
  fix i p d p' d' x
  assume "token_step env i p d = (p', d')" "code_spent d x"
  then show "code_spent d' x"
    using token_step_codes [of env i p d p' d'] code_spent_codes [of d' d] code_spent_mark by auto
next
  fix i p d p' d' x
  assume "token_step env i p d = (p', d')" "holds_code p' x"
  then show "holds_code p x \<or> \<not> code_spent d x \<and> code_spent d' x"
    using holds_code_new mark_consumed_spends by metis
qed

lemma token_spent_revoke_all: "token_spent d x \<Longrightarrow> tokens d' = revoke_all now S (tokens d) \<Longrightarrow> token_spent d' x"
  using token_ids_revoke_all [of d' now S d] by (auto simp: token_spent_def revoke_all_def)

lemma token_spent_snoc: "token_spent d x \<Longrightarrow> tokens d' = tokens d @ [r] \<Longrightarrow> ot_id r \<noteq> x \<Longrightarrow> token_spent d' x"
  by (auto simp: token_spent_def token_ids_def)

lemma revoke_spends: "revoke now x d = (True, d') \<Longrightarrow> \<not> token_spent d x \<and> token_spent d' x"
  using token_ids_revoke_all [of d' now "{x}" d]
  by (auto simp: token_spent_def revoke_def revoke_row_all list_ex_iff token_ids_def [of d])
     (auto simp: revoke_all_def)

lemma holds_token_new:
  "token_step env inp p d = (p', d') \<Longrightarrow> holds_token p' x \<Longrightarrow>
     holds_token p x \<or> (\<exists>f r. p = RefreshRevoke f r \<and> ot_id r = x \<and> revoke (si_now inp) x d = (True, d'))"
  by (cases p)
     (auto simp: holds_token_def code_start_def refresh_start_def issue_token_pair_def Let_def
       split: if_splits option.splits prod.splits)

interpretation token_use: single_use "token_step env" in_order "\<lambda>inp x. si_id inp \<noteq> x" token_spent holds_token for env
proof unfold_locales
  fix i p d p' d' x
  assume "token_step env i p d = (p', d')" "in_order d" "si_id i \<noteq> x" "token_spent d x"
  then show "token_spent d' x"
    using token_step_tokens [of env i p d p' d'] token_spent_revoke_all [of d x d'] token_spent_snoc [of d x d']
    by (auto simp: tokens_step_def)
next
  fix i p d p' d' x
  assume "token_step env i p d = (p', d')" "holds_token p' x"
  then show "holds_token p x \<or> \<not> token_spent d x \<and> token_spent d' x"
    using holds_token_new revoke_spends by metis
qed

section \<open>Runs\<close>

fun decided_id :: "oauth_event \<Rightarrow> nat list" where
  "decided_id (Decide _ _ i _ _ _ _) = [i]"
| "decided_id _ = []"

fun drawn_id :: "oauth_event \<Rightarrow> nat list" where
  "drawn_id (TokenStep _ inp) = [si_id inp]"
| "drawn_id _ = []"

definition decided_ids :: "oauth_event list \<Rightarrow> nat list" where
  "decided_ids evs = concat (map decided_id evs)"

definition drawn_ids :: "oauth_event list \<Rightarrow> nat list" where
  "drawn_ids evs = concat (map drawn_id evs)"

lemma ids_Nil [simp]: "decided_ids [] = []" "drawn_ids [] = []"
  by (simp_all add: decided_ids_def drawn_ids_def)

lemma ids_Cons [simp]:
  "decided_ids (e # evs) = decided_id e @ decided_ids evs" "drawn_ids (e # evs) = drawn_id e @ drawn_ids evs"
  by (simp_all add: decided_ids_def drawn_ids_def)

text \<open>Identifiers are drawn afresh.\<close>

definition fresh_ids :: "oauth_event list \<Rightarrow> oauth_db \<Rightarrow> bool" where
  "fresh_ids evs db =
     (distinct (code_ids db @ decided_ids evs) \<and> distinct (token_ids db @ drawn_ids evs))"

lemma distinct_step: "distinct (xs @ y # ys) \<Longrightarrow> zs = xs \<or> zs = xs @ [y] \<Longrightarrow> distinct (zs @ ys)"
  by auto

lemma fresh_token_step:
  "fresh_ids (TokenStep i inp # evs) db \<Longrightarrow> code_ids db' = code_ids db \<Longrightarrow>
     token_ids db' = token_ids db \<or> token_ids db' = token_ids db @ [si_id inp] \<Longrightarrow> fresh_ids evs db'"
  unfolding fresh_ids_def ids_Cons decided_id.simps drawn_id.simps
  using distinct_step [of "token_ids db" "si_id inp" "drawn_ids evs" "token_ids db'"] by simp

lemma fresh_decide:
  "fresh_ids (Decide ttl now i c q d login # evs) db \<Longrightarrow> token_ids db' = token_ids db \<Longrightarrow>
     code_ids db' = code_ids db \<or> code_ids db' = code_ids db @ [i] \<Longrightarrow> fresh_ids evs db'"
  unfolding fresh_ids_def ids_Cons decided_id.simps drawn_id.simps
  using distinct_step [of "code_ids db" i "decided_ids evs" "code_ids db'"] by simp

lemma fresh_new:
  "fresh_ids (Decide ttl now i c q d login # evs) db \<Longrightarrow> i \<notin> set (code_ids db)"
  "fresh_ids (TokenStep j inp # evs) db \<Longrightarrow> si_id inp \<notin> set (token_ids db)"
  by (simp_all add: fresh_ids_def)

definition run_ok :: "nat \<Rightarrow> token_phase list \<times> oauth_db \<Rightarrow> bool" where
  "run_ok x s =
     (case s of (ps, db) \<Rightarrow>
        in_order db \<and> list_all (known db) ps \<and> code_use.single ps db x \<and> token_use.single ps db x)"

lemma token_ids_step:
  "tokens_step inp p (tokens db) (tokens db') \<Longrightarrow>
     token_ids db' = token_ids db \<or> token_ids db' = token_ids db @ [si_id inp]"
  unfolding tokens_step_def using token_ids_revoke_all [of db' "si_now inp"] by (auto simp: token_ids_def)

lemma code_ids_step: "token_step env inp p db = (p', db') \<Longrightarrow> code_ids db' = code_ids db"
  using token_step_codes [of env inp p db p' db'] code_ids_mark code_ids_def by metis

lemma decide_codes:
  "snd (authorize_decide env ttl now i c q d login db) = db \<or>
   (\<exists>r. snd (authorize_decide env ttl now i c q d login db) = db\<lparr>codes := codes db @ [r]\<rparr> \<and> ac_id r = i)"
  unfolding authorize_decide_def by (auto simp: Let_def split: option.splits prod.splits)

lemma shape_snoc: "shape (ts @ [r]) = shape ts @ [(ot_id r, ot_from r)]"
  by (simp add: shape_def)

lemma in_order_step:
  assumes "tokens_step inp p (tokens db) (tokens db')" "in_order db" "known db p" "si_id inp \<notin> set (token_ids db)"
  shows "in_order db'"
  using assms(1) unfolding tokens_step_def
proof (elim disjE exE conjE)
  fix S assume "tokens db' = revoke_all (si_now inp) S (tokens db)"
  then show ?thesis using assms(2) by (simp add: in_order_def)
next
  fix r assume r: "tokens db' = tokens db @ [r]" "ot_id r = si_id inp"
    and "case ot_from r of None \<Rightarrow> True | Some q \<Rightarrow> \<exists>f u. p = RefreshIssue f u \<and> q = ot_id u"
  then have "q \<in> set (token_ids db)" if "ot_from r = Some q" for q
    using assms(3) that by (auto simp: known_def)
  then show ?thesis
    using assms(2,4) r by (auto simp: in_order_def shape_snoc token_ids_shape intro: rotation_order_snoc)
qed

lemma known_mono: "known db p \<Longrightarrow> set (token_ids db) \<subseteq> set (token_ids db') \<Longrightarrow> known db' p"
  by (cases p) (auto simp: known_def)

lemma known_step:
  assumes "token_step env inp p db = (p', db')" "known db p"
  shows "known db p'"
  using assms
  by (cases p)
     (auto simp: known_def code_start_def refresh_start_def issue_token_pair_def get_by_hash_def token_ids_def Let_def find_Some_iff
       split: if_splits option.splits prod.splits)

lemma list_all_update: "list_all P xs \<Longrightarrow> P y \<Longrightarrow> list_all P (xs[i := y])"
  by (auto simp: list_all_iff dest!: set_update_subset_insert [THEN subsetD])

lemma token_event_ok:
  assumes ok: "run_ok x (ps, db)" and i: "i < length ps" and st: "token_step env inp (ps ! i) db = (p', db')"
    and fresh: "fresh_ids (TokenStep i inp # evs) db"
  shows "run_ok x (ps[i := p'], db') \<and> fresh_ids evs db'"
proof -
  have new: "si_id inp \<notin> set (token_ids db)" using fresh by (auto simp: fresh_ids_def)
  have io: "in_order db" and kn: "known db (ps ! i)" using ok i by (auto simp: run_ok_def list_all_length)
  note ts = token_step_tokens [OF st io]
  note ids = token_ids_step [OF ts]
  have "in_order db'" by (rule in_order_step [OF ts io kn new])
  moreover have "list_all (known db') (ps[i := p'])"
  proof (rule list_all_update)
    have sub: "set (token_ids db) \<subseteq> set (token_ids db')" using ids by auto
    show "list_all (known db') ps"
      using ok known_mono [OF _ sub] by (auto simp: run_ok_def list_all_iff)
    show "known db' p'" by (rule known_mono [OF known_step [OF st kn] sub])
  qed
  moreover have "code_use.single (ps[i := p']) db' x"
    using ok by (intro code_use.single_step [OF _ i st]) (auto simp: run_ok_def)
  moreover have "token_use.single (ps[i := p']) db' x"
    using ok io new by (intro token_use.single_step [OF _ i st]) (auto simp: run_ok_def token_spent_def)
  moreover have "fresh_ids evs db'"
    by (rule fresh_token_step [OF fresh code_ids_step [OF st] ids])
  ultimately show ?thesis by (simp add: run_ok_def)
qed

lemma other_event_ok:
  assumes "run_ok x (ps, db)" "tokens db' = tokens db"
    and "codes db' = codes db \<or> (\<exists>r. codes db' = codes db @ [r] \<and> (code_spent db x \<longrightarrow> ac_id r \<noteq> x))"
  shows "run_ok x (ps, db')"
proof -
  have "token_ids db' = token_ids db" "token_spent db x \<Longrightarrow> token_spent db' x"
    "code_spent db x \<Longrightarrow> code_spent db' x" "in_order db' = in_order db"
    using assms(2,3) by (auto simp: token_ids_def token_spent_def code_spent_def code_ids_def in_order_def)
  then show ?thesis
    using assms(1) code_use.single_other token_use.single_other
    by (auto simp: run_ok_def list_all_iff intro: known_mono)
qed

lemma decide_event_ok:
  assumes "run_ok x (ps, db)" "fresh_ids (Decide ttl now i c q d login # evs) db"
    and "db' = snd (authorize_decide env ttl now i c q d login db)"
  shows "run_ok x (ps, db') \<and> fresh_ids evs db'"
proof -
  have dc: "db' = db \<or> (\<exists>r. db' = db\<lparr>codes := codes db @ [r]\<rparr> \<and> ac_id r = i)"
    unfolding assms(3) by (rule decide_codes)
  then consider "db' = db" | r where "db' = db\<lparr>codes := codes db @ [r]\<rparr>" "ac_id r = i" by blast
  then show ?thesis
  proof cases
    case 1
    have "fresh_ids evs db" by (rule fresh_decide [OF assms(2)]) simp_all
    then show ?thesis using assms(1) 1 by simp
  next
    case (2 r)
    have ids: "tokens db' = tokens db" "token_ids db' = token_ids db" "code_ids db' = code_ids db @ [i]"
      "codes db' = codes db @ [r]"
      using 2 by (simp_all add: code_ids_def token_ids_def)
    have "ac_id r \<noteq> x" if "code_spent db x"
      using that fresh_new(1) [OF assms(2)] 2(2) unfolding code_spent_def by blast
    then have "run_ok x (ps, db')" using other_event_ok [OF assms(1) ids(1)] ids(4) by blast
    moreover have "fresh_ids evs db'" using fresh_decide [OF assms(2) ids(2)] ids(3) by blast
    ultimately show ?thesis ..
  qed
qed

lemma quiet_event_ok:
  assumes "run_ok x (ps, db)" "fresh_ids (e # evs) db" "decided_id e = []" "drawn_id e = []"
    and "tokens db' = tokens db" "codes db' = codes db"
  shows "run_ok x (ps, db') \<and> fresh_ids evs db'"
  using assms other_event_ok [of x ps db db']
  by (simp add: fresh_ids_def code_ids_def token_ids_def)

lemma idle_event_ok: "fresh_ids (TokenStep i inp # evs) db \<Longrightarrow> fresh_ids evs db"
  using fresh_token_step by blast

lemma oauth_event_ok:
  assumes "run_ok x (ps, db)" "fresh_ids (e # evs) db" "oauth_event_step env e (ps, db) = (ps', db')"
  shows "run_ok x (ps', db') \<and> fresh_ids evs db'"
proof (cases e)
  case (TokenStep i inp)
  show ?thesis
  proof (cases "i < length ps")
    case True
    obtain p' d' where st: "token_step env inp (ps ! i) db = (p', d')" by fastforce
    have "ps' = ps[i := p']" "db' = d'" using assms(3) TokenStep True st by simp_all
    then show ?thesis using token_event_ok [OF assms(1) True st] assms(2) TokenStep by simp
  next
    case False
    then show ?thesis using assms TokenStep idle_event_ok by simp
  qed
next
  case (Decide ttl now i c q d login)
  then have "ps' = ps" "db' = snd (authorize_decide env ttl now i c q d login db)" using assms(3) by simp_all
  then show ?thesis using decide_event_ok [OF assms(1) assms(2) [unfolded Decide]] by simp
next
  case (Register cid uris)
  then have "ps' = ps" "db' = register_client cid uris db" using assms(3) by simp_all
  then show ?thesis using quiet_event_ok [OF assms(1,2), of db'] Register by (simp add: register_client_def)
next
  case (SetDeactivated acc b)
  then have "ps' = ps" "db' = db\<lparr>deactivated := dict_put acc b (deactivated db)\<rparr>" using assms(3) by simp_all
  then show ?thesis using quiet_event_ok [OF assms(1,2), of db'] SetDeactivated by simp
qed

lemma oauth_run_ok:
  "run_ok x s \<Longrightarrow> fresh_ids evs (snd s) \<Longrightarrow> run_ok x (oauth_run env evs s)"
  unfolding oauth_run_def
proof (induction evs arbitrary: s)
  case (Cons e evs)
  obtain ps db where s: "s = (ps, db)" by fastforce
  obtain ps' db' where st: "oauth_event_step env e (ps, db) = (ps', db')" by fastforce
  have "run_ok x (ps', db') \<and> fresh_ids evs db'"
    using Cons.prems unfolding s snd_conv by (rule oauth_event_ok [OF _ _ st])
  then show ?case using Cons.IH [of "(ps', db')"] by (simp add: s st)
qed simp

definition started :: "token_phase \<Rightarrow> bool" where
  "started p = (case p of CodeStart _ \<Rightarrow> True | RefreshStart _ \<Rightarrow> True | _ \<Rightarrow> False)"

lemma held_started: "list_all started ps \<Longrightarrow> held holds_code ps x = 0 \<and> held holds_token ps x = 0"
  by (induction ps) (auto simp: held_def started_def holds_code_def holds_token_def split: token_phase.splits)

lemma run_ok_started: "list_all started ps \<Longrightarrow> in_order db \<Longrightarrow> run_ok x (ps, db)"
  using held_started [of ps x]
  by (auto simp: run_ok_def code_use.single_def token_use.single_def list_all_iff started_def known_def
      split: token_phase.splits)

section \<open>Consent\<close>

text \<open>\<open>E\<close> is the events of the whole run.\<close>

definition from_decision :: "oauth_event set \<Rightarrow> auth_code \<Rightarrow> bool" where
  "from_decision E r =
     (\<exists>ttl now q. Decide ttl now (ac_id r) (ac_code r) q ''allow'' (Some (ac_account r)) \<in> E \<and>
        q_client_id q = Some (ac_client r) \<and> q_redirect_uri q = Some (ac_redirect r) \<and>
        or_else (q_challenge q) [] = ac_challenge r)"

definition claims :: "oauth_env \<Rightarrow> code_form \<Rightarrow> auth_code \<Rightarrow> bool" where
  "claims env f r =
     (cf_code f = Some (ac_code r) \<and> cf_client_id f = Some (ac_client r) \<and>
      cf_redirect_uri f = Some (ac_redirect r) \<and> pkce_digest env (the (cf_verifier f)) = ac_challenge r)"

definition backed :: "oauth_env \<Rightarrow> oauth_event set \<Rightarrow> token_phase \<Rightarrow> token_phase \<Rightarrow> bool" where
  "backed env E p0 p =
     (case p of
        CodeStart f \<Rightarrow> p0 = CodeStart f
      | CodeAccount f r \<Rightarrow> p0 = CodeStart f \<and> from_decision E r \<and> claims env f r
      | CodeConsume f r \<Rightarrow> p0 = CodeStart f \<and> from_decision E r \<and> claims env f r
      | CodeIssue f r \<Rightarrow> p0 = CodeStart f \<and> from_decision E r \<and> claims env f r
      | Answered (Issued (FromCode x) tp) \<Rightarrow>
          (\<exists>f r. p0 = CodeStart f \<and> from_decision E r \<and> claims env f r \<and> x = ac_id r \<and>
             tp_client tp = ac_client r \<and> tp_account tp = ac_account r)
      | _ \<Rightarrow> True)"

definition all_decided :: "oauth_event set \<Rightarrow> oauth_db \<Rightarrow> bool" where
  "all_decided E db = list_all (from_decision E) (codes db)"

lemma given_Some: "given s = (\<exists>t. s = Some t \<and> t \<noteq> [])"
  by (auto simp: given_def split: option.splits)

lemma code_start_claims:
  assumes "code_start env now f db = CodeAccount f' r" shows "f' = f \<and> r \<in> set (codes db) \<and> claims env f r"
  using assms
  by (auto simp: code_start_def get_valid_by_code_def claims_def verify_pkce_challenge_def given_Some find_Some_iff
      split: if_splits option.splits)

lemma code_start_answers:
  "(\<exists>e. code_start env now f db = Answered (OAuthError e)) \<or> (\<exists>r. code_start env now f db = CodeAccount f r)"
  by (auto simp: code_start_def split: option.split)

lemma refresh_start_backed: "backed env E p0 (refresh_start env f db)"
  by (auto simp: refresh_start_def backed_def Let_def split: option.split)

lemma code_start_backed:
  assumes "all_decided E db" "p0 = CodeStart f" shows "backed env E p0 (code_start env now f db)"
  using code_start_answers [of env now f db] code_start_claims [of env now f db f] assms
  by (auto simp: backed_def all_decided_def list_all_iff)

lemma step_backed:
  assumes "token_step env inp p db = (p', db')" "backed env E p0 p" "all_decided E db"
  shows "backed env E p0 p'"
proof (cases p)
  case (CodeStart f)
  then show ?thesis using assms code_start_backed [of E db p0 f env "si_now inp"] by (auto simp: backed_def)
next
  case (RefreshStart f)
  then show ?thesis using assms refresh_start_backed by auto
next
  case (CodeIssue f r)
  then show ?thesis using assms(1,2) by (auto simp: backed_def issue_token_pair_def)
qed (use assms in \<open>auto simp: backed_def issue_token_pair_def split: if_splits prod.splits option.splits\<close>)

lemma all_decided_mark: "all_decided E db \<Longrightarrow> all_decided E (snd (mark_consumed now i db))"
  by (auto simp: all_decided_def list_all_iff mark_consumed_def from_decision_def)

lemma step_all_decided:
  "token_step env inp p db = (p', db') \<Longrightarrow> all_decided E db \<Longrightarrow> all_decided E db'"
  using token_step_codes [of env inp p db p' db'] all_decided_mark by (auto simp: all_decided_def)

lemma decide_all_decided:
  assumes "all_decided E db" "Decide ttl now i c q d login \<in> E"
  shows "all_decided E (snd (authorize_decide env ttl now i c q d login db))"
proof -
  have "from_decision E r"
    if "registered_client db q = Some (cl, u)" "login = Some acc" "d = ''allow''"
      "r = \<lparr>ac_id = i, ac_code = c, ac_client = oc_client_id cl, ac_account = acc,
                ac_redirect = u, ac_challenge = or_else (q_challenge q) [],
                ac_method = or_else (q_method q) ''S256'', ac_scope = q_scope q,
                ac_expires = now + ttl, ac_consumed = None\<rparr>" for r cl u acc
  proof -
    have "q_client_id q = Some (oc_client_id cl)" "q_redirect_uri q = Some u"
      using that(1)
      by (auto simp: registered_client_def get_by_client_id_def given_Some find_Some_iff split: if_splits option.splits)
    then show ?thesis using assms(2) that(2-4) unfolding from_decision_def by fastforce
  qed
  then show ?thesis
    using assms(1) unfolding authorize_decide_def by (auto simp: all_decided_def split: option.split)
qed

lemma run_backed:
  assumes "set evs \<subseteq> E" "all_decided E db" "list_all2 (backed env E) ps0 ps"
    and "oauth_run env evs (ps, db) = (ps', db')"
  shows "list_all2 (backed env E) ps0 ps'"
  using assms unfolding oauth_run_def
proof (induction evs arbitrary: ps db)
  case (Cons e evs)
  obtain qs d where st: "oauth_event_step env e (ps, db) = (qs, d)" by fastforce
  have "all_decided E d \<and> list_all2 (backed env E) ps0 qs"
  proof (cases e)
    case (TokenStep i inp)
    obtain p' d' where t: "token_step env inp (ps ! i) db = (p', d')" by fastforce
    have "backed env E (ps0 ! i) p'" if "i < length ps"
      using step_backed [OF t _ Cons.prems(2)] Cons.prems(3) that by (simp add: list_all2_conv_all_nth)
    then show ?thesis
      using st TokenStep t Cons.prems(2,3) step_all_decided [OF t]
      by (auto simp: list_all2_conv_all_nth nth_list_update split: if_splits)
  next
    case (Decide ttl now i c q d' login)
    then show ?thesis
      using st Cons.prems(1-3) decide_all_decided [of E db ttl now i c q d' login env] by auto
  next
    case (Register cid uris)
    then show ?thesis using st Cons.prems(2,3) by (auto simp: all_decided_def register_client_def)
  next
    case (SetDeactivated acc b)
    then show ?thesis using st Cons.prems(2,3) by (auto simp: all_decided_def)
  qed
  then show ?case using Cons.IH [of d qs] Cons.prems(1,4) st by simp
qed simp

lemma started_backed1: "started p \<Longrightarrow> backed env E p p"
  by (cases p) (simp_all add: started_def backed_def)

lemma started_backed: "list_all started ps \<Longrightarrow> list_all2 (backed env E) ps ps"
  by (induction ps) (simp_all add: started_backed1)

section \<open>Properties\<close>

text \<open>The server of the examples: PKCE appends a mark, tokens are the account's name.\<close>

definition demo_env :: oauth_env where
  "demo_env = \<lparr>hash_secret = (\<lambda>s. CHR ''h'' # s), pkce_digest = (\<lambda>v. v @ ''#''),
     access_token = (\<lambda>acc cid aud now. acc), base_url = ''https://b''\<rparr>"

definition demo_query :: authorize_query where
  "demo_query = \<lparr>q_client_id = Some ''c'', q_redirect_uri = Some ''u'', q_challenge = Some ''v#'',
     q_method = Some ''S256'', q_response_type = Some ''code'', q_scope = None,
     q_resource = Some ''https://b/mcp''\<rparr>"

definition demo_code_form :: code_form where
  "demo_code_form = \<lparr>cf_code = Some ''k'', cf_redirect_uri = Some ''u'', cf_client_id = Some ''c'',
     cf_verifier = Some ''v'', cf_resource = Some ''https://b/mcp/''\<rparr>"

definition demo_refresh_form :: refresh_form where
  "demo_refresh_form = \<lparr>rf_token = Some ''r'', rf_client_id = Some ''c'', rf_resource = Some ''https://b/mcp/''\<rparr>"

definition demo_db :: oauth_db where
  "demo_db = \<lparr>clients = [\<lparr>oc_client_id = ''c'', oc_redirect_uris = [''u'']\<rparr>], codes = [],
     tokens = [\<lparr>ot_id = 1, ot_hash = ''hr'', ot_client = ''c'', ot_account = ''a'', ot_revoked = None, ot_from = None\<rparr>],
     deactivated = [(''a'', False)]\<rparr>"

definition at :: "nat \<Rightarrow> nat \<Rightarrow> oauth_event" where
  "at i n = TokenStep i \<lparr>si_now = 10, si_id = n, si_raw = ''n''\<rparr>"

definition demo_events :: "oauth_event list" where
  "demo_events = [Decide 60 0 5 ''k'' demo_query ''allow'' (Some ''a''), at 0 2, at 1 3, at 0 4, at 1 5, at 0 6, at 1 7, at 0 8, at 1 9]"

definition demo_start :: "token_phase list" where
  "demo_start = [CodeStart demo_code_form, RefreshStart demo_refresh_form]"

lemma demo_run:
  "oauth_run demo_env demo_events (demo_start, demo_db) =
     ([Answered (Issued (FromCode 5) \<lparr>tp_access = ''a'', tp_refresh = ''n'', tp_scope = None, tp_client = ''c'', tp_account = ''a''\<rparr>),
       Answered (Issued (FromToken 1) \<lparr>tp_access = ''a'', tp_refresh = ''n'', tp_scope = None, tp_client = ''c'', tp_account = ''a''\<rparr>)],
      snd (oauth_run demo_env demo_events (demo_start, demo_db)))"
  by code_simp

lemma demo_ok: "list_all started demo_start" "in_order demo_db" "fresh_ids demo_events demo_db" "codes demo_db = []"
  by (simp_all add: demo_start_def demo_db_def demo_events_def started_def in_order_def shape_def rotation_order_def
      fresh_ids_def code_ids_def token_ids_def at_def)

text \<open>C28: Tokens go back to a consent: when a request for an authorization code is answered with
  tokens, a logged-in account decided \<open>allow\<close> for the same client and redirect URI, with
  the challenge the request's verifier hashes to, the code is the one that decision
  created, and the tokens are that account's and that client's.\<close>

theorem issued_tokens_were_consented:
  assumes "list_all started ps" "codes db = []" "oauth_run env evs (ps, db) = (ps', db')"
    and "i < length ps'" "ps' ! i = Answered (Issued (FromCode x) tp)"
  shows "\<exists>f ttl now q. ps ! i = CodeStart f \<and>
    Decide ttl now x (the (cf_code f)) q ''allow'' (Some (tp_account tp)) \<in> set evs \<and>
    q_client_id q = cf_client_id f \<and> q_redirect_uri q = cf_redirect_uri f \<and>
    or_else (q_challenge q) [] = pkce_digest env (the (cf_verifier f)) \<and> cf_client_id f = Some (tp_client tp)"
proof -
  have "list_all2 (backed env (set evs)) ps ps'"
    by (rule run_backed [OF subset_refl _ started_backed [OF assms(1)] assms(3)]) (simp add: all_decided_def assms(2))
  then have "backed env (set evs) (ps ! i) (Answered (Issued (FromCode x) tp))"
    using assms(4,5) by (metis list_all2_conv_all_nth)
  then obtain f r where f: "ps ! i = CodeStart f" "from_decision (set evs) r" "claims env f r" "x = ac_id r"
    "tp_client tp = ac_client r" "tp_account tp = ac_account r"
    by (auto simp: backed_def)
  then show ?thesis unfolding from_decision_def claims_def by fastforce
qed

theorem issued_tokens_were_consented_witness:
  "\<exists>f ttl now q. demo_start ! 0 = CodeStart f \<and>
    Decide ttl now 5 (the (cf_code f)) q ''allow'' (Some ''a'') \<in> set demo_events \<and>
    q_client_id q = cf_client_id f \<and> q_redirect_uri q = cf_redirect_uri f \<and>
    or_else (q_challenge q) [] = pkce_digest demo_env (the (cf_verifier f)) \<and> cf_client_id f = Some ''c''"
  using issued_tokens_were_consented [OF demo_ok(1,4) demo_run, of 0 5] by simp

text \<open>C29: An authorization code, and a refresh token, is exchanged for tokens at most once:
  whatever requests run concurrently and however their transactions interleave with consent
  decisions, two answers that issued tokens for the same code or the same refresh token are
  the answer of one request.\<close>

theorem exchanged_once:
  assumes "list_all started ps" "in_order db" "fresh_ids evs db"
    and "oauth_run env evs (ps, db) = (ps', db')"
    and "i < length ps'" "ps' ! i = Answered (Issued source tp)"
    and "j < length ps'" "ps' ! j = Answered (Issued source tp')"
  shows "i = j"
proof (cases source)
  case (FromCode x)
  have "run_ok x (ps', db')"
    using oauth_run_ok [OF run_ok_started [OF assms(1,2)]] assms(3,4) by (metis snd_conv)
  then show ?thesis
    using code_use.single_distinct [of ps' db' x i j] assms(5-8) FromCode
    by (simp add: run_ok_def holds_code_def)
next
  case (FromToken x)
  have "run_ok x (ps', db')"
    using oauth_run_ok [OF run_ok_started [OF assms(1,2)]] assms(3,4) by (metis snd_conv)
  then show ?thesis
    using token_use.single_distinct [of ps' db' x i j] assms(5-8) FromToken
    by (simp add: run_ok_def holds_token_def)
qed

theorem exchanged_once_witness:
  "{j. j < 2 \<and> (\<exists>tp. fst (oauth_run demo_env demo_events (demo_start, demo_db)) ! j = Answered (Issued (FromCode 5) tp))} = {0}"
proof -
  note once = exchanged_once [OF demo_ok(1-3) demo_run, of _ "FromCode 5" _ 0]
  show ?thesis using once by (subst demo_run) (auto simp: less_2_cases_iff)
qed

text \<open>C30: Reuse detection returns, and revokes exactly the presented token and the tokens
  rotated from it: after any run from a table in rotation order the loop over
  \<open>rotated_from\<close> ends, every row of the family is revoked and every other row is
  untouched.\<close>

theorem revoke_family_total:
  assumes "list_all started ps" "in_order db" "fresh_ids evs db"
    and "oauth_run env evs (ps, db) = (ps', db')"
  shows "revoke_family now i db' =
     Some (db'\<lparr>tokens := revoke_all now (family (shape (tokens db')) i) (tokens db')\<rparr>)"
proof -
  have "run_ok 0 (ps', db')"
    using oauth_run_ok [OF run_ok_started [OF assms(1,2)]] assms(3,4) by (metis snd_conv)
  then show ?thesis by (intro revoke_family_exact) (simp add: run_ok_def in_order_def)
qed

theorem revoke_family_total_witness:
  "\<exists>db. db = snd (oauth_run demo_env demo_events (demo_start, demo_db)) \<and>
     revoke_family 99 1 db = Some (db\<lparr>tokens := revoke_all 99 (family (shape (tokens db)) 1) (tokens db)\<rparr>)"
  using revoke_family_total [OF demo_ok(1-3) demo_run] by blast

text \<open>Reuse detection misses a token in flight: of two requests with one refresh token, the
  one that loses the update revokes the token's family before the winner has stored the
  rotated token. The loser is refused, and the winner's new token stays valid.\<close>

definition race_events :: "oauth_event list" where
  "race_events = [at 0 2, at 1 3, at 0 4, at 1 5, at 0 6, at 1 7, at 1 8, at 0 9]"

theorem reuse_misses_winner:
  "case oauth_run demo_env race_events ([RefreshStart demo_refresh_form, RefreshStart demo_refresh_form], demo_db) of
     (ps, db) \<Rightarrow>
       ps = [Answered (Issued (FromToken 1) \<lparr>tp_access = ''a'', tp_refresh = ''n'', tp_scope = None, tp_client = ''c'', tp_account = ''a''\<rparr>),
             Answered (OAuthError ''invalid_grant'')] \<and>
       map (\<lambda>r. (ot_id r, ot_from r, ot_revoked r)) (tokens db) = [(1, None, Some 10), (9, Some 1, None)]"
  by code_simp

end
