(* ===== verification/SidecarSync.thy ===== *)
theory SidecarSync
  imports Complex_Main SidecarFiles "HOL-Library.Char_ord" "HOL-Library.List_Lexorder"
begin

text \<open>
  The flush of the sidecar (\<open>sidecar_sync.py\<close>): discovery of changed files by
  size and modification time, the queue of pending paths, and the upload of each with a
  check that the file is not being written. Processes of the sandbox and the sidecar's
  other handlers run between the calls: the function \<open>world\<close> says what they do at each
  point. The object store is a parameter that says which uploads it accepts and what a
  reader sees of a file that changes while it is read. The scan of the roots is one step.
\<close>

section \<open>State\<close>

type_synonym signature = "int \<times> int"

record sync_config =
  sc_ignore_dirs :: "string list"
  sc_max_entries :: nat
  sc_stable_check :: bool

text \<open>\<open>objects\<close> is the contents of the store; \<open>mtimes\<close> the files' \<open>st_mtime_ns\<close>.\<close>

record sync_state =
  disk :: fs
  mtimes :: "(path, int) dict"
  pending :: "string list"
  signatures :: "(string, signature) dict"
  objects :: "(string, content) dict"
  storage_prefix :: "string option"

datatype sync_point =
    AtLock | AtDiscovery | AtBucket | AtRealpath | AtIsFile | AtStat | AtStableCheck | AtOpen | AtUpload

type_synonym world = "sync_point \<Rightarrow> string \<Rightarrow> sync_state \<Rightarrow> sync_state"

record object_store =
  os_accepts :: "string \<Rightarrow> bool"
  os_stored_anyway :: "string \<Rightarrow> bool"
  os_torn :: "string \<Rightarrow> content"

definition sync_ignore_dirs_default :: "string list" where
  "sync_ignore_dirs_default =
     [''.git'', ''.cache'', ''.config'', ''.next'', ''node_modules'', ''dist'', ''build'', ''target'', ''__pycache__'']"

definition mtime_of :: "sync_state \<Rightarrow> path \<Rightarrow> int" where
  "mtime_of st p = (case dict_get (mtimes st) p of None \<Rightarrow> 0 | Some t \<Rightarrow> t)"

text \<open>\<open>lstat\<close>: the last name is not followed.\<close>

definition lstat_place :: "fs \<Rightarrow> string \<Rightarrow> path option" where
  "lstat_place fs s =
     (if names s = [] then Some []
      else case walk True fs max_symlinks [] (butlast (names s)) of
        None \<Rightarrow> None
      | Some (_, d) \<Rightarrow> if node_at fs d = Some Directory then Some (d @ [last (names s)]) else None)"

definition file_signature :: "sync_state \<Rightarrow> string \<Rightarrow> signature option" where
  "file_signature st full =
     (case lstat_place (disk st) full of
        None \<Rightarrow> None
      | Some p \<Rightarrow> (case node_at (disk st) p of
          Some (Regular c) \<Rightarrow> Some (int (content_size c), mtime_of st p)
        | _ \<Rightarrow> None))"

definition is_file :: "fs \<Rightarrow> string \<Rightarrow> bool" where
  "is_file fs s = (case stat_node fs s of Some (Regular _) \<Rightarrow> True | _ \<Rightarrow> False)"

definition discard :: "string \<Rightarrow> sync_state \<Rightarrow> sync_state" where
  "discard v st = st\<lparr>pending := removeAll v (pending st)\<rparr>"

definition add_pending :: "string \<Rightarrow> sync_state \<Rightarrow> sync_state" where
  "add_pending v st = st\<lparr>pending := List.insert v (pending st)\<rparr>"

definition forget :: "string \<Rightarrow> sync_state \<Rightarrow> sync_state" where
  "forget v st = (discard v st)\<lparr>signatures := dict_del v (signatures st)\<rparr>"

definition has_active_sync_session :: "sync_state \<Rightarrow> bool" where
  "has_active_sync_session st = (case storage_prefix st of None \<Rightarrow> False | Some s \<Rightarrow> s \<noteq> [])"

section \<open>Discovery\<close>

definition scrub_disallowed_pending_sync :: "sync_state \<Rightarrow> sync_state" where
  "scrub_disallowed_pending_sync st =
     st\<lparr>pending := filter (\<lambda>v. storage_bucket_for_virtual_path (disk st) v \<noteq> None) (pending st)\<rparr>"

definition trim_synced_signature_cache :: "sync_config \<Rightarrow> sync_state \<Rightarrow> sync_state" where
  "trim_synced_signature_cache cfg st =
     st\<lparr>signatures := drop (length (signatures st) - sc_max_entries cfg) (signatures st)\<rparr>"

text \<open>The non-directories that \<open>os.walk\<close> reports below a root: every directory on the
  way is a directory itself, not a link to one, and its name is not ignored.\<close>

definition walked :: "sync_config \<Rightarrow> fs \<Rightarrow> path \<Rightarrow> path \<Rightarrow> bool" where
  "walked cfg fs base p =
     (take (length base) p = base \<and> length base < length p \<and>
      list_all (\<lambda>k. node_at fs (take k p) = Some Directory) [length base ..< length p] \<and>
      list_all (\<lambda>n. n \<notin> set (sc_ignore_dirs cfg)) (butlast (drop (length base) p)))"

definition scan_root :: "sync_config \<Rightarrow> sync_state \<Rightarrow> string \<Rightarrow> (string \<times> signature) list" where
  "scan_root cfg st dir =
     (let fs = disk st; root_real = realpath fs dir in
      if \<not> path_isdir fs root_real then []
      else concat (map (\<lambda>(p, n).
        if \<not> walked cfg fs (names root_real) p then []
        else case file_signature st (path_text p) of
          None \<Rightarrow> []
        | Some sig \<Rightarrow> (case to_virtual_path fs (path_text p) of
            Inl _ \<Rightarrow> []
          | Inr v \<Rightarrow> if storage_bucket_for_virtual_path fs v = None then [] else [(v, sig)])) fs))"

definition scan_sync_file_signatures :: "sync_config \<Rightarrow> sync_state \<Rightarrow> (string, signature) dict" where
  "scan_sync_file_signatures cfg st =
     fold (\<lambda>(v, sig) d. dict_put v sig d) (concat (map (scan_root cfg st) [workspace_dir, outputs_dir, uploads_dir])) []"

definition discover_untracked_sync_files :: "sync_config \<Rightarrow> world \<Rightarrow> sync_state \<Rightarrow> nat \<times> sync_state" where
  "discover_untracked_sync_files cfg world st =
     (let scanned = scan_sync_file_signatures cfg st;
          st1 = world AtDiscovery [] st;
          fresh = filter (\<lambda>v. dict_get (signatures st1) v \<noteq> dict_get scanned v \<and> v \<notin> set (pending st1)) (dict_keys scanned);
          kept = filter (\<lambda>e. storage_bucket_for_virtual_path (disk st1) (fst e) \<noteq> None \<and> fst e \<in> set (dict_keys scanned))
                   (signatures st1)
      in (length fresh, trim_synced_signature_cache cfg (st1\<lparr>pending := pending st1 @ fresh, signatures := kept\<rparr>)))"

definition queue_virtual_path_for_sync :: "string \<Rightarrow> sync_state \<Rightarrow> bool \<times> sync_state" where
  "queue_virtual_path_for_sync v st =
     (if storage_bucket_for_virtual_path (disk st) v = None then (False, st) else (True, add_pending v st))"

section \<open>Uploads\<close>

definition wait_for_stable_signature ::
    "sync_config \<Rightarrow> world \<Rightarrow> string \<Rightarrow> string \<Rightarrow> signature \<Rightarrow> sync_state \<Rightarrow> signature option \<times> sync_state" where
  "wait_for_stable_signature cfg world v full initial st =
     (if \<not> sc_stable_check cfg then (Some initial, st)
      else let st1 = world AtStableCheck v st in
        ((case file_signature st1 full of
            None \<Rightarrow> None
          | Some latest \<Rightarrow> if latest \<noteq> initial then None else Some latest), st1))"

definition storage_key :: "string \<Rightarrow> string \<times> string \<Rightarrow> string" where
  "storage_key pre bucket = pre @ ''/'' @ fst bucket @ ''/'' @ snd bucket"

text \<open>\<open>storage().upload\<close> opens the path, following links; a file that changes while it
  is read is read as the store parameter says.\<close>

definition upload :: "object_store \<Rightarrow> world \<Rightarrow> string \<Rightarrow> string \<Rightarrow> string \<Rightarrow> sync_state \<Rightarrow> bool \<times> sync_state" where
  "upload os world v full key st =
     (case follow (disk st) full of
        Some p \<Rightarrow>
          (case node_at (disk st) p of
             Some (Regular c) \<Rightarrow>
               (let st1 = world AtUpload v st;
                    got = (if node_at (disk st1) p = Some (Regular c) \<and> mtime_of st1 p = mtime_of st p then c else os_torn os v)
                in (os_accepts os v,
                    if os_accepts os v \<or> os_stored_anyway os v then st1\<lparr>objects := dict_put key got (objects st1)\<rparr> else st1))
           | _ \<Rightarrow> (False, st))
      | None \<Rightarrow> (False, st))"

definition upload_candidate ::
    "sync_config \<Rightarrow> object_store \<Rightarrow> world \<Rightarrow> string \<Rightarrow> string \<Rightarrow> string \<Rightarrow> signature \<Rightarrow> sync_state \<Rightarrow> bool \<times> sync_state" where
  "upload_candidate cfg os world key v full sig st =
     (case wait_for_stable_signature cfg world v full sig st of
        (None, st1) \<Rightarrow> (False, add_pending v st1)
      | (Some settled, st1) \<Rightarrow>
          (case upload os world v full key (world AtOpen v st1) of
             (ok, st2) \<Rightarrow>
               (if \<not> ok then (False, add_pending v st2)
                else case file_signature st2 full of
                  None \<Rightarrow> (False, forget v st2)
                | Some post \<Rightarrow>
                    (if post \<noteq> settled then (False, add_pending v st2)
                     else (True, (discard v st2)\<lparr>signatures := dict_put v post (signatures st2)\<rparr>)))))"

text \<open>One candidate: whether it is confirmed.\<close>

definition sync_one ::
    "sync_config \<Rightarrow> object_store \<Rightarrow> world \<Rightarrow> string \<Rightarrow> string \<Rightarrow> sync_state \<Rightarrow> bool \<times> sync_state" where
  "sync_one cfg os world pre v st =
     (let st0 = world AtBucket v st in
      case storage_bucket_for_virtual_path (disk st0) v of
        None \<Rightarrow> (False, discard v st0)
      | Some bucket \<Rightarrow>
          (let st1 = world AtRealpath v st0; full = realpath (disk st1) v; st2 = world AtIsFile v st1 in
           if \<not> is_file (disk st2) full then (False, forget v st2)
           else let st3 = world AtStat v st2 in
             case file_signature st3 full of
               None \<Rightarrow> (False, forget v st3)
             | Some sig \<Rightarrow>
                 (if dict_get (signatures st3) v = Some sig then (True, discard v st3)
                  else upload_candidate cfg os world (storage_key pre bucket) v full sig st3)))"

fun sync_each ::
    "sync_config \<Rightarrow> object_store \<Rightarrow> world \<Rightarrow> string \<Rightarrow> string list \<Rightarrow> sync_state \<Rightarrow> string list \<times> sync_state" where
  "sync_each cfg os world pre [] st = ([], st)"
| "sync_each cfg os world pre (v # vs) st =
     (case sync_one cfg os world pre v st of
        (ok, st1) \<Rightarrow> (case sync_each cfg os world pre vs st1 of
          (ready, st2) \<Rightarrow> (if ok then v # ready else ready, st2)))"

definition sync_candidate_paths ::
    "sync_config \<Rightarrow> object_store \<Rightarrow> world \<Rightarrow> string list \<Rightarrow> string \<Rightarrow> sync_state \<Rightarrow> string list \<times> sync_state" where
  "sync_candidate_paths cfg os world candidates pre st = sync_each cfg os world pre (sort candidates) st"

text \<open>The candidates of a flush: all pending paths, or the requested ones that may be synced.\<close>

fun queue_requested :: "string list \<Rightarrow> sync_state \<Rightarrow> string list \<times> sync_state" where
  "queue_requested [] st = ([], st)"
| "queue_requested (v # vs) st =
     (case queue_virtual_path_for_sync v st of
        (ok, st1) \<Rightarrow> (case queue_requested vs st1 of (cs, st2) \<Rightarrow> (if ok then List.insert v cs else cs, st2)))"

definition flush_candidates :: "string list option \<Rightarrow> sync_state \<Rightarrow> string list \<times> sync_state" where
  "flush_candidates requested st =
     (case requested of Some vs \<Rightarrow> queue_requested vs st | None \<Rightarrow> (pending st, st))"

definition flush_outputs ::
    "sync_config \<Rightarrow> object_store \<Rightarrow> world \<Rightarrow> bool \<Rightarrow> string list option \<Rightarrow> bool \<Rightarrow> bool \<Rightarrow> sync_state \<Rightarrow> string list \<times> sync_state" where
  "flush_outputs cfg os world discover requested skip_if_running locked st =
     (if \<not> has_active_sync_session st \<or> (skip_if_running \<and> locked) then ([], st)
      else let st1 = world AtLock [] st in
        (case storage_prefix st1 of
           None \<Rightarrow> ([], st1)
         | Some pre \<Rightarrow>
             (if pre = [] then ([], st1)
              else let st2 = (if discover then snd (discover_untracked_sync_files cfg world st1) else st1);
                       (candidates, st3) = flush_candidates requested (scrub_disallowed_pending_sync st2)
                in sync_candidate_paths cfg os world candidates pre st3)))"

definition confirmed_flush :: "sync_config \<Rightarrow> object_store \<Rightarrow> world \<Rightarrow> sync_state \<Rightarrow> string list \<times> sync_state" where
  "confirmed_flush cfg os world st =
     (case flush_outputs cfg os world True None False False st of
        (ready, st') \<Rightarrow>
          (concat (map (\<lambda>v. case storage_bucket_for_virtual_path (disk st') v of
              None \<Rightarrow> []
            | Some (ns, rel) \<Rightarrow> [if rel \<noteq> [] then ns @ ''/'' @ rel else ns]) (sort ready)), st'))"

text \<open>The periodic loop: one turn, at time \<open>now\<close>. An exception of the flush is logged.\<close>

definition periodic_turn ::
    "sync_config \<Rightarrow> object_store \<Rightarrow> world \<Rightarrow> real \<Rightarrow> real \<Rightarrow> bool \<Rightarrow> real \<times> sync_state \<Rightarrow> real \<times> sync_state" where
  "periodic_turn cfg os world interval now locked s =
     (case s of (last_reconcile, st) \<Rightarrow>
        (if \<not> has_active_sync_session st then s
         else let reconcile = interval \<le> now - last_reconcile in
           (if reconcile then now else last_reconcile,
            snd (flush_outputs cfg os world reconcile None True locked st))))"

end
