(* ===== verification/SyncSafety.thy ===== *)
theory SyncSafety
  imports SidecarSync FileSafety
begin

text \<open>
  What the flush guarantees: as long as the sandbox makes no links and every change moves
  the modification time, a file that counts as synced is in storage with its content, and an
  undisturbed flush stores every file it finds; a link made at the right moment is followed.
\<close>

section \<open>Texts of canonical paths\<close>

definition canonical_text :: "fs \<Rightarrow> string \<Rightarrow> bool" where
  "canonical_text fs v = (\<exists>p. v = path_text p \<and> canonical fs p)"

lemma canonical_links: assumes "link_at fs' = link_at fs" shows "canonical fs' p = canonical fs p"
  unfolding canonical_def link_free_def assms ..

lemma canonical_text_links: assumes "link_at fs' = link_at fs" shows "canonical_text fs' v = canonical_text fs v"
  unfolding canonical_text_def canonical_links [OF assms] ..

lemma bucket_links:
  assumes "link_at fs' = link_at fs"
  shows "storage_bucket_for_virtual_path fs' v = storage_bucket_for_virtual_path fs v"
  unfolding storage_bucket_for_virtual_path_def realpath_links [OF assms] ..

lemma tree_ok_canonical:
  "tree_ok fs \<Longrightarrow> node_at fs p = Some n \<Longrightarrow> link_at fs p = None \<Longrightarrow> canonical fs p"
proof (induction p arbitrary: n rule: rev_induct)
  case (snoc a p)
  have p: "node_at fs p = Some Directory" using tree_okD [OF snoc.prems(1,2)] by simp
  then have "link_at fs p = None" by (simp add: link_at_def)
  then have "canonical fs p" using snoc.IH [OF snoc.prems(1) p] by simp
  moreover have "ok_name a"
    using snoc.prems(1,2) by (auto simp: tree_ok_def list_all_iff node_at_def dest: map_of_SomeD)
  ultimately show ?case using snoc.prems(3) by (simp add: canonical_snoc)
qed simp

lemma canonical_walk:
  "canonical fs (q @ ns) \<Longrightarrow> walk True fs k q ns \<in> {None, Some (k, q @ ns)}"
proof (induction ns arbitrary: q)
  case (Cons n ns)
  have "canonical fs (q @ [n])" using Cons.prems canonical_append [of fs "q @ [n]" ns] by simp
  then have "link_at fs (q @ [n]) = None" "n \<noteq> ''..''" by (auto simp: canonical_snoc ok_name_def)
  then show ?case using Cons.IH [of "q @ [n]"] Cons.prems by (simp add: walk.simps(2))
qed simp

lemma canonical_names: "canonical fs p \<Longrightarrow> names (path_text p) = p"
  by (simp add: canonical_def)

lemma canonical_follow: "canonical fs p \<Longrightarrow> follow fs (path_text p) \<in> {None, Some p}"
  using canonical_walk [of fs "[]" p max_symlinks] by (auto simp: follow_def canonical_names)

lemma canonical_lstat: "canonical fs p \<Longrightarrow> lstat_place fs (path_text p) \<in> {None, Some p}"
  using canonical_walk [of fs "[]" "butlast p" max_symlinks] canonical_butlast [of fs p]
  by (auto simp: lstat_place_def canonical_names split: option.splits)

definition place_signature :: "sync_state \<Rightarrow> path \<Rightarrow> signature option" where
  "place_signature st p =
     (case node_at (disk st) p of Some (Regular c) \<Rightarrow> Some (int (content_size c), mtime_of st p) | _ \<Rightarrow> None)"

lemma signature_place:
  "canonical (disk st) p \<Longrightarrow> file_signature st (path_text p) = Some sig \<Longrightarrow> place_signature st p = Some sig"
  using canonical_lstat [of "disk st" p] by (auto simp: file_signature_def place_signature_def split: option.splits)

section \<open>Storage keys\<close>

definition buckets :: "(string \<times> path) list" where
  "buckets = [(''workspace'', [''workspace'']), (''outputs'', [''mnt'', ''user-data'', ''outputs'']),
     (''uploads'', [''mnt'', ''user-data'', ''uploads''])]"

lemma buckets_text:
  "[(''workspace'', workspace_dir), (''outputs'', outputs_dir), (''uploads'', uploads_dir)] =
     map (\<lambda>(ns, r). (ns, path_text r)) buckets"
  by (simp add: buckets_def path_text_def sandbox_dirs)

lemma buckets_ok: "(ns, r) \<in> set buckets \<Longrightarrow> list_all ok_name r \<and> r \<noteq> [] \<and> CHR ''/'' \<notin> set ns"
  by (auto simp: buckets_def ok_name_def)

lemma find_SomeD: "find P xs = Some x \<Longrightarrow> x \<in> set xs \<and> P x"
  by (auto simp: find_Some_iff)

lemma bucket_shape:
  assumes fs: "roots_plain fs" and p: "canonical fs p"
    and b: "storage_bucket_for_virtual_path fs (path_text p) = Some (ns, rel)"
  shows "\<exists>r t. (ns, r) \<in> set buckets \<and> p = r @ t \<and> rel = py_join ''/'' t \<and> list_all ok_name t"
proof -
  have ok: "list_all ok_name p" using p by (simp add: canonical_def)
  obtain e where e: "find (\<lambda>(ns, dir). is_under_root (path_text p) dir) (map (\<lambda>(ns, r). (ns, path_text r)) buckets) = Some e"
      "(ns, rel) = (case e of (ns, dir) \<Rightarrow> (ns, if relpath (path_text p) dir = ''.'' then [] else relpath (path_text p) dir))"
    using b unfolding storage_bucket_for_virtual_path_def Let_def realpath_id [OF p] sandbox_dirs_plain [OF fs] buckets_text
      map_option_eq_Some
    by (elim exE conjE) (rule that, assumption, simp only:)
  then obtain r where r: "(ns, r) \<in> set buckets" "is_under_root (path_text p) (path_text r)"
      "rel = (if relpath (path_text p) (path_text r) = ''.'' then [] else relpath (path_text p) (path_text r))"
    using find_SomeD [OF e(1)] by (auto simp del: list.map)
  obtain t where t: "p = r @ t" using is_under_root_iff [OF ok] buckets_ok [OF r(1)] r(2) by (auto elim: prefixE)
  then have "list_all ok_name t" using ok by simp
  then show ?thesis
    using r(1,3) t relpath_below [of r t] py_join_not_dot [of t] buckets_ok [OF r(1)] by auto
qed

lemma bucket_unique: "(ns, r) \<in> set buckets \<Longrightarrow> (ns, r') \<in> set buckets \<Longrightarrow> r = r'"
  by (auto simp: buckets_def)

lemma split_slash_unique:
  "CHR ''/'' \<notin> set a \<Longrightarrow> CHR ''/'' \<notin> set b \<Longrightarrow> a @ CHR ''/'' # x = b @ CHR ''/'' # y \<Longrightarrow> a = b \<and> x = y"
proof (induction a arbitrary: b)
  case (Cons c a)
  then show ?case by (cases b) auto
qed (auto simp: Cons_eq_append_conv)

lemma storage_key_inj:
  assumes fs: "roots_plain fs" and p: "canonical fs p" "canonical fs q"
    and b: "storage_bucket_for_virtual_path fs (path_text p) = Some b" "storage_bucket_for_virtual_path fs (path_text q) = Some b'"
    and key: "storage_key pre b = storage_key pre b'"
  shows "p = q"
proof -
  obtain ns rel where bb: "b = (ns, rel)" by fastforce
  obtain ns' rel' where bb': "b' = (ns', rel')" by fastforce
  obtain r t where r: "(ns, r) \<in> set buckets" "p = r @ t" "rel = py_join ''/'' t" "list_all ok_name t"
    using bucket_shape [OF fs p(1)] b(1) bb by blast
  obtain r' t' where r': "(ns', r') \<in> set buckets" "q = r' @ t'" "rel' = py_join ''/'' t'" "list_all ok_name t'"
    using bucket_shape [OF fs p(2)] b(2) bb' by blast
  have "ns = ns' \<and> rel = rel'"
    using key split_slash_unique [of ns ns' rel rel'] buckets_ok [OF r(1)] buckets_ok [OF r'(1)]
    by (simp add: storage_key_def bb bb')
  moreover then have "t = t'" using r(3,4) r'(3,4) names_join by metis
  ultimately show ?thesis using r r' bucket_unique [of ns r r'] by simp
qed

section \<open>What may happen between the calls\<close>

text \<open>No link is made or removed, and what is at a path changes only when its time moves on.\<close>

definition honest :: "sync_state \<Rightarrow> sync_state \<Rightarrow> bool" where
  "honest st st' =
     (sandbox_fs (disk st') \<and> link_at (disk st') = link_at (disk st) \<and> signatures st' = signatures st \<and>
      objects st' = objects st \<and> storage_prefix st' = storage_prefix st \<and>
      (\<forall>p. mtime_of st p \<le> mtime_of st' p \<and> (mtime_of st' p = mtime_of st p \<longrightarrow> node_at (disk st') p = node_at (disk st) p)) \<and>
      (\<forall>v \<in> set (pending st'). v \<in> set (pending st) \<or> canonical_text (disk st) v))"

definition honest_world :: "world \<Rightarrow> bool" where
  "honest_world w = (\<forall>pt v st. sandbox_fs (disk st) \<longrightarrow> honest st (w pt v st))"

lemma honest_refl [simp]: "sandbox_fs (disk st) \<Longrightarrow> honest st st"
  by (simp add: honest_def)

lemma honest_fs: "honest st st' \<Longrightarrow> sandbox_fs (disk st')"
  by (simp add: honest_def)

lemma honest_links: "honest st st' \<Longrightarrow> link_at (disk st') = link_at (disk st)"
  by (simp add: honest_def)

lemma honest_canonical: "honest st st' \<Longrightarrow> canonical (disk st') p = canonical (disk st) p"
  by (rule canonical_links [OF honest_links])

lemma honest_bucket:
  "honest st st' \<Longrightarrow> storage_bucket_for_virtual_path (disk st') v = storage_bucket_for_virtual_path (disk st) v"
  by (rule bucket_links [OF honest_links])

lemma honest_time: "honest st st' \<Longrightarrow> mtime_of st p \<le> mtime_of st' p"
  by (simp add: honest_def)

lemma honest_node: "honest st st' \<Longrightarrow> mtime_of st' p = mtime_of st p \<Longrightarrow> node_at (disk st') p = node_at (disk st) p"
  by (simp add: honest_def)

lemma honest_trans: "honest a b \<Longrightarrow> honest b c \<Longrightarrow> honest a c"
  using canonical_text_links [OF honest_links, of a b] unfolding honest_def by (smt (verit) order_trans order_antisym)

lemma honest_same_signature:
  assumes "honest a b" "place_signature b p = Some sig" "snd sig \<le> mtime_of a p"
  shows "place_signature a p = Some sig \<and> node_at (disk b) p = node_at (disk a) p \<and> mtime_of b p = mtime_of a p"
proof -
  have "mtime_of b p = snd sig" using assms(2) by (auto simp: place_signature_def split: option.splits node.splits)
  then have t: "mtime_of b p = mtime_of a p" using honest_time [OF assms(1), of p] assms(3) by simp
  have n: "node_at (disk b) p = node_at (disk a) p" by (rule honest_node [OF assms(1) t])
  have "place_signature a p = place_signature b p" unfolding place_signature_def n t ..
  then show ?thesis using assms(2) n t by simp
qed

section \<open>The signature cache\<close>

definition entry_ok :: "string \<Rightarrow> sync_state \<Rightarrow> string \<Rightarrow> signature \<Rightarrow> bool" where
  "entry_ok pre st v sig =
     (\<exists>p b. v = path_text p \<and> canonical (disk st) p \<and> storage_bucket_for_virtual_path (disk st) v = Some b \<and>
        snd sig \<le> mtime_of st p \<and>
        (place_signature st p = Some sig \<longrightarrow>
           (\<exists>c. node_at (disk st) p = Some (Regular c) \<and> dict_get (objects st) (storage_key pre b) = Some c)))"

definition sync_ok :: "string \<Rightarrow> sync_state \<Rightarrow> bool" where
  "sync_ok pre st =
     (sandbox_fs (disk st) \<and> storage_prefix st = Some pre \<and> dict_ok (signatures st) \<and>
      list_all (canonical_text (disk st)) (pending st) \<and>
      (\<forall>v sig. dict_get (signatures st) v = Some sig \<longrightarrow> entry_ok pre st v sig))"

lemma entry_content:
  assumes "entry_ok pre st (path_text p) sig" "canonical (disk st) p" "place_signature st p = Some sig"
  shows "\<exists>c b. node_at (disk st) p = Some (Regular c) \<and> storage_bucket_for_virtual_path (disk st) (path_text p) = Some b \<and>
    dict_get (objects st) (storage_key pre b) = Some c"
proof -
  obtain q b where q: "path_text p = path_text q" "canonical (disk st) q" "storage_bucket_for_virtual_path (disk st) (path_text p) = Some b"
    "place_signature st q = Some sig \<longrightarrow> (\<exists>c. node_at (disk st) q = Some (Regular c) \<and> dict_get (objects st) (storage_key pre b) = Some c)"
    using assms(1) unfolding entry_ok_def by blast
  then have "q = p" using canonical_names assms(2) by metis
  then show ?thesis using q assms(3) by blast
qed

lemma entry_honest:
  assumes "honest st st'" "entry_ok pre st v sig" shows "entry_ok pre st' v sig"
proof -
  obtain p b where e: "v = path_text p" "canonical (disk st) p" "storage_bucket_for_virtual_path (disk st) v = Some b"
    "snd sig \<le> mtime_of st p"
    "place_signature st p = Some sig \<longrightarrow> (\<exists>c. node_at (disk st) p = Some (Regular c) \<and> dict_get (objects st) (storage_key pre b) = Some c)"
    using assms(2) by (auto simp: entry_ok_def)
  have "objects st' = objects st" using assms(1) by (simp add: honest_def)
  then have "place_signature st' p = Some sig \<longrightarrow> (\<exists>c. node_at (disk st') p = Some (Regular c) \<and> dict_get (objects st') (storage_key pre b) = Some c)"
    using honest_same_signature [OF assms(1) _ e(4)] e(5) by metis
  then show ?thesis
    using e(1-4) honest_canonical [OF assms(1)] honest_bucket [OF assms(1)] honest_time [OF assms(1), of p]
    unfolding entry_ok_def by (metis order_trans)
qed

lemma sync_okI:
  "sandbox_fs (disk st) \<Longrightarrow> storage_prefix st = Some pre \<Longrightarrow> dict_ok (signatures st) \<Longrightarrow>
     (\<And>v. v \<in> set (pending st) \<Longrightarrow> canonical_text (disk st) v) \<Longrightarrow>
     (\<And>v sig. dict_get (signatures st) v = Some sig \<Longrightarrow> entry_ok pre st v sig) \<Longrightarrow> sync_ok pre st"
  unfolding sync_ok_def list_all_iff by blast

lemma sync_okD:
  assumes "sync_ok pre st"
  shows "sandbox_fs (disk st)" "storage_prefix st = Some pre" "dict_ok (signatures st)"
    "v \<in> set (pending st) \<Longrightarrow> canonical_text (disk st) v"
    "dict_get (signatures st) v = Some sig \<Longrightarrow> entry_ok pre st v sig"
  using assms unfolding sync_ok_def list_all_iff by blast+

lemma ok_honest:
  assumes "honest st st'" "sync_ok pre st" shows "sync_ok pre st'"
proof (rule sync_okI)
  note h = assms(1) [unfolded honest_def]
  show "sandbox_fs (disk st')" "storage_prefix st' = Some pre" "dict_ok (signatures st')"
    using h sync_okD(1-3) [OF assms(2)] by simp_all
  show "canonical_text (disk st') v" if "v \<in> set (pending st')" for v
    unfolding canonical_text_links [OF honest_links [OF assms(1)]] using h that sync_okD(4) [OF assms(2)] by blast
  show "entry_ok pre st' v sig" if "dict_get (signatures st') v = Some sig" for v sig
    using that h sync_okD(5) [OF assms(2)] entry_honest [OF assms(1)] by metis
qed

lemma place_cong:
  assumes "disk st' = disk st" "mtimes st' = mtimes st"
  shows "place_signature st' p = place_signature st p"
  unfolding place_signature_def mtime_of_def assms ..

lemma entry_cong:
  assumes "disk st' = disk st" "mtimes st' = mtimes st" "objects st' = objects st"
  shows "entry_ok pre st' v sig = entry_ok pre st v sig"
proof -
  have t: "mtime_of st' p = mtime_of st p" for p unfolding mtime_of_def assms ..
  have "place_signature st' p = place_signature st p" for p by (rule place_cong [OF assms(1,2)])
  then show ?thesis unfolding entry_ok_def t assms by simp
qed

lemma ok_update:
  assumes "sync_ok pre st" "disk st' = disk st" "mtimes st' = mtimes st" "objects st' = objects st"
    and "storage_prefix st' = storage_prefix st" "dict_ok (signatures st')"
    and "\<And>v. v \<in> set (pending st') \<Longrightarrow> v \<in> set (pending st) \<or> canonical_text (disk st) v"
    and "\<And>v sig. dict_get (signatures st') v = Some sig \<Longrightarrow> entry_ok pre st v sig"
  shows "sync_ok pre st'"
proof (rule sync_okI)
  show "sandbox_fs (disk st')" "storage_prefix st' = Some pre" "dict_ok (signatures st')"
    using assms(2,5,6) sync_okD(1,2) [OF assms(1)] by simp_all
  show "canonical_text (disk st') v" if "v \<in> set (pending st')" for v
    using assms(2,7) that sync_okD(4) [OF assms(1)] by auto
  show "entry_ok pre st' v sig" if "dict_get (signatures st') v = Some sig" for v sig
    using assms(8) [OF that] unfolding entry_cong [OF assms(2-4)] .
qed

lemma ok_discard: "sync_ok pre st \<Longrightarrow> sync_ok pre (discard v st)"
  by (rule ok_update) (auto simp: discard_def dest: sync_okD)

lemma ok_add: "sync_ok pre st \<Longrightarrow> canonical_text (disk st) v \<Longrightarrow> sync_ok pre (add_pending v st)"
  by (rule ok_update) (auto simp: add_pending_def dest: sync_okD)

lemma ok_forget: "sync_ok pre st \<Longrightarrow> sync_ok pre (forget v st)"
  by (rule ok_update) (auto simp: forget_def discard_def dict_get_del dest: sync_okD split: if_splits)

lemma wait_honest:
  assumes "honest_world w" "sandbox_fs (disk st)" "file_signature st full = Some sig"
    and "wait_for_stable_signature cfg w v full sig st = (res, st')"
  shows "honest st st' \<and> (\<forall>s. res = Some s \<longrightarrow> s = sig \<and> file_signature st' full = Some sig)"
  using assms by (auto simp: wait_for_stable_signature_def Let_def honest_world_def split: if_splits option.splits)

lemma upload_honest:
  assumes "honest_world w" "sandbox_fs (disk st)" "canonical (disk st) p"
    and "upload os w v (path_text p) key st = (ok, st')"
  shows "\<exists>u. honest st u \<and>
     (st' = u \<or> (\<exists>x. st' = u\<lparr>objects := dict_put key x (objects u)\<rparr>)) \<and>
     (ok \<longrightarrow> (\<exists>c x. st' = u\<lparr>objects := dict_put key x (objects u)\<rparr> \<and> node_at (disk st) p = Some (Regular c) \<and>
        (node_at (disk u) p = Some (Regular c) \<and> mtime_of u p = mtime_of st p \<longrightarrow> x = c)))"
proof (cases "follow (disk st) (path_text p)")
  case None
  then have "\<not> ok \<and> st' = st" using assms(4) by (simp add: upload_def)
  then show ?thesis using honest_refl [OF assms(2)] by blast
next
  case (Some q)
  then have "q = p" using canonical_follow [OF assms(3)] by auto
  have h: "honest st (w AtUpload v st)" using assms(1,2) by (simp add: honest_world_def)
  show ?thesis
  proof (cases "\<exists>c. node_at (disk st) p = Some (Regular c)")
    case True
    then obtain c where c: "node_at (disk st) p = Some (Regular c)" by blast
    define u where "u = w AtUpload v st"
    define x where "x = (if node_at (disk u) p = Some (Regular c) \<and> mtime_of u p = mtime_of st p then c else os_torn os v)"
    have "upload os w v (path_text p) key st =
        (os_accepts os v, if os_accepts os v \<or> os_stored_anyway os v then u\<lparr>objects := dict_put key x (objects u)\<rparr> else u)"
      unfolding upload_def Some \<open>q = p\<close> option.case c node.case Let_def u_def x_def by (rule refl)
    then have "ok = os_accepts os v"
      "st' = (if os_accepts os v \<or> os_stored_anyway os v then u\<lparr>objects := dict_put key x (objects u)\<rparr> else u)"
      using assms(4) by simp_all
    moreover have "node_at (disk u) p = Some (Regular c) \<and> mtime_of u p = mtime_of st p \<longrightarrow> x = c" by (simp add: x_def)
    moreover have "honest st u" using h unfolding u_def .
    ultimately show ?thesis using c by (cases "os_accepts os v \<or> os_stored_anyway os v") auto
  next
    case False
    then have "\<not> ok \<and> st' = st" using assms(4) Some \<open>q = p\<close> by (auto simp: upload_def split: option.splits node.splits)
    then show ?thesis using honest_refl [OF assms(2)] by blast
  qed
qed

text \<open>Storing an object under the key of \<open>p\<close> leaves the entries of other paths right, and
  that of \<open>p\<close> too when it no longer describes the file.\<close>

lemma entry_stored:
  assumes "roots_plain (disk u)" "canonical (disk u) p" "storage_bucket_for_virtual_path (disk u) (path_text p) = Some b"
    and "entry_ok pre u v' sig'" "v' = path_text p \<Longrightarrow> place_signature u p \<noteq> Some sig'"
  shows "entry_ok pre (u\<lparr>objects := dict_put (storage_key pre b) x (objects u)\<rparr>) v' sig'"
proof -
  obtain q b' where q: "v' = path_text q" "canonical (disk u) q" "storage_bucket_for_virtual_path (disk u) v' = Some b'"
    "snd sig' \<le> mtime_of u q"
    "place_signature u q = Some sig' \<longrightarrow> (\<exists>c. node_at (disk u) q = Some (Regular c) \<and> dict_get (objects u) (storage_key pre b') = Some c)"
    using assms(4) unfolding entry_ok_def by blast
  let ?u = "u\<lparr>objects := dict_put (storage_key pre b) x (objects u)\<rparr>"
  have t: "mtime_of ?u q = mtime_of u q" for q by (simp add: mtime_of_def)
  have s: "place_signature ?u q = place_signature u q" for q by (rule place_cong) simp_all
  have "place_signature u q = Some sig' \<longrightarrow>
      (\<exists>c. node_at (disk u) q = Some (Regular c) \<and> dict_get (objects ?u) (storage_key pre b') = Some c)"
  proof
    assume sig: "place_signature u q = Some sig'"
    have "p \<noteq> q" using assms(5) sig q(1) by blast
    then have "storage_key pre b' \<noteq> storage_key pre b"
      using storage_key_inj [OF assms(1) q(2) assms(2) _ assms(3)] q(1,3) by blast
    then show "\<exists>c. node_at (disk u) q = Some (Regular c) \<and> dict_get (objects ?u) (storage_key pre b') = Some c"
      using q(5) sig by (simp add: dict_get_put)
  qed
  then show ?thesis using q(1-4) s t unfolding entry_ok_def by auto
qed

lemma ok_stored:
  assumes "sync_ok pre u" "canonical (disk u) p" "storage_bucket_for_virtual_path (disk u) (path_text p) = Some b"
    and "\<And>sig'. dict_get (signatures u) (path_text p) = Some sig' \<Longrightarrow> place_signature u p \<noteq> Some sig'"
  shows "sync_ok pre (u\<lparr>objects := dict_put (storage_key pre b) x (objects u)\<rparr>)"
proof (rule sync_okI)
  let ?u = "u\<lparr>objects := dict_put (storage_key pre b) x (objects u)\<rparr>"
  show "sandbox_fs (disk ?u)" "storage_prefix ?u = Some pre" "dict_ok (signatures ?u)"
    using sync_okD(1-3) [OF assms(1)] by simp_all
  show "canonical_text (disk ?u) v" if "v \<in> set (pending ?u)" for v
    using that sync_okD(4) [OF assms(1)] by simp
  have plain: "roots_plain (disk u)" using sync_okD(1) [OF assms(1)] by (simp add: sandbox_fs_def)
  show "entry_ok pre ?u v sig" if "dict_get (signatures ?u) v = Some sig" for v sig
  proof (rule entry_stored [OF plain assms(2,3)])
    have e: "dict_get (signatures u) v = Some sig" using that by simp
    then show "entry_ok pre u v sig" by (rule sync_okD(5) [OF assms(1)])
    show "place_signature u p \<noteq> Some sig" if "v = path_text p" using e assms(4) that by simp
  qed
qed

lemma upload_candidate_ok:
  assumes w: "honest_world w" and ok: "sync_ok pre st" and p: "canonical (disk st) p"
    and b: "storage_bucket_for_virtual_path (disk st) (path_text p) = Some b"
    and sig: "file_signature st (path_text p) = Some sig" "dict_get (signatures st) (path_text p) \<noteq> Some sig"
    and run: "upload_candidate cfg os w (storage_key pre b) (path_text p) (path_text p) sig st = (res, st')"
  shows "sync_ok pre st' \<and> link_at (disk st') = link_at (disk st)"
proof -
  let ?v = "path_text p"
  obtain r st1 where wait: "wait_for_stable_signature cfg w ?v ?v sig st = (r, st1)" by fastforce
  note h1 = wait_honest [OF w sync_okD(1) [OF ok] sig(1) wait]
  have h2: "honest st (w AtOpen ?v st1)"
    using h1 honest_fs honest_trans w unfolding honest_world_def by blast
  have keep: "sync_ok pre (add_pending ?v a) \<and> link_at (disk (add_pending ?v a)) = link_at (disk st)"
    if "sync_ok pre a" "link_at (disk a) = link_at (disk st)" for a
  proof -
    have "canonical_text (disk a) ?v" using p canonical_links [OF that(2)] unfolding canonical_text_def by blast
    then show ?thesis using ok_add [OF that(1)] that(2) by (simp add: add_pending_def)
  qed
  show ?thesis
  proof (cases r)
    case None
    then have "st' = add_pending ?v st1" using run wait by (simp add: upload_candidate_def)
    then show ?thesis using keep [OF ok_honest [OF conjunct1 [OF h1] ok] honest_links [OF conjunct1 [OF h1]]] by simp
  next
    case (Some settled)
    then have settled: "settled = sig" and s1: "file_signature st1 ?v = Some sig" and hst1: "honest st st1"
      using h1 by simp_all
    let ?o = "w AtOpen ?v st1"
    have h12: "honest st1 ?o" using w honest_fs [OF hst1] by (simp add: honest_world_def)
    obtain ok' st2 where up: "upload os w ?v ?v (storage_key pre b) ?o = (ok', st2)" by fastforce
    have po: "canonical (disk ?o) p" using p honest_canonical [OF h2] by simp
    obtain u where u: "honest ?o u" "st2 = u \<or> (\<exists>x. st2 = u\<lparr>objects := dict_put (storage_key pre b) x (objects u)\<rparr>)"
        "ok' \<longrightarrow> (\<exists>c x. st2 = u\<lparr>objects := dict_put (storage_key pre b) x (objects u)\<rparr> \<and> node_at (disk ?o) p = Some (Regular c) \<and>
           (node_at (disk u) p = Some (Regular c) \<and> mtime_of u p = mtime_of ?o p \<longrightarrow> x = c))"
      using upload_honest [OF w honest_fs [OF h2] po up] by blast
    have hu: "honest st u" by (rule honest_trans [OF h2 u(1)])
    have oku: "sync_ok pre u" by (rule ok_honest [OF hu ok])
    have pu: "canonical (disk u) p" "storage_bucket_for_virtual_path (disk u) ?v = Some b"
      using p b honest_canonical [OF hu] honest_bucket [OF hu] by simp_all
    have stale: "place_signature u p \<noteq> Some sig'" if "dict_get (signatures u) ?v = Some sig'" for sig'
    proof
      assume pl: "place_signature u p = Some sig'"
      have e: "dict_get (signatures st) ?v = Some sig'" using that hu by (simp add: honest_def)
      obtain q where "?v = path_text q" "canonical (disk st) q" "snd sig' \<le> mtime_of st q"
        using sync_okD(5) [OF ok e] unfolding entry_ok_def by blast
      then have "snd sig' \<le> mtime_of st p" using p path_text_inj by (auto simp: canonical_def)
      then have "place_signature st p = Some sig'" using honest_same_signature [OF hu pl] by simp
      then show False using signature_place [OF p sig(1)] sig(2) e by simp
    qed
    have ok2: "sync_ok pre st2" using u(2) ok_stored [OF oku pu] stale oku by blast
    have links: "link_at (disk st2) = link_at (disk st)" using u(2) honest_links [OF hu] by auto
    show ?thesis
    proof (cases "ok' \<and> file_signature st2 ?v = Some sig")
      case False
      then have "st' = add_pending ?v st2 \<or> st' = forget ?v st2"
        using run wait Some up settled by (auto simp: upload_candidate_def split: option.splits if_splits)
      then show ?thesis using keep [OF ok2 links] ok_forget [OF ok2] links by (auto simp: forget_def discard_def)
    next
      case True
      then have st': "st' = (discard ?v st2)\<lparr>signatures := dict_put ?v sig (signatures st2)\<rparr>"
        using run wait Some up settled by (simp add: upload_candidate_def)
      obtain c x where cx: "st2 = u\<lparr>objects := dict_put (storage_key pre b) x (objects u)\<rparr>"
          "node_at (disk ?o) p = Some (Regular c)"
          "node_at (disk u) p = Some (Regular c) \<and> mtime_of u p = mtime_of ?o p \<longrightarrow> x = c"
        using u(3) True by blast
      have p2: "canonical (disk st2) p" "storage_bucket_for_virtual_path (disk st2) ?v = Some b" using pu cx(1) by simp_all
      have sig2: "place_signature st2 p = Some sig" using signature_place [OF p2(1)] True by blast
      have time2: "mtime_of st2 p = snd sig" using sig2 by (auto simp: place_signature_def split: option.splits node.splits)
      have "entry_ok pre st2 ?v sig"
      proof -
        have sigu: "place_signature u p = Some sig"
          using sig2 cx(1) place_cong [of st2 u p] by simp
        have "mtime_of st1 p = snd sig"
          using signature_place [of st1 p sig] s1 p honest_canonical [OF hst1]
          by (auto simp: place_signature_def split: option.splits node.splits)
        moreover have tu: "mtime_of u p = snd sig"
          using sigu by (auto simp: place_signature_def split: option.splits node.splits)
        ultimately have t: "mtime_of u p = mtime_of ?o p" using honest_time [OF h12, of p] honest_time [OF u(1), of p] by simp
        then have "node_at (disk u) p = Some (Regular c)" using honest_node [OF u(1) t] cx(2) by simp
        then have "x = c \<and> node_at (disk st2) p = Some (Regular c)" using cx(1,3) t by simp
        then show ?thesis
          using p2 time2 cx(1) unfolding entry_ok_def by (intro exI [of _ p] exI [of _ b]) (simp add: dict_get_put)
      qed
      then have "sync_ok pre st'"
        unfolding st' using sync_okD(3-5) [OF ok2]
        by (intro ok_update [OF ok2]) (auto simp: discard_def dict_get_put split: if_splits)
      then show ?thesis using links by (simp add: st' discard_def)
    qed
  qed
qed

lemma sync_one_ok:
  assumes w: "honest_world w" and ok: "sync_ok pre st" and v: "canonical_text (disk st) v"
    and run: "sync_one cfg os w pre v st = (res, st')"
  shows "sync_ok pre st' \<and> link_at (disk st') = link_at (disk st)"
proof -
  have step: "honest a (w pt v a)" if "sandbox_fs (disk a)" for pt a using w that by (simp add: honest_world_def)
  define st0 where "st0 = w AtBucket v st"
  define st1 where "st1 = w AtRealpath v st0"
  define st2 where "st2 = w AtIsFile v st1"
  define st3 where "st3 = w AtStat v st2"
  have h0: "honest st st0" unfolding st0_def by (rule step [OF sync_okD(1) [OF ok]])
  have h1: "honest st st1" unfolding st1_def by (rule honest_trans [OF h0 step [OF honest_fs [OF h0]]])
  have h2: "honest st st2" unfolding st2_def by (rule honest_trans [OF h1 step [OF honest_fs [OF h1]]])
  have h3: "honest st st3" unfolding st3_def by (rule honest_trans [OF h2 step [OF honest_fs [OF h2]]])
  obtain p where p: "v = path_text p" "canonical (disk st) p" using v by (auto simp: canonical_text_def)
  have full: "realpath (disk st1) v = v" using p honest_canonical [OF h1] realpath_id by simp
  have drop: "sync_ok pre (discard v a) \<and> link_at (disk (discard v a)) = link_at (disk st)"
      "sync_ok pre (forget v a) \<and> link_at (disk (forget v a)) = link_at (disk st)" if "honest st a" for a
    using ok_discard [OF ok_honest [OF that ok]] ok_forget [OF ok_honest [OF that ok]] honest_links [OF that]
    by (simp_all add: forget_def discard_def)
  note run' = run [unfolded sync_one_def, folded st0_def, unfolded Let_def, folded st1_def, folded st2_def, folded st3_def,
      unfolded full]
  show ?thesis
  proof (cases "storage_bucket_for_virtual_path (disk st0) v")
    case None
    then show ?thesis using run' drop(1) [OF h0] by simp
  next
    case (Some b)
    have b3: "storage_bucket_for_virtual_path (disk st3) (path_text p) = Some b"
      using Some p(1) honest_bucket [OF h0] honest_bucket [OF h3] by simp
    show ?thesis
    proof (cases "is_file (disk st2) v")
      case False
      then show ?thesis using run' Some drop(2) [OF h2] by simp
    next
      case isf: True
      show ?thesis
      proof (cases "file_signature st3 v")
        case None
        then show ?thesis using run' Some isf drop(2) [OF h3] by simp
      next
        case sig: (Some sig)
        show ?thesis
        proof (cases "dict_get (signatures st3) v = Some sig")
          case True
          then show ?thesis using run' Some isf sig drop(1) [OF h3] by simp
        next
          case False
          then have "upload_candidate cfg os w (storage_key pre b) (path_text p) (path_text p) sig st3 = (res, st')"
            using run' Some isf sig p(1) by simp
          then show ?thesis
            using upload_candidate_ok [OF w ok_honest [OF h3 ok] _ b3] False sig p honest_canonical [OF h3] honest_links [OF h3]
            by simp
        qed
      qed
    qed
  qed
qed

lemma sync_each_ok:
  assumes "honest_world w" "sync_ok pre st" "\<And>v. v \<in> set vs \<Longrightarrow> canonical_text (disk st) v"
    and "sync_each cfg os w pre vs st = (ready, st')"
  shows "sync_ok pre st' \<and> link_at (disk st') = link_at (disk st)"
  using assms
proof (induction vs arbitrary: st ready)
  case (Cons v vs)
  obtain res st1 where one: "sync_one cfg os w pre v st = (res, st1)" by fastforce
  obtain rest st2 where each: "sync_each cfg os w pre vs st1 = (rest, st2)" by fastforce
  have s1: "sync_ok pre st1 \<and> link_at (disk st1) = link_at (disk st)"
    using sync_one_ok [OF Cons.prems(1,2) _ one] Cons.prems(3) by simp
  have "st' = st2" using Cons.prems(4) one each by (simp split: if_splits)
  moreover have "canonical_text (disk st1) u" if "u \<in> set vs" for u
    using that Cons.prems(3) canonical_text_links [of "disk st1" "disk st" u] s1 by simp
  ultimately show ?case
    using Cons.IH [OF Cons.prems(1), of st1 rest] each s1 by simp
qed simp

section \<open>Discovery and flush\<close>

lemma fold_put_mem:
  "dict_get (fold (\<lambda>(v, sig) d. dict_put v sig d) es d) v = Some sig \<Longrightarrow> (v, sig) \<in> set es \<or> dict_get d v = Some sig"
proof (induction es arbitrary: d)
  case (Cons e es)
  then show ?case
    using Cons.IH [of "dict_put (fst e) (snd e) d"] by (cases e) (auto simp: dict_get_put split: if_splits)
qed simp

lemma scanned_canonical:
  assumes fs: "sandbox_fs (disk st)" and r: "r \<in> set typed_roots" and v: "(v, sig) \<in> set (scan_root cfg st (path_text r))"
  shows "storage_bucket_for_virtual_path (disk st) v \<noteq> None \<and>
    (\<exists>p. v = path_text p \<and> canonical (disk st) p \<and> file_signature st v = Some sig)"
proof -
  have plain: "roots_plain (disk st)" and tree: "tree_ok (disk st)" using fs by (simp_all add: sandbox_fs_def)
  have r_ok: "list_all ok_name r" using typed_roots_ok [OF r] by blast
  have rr: "realpath (disk st) (path_text r) = path_text r" by (rule plain_root [OF plain r])
  obtain p n where p: "(p, n) \<in> set (disk st)" "walked cfg (disk st) r p" "file_signature st (path_text p) = Some sig"
      "to_virtual_path (disk st) (path_text p) = Inr v" "storage_bucket_for_virtual_path (disk st) v \<noteq> None"
    using v r_ok unfolding scan_root_def Let_def rr
    by (auto split: if_splits option.splits sum.splits)
  have mem: "p \<noteq> []" "list_all ok_name p" "node_at (disk st) (butlast p) = Some Directory"
    using tree p(1) by (auto simp: tree_ok_def list_all_iff)
  have up: "canonical (disk st) (butlast p)"
    using tree_ok_canonical [OF tree mem(3)] mem(3) by (simp add: link_at_def)
  have "lstat_place (disk st) (path_text p) \<in> {None, Some p}"
    using canonical_walk [of "disk st" "[]" "butlast p" max_symlinks] up mem(1,2)
    by (auto simp: lstat_place_def split: option.splits)
  then have "link_at (disk st) p = None"
    using p(3) by (auto simp: file_signature_def link_at_def split: option.splits node.splits)
  moreover have "p = butlast p @ [last p]" "ok_name (last p)" using mem(1,2) by (simp_all add: list_all_iff)
  ultimately have can: "canonical (disk st) p" using up canonical_snoc [of "disk st" "butlast p" "last p"] by simp
  have "prefix r p" using p(2) by (simp add: walked_def) (metis take_is_prefix)
  then have "below_root p" using r mem(2) by (auto simp: below_root_def list_ex_iff)
  then have "v = path_text p" using to_virtual_canonical [OF plain _ can] p(4) by simp
  then show ?thesis using can p(3,5) by blast
qed

lemma scan_canonical:
  assumes "sandbox_fs (disk st)" "dict_get (scan_sync_file_signatures cfg st) v = Some sig"
  shows "storage_bucket_for_virtual_path (disk st) v \<noteq> None \<and>
    (\<exists>p. v = path_text p \<and> canonical (disk st) p \<and> file_signature st v = Some sig)"
proof -
  have "(v, sig) \<in> set (concat (map (scan_root cfg st) [workspace_dir, outputs_dir, uploads_dir]))"
    using fold_put_mem [OF assms(2) [unfolded scan_sync_file_signatures_def]] by (simp del: set_concat)
  then obtain d where d: "d \<in> {workspace_dir, outputs_dir, uploads_dir}" "(v, sig) \<in> set (scan_root cfg st d)" by auto
  have "d \<in> set (map path_text typed_roots)" using d(1) unfolding typed_roots_text by auto
  then obtain r where "r \<in> set typed_roots" "d = path_text r" unfolding set_map by blast
  then show ?thesis using scanned_canonical [OF assms(1)] d(2) by blast
qed

lemma kept_entries:
  assumes "dict_ok ss" "dict_get (drop n (filter P ss)) v = Some sig"
  shows "dict_get ss v = Some sig"
proof -
  have "(v, sig) \<in> set (drop n (filter P ss))" by (rule map_of_SomeD [OF assms(2)])
  then have "(v, sig) \<in> set ss" using in_set_dropD filter_is_subset by (metis subsetD)
  then show ?thesis using assms(1) by simp
qed

lemma kept_ok: "dict_ok ss \<Longrightarrow> dict_ok (drop n (filter P ss))"
  by (simp add: distinct_map_filter flip: drop_map)

lemma discover_ok:
  assumes w: "honest_world w" and ok: "sync_ok pre st"
    and run: "discover_untracked_sync_files cfg w st = (n, st')"
  shows "sync_ok pre st' \<and> link_at (disk st') = link_at (disk st)"
proof -
  have h: "honest st (w AtDiscovery [] st)" using w sync_okD(1) [OF ok] by (simp add: honest_world_def)
  note ok1 = ok_honest [OF h ok]
  have "canonical_text (disk (w AtDiscovery [] st)) v" if "(v, a, b) \<in> set (scan_sync_file_signatures cfg st)" for v a b
  proof -
    have "v \<in> set (dict_keys (scan_sync_file_signatures cfg st))" using that by force
    then obtain sig where "dict_get (scan_sync_file_signatures cfg st) v = Some sig"
      by (metis map_of_eq_None_iff list.set_map option.exhaust)
    then show ?thesis
      using scan_canonical [OF sync_okD(1) [OF ok]] canonical_text_links [OF honest_links [OF h], of v] unfolding canonical_text_def by blast
  qed
  then show ?thesis
    using run sync_okD [OF ok1] honest_links [OF h] kept_entries [OF sync_okD(3) [OF ok1]] kept_ok [OF sync_okD(3) [OF ok1]]
    unfolding discover_untracked_sync_files_def Let_def trim_synced_signature_cache_def
    by (intro conjI ok_update [OF ok1]) auto
qed

lemma requested_ok:
  assumes "sync_ok pre st" "\<And>v. v \<in> set vs \<Longrightarrow> canonical_text (disk st) v" "queue_requested vs st = (cs, st')"
  shows "sync_ok pre st' \<and> disk st' = disk st \<and> set cs \<subseteq> set vs"
  using assms
proof (induction vs arbitrary: st cs)
  case (Cons v vs)
  obtain ok st1 where q: "queue_virtual_path_for_sync v st = (ok, st1)" by fastforce
  obtain cs1 st2 where rest: "queue_requested vs st1 = (cs1, st2)" by fastforce
  have "sync_ok pre st1 \<and> disk st1 = disk st"
    using q Cons.prems(1) ok_add [OF Cons.prems(1), of v] Cons.prems(2) [of v]
    by (auto simp: queue_virtual_path_for_sync_def add_pending_def split: if_splits)
  then show ?case using Cons.IH [of st1 cs1] Cons.prems(2,3) q rest by (auto split: if_splits)
qed simp

definition request_canonical :: "fs \<Rightarrow> string list option \<Rightarrow> bool" where
  "request_canonical fs requested = (case requested of None \<Rightarrow> True | Some vs \<Rightarrow> list_all (canonical_text fs) vs)"

lemma candidates_ok:
  assumes "sync_ok pre st" "request_canonical (disk st) requested" "flush_candidates requested st = (cs, st')"
  shows "sync_ok pre st' \<and> disk st' = disk st \<and> (\<forall>v \<in> set cs. canonical_text (disk st') v)"
proof (cases requested)
  case None
  then show ?thesis using assms sync_okD(4) [OF assms(1)] by (auto simp: flush_candidates_def)
next
  case (Some vs)
  then show ?thesis
    using assms requested_ok [of pre st vs cs st'] by (auto simp: flush_candidates_def request_canonical_def list_all_iff)
qed

lemma scrub_ok: "sync_ok pre st \<Longrightarrow> sync_ok pre (scrub_disallowed_pending_sync st)"
  by (rule ok_update) (auto simp: scrub_disallowed_pending_sync_def dest: sync_okD)

lemma request_canonical_links:
  "link_at fs' = link_at fs \<Longrightarrow> request_canonical fs r \<Longrightarrow> request_canonical fs' r"
  using canonical_text_links [of fs' fs] by (auto simp: request_canonical_def list_all_iff split: option.splits)

lemma flush_ok:
  assumes w: "honest_world w" and ok: "sync_ok pre st" and req: "request_canonical (disk st) requested"
    and run: "flush_outputs cfg os w discover requested skip locked st = (ready, st')"
  shows "sync_ok pre st' \<and> link_at (disk st') = link_at (disk st)"
proof (cases "\<not> has_active_sync_session st \<or> (skip \<and> locked)")
  case True
  then show ?thesis using run ok by (auto simp: flush_outputs_def)
next
  case False
  define st1 where "st1 = w AtLock [] st"
  have h: "honest st st1" unfolding st1_def using w sync_okD(1) [OF ok] by (simp add: honest_world_def)
  note ok1 = ok_honest [OF h ok]
  have pre: "storage_prefix st1 = Some pre" "pre \<noteq> []"
    using sync_okD(2) [OF ok1] sync_okD(2) [OF ok] False by (simp_all add: has_active_sync_session_def)
  define st2 where "st2 = (if discover then snd (discover_untracked_sync_files cfg w st1) else st1)"
  have ok2: "sync_ok pre st2 \<and> link_at (disk st2) = link_at (disk st1)"
    using discover_ok [OF w ok1 surjective_pairing] ok1 by (simp add: st2_def)
  obtain cs st3 where c: "flush_candidates requested (scrub_disallowed_pending_sync st2) = (cs, st3)" by fastforce
  have "link_at (disk (scrub_disallowed_pending_sync st2)) = link_at (disk st)"
    using ok2 honest_links [OF h] by (simp add: scrub_disallowed_pending_sync_def)
  then have ok3: "sync_ok pre st3 \<and> link_at (disk st3) = link_at (disk st) \<and> (\<forall>v \<in> set cs. canonical_text (disk st3) v)"
    using candidates_ok [OF scrub_ok request_canonical_links [OF _ req] c] ok2 by metis
  have idle: "(\<not> has_active_sync_session st \<or> (skip \<and> locked)) = False" using False by simp
  have "sync_each cfg os w pre (sort cs) st3 = (ready, st')"
    using run pre(2) unfolding flush_outputs_def Let_def st1_def [symmetric] st2_def [symmetric] sync_candidate_paths_def
      idle if_False pre(1) option.case c prod.case by simp
  then show ?thesis using sync_each_ok [OF w _ _ , of pre st3 "sort cs" cfg os ready st'] ok3 by simp
qed

section \<open>An undisturbed flush\<close>

definition idle :: world where
  "idle pt v st = st"

lemma honest_idle [simp]: "honest_world idle"
  by (simp add: honest_world_def idle_def)

lemma signature_cong:
  assumes "disk st' = disk st" "mtimes st' = mtimes st"
  shows "file_signature st' v = file_signature st v"
  unfolding file_signature_def mtime_of_def assms ..

lemma sync_one_idle:
  "sync_one cfg os idle pre v st =
     (case storage_bucket_for_virtual_path (disk st) v of
        None \<Rightarrow> (False, discard v st)
      | Some b \<Rightarrow>
          (let full = realpath (disk st) v in
           if \<not> is_file (disk st) full then (False, forget v st)
           else case file_signature st full of
             None \<Rightarrow> (False, forget v st)
           | Some sig \<Rightarrow>
               (if dict_get (signatures st) v = Some sig then (True, discard v st)
                else upload_candidate cfg os idle (storage_key pre b) v full sig st)))"
  unfolding sync_one_def Let_def idle_def by (rule refl)

lemma upload_candidate_idle:
  assumes "file_signature st v = Some sig" "follow (disk st) v = Some p" "node_at (disk st) p = Some (Regular c)" "os_accepts os v"
  shows "upload_candidate cfg os idle key v v sig st =
     (True, (discard v (st\<lparr>objects := dict_put key c (objects st)\<rparr>))\<lparr>signatures := dict_put v sig (signatures st)\<rparr>)"
proof -
  have "file_signature (st\<lparr>objects := dict_put key c (objects st)\<rparr>) v = Some sig"
    using signature_cong [of "st\<lparr>objects := dict_put key c (objects st)\<rparr>" st v] assms(1) by simp
  then show ?thesis
    using assms by (simp add: upload_candidate_def wait_for_stable_signature_def upload_def idle_def)
qed

lemma signature_follow:
  assumes "canonical (disk st) p" "file_signature st (path_text p) = Some sig"
  shows "\<exists>c. follow (disk st) (path_text p) = Some p \<and> node_at (disk st) p = Some (Regular c)"
proof (cases "p = []")
  case True
  then show ?thesis using assms(2) by (simp add: file_signature_def lstat_place_def node_at_def path_text_def names_def)
next
  case False
  then obtain q n where p: "p = q @ [n]" by (cases p rule: rev_cases) auto
  have at: "lstat_place (disk st) (path_text p) = Some p"
    using assms(2) canonical_lstat [OF assms(1)] by (auto simp: file_signature_def)
  then obtain k where "walk True (disk st) max_symlinks [] q = Some (k, q)" "node_at (disk st) q = Some Directory"
    using p canonical_names [OF assms(1)] by (auto simp: lstat_place_def split: option.splits if_splits)
  moreover have "link_at (disk st) p = None" "n \<noteq> ''..''" using assms(1) p by (auto simp: canonical_snoc ok_name_def)
  ultimately have "follow (disk st) (path_text p) = Some p"
    using p canonical_names [OF assms(1)] by (simp add: follow_def walk_append walk.simps(2))
  then show ?thesis using assms(2) at by (auto simp: file_signature_def split: option.splits node.splits)
qed

definition quiet_result :: "string \<Rightarrow> sync_state \<Rightarrow> string list \<Rightarrow> sync_state \<Rightarrow> bool" where
  "quiet_result pre st vs st' =
     (disk st' = disk st \<and> mtimes st' = mtimes st \<and> set (pending st') = set (pending st) - set vs \<and>
      (\<forall>u sig. u \<notin> set vs \<and> entry_ok pre st u sig \<longrightarrow> entry_ok pre st' u sig) \<and>
      (\<forall>u \<in> set vs. storage_bucket_for_virtual_path (disk st) u \<noteq> None \<longrightarrow>
         (\<forall>sig. file_signature st u = Some sig \<longrightarrow> entry_ok pre st' u sig)))"

lemma quiet_storedD:
  "quiet_result pre st vs st' \<Longrightarrow> u \<in> set vs \<Longrightarrow> storage_bucket_for_virtual_path (disk st) u \<noteq> None \<Longrightarrow>
     file_signature st u = Some sig \<Longrightarrow> entry_ok pre st' u sig"
  unfolding quiet_result_def by blast

lemma quiet_keptD:
  "quiet_result pre st vs st' \<Longrightarrow> u \<notin> set vs \<Longrightarrow> entry_ok pre st u sig \<Longrightarrow> entry_ok pre st' u sig"
  unfolding quiet_result_def by blast

lemma quiet_same:
  assumes "disk st' = disk st" "mtimes st' = mtimes st" "objects st' = objects st" "set (pending st') = set (pending st) - {v}"
    and "\<And>sig. storage_bucket_for_virtual_path (disk st) v \<noteq> None \<Longrightarrow> file_signature st v = Some sig \<Longrightarrow> entry_ok pre st v sig"
  shows "quiet_result pre st [v] st'"
  using assms(4,5) unfolding quiet_result_def entry_cong [OF assms(1-3)] assms(1,2) by simp

lemma quiet_one:
  assumes "sync_ok pre st" "canonical_text (disk st) v" "\<And>u. os_accepts os u"
    and "sync_one cfg os idle pre v st = (res, st')"
  shows "quiet_result pre st [v] st'"
proof -
  obtain p where p: "v = path_text p" "canonical (disk st) p" using assms(2) by (auto simp: canonical_text_def)
  have full: "realpath (disk st) v = v" using p realpath_id by simp
  note run = assms(4) [unfolded sync_one_idle Let_def full]
  consider (unchanged) "st' = discard v st \<or> st' = forget v st"
      "storage_bucket_for_virtual_path (disk st) v = None \<or> file_signature st v = None \<or>
       (\<exists>sig. file_signature st v = Some sig \<and> dict_get (signatures st) v = Some sig)"
    | (uploaded) b sig where "storage_bucket_for_virtual_path (disk st) v = Some b" "file_signature st v = Some sig"
        "dict_get (signatures st) v \<noteq> Some sig"
  proof (cases "storage_bucket_for_virtual_path (disk st) v")
    case (Some b)
    have "is_file (disk st) v" if "file_signature st v = Some sig" for sig
      using signature_follow [OF p(2)] that p(1) by (auto simp: is_file_def stat_node_def)
    then show ?thesis using that run Some by (cases "file_signature st v") (auto split: if_splits)
  qed (use that run in auto)
  then show ?thesis
  proof cases
    case unchanged
    then show ?thesis using sync_okD(5) [OF assms(1)] by (intro quiet_same) (auto simp: discard_def forget_def)
  next
    case (uploaded b sig)
    obtain c where c: "follow (disk st) v = Some p" "node_at (disk st) p = Some (Regular c)"
      using signature_follow [OF p(2)] uploaded(2) p(1) by blast
    let ?st = "st\<lparr>objects := dict_put (storage_key pre b) c (objects st)\<rparr>"
    have "is_file (disk st) v" using c by (simp add: is_file_def stat_node_def)
    then have st': "st' = (discard v ?st)\<lparr>signatures := dict_put v sig (signatures st)\<rparr>"
      using run uploaded upload_candidate_idle [of st v sig p c os] c assms(3) by simp
    have same: "entry_ok pre st' u s = entry_ok pre ?st u s" for u s
      by (rule entry_cong) (simp_all add: st' discard_def)
    have place: "place_signature st p = Some sig" using signature_place [OF p(2)] uploaded(2) p(1) by simp
    then have "entry_ok pre ?st v sig"
      unfolding entry_ok_def using p uploaded(1) c(2)
      by (intro exI [of _ p] exI [of _ b]) (auto simp: place_signature_def mtime_of_def dict_get_put split: option.splits node.splits)
    moreover have "entry_ok pre ?st u s" if "u \<noteq> v" "entry_ok pre st u s" for u s
      using entry_stored [OF _ p(2) _ that(2)] uploaded(1) that(1) p(1) sync_okD(1) [OF assms(1)] by (simp add: sandbox_fs_def)
    ultimately show ?thesis using uploaded(2) unfolding quiet_result_def same by (auto simp: st' discard_def)
  qed
qed

lemma quiet_each:
  assumes "sync_ok pre st" "\<And>v. v \<in> set vs \<Longrightarrow> canonical_text (disk st) v" "\<And>u. os_accepts os u"
    and "sync_each cfg os idle pre vs st = (ready, st')"
  shows "quiet_result pre st vs st'"
  using assms
proof (induction vs arbitrary: st ready)
  case Nil
  then show ?case by (simp add: quiet_result_def)
next
  case (Cons v vs)
  obtain res st1 where one: "sync_one cfg os idle pre v st = (res, st1)" by fastforce
  obtain rest st2 where each: "sync_each cfg os idle pre vs st1 = (rest, st2)" by fastforce
  have q1: "quiet_result pre st [v] st1" using quiet_one [OF Cons.prems(1) _ Cons.prems(3) one] Cons.prems(2) by simp
  then have same: "disk st1 = disk st" "mtimes st1 = mtimes st" by (simp_all add: quiet_result_def)
  have ok1: "sync_ok pre st1" using sync_one_ok [OF honest_idle Cons.prems(1) _ one] Cons.prems(2) by simp
  have "st' = st2" using Cons.prems(4) one each by simp
  then have q2: "quiet_result pre st1 vs st'"
    using Cons.IH [OF ok1 _ Cons.prems(3), of rest] Cons.prems(2) each same by simp
  have sig: "file_signature st1 u = file_signature st u" for u by (rule signature_cong [OF same])
  show ?case
    using q1 q2 same sig unfolding quiet_result_def by (cases "v \<in> set vs") auto
qed

text \<open>The scan finds every regular file that the walk of a root reaches.\<close>

lemma canonical_signature:
  assumes "tree_ok (disk st)" "canonical (disk st) p" "p \<noteq> []" "node_at (disk st) p = Some (Regular c)"
  shows "file_signature st (path_text p) = Some (int (content_size c), mtime_of st p)"
proof -
  obtain q n where q: "p = q @ [n]" using assms(3) by (cases p rule: rev_cases) auto
  have dir: "node_at (disk st) q = Some Directory" using tree_okD [OF assms(1,4)] q by simp
  have up: "canonical (disk st) q" using assms(2) q by (simp add: canonical_snoc)
  have "follow (disk st) (path_text q) = Some q" by (rule follow_canonical(1) [OF assms(1) up dir])
  then obtain k where "walk True (disk st) max_symlinks [] q = Some (k, q)"
    by (auto simp: follow_def canonical_names [OF up])
  then have "lstat_place (disk st) (path_text p) = Some p"
    using canonical_names [OF assms(2)] q dir by (simp add: lstat_place_def)
  then show ?thesis by (simp add: file_signature_def assms(4))
qed

lemma bucket_below:
  assumes "roots_plain fs" "canonical fs p" "(ns, r) \<in> set buckets" "prefix r p"
  shows "storage_bucket_for_virtual_path fs (path_text p) \<noteq> None"
proof -
  have "is_under_root (path_text p) (path_text r)"
    using is_under_root_iff assms(2-4) buckets_ok [OF assms(3)] by (simp add: canonical_def)
  moreover have "(ns, path_text r) \<in> set (map (\<lambda>(ns, r). (ns, path_text r)) buckets)" using assms(3) by force
  ultimately have "find (\<lambda>(ns, dir). is_under_root (path_text p) dir) (map (\<lambda>(ns, r). (ns, path_text r)) buckets) \<noteq> None"
    unfolding find_None_iff by blast
  then show ?thesis
    unfolding storage_bucket_for_virtual_path_def Let_def realpath_id [OF assms(2)] sandbox_dirs_plain [OF assms(1)] buckets_text
    by (simp del: list.map)
qed

lemma fold_put_some:
  "dict_get d v \<noteq> None \<or> v \<in> fst ` set es \<Longrightarrow> dict_get (fold (\<lambda>(v, sig) d. dict_put v sig d) es d) v \<noteq> None"
proof (induction es arbitrary: d)
  case (Cons e es)
  have "dict_get (dict_put (fst e) (snd e) d) v \<noteq> None \<or> v \<in> fst ` set es"
    using Cons.prems by (auto simp: dict_get_put)
  then show ?case using Cons.IH by (cases e) simp
qed simp

lemma scan_complete:
  assumes fs: "sandbox_fs (disk st)" and r: "(ns, r) \<in> set buckets" and p: "walked cfg (disk st) r p"
    and c: "node_at (disk st) p = Some (Regular c)"
  shows "canonical (disk st) p \<and> storage_bucket_for_virtual_path (disk st) (path_text p) \<noteq> None \<and>
    dict_get (scan_sync_file_signatures cfg st) (path_text p) = Some (int (content_size c), mtime_of st p) \<and>
    file_signature st (path_text p) = Some (int (content_size c), mtime_of st p)"
proof -
  have plain: "roots_plain (disk st)" and tree: "tree_ok (disk st)" using fs by (simp_all add: sandbox_fs_def)
  have can: "canonical (disk st) p" by (rule tree_ok_canonical [OF tree c]) (simp add: link_at_def c)
  have w: "take (length r) p = r" "length r < length p" "\<And>k. k \<in> {length r..<length p} \<Longrightarrow> node_at (disk st) (take k p) = Some Directory"
    using p by (simp_all add: walked_def list_all_iff)
  have pr: "prefix r p" using w(1) by (metis take_is_prefix)
  have pne: "p \<noteq> []" and rdir: "node_at (disk st) r = Some Directory" using w(1,2) w(3) [of "length r"] by auto
  have sig: "file_signature st (path_text p) = Some (int (content_size c), mtime_of st p)"
    by (rule canonical_signature [OF tree can pne c])
  have bucket: "storage_bucket_for_virtual_path (disk st) (path_text p) \<noteq> None"
    by (rule bucket_below [OF plain can r pr])
  have r_root: "r \<in> set typed_roots" "path_text r \<in> set [workspace_dir, outputs_dir, uploads_dir]"
    using r by (auto simp: buckets_def typed_roots_def path_text_def sandbox_dirs)
  have below: "below_root p" using r_root(1) pr can by (auto simp: below_root_def list_ex_iff canonical_def)
  have rr: "realpath (disk st) (path_text r) = path_text r" by (rule plain_root [OF plain r_root(1)])
  have "canonical (disk st) r" using can pr canonical_append by (auto elim!: prefixE)
  then have dir: "path_isdir (disk st) (path_text r)"
    using follow_canonical(2) [OF tree _ rdir] by (simp add: path_isdir_def)
  have mem: "(p, Regular c) \<in> set (disk st)" using c pne by (auto simp: node_at_def dest: map_of_SomeD)
  have nm: "names (path_text r) = r" using buckets_ok [OF r] by simp
  have "(path_text p, int (content_size c), mtime_of st p) \<in> set (scan_root cfg st (path_text r))"
    unfolding scan_root_def Let_def rr nm
    using mem p sig bucket dir to_virtual_canonical [OF plain below can] by (force split: option.splits)
  then have "path_text p \<in> fst ` set (concat (map (scan_root cfg st) [workspace_dir, outputs_dir, uploads_dir]))"
    using r_root(2) by force
  then obtain s where s: "dict_get (scan_sync_file_signatures cfg st) (path_text p) = Some s"
    using fold_put_some [OF disjI2] unfolding scan_sync_file_signatures_def by (metis option.exhaust)
  then have "file_signature st (path_text p) = Some s" using scan_canonical [OF fs s] by blast
  then show ?thesis using can bucket s sig by simp
qed

section \<open>Properties\<close>

text \<open>A series of flushes: what the sandbox and the handlers do, whether the roots are scanned,
  and the paths that are asked for. What happens between two flushes happens before the
  later one takes the lock.\<close>

fun sync_run :: "sync_config \<Rightarrow> object_store \<Rightarrow> (world \<times> bool \<times> string list option) list \<Rightarrow> sync_state \<Rightarrow> sync_state" where
  "sync_run cfg os [] st = st"
| "sync_run cfg os ((w, discover, requested) # fs) st =
     sync_run cfg os fs (snd (flush_outputs cfg os w discover requested False False st))"

lemma run_ok:
  "sync_ok pre st \<Longrightarrow> (\<And>w d r. (w, d, r) \<in> set fs \<Longrightarrow> honest_world w \<and> request_canonical (disk st) r) \<Longrightarrow>
     sync_ok pre (sync_run cfg os fs st) \<and> link_at (disk (sync_run cfg os fs st)) = link_at (disk st)"
proof (induction cfg os fs st rule: sync_run.induct)
  case (2 cfg os w d r fs st)
  let ?st = "snd (flush_outputs cfg os w d r False False st)"
  have w: "honest_world w" "request_canonical (disk st) r" using 2(3) [of w d r] by simp_all
  have f: "sync_ok pre ?st \<and> link_at (disk ?st) = link_at (disk st)"
    by (rule flush_ok [OF w(1) 2(2) w(2) surjective_pairing])
  have "honest_world w' \<and> request_canonical (disk ?st) r'" if "(w', d', r') \<in> set fs" for w' d' r'
    using 2(3) [of w' d' r'] that f request_canonical_links [of "disk ?st" "disk st" r'] by simp
  then show ?case using 2(1) f by simp
qed simp

definition empty_cache :: "string \<Rightarrow> sync_state \<Rightarrow> bool" where
  "empty_cache pre st =
     (sandbox_fs (disk st) \<and> signatures st = [] \<and> storage_prefix st = Some pre \<and> list_all (canonical_text (disk st)) (pending st))"

lemma empty_cache_ok: "empty_cache pre st \<Longrightarrow> sync_ok pre st"
  by (simp add: empty_cache_def sync_ok_def)

text \<open>C33: The cache of synced signatures is right: over any series of flushes, as long as no link
  is made and every change of a file moves its modification time, a file whose signature is
  the cached one is in storage, under its own key, with exactly its current content, even
  when files change during uploads, uploads fail or tear.\<close>

theorem synced_entries_are_stored:
  assumes "empty_cache pre st" "\<And>w d r. (w, d, r) \<in> set flushes \<Longrightarrow> honest_world w \<and> request_canonical (disk st) r"
    and "st' = sync_run cfg os flushes st"
    and "dict_get (signatures st') v = Some sig" "file_signature st' v = Some sig"
  shows "\<exists>p c b. v = path_text p \<and> node_at (disk st') p = Some (Regular c) \<and>
    storage_bucket_for_virtual_path (disk st') v = Some b \<and> dict_get (objects st') (storage_key pre b) = Some c"
proof -
  have ok: "sync_ok pre st'" using run_ok [OF empty_cache_ok [OF assms(1)], of flushes cfg os] assms(2,3) by blast
  obtain p b where p: "v = path_text p" "canonical (disk st') p" "storage_bucket_for_virtual_path (disk st') v = Some b"
    "place_signature st' p = Some sig \<longrightarrow> (\<exists>c. node_at (disk st') p = Some (Regular c) \<and> dict_get (objects st') (storage_key pre b) = Some c)"
    using sync_okD(5) [OF ok assms(4)] unfolding entry_ok_def by blast
  have "place_signature st' p = Some sig" using signature_place [OF p(2)] assms(5) p(1) by simp
  then show ?thesis using p by blast
qed

definition sample_config :: sync_config where
  "sample_config = \<lparr>sc_ignore_dirs = sync_ignore_dirs_default, sc_max_entries = 100, sc_stable_check = True\<rparr>"

definition sample_sync :: sync_state where
  "sample_sync =
     \<lparr>disk = sample_fs, mtimes = [([''workspace'', ''f''], 7)], pending = [], signatures = [], objects = [],
      storage_prefix = Some ''o''\<rparr>"

definition good_store :: object_store where
  "good_store = \<lparr>os_accepts = (\<lambda>_. True), os_stored_anyway = (\<lambda>_. False), os_torn = (\<lambda>_. Utf8 [])\<rparr>"

definition down_store :: object_store where
  "down_store = \<lparr>os_accepts = (\<lambda>_. False), os_stored_anyway = (\<lambda>_. False), os_torn = (\<lambda>_. Utf8 [])\<rparr>"

lemma sample_sync_empty: "empty_cache ''o'' sample_sync"
  using sample_sandbox by (simp add: empty_cache_def sample_sync_def)

lemma synced_entries_are_stored_witness:
  defines "st \<equiv> sync_run sample_config good_store [(idle, True, None)] sample_sync"
  shows "dict_get (signatures st) ''/workspace/f'' = Some (7, 7) \<and>
    (\<exists>p c b. ''/workspace/f'' = path_text p \<and> node_at (disk st) p = Some (Regular c) \<and>
      storage_bucket_for_virtual_path (disk st) ''/workspace/f'' = Some b \<and> dict_get (objects st) (storage_key ''o'' b) = Some c)"
proof
  show cached: "dict_get (signatures st) ''/workspace/f'' = Some (7, 7)" unfolding st_def by code_simp
  have "file_signature st ''/workspace/f'' = Some (7, 7)" unfolding st_def by code_simp
  then show "\<exists>p c b. ''/workspace/f'' = path_text p \<and> node_at (disk st) p = Some (Regular c) \<and>
      storage_bucket_for_virtual_path (disk st) ''/workspace/f'' = Some b \<and> dict_get (objects st) (storage_key ''o'' b) = Some c"
    using synced_entries_are_stored [OF sample_sync_empty _ st_def [THEN meta_eq_to_obj_eq] cached] by (simp add: request_canonical_def)
qed

lemma flush_idle:
  "storage_prefix st = Some pre \<Longrightarrow> pre \<noteq> [] \<Longrightarrow>
   flush_outputs cfg os idle True None False False st =
     (let st3 = scrub_disallowed_pending_sync (snd (discover_untracked_sync_files cfg idle st))
      in sync_each cfg os idle pre (sort (pending st3)) st3)"
  by (simp add: flush_outputs_def flush_candidates_def has_active_sync_session_def sync_candidate_paths_def Let_def idle_def)

text \<open>After discovery every file that the scan found is queued or has its current signature in the cache.\<close>

lemma discovered:
  assumes "st' = snd (discover_untracked_sync_files cfg idle st)"
  shows "disk st' = disk st" "mtimes st' = mtimes st" "objects st' = objects st"
    "dict_get (scan_sync_file_signatures cfg st) v = Some sig \<Longrightarrow> v \<in> set (pending st') \<or> dict_get (signatures st) v = Some sig"
proof -
  show "disk st' = disk st" "mtimes st' = mtimes st" "objects st' = objects st"
    unfolding assms by (simp_all add: discover_untracked_sync_files_def trim_synced_signature_cache_def Let_def idle_def)
  assume s: "dict_get (scan_sync_file_signatures cfg st) v = Some sig"
  then have "v \<in> set (dict_keys (scan_sync_file_signatures cfg st))" by (metis map_of_eq_None_iff list.set_map option.distinct(1))
  then show "v \<in> set (pending st') \<or> dict_get (signatures st) v = Some sig"
    using s unfolding assms discover_untracked_sync_files_def trim_synced_signature_cache_def Let_def idle_def by auto
qed

lemma bucket_of_root:
  assumes "roots_plain fs" "canonical fs p" "(ns, r) \<in> set buckets" "prefix r p"
    and "storage_bucket_for_virtual_path fs (path_text p) = Some b"
  shows "b = (ns, py_join ''/'' (drop (length r) p))"
proof -
  obtain ns' rel where b: "b = (ns', rel)" by fastforce
  obtain r' t where r': "(ns', r') \<in> set buckets" "p = r' @ t" "rel = py_join ''/'' t"
    using bucket_shape [OF assms(1,2)] assms(5) b by blast
  then have "ns' = ns \<and> r' = r" using assms(3,4) by (auto simp: buckets_def)
  then show ?thesis using b r' by simp
qed

lemma flush_stores_all:
  assumes "sync_ok pre st" "pre \<noteq> []" "\<And>u. os_accepts os u"
    and flush: "flush_outputs cfg os idle True None False False st = (ready, st')"
  shows "pending st' = [] \<and> (\<forall>v sig. dict_get (scan_sync_file_signatures cfg st) v = Some sig \<longrightarrow> entry_ok pre st' v sig) \<and>
    disk st' = disk st \<and> mtimes st' = mtimes st"
proof -
  define st2 where "st2 = snd (discover_untracked_sync_files cfg idle st)"
  let ?st3 = "scrub_disallowed_pending_sync st2"
  note d = discovered [OF st2_def]
  have ok3: "sync_ok pre ?st3"
    using scrub_ok discover_ok [OF honest_idle assms(1) surjective_pairing] unfolding st2_def by blast
  have run: "sync_each cfg os idle pre (sort (pending ?st3)) ?st3 = (ready, st')"
    using flush flush_idle [OF sync_okD(2) [OF assms(1)] assms(2)] by (simp add: Let_def st2_def)
  have can: "canonical_text (disk ?st3) v" if "v \<in> set (sort (pending ?st3))" for v
    using that sync_okD(4) [OF ok3] by simp
  have same: "disk ?st3 = disk st" "mtimes ?st3 = mtimes st" "objects ?st3 = objects st"
    using d(1-3) by (simp_all add: scrub_disallowed_pending_sync_def)
  note q = quiet_each [OF ok3 can assms(3) run]
  have entry: "entry_ok pre st' v sig" if s: "dict_get (scan_sync_file_signatures cfg st) v = Some sig" for v sig
  proof -
    have v: "storage_bucket_for_virtual_path (disk st) v \<noteq> None" "file_signature st v = Some sig"
      using scan_canonical [OF sync_okD(1) [OF assms(1)] s] by blast+
    show ?thesis
    proof (cases "v \<in> set (pending ?st3)")
      case True
      then show ?thesis using quiet_storedD [OF q, of v sig] v same signature_cong [OF same(1,2)] by simp
    next
      case False
      then have "dict_get (signatures st) v = Some sig"
        using d(4) [OF s] v(1) d(1) by (auto simp: scrub_disallowed_pending_sync_def)
      then have "entry_ok pre ?st3 v sig" using sync_okD(5) [OF assms(1)] entry_cong [OF same] by simp
      then show ?thesis using quiet_keptD [OF q, of v sig] False by simp
    qed
  qed
  then show ?thesis using q same by (simp add: quiet_result_def)
qed

text \<open>C34: After any such history, a flush that nothing disturbs, with a store that takes every
  upload, empties the queue and leaves every regular file below a synced root, in
  directories that are not ignored, in storage under its key with its content.\<close>

theorem undisturbed_flush_stores_all:
  assumes "empty_cache pre st0" "\<And>w d q. (w, d, q) \<in> set flushes \<Longrightarrow> honest_world w \<and> request_canonical (disk st0) q"
    and "st = sync_run cfg os0 flushes st0" "pre \<noteq> []" "\<And>u. os_accepts os u"
    and "flush_outputs cfg os idle True None False False st = (ready, st')"
    and "(ns, r) \<in> set buckets" "walked cfg (disk st) r p" "node_at (disk st) p = Some (Regular c)"
  shows "pending st' = [] \<and> dict_get (objects st') (storage_key pre (ns, py_join ''/'' (drop (length r) p))) = Some c"
proof -
  have ok: "sync_ok pre st" using run_ok [OF empty_cache_ok [OF assms(1)]] assms(2,3) by blast
  note fl = flush_stores_all [OF ok assms(4-6)]
  note s = scan_complete [OF sync_okD(1) [OF ok] assms(7-9)]
  have place: "place_signature st p = Some (int (content_size c), mtime_of st p)"
    using assms(9) by (simp add: place_signature_def)
  obtain b where "storage_bucket_for_virtual_path (disk st) (path_text p) = Some b" "dict_get (objects st') (storage_key pre b) = Some c"
    using entry_content [of pre st' p] fl s place place_cong [of st' st p] assms(9) by auto
  moreover have "prefix r p" using assms(8) by (simp add: walked_def) (metis take_is_prefix)
  ultimately show ?thesis
    using s fl bucket_of_root [OF _ _ assms(7), of "disk st" p b] sync_okD(1) [OF ok] by (auto simp: sandbox_fs_def)
qed

lemma undisturbed_flush_stores_all_witness:
  defines "st \<equiv> sync_run sample_config down_store [(idle, True, None)] sample_sync"
    and "st' \<equiv> snd (flush_outputs sample_config good_store idle True None False False
      (sync_run sample_config down_store [(idle, True, None)] sample_sync))"
  shows "pending st = [''/workspace/f''] \<and> objects st = [] \<and>
    pending st' = [] \<and> dict_get (objects st') (storage_key ''o'' (''workspace'', py_join ''/'' [''f''])) = Some (Utf8 ''one two'')"
proof -
  have st: "pending st = [''/workspace/f'']" "objects st = []" unfolding st_def by code_simp+
  have flush: "flush_outputs sample_config good_store idle True None False False st =
      (fst (flush_outputs sample_config good_store idle True None False False st), st')"
    by (simp add: st'_def st_def)
  have found: "walked sample_config (disk st) [''workspace''] [''workspace'', ''f'']"
      "node_at (disk st) [''workspace'', ''f''] = Some (Regular (Utf8 ''one two''))"
    unfolding st_def by code_simp+
  have "pending st' = [] \<and> dict_get (objects st') (storage_key ''o'' (''workspace'', py_join ''/'' (drop (length [''workspace'']) [''workspace'', ''f'']))) =
      Some (Utf8 ''one two'')"
    by (rule undisturbed_flush_stores_all [OF sample_sync_empty _ st_def [THEN meta_eq_to_obj_eq] _ _ flush _ found])
      (auto simp: request_canonical_def good_store_def buckets_def)
  then show ?thesis using st by simp
qed

definition link_racer :: world where
  "link_racer pt v st =
     (if pt = AtRealpath then st\<lparr>disk := dict_put [''workspace'', ''f''] (Symlink ''/etc/passwd'') (disk st)\<rparr> else st)"

text \<open>The flush follows a link that is made between its check of a path's bucket and its
  resolution of the path: a process of the sandbox that replaces a queued file by a link
  at that moment has a file outside the synced roots, here \<open>/etc/passwd\<close>, uploaded as the
  content of the session's \<open>workspace/f\<close> and recorded as synced.\<close>

theorem flush_follows_late_link:
  "case flush_outputs sample_config good_store link_racer True None False False sample_sync of
     (ready, st) \<Rightarrow> ready = [''/workspace/f''] \<and> storage_bucket_for_virtual_path (disk sample_sync) ''/etc/passwd'' = None \<and>
       dict_get (objects st) ''o/workspace/f'' = Some (Utf8 ''root'') \<and> dict_get (signatures st) ''/workspace/f'' = Some (4, 0)"
  by code_simp

end
