(* ===== verification/GitTools.thy ===== *)
theory GitTools
  imports Complex_Main Prelude
begin

text \<open>
  The git tools of an agent (\<open>tools/git_tools.py\<close>): each builds one git command line,
  writes a credential to a temporary file where one is given, and has the sandbox manager
  run the commands. The manager is a parameter that answers each call, after any history,
  with an exception or a result. Of an audit record the command and the exit code are kept.
\<close>

section \<open>Calls of the manager\<close>

datatype manager_call =
    FileCreate string string
  | Execute string nat

datatype manager_reply =
    Raised string
  | Replied int string string

datatype git_event =
    Called manager_call manager_reply
  | Audited string int

type_synonym git_trace = "git_event list"

text \<open>\<open>env_resolve\<close> is the exception of \<open>resolve_sandbox_operation_context\<close>, if it
  raises; \<open>env_uuid\<close> is \<open>uuid4().hex\<close>; \<open>env_audit\<close> says whether there is an audit sink.\<close>

record git_env =
  env_reply :: "git_trace \<Rightarrow> manager_call \<Rightarrow> manager_reply"
  env_resolve :: "string option"
  env_uuid :: string
  env_audit :: bool

definition call :: "git_env \<Rightarrow> manager_call \<Rightarrow> git_trace \<Rightarrow> manager_reply \<times> git_trace" where
  "call env c tr = (let r = env_reply env tr c in (r, tr @ [Called c r]))"

section \<open>Strings\<close>

text \<open>\<open>shlex.quote\<close>.\<close>

definition shlex_safe :: "char \<Rightarrow> bool" where
  "shlex_safe c =
     (let n = char_code c in
      is_ascii_digit c \<or> (65 \<le> n \<and> n \<le> 90) \<or> (97 \<le> n \<and> n \<le> 122) \<or> c \<in> set ''_@%+=:,./-'')"

fun quote_inner :: "string \<Rightarrow> string" where
  "quote_inner [] = []"
| "quote_inner (c # s) =
     (if c = CHR 0x27 then [CHR 0x27, CHR 0x22, CHR 0x27, CHR 0x22, CHR 0x27] @ quote_inner s else c # quote_inner s)"

definition quote :: "string \<Rightarrow> string" where
  "quote s =
     (if s \<noteq> [] \<and> list_all shlex_safe s then s else CHR 0x27 # quote_inner s @ [CHR 0x27])"

definition int_text :: "int \<Rightarrow> string" where
  "int_text i = (if i < 0 then CHR ''-'' # decimal (nat (- i)) else decimal (nat i))"

text \<open>\<open>repr\<close> of a string of Latin-1 characters.\<close>

definition hex_digit :: "nat \<Rightarrow> char" where
  "hex_digit n = ''0123456789abcdef'' ! n"

definition repr_char :: "char \<Rightarrow> char \<Rightarrow> string" where
  "repr_char q c =
     (let n = char_code c in
      if c = q \<or> n = 92 then [CHR 0x5C, c]
      else if n = 9 then [CHR 0x5C, CHR ''t'']
      else if n = 10 then [CHR 0x5C, CHR ''n'']
      else if n = 13 then [CHR 0x5C, CHR ''r'']
      else if n < 32 \<or> (127 \<le> n \<and> n \<le> 160) \<or> n = 173 then [CHR 0x5C, CHR ''x'', hex_digit (n div 16), hex_digit (n mod 16)]
      else [c])"

definition py_repr :: "string \<Rightarrow> string" where
  "py_repr s =
     (let q = (if CHR 0x27 \<in> set s \<and> CHR 0x22 \<notin> set s then CHR 0x22 else CHR 0x27)
      in q # concat (map (repr_char q) s) @ [q])"

text \<open>\<open>base64.b64encode\<close> of the UTF-8 encoding.\<close>

definition utf8 :: "string \<Rightarrow> nat list" where
  "utf8 s = concat (map (\<lambda>c. let n = char_code c in if n < 128 then [n] else [192 + n div 64, 128 + n mod 64]) s)"

definition b64_char :: "nat \<Rightarrow> char" where
  "b64_char n = ''ABCDEFGHIJKLMNOPQRSTUVWXYZabcdefghijklmnopqrstuvwxyz0123456789+/'' ! (n mod 64)"

fun b64encode :: "nat list \<Rightarrow> string" where
  "b64encode [] = []"
| "b64encode [a] = [b64_char (a div 4), b64_char (a mod 4 * 16), CHR ''='', CHR ''='']"
| "b64encode [a, b] = [b64_char (a div 4), b64_char (a mod 4 * 16 + b div 16), b64_char (b mod 16 * 4), CHR ''='']"
| "b64encode (a # b # c # s) =
     [b64_char (a div 4), b64_char (a mod 4 * 16 + b div 16), b64_char (b mod 16 * 4 + c div 64), b64_char c] @ b64encode s"

section \<open>Credentials\<close>

definition local_op_timeout_sec :: nat where "local_op_timeout_sec = 60"
definition network_op_timeout_sec :: nat where "network_op_timeout_sec = 300"
definition clone_timeout_sec :: nat where "clone_timeout_sec = 300"

definition basic_auth_header_value :: "string \<Rightarrow> string" where
  "basic_auth_header_value token = b64encode (utf8 (''x-access-token:'' @ token))"

definition http_extra_header_gitconfig :: "string \<Rightarrow> string" where
  "http_extra_header_gitconfig header_value =
     ''[http]'' @ [CHR 0x0A, CHR 0x09] @ ''extraHeader = Authorization: Basic '' @ header_value @ [CHR 0x0A]"

definition delete_temp_credential :: "git_env \<Rightarrow> string \<Rightarrow> git_trace \<Rightarrow> git_trace" where
  "delete_temp_credential env p tr = snd (call env (Execute (''rm -f '' @ quote p) local_op_timeout_sec) tr)"

definition cred_path :: "git_env \<Rightarrow> string" where
  "cred_path env = ''/tmp/boxxkite-git-cred-'' @ env_uuid env"

definition write_temp_credential :: "git_env \<Rightarrow> string \<Rightarrow> git_trace \<Rightarrow> (string + string) \<times> git_trace" where
  "write_temp_credential env content tr =
     (let p = cred_path env in
      case call env (FileCreate p content) tr of
        (Raised e, tr1) \<Rightarrow> (Inl e, tr1)
      | (Replied _ _ _, tr1) \<Rightarrow>
          (case call env (Execute (''chmod 600 '' @ quote p) local_op_timeout_sec) tr1 of
             (Raised e, tr2) \<Rightarrow> (Inl e, tr2)
           | (Replied code out err, tr2) \<Rightarrow>
               (if code \<noteq> 0
                then (Inl (''Failed to secure credential file permissions: '' @ err), delete_temp_credential env p tr2)
                else (Inr p, tr2))))"

text \<open>A parameter that is \<open>None\<close> or empty is not given.\<close>

definition is_given :: "string option \<Rightarrow> bool" where
  "is_given x = (x \<noteq> None \<and> x \<noteq> Some [])"

definition key_content :: "string \<Rightarrow> string" where
  "key_content key = (if py_endswith key [CHR 0x0A] then key else key @ [CHR 0x0A])"

definition ssh_command :: "string \<Rightarrow> string" where
  "ssh_command p = ''ssh -i '' @ p @ '' -o IdentitiesOnly=yes -o StrictHostKeyChecking=accept-new''"

text \<open>The file, the extra configuration and the environment of a credential.\<close>

definition prepare_credential ::
    "git_env \<Rightarrow> string option \<Rightarrow> string option \<Rightarrow> git_trace \<Rightarrow> (string + string option \<times> string list \<times> string) \<times> git_trace" where
  "prepare_credential env token ssh_key tr =
     (if is_given token
      then (case write_temp_credential env (http_extra_header_gitconfig (basic_auth_header_value (the token))) tr of
              (Inl e, tr1) \<Rightarrow> (Inl e, tr1)
            | (Inr p, tr1) \<Rightarrow> (Inr (Some p, [''-c'', ''include.path='' @ p], []), tr1))
      else if is_given ssh_key
      then (case write_temp_credential env (key_content (the ssh_key)) tr of
              (Inl e, tr1) \<Rightarrow> (Inl e, tr1)
            | (Inr p, tr1) \<Rightarrow> (Inr (Some p, [], ''GIT_SSH_COMMAND='' @ quote (ssh_command p) @ '' ''), tr1))
      else (Inr (None, [], []), tr))"

section \<open>Running git\<close>

definition git_command :: "string \<Rightarrow> string list \<Rightarrow> string \<Rightarrow> string" where
  "git_command path argv env_prefix =
     py_strip (''cd '' @ quote path @ '' && '' @ env_prefix @ ''git '' @ py_join '' '' (map quote argv))"

definition run_git :: "git_env \<Rightarrow> string \<Rightarrow> string list \<Rightarrow> string \<Rightarrow> nat \<Rightarrow> git_trace \<Rightarrow> manager_reply \<times> git_trace" where
  "run_git env path argv env_prefix timeout tr = call env (Execute (git_command path argv env_prefix) timeout) tr"

text \<open>The \<open>try\<close> block with its \<open>finally\<close> of the three tools that reach a remote.\<close>

definition with_credential ::
    "git_env \<Rightarrow> string option \<Rightarrow> string option \<Rightarrow> string \<Rightarrow> string list \<Rightarrow> nat \<Rightarrow> git_trace \<Rightarrow> manager_reply \<times> git_trace" where
  "with_credential env token ssh_key path argv timeout tr =
     (case prepare_credential env token ssh_key tr of
        (Inl e, tr1) \<Rightarrow> (Raised e, tr1)
      | (Inr (cred, extra_config, env_prefix), tr1) \<Rightarrow>
          (case run_git env path (extra_config @ argv) env_prefix timeout tr1 of
             (r, tr2) \<Rightarrow> (r, case cred of None \<Rightarrow> tr2 | Some p \<Rightarrow> delete_temp_credential env p tr2)))"

definition format_result :: "string \<Rightarrow> int \<Rightarrow> string \<Rightarrow> string \<Rightarrow> string" where
  "format_result operation code out err =
     (let o1 = py_strip out; e1 = py_strip err;
          output = (if e1 \<noteq> [] then (if o1 \<noteq> [] then o1 @ [CHR 0x0A] @ e1 else e1) else o1)
      in if code \<noteq> 0
         then ''Error running git '' @ operation @ '' (exit code '' @ int_text code @ ''):'' @ [CHR 0x0A] @ output
         else if output \<noteq> [] then output
         else ''git '' @ operation @ '' completed successfully.'')"

definition record_audit :: "git_env \<Rightarrow> string \<Rightarrow> int \<Rightarrow> git_trace \<Rightarrow> git_trace" where
  "record_audit env command code tr = (if env_audit env then tr @ [Audited command code] else tr)"

definition allowed_url_prefixes :: "string list" where
  "allowed_url_prefixes = [''https://'', ''http://'', ''git@'', ''ssh://'']"

definition validate_clone_url :: "string \<Rightarrow> string option" where
  "validate_clone_url url =
     (if py_strip url = [] then Some ''Error: url is required''
      else if \<not> list_ex (py_startswith url) allowed_url_prefixes
      then Some (''Error: url must use https://, http://, ssh://, or git@ form '' @
        ''(e.g. '' @ [CHR 0x27] @ ''https://github.com/org/repo.git'' @ [CHR 0x27] @ ''). Local file:// paths '' @
        ''are not supported by this tool.'')
      else None)"

definition default_workspace :: string where "default_workspace = ''/workspace''"

definition stripped_or :: "string \<Rightarrow> string \<Rightarrow> string" where
  "stripped_or fallback s =
     (let t = py_strip (if s = [] then fallback else s) in if t = [] then fallback else t)"

text \<open>The last line of a tool: what it says of an exception or of a result.\<close>

definition answer :: "string \<Rightarrow> string \<Rightarrow> manager_reply \<Rightarrow> string" where
  "answer prefix operation r =
     (case r of Raised e \<Rightarrow> prefix @ e | Replied code out err \<Rightarrow> format_result operation code out err)"

section \<open>The tools\<close>

definition clone_argv :: "string \<Rightarrow> string \<Rightarrow> string option \<Rightarrow> int option \<Rightarrow> string list" where
  "clone_argv url path branch depth =
     [''clone'', ''--no-local''] @
     (case depth of Some d \<Rightarrow> if d \<noteq> 0 then [''--depth'', int_text d] else [] | None \<Rightarrow> []) @
     (if is_given branch then [''--branch'', the branch] else []) @ [url, path]"

definition git_clone ::
    "git_env \<Rightarrow> string \<Rightarrow> string \<Rightarrow> string option \<Rightarrow> int option \<Rightarrow> string option \<Rightarrow> string option \<Rightarrow> git_trace \<Rightarrow> string \<times> git_trace" where
  "git_clone env url path branch depth token ssh_key tr =
     (case validate_clone_url url of
        Some e \<Rightarrow> (e, tr)
      | None \<Rightarrow>
          (if py_strip path = [] then (''Error: path is required'', tr)
           else case env_resolve env of
             Some e \<Rightarrow> (''Error resolving sandbox: '' @ e, tr)
           | None \<Rightarrow>
               (case with_credential env token ssh_key ''/'' (clone_argv url (py_strip path) branch depth) clone_timeout_sec tr of
                  (r, tr') \<Rightarrow>
                    (answer ''Error cloning repository: '' ''clone'' r,
                     case r of Raised _ \<Rightarrow> tr' | Replied code _ _ \<Rightarrow>
                       record_audit env (''git clone '' @ url @ '' '' @ py_strip path) code tr'))))"

text \<open>The five local tools resolve the sandbox inside their \<open>try\<close>.\<close>

definition local_git :: "git_env \<Rightarrow> string \<Rightarrow> string \<Rightarrow> string \<Rightarrow> string list \<Rightarrow> git_trace \<Rightarrow> manager_reply \<times> string \<times> git_trace" where
  "local_git env path prefix operation argv tr =
     (case env_resolve env of
        Some e \<Rightarrow> (Raised e, prefix @ e, tr)
      | None \<Rightarrow> (case run_git env path argv [] local_op_timeout_sec tr of
          (r, tr') \<Rightarrow> (r, answer prefix operation r, tr')))"

definition git_status :: "git_env \<Rightarrow> string \<Rightarrow> git_trace \<Rightarrow> string \<times> git_trace" where
  "git_status env path tr =
     snd (local_git env (stripped_or default_workspace path) ''Error running git status: '' ''status''
       [''status'', ''--porcelain=v1'', ''--branch''] tr)"

definition add_targets :: "string list option \<Rightarrow> string list" where
  "add_targets files = (case files of Some fs \<Rightarrow> if fs \<noteq> [] then fs else [''-A''] | None \<Rightarrow> [''-A''])"

definition git_add :: "git_env \<Rightarrow> string \<Rightarrow> string list option \<Rightarrow> git_trace \<Rightarrow> string \<times> git_trace" where
  "git_add env path files tr =
     (if \<not> list_all (\<lambda>f. f \<noteq> []) (add_targets files) then (''Error: files must be a non-empty list of strings'', tr)
      else snd (local_git env (stripped_or default_workspace path) ''Error staging files: '' ''add''
        (''add'' # add_targets files) tr))"

definition commit_argv :: "string \<Rightarrow> string option \<Rightarrow> string option \<Rightarrow> string list" where
  "commit_argv message author_name author_email =
     (if is_given author_name then [''-c'', ''user.name='' @ the author_name] else []) @
     (if is_given author_email then [''-c'', ''user.email='' @ the author_email] else []) @
     [''commit'', ''-m'', message]"

definition git_commit ::
    "git_env \<Rightarrow> string \<Rightarrow> string \<Rightarrow> string option \<Rightarrow> string option \<Rightarrow> git_trace \<Rightarrow> string \<times> git_trace" where
  "git_commit env message path author_name author_email tr =
     (if py_strip message = [] then (''Error: message is required'', tr)
      else let path = stripped_or default_workspace path in
        (case local_git env path ''Error committing changes: '' ''commit'' (commit_argv message author_name author_email) tr of
           (r, text', tr') \<Rightarrow>
             (text', case r of Raised _ \<Rightarrow> tr' | Replied code _ _ \<Rightarrow>
                record_audit env (''git commit -m '' @ py_repr message @ '' (in '' @ path @ '')'') code tr')))"

definition push_argv :: "string \<Rightarrow> string option \<Rightarrow> bool \<Rightarrow> string list" where
  "push_argv remote branch force =
     ''push'' # (if force then [''--force''] else []) @ [remote] @ (if is_given branch then [the branch] else [])"

definition git_push ::
    "git_env \<Rightarrow> string \<Rightarrow> string \<Rightarrow> string option \<Rightarrow> string option \<Rightarrow> string option \<Rightarrow> bool \<Rightarrow> git_trace \<Rightarrow> string \<times> git_trace" where
  "git_push env path remote branch token ssh_key force tr =
     (let path = stripped_or default_workspace path; remote = stripped_or ''origin'' remote in
      case env_resolve env of
        Some e \<Rightarrow> (''Error resolving sandbox: '' @ e, tr)
      | None \<Rightarrow>
          (case with_credential env token ssh_key path (push_argv remote branch force) network_op_timeout_sec tr of
             (r, tr') \<Rightarrow>
               (answer ''Error pushing changes: '' ''push'' r,
                case r of Raised _ \<Rightarrow> tr' | Replied code _ _ \<Rightarrow>
                  record_audit env
                    (py_strip (''git push '' @ remote @ '' '' @ (if is_given branch then the branch else []) @
                      '' (force='' @ (if force then ''True'' else ''False'') @ '')'')) code tr')))"

definition pull_argv :: "string \<Rightarrow> string option \<Rightarrow> string list" where
  "pull_argv remote branch = [''pull'', remote] @ (if is_given branch then [the branch] else [])"

definition git_pull ::
    "git_env \<Rightarrow> string \<Rightarrow> string \<Rightarrow> string option \<Rightarrow> string option \<Rightarrow> string option \<Rightarrow> git_trace \<Rightarrow> string \<times> git_trace" where
  "git_pull env path remote branch token ssh_key tr =
     (let path = stripped_or default_workspace path; remote = stripped_or ''origin'' remote in
      case env_resolve env of
        Some e \<Rightarrow> (''Error resolving sandbox: '' @ e, tr)
      | None \<Rightarrow>
          (case with_credential env token ssh_key path (pull_argv remote branch) network_op_timeout_sec tr of
             (r, tr') \<Rightarrow> (answer ''Error pulling changes: '' ''pull'' r, tr')))"

definition branch_argv :: "string option \<Rightarrow> string list" where
  "branch_argv name = (if is_given name then [''branch'', the name] else [''branch''])"

definition git_branch :: "git_env \<Rightarrow> string \<Rightarrow> string option \<Rightarrow> git_trace \<Rightarrow> string \<times> git_trace" where
  "git_branch env path name tr =
     snd (local_git env (stripped_or default_workspace path) ''Error with git branch: '' ''branch'' (branch_argv name) tr)"

definition checkout_argv :: "string \<Rightarrow> bool \<Rightarrow> string list" where
  "checkout_argv ref create = ''checkout'' # (if create then [''-b''] else []) @ [ref]"

definition git_checkout :: "git_env \<Rightarrow> string \<Rightarrow> string \<Rightarrow> bool \<Rightarrow> git_trace \<Rightarrow> string \<times> git_trace" where
  "git_checkout env path ref create tr =
     (if py_strip ref = [] then (''Error: ref is required'', tr)
      else snd (local_git env (stripped_or default_workspace path) ''Error checking out ref: '' ''checkout''
        (checkout_argv (py_strip ref) create) tr))"

text \<open>One call of a tool.\<close>

datatype git_request =
    Clone string string "string option" "int option" "string option" "string option"
  | Status string
  | Add string "string list option"
  | Commit string string "string option" "string option"
  | Push string string "string option" "string option" "string option" bool
  | Pull string string "string option" "string option" "string option"
  | Branch string "string option"
  | Checkout string string bool

fun git_tool :: "git_env \<Rightarrow> git_request \<Rightarrow> git_trace \<Rightarrow> string \<times> git_trace" where
  "git_tool env (Clone url path branch depth token key) tr = git_clone env url path branch depth token key tr"
| "git_tool env (Status path) tr = git_status env path tr"
| "git_tool env (Add path files) tr = git_add env path files tr"
| "git_tool env (Commit message path name email) tr = git_commit env message path name email tr"
| "git_tool env (Push path remote branch token key force) tr = git_push env path remote branch token key force tr"
| "git_tool env (Pull path remote branch token key) tr = git_pull env path remote branch token key tr"
| "git_tool env (Branch path name) tr = git_branch env path name tr"
| "git_tool env (Checkout path ref create) tr = git_checkout env path ref create tr"

end
