(* ===== verification/GitSafety.thy ===== *)
theory GitSafety
  imports GitTools Shlex
begin

text \<open>
  What the git tools guarantee: the command line that runs has exactly the intended words,
  whatever the arguments hold; a credential is not in any command, audit record or answer;
  its file is removed after one git command, except when an exception hits the hardening of
  the file.
\<close>

section \<open>The words of a command line\<close>

text \<open>The lexer of \<^theory_text>\<open>Shlex\<close>, with its words told apart from runs of unquoted
  punctuation such as \<open>&&\<close>.\<close>

datatype lex_token = Word string | Operator string

fun token_text :: "lex_token \<Rightarrow> string" where
  "token_text (Word w) = w"
| "token_text (Operator w) = w"

definition emit_token :: "(string \<Rightarrow> lex_token) \<Rightarrow> string \<Rightarrow> bool \<Rightarrow> lex_token list option \<Rightarrow> lex_token list option" where
  "emit_token mk tok quoted rest = (if tok \<noteq> [] \<or> quoted then map_option (Cons (mk tok)) rest else rest)"

function lex_tokens :: "lex_state \<Rightarrow> string \<Rightarrow> lex_token list option" where
  "lex_tokens Start [] = Some []"
| "lex_tokens Start (c # s) =
     (if is_lex_space c then lex_tokens Start s
      else if c = CHR ''#'' then lex_tokens Start (skip_line s)
      else if c = CHR 0x5C then lex_tokens (InEscape [] False None) s
      else if is_lex_punct c then lex_tokens (InPunct [c]) s
      else if is_lex_quote c then lex_tokens (InQuote c []) s
      else lex_tokens (InWord [c] False) s)"
| "lex_tokens (InWord tok q) [] = emit_token Word tok q (Some [])"
| "lex_tokens (InWord tok q) (c # s) =
     (if is_lex_space c then emit_token Word tok q (lex_tokens Start s)
      else if c = CHR ''#'' then emit_token Word tok q (lex_tokens Start (skip_line s))
      else if is_lex_quote c then lex_tokens (InQuote c tok) s
      else if c = CHR 0x5C then lex_tokens (InEscape tok q None) s
      else if \<not> is_lex_punct c then lex_tokens (InWord (tok @ [c]) q) s
      else emit_token Word tok q (lex_tokens Start (c # s)))"
| "lex_tokens (InPunct tok) [] = emit_token Operator tok False (Some [])"
| "lex_tokens (InPunct tok) (c # s) =
     (if is_lex_space c then emit_token Operator tok False (lex_tokens Start s)
      else if c = CHR ''#'' then emit_token Operator tok False (lex_tokens Start (skip_line s))
      else if is_lex_punct c then lex_tokens (InPunct (tok @ [c])) s
      else emit_token Operator tok False (lex_tokens Start (c # s)))"
| "lex_tokens (InQuote d tok) [] = None"
| "lex_tokens (InQuote d tok) (c # s) =
     (if c = d then lex_tokens (InWord tok True) s
      else if c = CHR 0x5C \<and> d = CHR 0x22 then lex_tokens (InEscape tok True (Some d)) s
      else lex_tokens (InQuote d (tok @ [c])) s)"
| "lex_tokens (InEscape tok q back) [] = None"
| "lex_tokens (InEscape tok q back) (c # s) =
     (case back of
        None \<Rightarrow> lex_tokens (InWord (tok @ [c]) q) s
      | Some d \<Rightarrow> lex_tokens (InQuote d (if c \<noteq> CHR 0x5C \<and> c \<noteq> d then tok @ [CHR 0x5C, c] else tok @ [c])) s)"
  by pat_completeness auto

termination
  by (relation "measure (\<lambda>(st, s). 2 * length s + (if st = Start then 0 else 1))")
     (auto simp: less_Suc_eq_le skip_line_bounds)

lemma emit_token_text:
  "map_option (map token_text) (emit_token Word tok q r) = emit tok q (map_option (map token_text) r)"
  "map_option (map token_text) (emit_token Operator tok q r) = emit tok q (map_option (map token_text) r)"
  by (simp_all add: emit_token_def emit_def option.map_comp comp_def)

lemma lex_tokens_shlex: "map_option (map token_text) (lex_tokens st s) = shlex_go st s"
proof (induction st s rule: lex_tokens.induct)
  case (10 tok q d c s)
  then show ?case by (cases d) auto
qed (simp_all add: emit_token_text)

lemma safe_plain: "shlex_safe c \<Longrightarrow> plain_char c"
  by (auto simp: shlex_safe_def plain_char_def lex_char_defs is_ascii_digit_def Let_def)

lemma lex_word_plain: "list_all plain_char w \<Longrightarrow> lex_tokens (InWord tok q) (w @ s) = lex_tokens (InWord (tok @ w) q) s"
  by (induction w arbitrary: tok) (auto simp: plain_charD)

lemma lex_start_plain: "list_all plain_char w \<Longrightarrow> w \<noteq> [] \<Longrightarrow> lex_tokens Start (w @ s) = lex_tokens (InWord w False) s"
  by (cases w) (auto simp: plain_charD lex_word_plain [where tok = "[_]", simplified])

lemma lex_quote_inner:
  "lex_tokens (InQuote (CHR 0x27) tok) (quote_inner w @ CHR 0x27 # s) = lex_tokens (InWord (tok @ w) True) s"
  by (induction w arbitrary: tok) (auto simp: is_lex_space_def is_lex_quote_def is_lex_punct_def)

lemma lex_quoted_word:
  "\<not> (w \<noteq> [] \<and> list_all shlex_safe w) \<Longrightarrow> lex_tokens (InWord tok q) (quote w @ s) = lex_tokens (InWord (tok @ w) True) s"
  "\<not> (w \<noteq> [] \<and> list_all shlex_safe w) \<Longrightarrow> lex_tokens Start (quote w @ s) = lex_tokens (InWord w True) s"
  by (auto simp: quote_def lex_quote_inner is_lex_space_def is_lex_quote_def is_lex_punct_def)

lemma lex_quote: "\<exists>q. (w \<noteq> [] \<or> q) \<and> lex_tokens Start (quote w @ s) = lex_tokens (InWord w q) s"
proof (cases "w \<noteq> [] \<and> list_all shlex_safe w")
  case True
  then have "list_all plain_char w" using safe_plain by (auto simp: list_all_iff)
  moreover have "quote w = w" using True by (simp add: quote_def)
  ultimately show ?thesis using True lex_start_plain [of w s] by auto
next
  case False
  show ?thesis by (rule exI [of _ True]) (use lex_quoted_word(2) [OF False, of s] in simp)
qed

lemma lex_quote_space: "lex_tokens Start (quote w @ CHR '' '' # s) = map_option (Cons (Word w)) (lex_tokens Start s)"
  using lex_quote [of w "CHR '' '' # s"] by (auto simp: emit_token_def is_lex_space_def)

lemma lex_quote_end: "lex_tokens Start (quote w) = Some [Word w]"
  using lex_quote [of w "[]"] by (auto simp: emit_token_def)

lemma lex_plain_space:
  "list_all plain_char w \<Longrightarrow> w \<noteq> [] \<Longrightarrow> lex_tokens Start (w @ CHR '' '' # s) = map_option (Cons (Word w)) (lex_tokens Start s)"
  using lex_start_plain [of w "CHR '' '' # s"] by (simp add: emit_token_def is_lex_space_def)

lemma lex_join: "lex_tokens Start (py_join '' '' (map quote ws)) = Some (map Word ws)"
proof (induction ws rule: induct_list012)
  case (2 w)
  show ?case by (simp add: lex_quote_end)
next
  case (3 w v ws)
  then show ?case using lex_quote_space [of w "py_join '' '' (map quote (v # ws))"] by simp
qed simp


lemma safe_not_space: "shlex_safe c \<Longrightarrow> \<not> py_isspace c"
  by (auto simp: shlex_safe_def py_isspace_def is_ascii_digit_def Let_def)

lemma quote_last: "quote w \<noteq> [] \<and> \<not> py_isspace (last (quote w))"
  using safe_not_space by (auto simp: quote_def py_isspace_def list_all_iff)

lemma join_last: "ws \<noteq> [] \<Longrightarrow> py_join '' '' (map quote ws) \<noteq> [] \<and> \<not> py_isspace (last (py_join '' '' (map quote ws)))"
  by (induction ws rule: induct_list012) (auto simp: quote_last)

lemma strip_id: "s \<noteq> [] \<Longrightarrow> \<not> py_isspace (hd s) \<Longrightarrow> \<not> py_isspace (last s) \<Longrightarrow> py_strip s = s"
  by (simp add: py_strip_def dropWhile_eq_self_iff [THEN iffD2] hd_rev)

text \<open>The environment assignment, when there is one, holds a blank and so is quoted.\<close>

definition assignment_text :: "string option \<Rightarrow> string" where
  "assignment_text x = (case x of None \<Rightarrow> [] | Some v \<Rightarrow> ''GIT_SSH_COMMAND='' @ quote v @ '' '')"

definition assignment_words :: "string option \<Rightarrow> string list" where
  "assignment_words x = (case x of None \<Rightarrow> [] | Some v \<Rightarrow> [''GIT_SSH_COMMAND='' @ v])"

lemma lex_assignment:
  assumes "\<And>v. x = Some v \<Longrightarrow> CHR '' '' \<in> set v"
  shows "lex_tokens Start (assignment_text x @ s) = map_option (append (map Word (assignment_words x))) (lex_tokens Start s)"
proof (cases x)
  case None
  then show ?thesis by (cases "lex_tokens Start s") (simp_all add: assignment_text_def assignment_words_def)
next
  case (Some v)
  let ?name = "''GIT_SSH_COMMAND=''"
  have "\<not> shlex_safe CHR '' ''" by (simp add: shlex_safe_def is_ascii_digit_def)
  then have v: "\<not> (v \<noteq> [] \<and> list_all shlex_safe v)" using assms Some by (auto simp: list_all_iff)
  have "lex_tokens Start (?name @ quote v @ CHR '' '' # s) = lex_tokens (InWord ?name False) (quote v @ CHR '' '' # s)"
    by (rule lex_start_plain) code_simp+
  also have "\<dots> = lex_tokens (InWord (?name @ v) True) (CHR '' '' # s)" by (rule lex_quoted_word(1) [OF v])
  also have "\<dots> = map_option (Cons (Word (?name @ v))) (lex_tokens Start s)" by (simp add: emit_token_def is_lex_space_def)
  finally have "lex_tokens Start (?name @ quote v @ CHR '' '' # s) = map_option (Cons (Word (?name @ v))) (lex_tokens Start s)" .
  then show ?thesis using Some by (cases "lex_tokens Start s") (simp_all add: assignment_text_def assignment_words_def del: lex_tokens.simps)
qed

lemma lex_and: "lex_tokens Start (''&& '' @ s) = map_option (Cons (Operator ''&&'')) (lex_tokens Start s)"
  by (simp add: emit_token_def lex_char_defs)

lemma git_command_words:
  assumes "argv \<noteq> []" "\<And>v. x = Some v \<Longrightarrow> CHR '' '' \<in> set v"
  shows "lex_tokens Start (git_command path argv (assignment_text x)) =
     Some ([Word ''cd'', Word path, Operator ''&&''] @ map Word (assignment_words x @ ''git'' # argv))"
proof -
  let ?args = "py_join '' '' (map quote argv)"
  let ?rest = "''&& '' @ assignment_text x @ ''git'' @ CHR '' '' # ?args"
  have text': "git_command path argv (assignment_text x) = ''cd'' @ CHR '' '' # quote path @ CHR '' '' # ?rest"
    unfolding git_command_def using join_last [OF assms(1)] by (subst strip_id) (simp_all add: py_isspace_def)
  have cd: "lex_tokens Start (''cd'' @ CHR '' '' # s) = map_option (Cons (Word ''cd'')) (lex_tokens Start s)" for s
    by (rule lex_plain_space) code_simp+
  have git: "lex_tokens Start (''git'' @ CHR '' '' # ?args) = map_option (Cons (Word ''git'')) (lex_tokens Start ?args)"
    by (rule lex_plain_space) code_simp+
  have assignment: "lex_tokens Start (assignment_text x @ s) = map_option (append (map Word (assignment_words x))) (lex_tokens Start s)" for s
    using lex_assignment assms(2) by blast
  show ?thesis
    unfolding text' cd lex_quote_space lex_and assignment git lex_join by simp
qed

section \<open>The calls of a tool\<close>

definition chmod_call :: "git_env \<Rightarrow> manager_call" where
  "chmod_call env = Execute (''chmod 600 '' @ quote (cred_path env)) local_op_timeout_sec"

definition rm_call :: "git_env \<Rightarrow> manager_call" where
  "rm_call env = Execute (''rm -f '' @ quote (cred_path env)) local_op_timeout_sec"

text \<open>What is called for one git command with a credential, and how it ends.\<close>

inductive credential_calls :: "git_env \<Rightarrow> string \<Rightarrow> manager_call \<Rightarrow> manager_reply \<Rightarrow> git_trace \<Rightarrow> bool"
  for env content git where
  create_raised: "credential_calls env content git (Raised e) [Called (FileCreate (cred_path env) content) (Raised e)]"
| chmod_raised: "credential_calls env content git (Raised e)
    [Called (FileCreate (cred_path env) content) (Replied a b c), Called (chmod_call env) (Raised e)]"
| chmod_failed: "code \<noteq> 0 \<Longrightarrow> credential_calls env content git (Raised e)
    [Called (FileCreate (cred_path env) content) (Replied a b c), Called (chmod_call env) (Replied code out err), Called (rm_call env) r]"
| git_ran: "credential_calls env content git res
    [Called (FileCreate (cred_path env) content) (Replied a b c), Called (chmod_call env) (Replied 0 out err), Called git res,
     Called (rm_call env) r]"

lemma delete_calls:
  "delete_temp_credential env (cred_path env) tr = tr @ [Called (rm_call env) (env_reply env tr (rm_call env))]"
  by (simp add: delete_temp_credential_def call_def Let_def rm_call_def)

lemma write_calls:
  assumes "write_temp_credential env content tr = (res, tr')"
  shows "\<exists>new. tr' = tr @ new \<and>
    (case res of Inl e \<Rightarrow> (\<forall>git. credential_calls env content git (Raised e) new)
     | Inr p \<Rightarrow> p = cred_path env \<and> (\<exists>a b c out err.
         new = [Called (FileCreate p content) (Replied a b c), Called (chmod_call env) (Replied 0 out err)]))"
  using assms unfolding write_temp_credential_def Let_def chmod_call_def [symmetric]
  by (auto simp: call_def Let_def delete_calls intro: credential_calls.intros split: manager_reply.splits if_splits)

text \<open>The secret of a credential, and the words and configuration it adds.\<close>

definition credential_content :: "string option \<Rightarrow> string option \<Rightarrow> string option" where
  "credential_content token ssh_key =
     (if is_given token then Some (http_extra_header_gitconfig (basic_auth_header_value (the token)))
      else if is_given ssh_key then Some (key_content (the ssh_key)) else None)"

definition credential_assignment :: "git_env \<Rightarrow> string option \<Rightarrow> string option \<Rightarrow> string option" where
  "credential_assignment env token ssh_key =
     (if \<not> is_given token \<and> is_given ssh_key then Some (ssh_command (cred_path env)) else None)"

definition credential_config :: "git_env \<Rightarrow> string option \<Rightarrow> string list" where
  "credential_config env token = (if is_given token then [''-c'', ''include.path='' @ cred_path env] else [])"

definition git_call :: "git_env \<Rightarrow> string option \<Rightarrow> string option \<Rightarrow> string \<Rightarrow> string list \<Rightarrow> nat \<Rightarrow> manager_call" where
  "git_call env token ssh_key path argv timeout =
     Execute (git_command path (credential_config env token @ argv) (assignment_text (credential_assignment env token ssh_key))) timeout"

lemma with_credential_calls:
  assumes "with_credential env token ssh_key path argv timeout tr = (res, tr')"
  shows "\<exists>new. tr' = tr @ new \<and>
    (case credential_content token ssh_key of
       None \<Rightarrow> new = [Called (git_call env token ssh_key path argv timeout) res]
     | Some content \<Rightarrow> credential_calls env content (git_call env token ssh_key path argv timeout) res new)"
proof (cases "credential_content token ssh_key")
  case None
  then show ?thesis
    using assms by (auto simp: credential_content_def with_credential_def prepare_credential_def run_git_def call_def Let_def
        git_call_def credential_config_def credential_assignment_def assignment_text_def split: if_splits)
next
  case (Some content)
  obtain w tr1 where w: "write_temp_credential env content tr = (w, tr1)" by fastforce
  have prep: "prepare_credential env token ssh_key tr =
      (case w of Inl e \<Rightarrow> (Inl e, tr1)
       | Inr p \<Rightarrow> (Inr (Some p, credential_config env token, assignment_text (credential_assignment env token ssh_key)), tr1))"
    using write_calls [OF w] Some w
    by (auto simp: prepare_credential_def credential_content_def credential_config_def credential_assignment_def assignment_text_def
        split: if_splits sum.splits)
  obtain new where new: "tr1 = tr @ new"
      "case w of Inl e \<Rightarrow> (\<forall>git. credential_calls env content git (Raised e) new)
       | Inr p \<Rightarrow> p = cred_path env \<and> (\<exists>a b c out err.
           new = [Called (FileCreate p content) (Replied a b c), Called (chmod_call env) (Replied 0 out err)])"
    using write_calls [OF w] by blast
  show ?thesis
  proof (cases w)
    case (Inl e)
    then show ?thesis using assms prep new Some by (auto simp: with_credential_def)
  next
    case (Inr p)
    then show ?thesis
      using assms prep new Some
      by (auto simp: with_credential_def run_git_def call_def delete_calls Let_def git_call_def intro: git_ran)
  qed
qed


text \<open>The directory, the words after \<open>git\<close>, the token, the key and the timeout of a request.\<close>

fun request_spec :: "git_request \<Rightarrow> string \<times> string list \<times> string option \<times> string option \<times> nat" where
  "request_spec (Clone url path branch depth token key) =
     (''/'', clone_argv url (py_strip path) branch depth, token, key, clone_timeout_sec)"
| "request_spec (Status path) =
     (stripped_or default_workspace path, [''status'', ''--porcelain=v1'', ''--branch''], None, None, local_op_timeout_sec)"
| "request_spec (Add path targets) =
     (stripped_or default_workspace path, ''add'' # add_targets targets, None, None, local_op_timeout_sec)"
| "request_spec (Commit message path name email) =
     (stripped_or default_workspace path, commit_argv message name email, None, None, local_op_timeout_sec)"
| "request_spec (Push path remote branch token key force) =
     (stripped_or default_workspace path, push_argv (stripped_or ''origin'' remote) branch force, token, key, network_op_timeout_sec)"
| "request_spec (Pull path remote branch token key) =
     (stripped_or default_workspace path, pull_argv (stripped_or ''origin'' remote) branch, token, key, network_op_timeout_sec)"
| "request_spec (Branch path name) =
     (stripped_or default_workspace path, branch_argv name, None, None, local_op_timeout_sec)"
| "request_spec (Checkout path ref create) =
     (stripped_or default_workspace path, checkout_argv (py_strip ref) create, None, None, local_op_timeout_sec)"

text \<open>What a tool adds to the trace: nothing, or one git command with its credential, and
  at most one audit record.\<close>

definition tool_calls :: "git_env \<Rightarrow> git_request \<Rightarrow> git_trace \<Rightarrow> bool" where
  "tool_calls env req body =
     (case request_spec req of (path, argv, token, key, t) \<Rightarrow>
        body = [] \<or> (\<exists>r. case credential_content token key of
          None \<Rightarrow> body = [Called (git_call env token key path argv t) r]
        | Some content \<Rightarrow> credential_calls env content (git_call env token key path argv t) r body))"

definition tool_trace :: "git_env \<Rightarrow> git_request \<Rightarrow> git_trace \<Rightarrow> git_trace \<Rightarrow> bool" where
  "tool_trace env req tr tr' =
     (\<exists>body audits. tr' = tr @ body @ audits \<and> tool_calls env req body \<and> (audits = [] \<or> (\<exists>c k. audits = [Audited c k])))"

lemma trace_none: "tool_trace env req tr tr"
  by (auto simp: tool_trace_def tool_calls_def)

lemma trace_audit: "tool_calls env req body \<Longrightarrow> tool_trace env req tr (record_audit env c k (tr @ body))"
  by (auto simp: tool_trace_def record_audit_def)

lemma trace_calls: "tool_calls env req body \<Longrightarrow> tool_trace env req tr (tr @ body)"
  by (auto simp: tool_trace_def)

lemma local_calls:
  assumes "request_spec req = (path, argv, None, None, local_op_timeout_sec)" "local_git env path prefix operation argv tr = (r, s, tr')"
  shows "\<exists>body. tr' = tr @ body \<and> tool_calls env req body"
  using assms by (auto simp: local_git_def run_git_def call_def Let_def tool_calls_def credential_content_def is_given_def git_call_def
      credential_config_def credential_assignment_def assignment_text_def split: option.splits)

lemma network_calls:
  assumes "request_spec req = (path, argv, token, key, t)" "with_credential env token key path argv t tr = (r, tr')"
  shows "\<exists>body. tr' = tr @ body \<and> tool_calls env req body"
  using with_credential_calls [OF assms(2)] assms(1) by (auto simp: tool_calls_def split: option.splits)

lemma snd_local:
  "request_spec req = (path, argv, None, None, local_op_timeout_sec) \<Longrightarrow>
     tool_trace env req tr (snd (snd (local_git env path prefix operation argv tr)))"
  using local_calls [of req path argv env prefix operation tr] trace_calls
  by (cases "local_git env path prefix operation argv tr") force

lemma git_tool_trace: "tool_trace env req tr (snd (git_tool env req tr))"
proof (cases req)
  case (Clone url path branch depth token key)
  obtain r tr1 where w: "with_credential env token key ''/'' (clone_argv url (py_strip path) branch depth) clone_timeout_sec tr = (r, tr1)"
    by fastforce
  obtain body where "tr1 = tr @ body" "tool_calls env req body" using network_calls [OF _ w, of req] Clone by auto
  then show ?thesis using Clone w trace_none trace_calls trace_audit
    by (auto simp: git_clone_def split: option.splits manager_reply.splits)
next
  case (Commit message path name email)
  obtain r s tr1 where l: "local_git env (stripped_or default_workspace path) ''Error committing changes: '' ''commit''
      (commit_argv message name email) tr = (r, s, tr1)"
    using prod_cases3 by blast
  obtain body where "tr1 = tr @ body" "tool_calls env req body" using local_calls [OF _ l, of req] Commit by auto
  then show ?thesis using Commit l trace_none trace_calls trace_audit
    by (auto simp: git_commit_def Let_def split: manager_reply.splits)
next
  case (Push path remote branch token key force)
  obtain r tr1 where w: "with_credential env token key (stripped_or default_workspace path)
      (push_argv (stripped_or ''origin'' remote) branch force) network_op_timeout_sec tr = (r, tr1)"
    by fastforce
  obtain body where "tr1 = tr @ body" "tool_calls env req body" using network_calls [OF _ w, of req] Push by auto
  then show ?thesis using Push w trace_none trace_calls trace_audit
    by (auto simp: git_push_def Let_def split: option.splits manager_reply.splits)
next
  case (Pull path remote branch token key)
  obtain r tr1 where w: "with_credential env token key (stripped_or default_workspace path)
      (pull_argv (stripped_or ''origin'' remote) branch) network_op_timeout_sec tr = (r, tr1)"
    by fastforce
  obtain body where "tr1 = tr @ body" "tool_calls env req body" using network_calls [OF _ w, of req] Pull by auto
  then show ?thesis using Pull w trace_none trace_calls
    by (auto simp: git_pull_def Let_def split: option.splits)
qed (use trace_none snd_local in \<open>auto simp: git_status_def git_add_def git_branch_def git_checkout_def\<close>)


section \<open>Confidentiality\<close>

text \<open>What is seen of a trace by one who does not see the content of the files created.\<close>

fun hide_call :: "manager_call \<Rightarrow> manager_call" where
  "hide_call (FileCreate p c) = FileCreate p []"
| "hide_call (Execute c t) = Execute c t"

fun hide :: "git_event \<Rightarrow> git_event" where
  "hide (Called c r) = Called (hide_call c) r"
| "hide (Audited c k) = Audited c k"

text \<open>The manager's answers do not depend on that content either.\<close>

definition blind :: "git_env \<Rightarrow> bool" where
  "blind env = (\<forall>tr tr' c c'. map hide tr = map hide tr' \<and> hide_call c = hide_call c' \<longrightarrow> env_reply env tr c = env_reply env tr' c')"

definition alike :: "'a \<times> git_trace \<Rightarrow> 'a \<times> git_trace \<Rightarrow> bool" where
  "alike x y = (fst x = fst y \<and> map hide (snd x) = map hide (snd y))"

lemma alikeE:
  assumes "alike x y" obtains r tr tr' where "x = (r, tr)" "y = (r, tr')" "map hide tr = map hide tr'"
  using assms by (cases x; cases y) (auto simp: alike_def)

lemma alike_pair [simp]: "alike (r, tr) (r', tr') \<longleftrightarrow> r = r' \<and> map hide tr = map hide tr'"
  by (simp add: alike_def)

lemma alike_refl [simp]: "alike x x"
  by (simp add: alike_def)

lemma call_alike:
  assumes "blind env" "map hide tr = map hide tr'" "hide_call c = hide_call c'"
  shows "alike (call env c tr) (call env c' tr')"
proof -
  have "env_reply env tr c = env_reply env tr' c'" using assms unfolding blind_def by blast
  then show ?thesis using assms by (simp add: call_def Let_def)
qed

lemma delete_alike:
  "blind env \<Longrightarrow> map hide tr = map hide tr' \<Longrightarrow>
     map hide (delete_temp_credential env p tr) = map hide (delete_temp_credential env p tr')"
  using call_alike [of env tr tr'] by (force simp: delete_temp_credential_def alike_def)

lemma write_alike:
  assumes b: "blind env" and t: "map hide tr = map hide tr'"
  shows "alike (write_temp_credential env c tr) (write_temp_credential env c' tr')"
proof -
  have "alike (call env (FileCreate (cred_path env) c) tr) (call env (FileCreate (cred_path env) c') tr')"
    by (rule call_alike [OF b t]) simp
  then obtain r u u' where u: "call env (FileCreate (cred_path env) c) tr = (r, u)"
      "call env (FileCreate (cred_path env) c') tr' = (r, u')" "map hide u = map hide u'"
    by (rule alikeE)
  have "alike (call env (chmod_call env) u) (call env (chmod_call env) u')" by (rule call_alike [OF b u(3)]) simp
  then obtain r2 v v' where "call env (chmod_call env) u = (r2, v)" "call env (chmod_call env) u' = (r2, v')" "map hide v = map hide v'"
    by (rule alikeE)
  then show ?thesis
    using u delete_alike [OF b, of v v' "cred_path env"] unfolding write_temp_credential_def Let_def chmod_call_def [symmetric]
    by (auto split: manager_reply.splits)
qed

lemma with_credential_alike:
  assumes b: "blind env" and t: "map hide tr = map hide tr'"
    and same: "is_given token = is_given token'" "is_given key = is_given key'"
  shows "alike (with_credential env token key path argv t tr) (with_credential env token' key' path argv t tr')"
proof -
  note w = write_alike [OF b t]
  let ?header = "\<lambda>x. http_extra_header_gitconfig (basic_auth_header_value (the x))"
  obtain r1 v1 v1' where w1: "write_temp_credential env (?header token) tr = (r1, v1)"
      "write_temp_credential env (?header token') tr' = (r1, v1')" "map hide v1 = map hide v1'"
    using w by (rule alikeE)
  obtain r2 v2 v2' where w2: "write_temp_credential env (key_content (the key)) tr = (r2, v2)"
      "write_temp_credential env (key_content (the key')) tr' = (r2, v2')" "map hide v2 = map hide v2'"
    using w by (rule alikeE)
  have "alike (prepare_credential env token key tr) (prepare_credential env token' key' tr')"
    using same t w1 w2 by (cases "is_given token"; cases "is_given key") (simp_all add: prepare_credential_def split: sum.splits)
  then obtain r u u' where u: "prepare_credential env token key tr = (r, u)" "prepare_credential env token' key' tr' = (r, u')"
      "map hide u = map hide u'"
    by (rule alikeE)
  show ?thesis
  proof (cases r)
    case (Inl e)
    then show ?thesis using u by (simp add: with_credential_def)
  next
    case (Inr x)
    then obtain cred cfg pre where x: "x = (cred, cfg, pre)" by (cases x)
    have "alike (run_git env path (cfg @ argv) pre t u) (run_git env path (cfg @ argv) pre t u')"
      unfolding run_git_def by (rule call_alike [OF b u(3)]) simp
    then obtain q v v' where "run_git env path (cfg @ argv) pre t u = (q, v)" "run_git env path (cfg @ argv) pre t u' = (q, v')"
        "map hide v = map hide v'"
      by (rule alikeE)
    then show ?thesis using u Inr x delete_alike [OF b, of v v'] by (cases cred) (simp_all add: with_credential_def)
  qed
qed

lemma record_alike: "map hide tr = map hide tr' \<Longrightarrow> map hide (record_audit env c k tr) = map hide (record_audit env c k tr')"
  by (simp add: record_audit_def)

text \<open>The same request with another token, or another key where no token is given.\<close>

fun replace_secret :: "string \<Rightarrow> git_request \<Rightarrow> git_request" where
  "replace_secret s (Clone url path branch depth token key) =
     (if is_given token then Clone url path branch depth (Some s) key
      else if is_given key then Clone url path branch depth token (Some s) else Clone url path branch depth token key)"
| "replace_secret s (Push path remote branch token key force) =
     (if is_given token then Push path remote branch (Some s) key force
      else if is_given key then Push path remote branch token (Some s) force else Push path remote branch token key force)"
| "replace_secret s (Pull path remote branch token key) =
     (if is_given token then Pull path remote branch (Some s) key
      else if is_given key then Pull path remote branch token (Some s) else Pull path remote branch token key)"
| "replace_secret s req = req"

lemma clone_alike:
  assumes "blind env" "map hide tr = map hide tr'" "is_given token = is_given token'" "is_given key = is_given key'"
  shows "alike (git_clone env url path branch depth token key tr) (git_clone env url path branch depth token' key' tr')"
proof -
  obtain r u u' where
    "with_credential env token key ''/'' (clone_argv url (py_strip path) branch depth) clone_timeout_sec tr = (r, u)"
    "with_credential env token' key' ''/'' (clone_argv url (py_strip path) branch depth) clone_timeout_sec tr' = (r, u')"
    "map hide u = map hide u'"
    using with_credential_alike [OF assms] by (rule alikeE)
  then show ?thesis using assms(2) record_alike [of u u'] by (simp add: git_clone_def split: option.splits manager_reply.splits)
qed

lemma push_alike:
  assumes "blind env" "map hide tr = map hide tr'" "is_given token = is_given token'" "is_given key = is_given key'"
  shows "alike (git_push env path remote branch token key force tr) (git_push env path remote branch token' key' force tr')"
proof -
  obtain r u u' where
    "with_credential env token key (stripped_or default_workspace path) (push_argv (stripped_or ''origin'' remote) branch force)
       network_op_timeout_sec tr = (r, u)"
    "with_credential env token' key' (stripped_or default_workspace path) (push_argv (stripped_or ''origin'' remote) branch force)
       network_op_timeout_sec tr' = (r, u')"
    "map hide u = map hide u'"
    using with_credential_alike [OF assms] by (rule alikeE)
  then show ?thesis
    using assms(2) record_alike [of u u']
    by (cases "env_resolve env"; cases r) (simp_all add: git_push_def Let_def split del: if_split)
qed

lemma pull_alike:
  assumes "blind env" "map hide tr = map hide tr'" "is_given token = is_given token'" "is_given key = is_given key'"
  shows "alike (git_pull env path remote branch token key tr) (git_pull env path remote branch token' key' tr')"
proof -
  obtain r u u' where
    "with_credential env token key (stripped_or default_workspace path) (pull_argv (stripped_or ''origin'' remote) branch)
       network_op_timeout_sec tr = (r, u)"
    "with_credential env token' key' (stripped_or default_workspace path) (pull_argv (stripped_or ''origin'' remote) branch)
       network_op_timeout_sec tr' = (r, u')"
    "map hide u = map hide u'"
    using with_credential_alike [OF assms] by (rule alikeE)
  then show ?thesis using assms(2) by (simp add: git_pull_def Let_def split: option.splits)
qed

section \<open>Properties\<close>

definition intended_words :: "git_env \<Rightarrow> git_request \<Rightarrow> lex_token list" where
  "intended_words env req =
     (case request_spec req of (path, argv, token, key, t) \<Rightarrow>
        [Word ''cd'', Word path, Operator ''&&''] @
        map Word (assignment_words (credential_assignment env token key) @ ''git'' # credential_config env token @ argv))"

lemma git_call_words:
  assumes "request_spec req = (path, argv, token, key, t)" "git_call env token key path argv t = Execute cmd t'"
  shows "lex_tokens Start cmd = Some (intended_words env req)"
proof -
  have "argv \<noteq> []"
    using assms(1) by (cases req) (auto simp: clone_argv_def commit_argv_def push_argv_def pull_argv_def branch_argv_def checkout_argv_def split: if_splits)
  moreover have "CHR '' '' \<in> set v" if "credential_assignment env token key = Some v" for v
    using that by (auto simp: credential_assignment_def ssh_command_def split: if_splits)
  ultimately show ?thesis
    using assms git_command_words [of "credential_config env token @ argv" "credential_assignment env token key" path]
    by (auto simp: git_call_def intended_words_def)
qed

lemma housekeeping_words:
  "chmod_call env = Execute cmd t \<Longrightarrow> lex_tokens Start cmd = Some (map Word [''chmod'', ''600'', cred_path env])"
  "rm_call env = Execute cmd t \<Longrightarrow> lex_tokens Start cmd = Some (map Word [''rm'', ''-f'', cred_path env])"
proof -
  have plain: "lex_tokens Start (''chmod'' @ CHR '' '' # s) = map_option (Cons (Word ''chmod'')) (lex_tokens Start s)"
      "lex_tokens Start (''600'' @ CHR '' '' # s) = map_option (Cons (Word ''600'')) (lex_tokens Start s)"
      "lex_tokens Start (''rm'' @ CHR '' '' # s) = map_option (Cons (Word ''rm'')) (lex_tokens Start s)"
      "lex_tokens Start (''-f'' @ CHR '' '' # s) = map_option (Cons (Word ''-f'')) (lex_tokens Start s)" for s
    by (rule lex_plain_space; code_simp)+
  have texts: "''chmod 600 '' @ q = ''chmod'' @ CHR '' '' # ''600'' @ CHR '' '' # q"
      "''rm -f '' @ q = ''rm'' @ CHR '' '' # ''-f'' @ CHR '' '' # q" for q
    by simp_all
  show "chmod_call env = Execute cmd t \<Longrightarrow> lex_tokens Start cmd = Some (map Word [''chmod'', ''600'', cred_path env])"
    unfolding chmod_call_def texts manager_call.inject by (elim conjE) (erule subst, simp only: plain lex_quote_end, simp)
  show "rm_call env = Execute cmd t \<Longrightarrow> lex_tokens Start cmd = Some (map Word [''rm'', ''-f'', cred_path env])"
    unfolding rm_call_def texts manager_call.inject by (elim conjE) (erule subst, simp only: plain lex_quote_end, simp)
qed

lemma credential_calls_executed:
  "credential_calls env content git r body \<Longrightarrow> Called (Execute cmd t) q \<in> set body \<Longrightarrow>
     Execute cmd t = git \<or> Execute cmd t = chmod_call env \<or> Execute cmd t = rm_call env"
  by (cases rule: credential_calls.cases) auto

definition calm_env :: git_env where
  "calm_env = \<lparr>env_reply = (\<lambda>tr c. Replied 0 ''ok'' []), env_resolve = None, env_uuid = ''ab12'', env_audit = True\<rparr>"

lemma calm_blind: "blind calm_env"
  by (simp add: blind_def calm_env_def)

definition sample_push :: git_request where
  "sample_push = Push ''/w x'' ''o && rm -rf /'' (Some ''main'') (Some ''tok'') None False"

text \<open>C35: Whatever an agent passes to a git tool and whatever the manager answers, every command
  line that is run is, read with the quoting rules of \<open>shlex\<close>, exactly \<open>cd <directory> &&\<close>,
  at most the one assignment of \<open>GIT_SSH_COMMAND\<close>, and \<open>git\<close> with the intended arguments,
  one word each; or the \<open>chmod\<close> or \<open>rm\<close> of the credential file. No argument adds a word or
  an operator.\<close>

theorem git_commands_as_intended:
  assumes "git_tool env req tr = (res, tr')"
  shows "\<exists>new. tr' = tr @ new \<and> (\<forall>cmd t r. Called (Execute cmd t) r \<in> set new \<longrightarrow>
    lex_tokens Start cmd \<in> {Some (intended_words env req), Some (map Word [''chmod'', ''600'', cred_path env]),
      Some (map Word [''rm'', ''-f'', cred_path env])})"
proof -
  obtain body audits where new: "tr' = tr @ body @ audits" "tool_calls env req body" "audits = [] \<or> (\<exists>c k. audits = [Audited c k])"
    using git_tool_trace [of env req tr] assms by (auto simp: tool_trace_def)
  obtain path argv token key t where spec: "request_spec req = (path, argv, token, key, t)" by (cases "request_spec req")
  have "lex_tokens Start cmd \<in> {Some (intended_words env req), Some (map Word [''chmod'', ''600'', cred_path env]),
      Some (map Word [''rm'', ''-f'', cred_path env])}" if "Called (Execute cmd t') r \<in> set body" for cmd t' r
  proof -
    have "Execute cmd t' = git_call env token key path argv t \<or> Execute cmd t' = chmod_call env \<or> Execute cmd t' = rm_call env"
      using new(2) that spec by (auto simp: tool_calls_def split: option.splits dest: credential_calls_executed)
    then show ?thesis using git_call_words [OF spec, of env cmd t'] housekeeping_words [of env cmd t'] by auto
  qed
  then show ?thesis using new by (intro exI [of _ "body @ audits"]) auto
qed

lemma git_commands_as_intended_witness:
  "\<exists>cmd t r. Called (Execute cmd t) r \<in> set (snd (git_tool calm_env sample_push [])) \<and>
     lex_tokens Start cmd \<in> {Some (intended_words calm_env sample_push), Some (map Word [''chmod'', ''600'', cred_path calm_env]),
       Some (map Word [''rm'', ''-f'', cred_path calm_env])}"
proof -
  obtain new where new: "snd (git_tool calm_env sample_push []) = [] @ new"
      "\<And>cmd t r. Called (Execute cmd t) r \<in> set new \<Longrightarrow> lex_tokens Start cmd \<in> {Some (intended_words calm_env sample_push),
        Some (map Word [''chmod'', ''600'', cred_path calm_env]), Some (map Word [''rm'', ''-f'', cred_path calm_env])}"
    using git_commands_as_intended [of calm_env sample_push "[]" "fst (git_tool calm_env sample_push [])"
        "snd (git_tool calm_env sample_push [])"] by force
  have "list_ex (\<lambda>e. case e of Called (Execute cmd t) r \<Rightarrow> True | _ \<Rightarrow> False) (snd (git_tool calm_env sample_push []))"
    by code_simp
  then obtain e where e: "e \<in> set (snd (git_tool calm_env sample_push []))"
      "case e of Called (Execute cmd t) r \<Rightarrow> True | _ \<Rightarrow> False"
    unfolding list_ex_iff by blast
  obtain c r where c: "e = Called c r" using e(2) by (cases e) auto
  obtain cmd t where "c = Execute cmd t" using e(2) c by (cases c) auto
  then show ?thesis using new e(1) c by auto
qed

text \<open>C36: A credential file that was made is removed: if the \<open>chmod\<close> of it was answered, the
  last call is its \<open>rm\<close>, whether the \<open>chmod\<close> and git succeeded, failed or raised, and git
  ran at most once.\<close>

theorem credential_removed:
  assumes "git_tool env req [] = (res, tr)" "Called (FileCreate p c) (Replied i out err) \<in> set tr"
    and "\<And>e. Called (chmod_call env) (Raised e) \<notin> set tr"
  shows "p = cred_path env \<and>
    (\<exists>r. last (filter (\<lambda>e. case e of Called _ _ \<Rightarrow> True | _ \<Rightarrow> False) tr) = Called (rm_call env) r) \<and>
    length (filter (\<lambda>e. case e of Called (Execute cmd _) _ \<Rightarrow> lex_tokens Start cmd = Some (intended_words env req) | _ \<Rightarrow> False) tr) \<le> 1"
proof -
  obtain body audits where new: "tr = body @ audits" "tool_calls env req body" "audits = [] \<or> (\<exists>c k. audits = [Audited c k])"
    using git_tool_trace [of env req "[]"] assms(1) by (auto simp: tool_trace_def)
  obtain path argv token key t where spec: "request_spec req = (path, argv, token, key, t)" by (cases "request_spec req")
  obtain content r where calls: "credential_calls env content (git_call env token key path argv t) r body"
    using new assms(2) spec by (auto simp: tool_calls_def git_call_def split: option.splits)
  have words: "\<And>cmd t. chmod_call env = Execute cmd t \<Longrightarrow> lex_tokens Start cmd \<noteq> Some (intended_words env req)"
      "\<And>cmd t. rm_call env = Execute cmd t \<Longrightarrow> lex_tokens Start cmd \<noteq> Some (intended_words env req)"
    using housekeeping_words [of env] spec by (auto simp: intended_words_def)
  obtain x y z where calls_are: "chmod_call env = Execute x local_op_timeout_sec" "rm_call env = Execute y local_op_timeout_sec"
      "git_call env token key path argv t = Execute z t"
    by (simp add: chmod_call_def rm_call_def git_call_def)
  from calls show ?thesis
    by cases (use new assms(2,3) words calls_are in \<open>auto split: git_event.splits manager_call.splits\<close>)
qed

lemma credential_removed_witness:
  defines "tr \<equiv> snd (git_tool calm_env sample_push [])"
  shows "length tr = 5 \<and>
    (\<exists>r. last (filter (\<lambda>e. case e of Called _ _ \<Rightarrow> True | _ \<Rightarrow> False) tr) = Called (rm_call calm_env) r) \<and>
    length (filter (\<lambda>e. case e of Called (Execute cmd _) _ \<Rightarrow> lex_tokens Start cmd = Some (intended_words calm_env sample_push) | _ \<Rightarrow> False) tr) \<le> 1"
proof -
  have run: "git_tool calm_env sample_push [] = (fst (git_tool calm_env sample_push []), tr)" by (simp add: tr_def)
  have file_made: "Called (FileCreate (cred_path calm_env) (http_extra_header_gitconfig (basic_auth_header_value ''tok''))) (Replied 0 ''ok'' []) \<in> set tr"
    unfolding tr_def by code_simp
  have "list_all (\<lambda>e. case e of Called c (Raised _) \<Rightarrow> False | _ \<Rightarrow> True) tr" unfolding tr_def by code_simp
  then have "Called (chmod_call calm_env) (Raised e) \<notin> set tr" for e by (auto simp: list_all_iff)
  moreover have "length tr = 5" unfolding tr_def by code_simp
  ultimately show ?thesis using credential_removed [OF run file_made] by blast
qed

text \<open>C37: No token and no key reaches a command line, an audit record or the answer to the agent:
  two calls of a tool that differ only in the secret give the same answer and, but for the
  content of the credential file, the same calls and audit records, for any manager whose
  answers do not depend on that content.\<close>

theorem secrets_stay_in_file:
  assumes "blind env" "s \<noteq> []" "git_tool env req [] = (res, tr)" "git_tool env (replace_secret s req) [] = (res', tr')"
  shows "res' = res \<and> map hide tr' = map hide tr"
proof -
  have given: "is_given (Some s)" using assms(2) by (simp add: is_given_def)
  have "alike (git_tool env (replace_secret s req) []) (git_tool env req [])"
    using given
    by (cases req) (auto intro!: clone_alike [OF assms(1)] push_alike [OF assms(1)] pull_alike [OF assms(1)])
  then show ?thesis using assms(3,4) by simp
qed

lemma secrets_stay_in_file_witness:
  "fst (git_tool calm_env (replace_secret ''other'' sample_push) []) = fst (git_tool calm_env sample_push []) \<and>
   map hide (snd (git_tool calm_env (replace_secret ''other'' sample_push) [])) = map hide (snd (git_tool calm_env sample_push []))"
  by (rule secrets_stay_in_file [OF calm_blind _ surjective_pairing surjective_pairing]) simp

definition chmod_raises :: git_env where
  "chmod_raises =
     \<lparr>env_reply = (\<lambda>tr c. case c of Execute cmd t \<Rightarrow> (if py_startswith cmd ''chmod'' then Raised ''timed out'' else Replied 0 [] [])
        | _ \<Rightarrow> Replied 0 [] []), env_resolve = None, env_uuid = ''ab12'', env_audit = True\<rparr>"

text \<open>Two flaws: when the \<open>chmod\<close> of the credential file raises, as it does when the sidecar
  times out, the tool ends with the file in place and no call to remove it; and a push that is
  not forced overwrites the remote branch all the same when the branch is given as
  \<open>+main\<close> or as the option \<open>--force\<close>, which are passed on as they are while the audit
  record says \<open>force=False\<close>.\<close>

theorem git_tools_flaws:
  "snd (git_tool chmod_raises sample_push []) =
     [Called (FileCreate (cred_path chmod_raises) (http_extra_header_gitconfig (basic_auth_header_value ''tok''))) (Replied 0 [] []),
      Called (chmod_call chmod_raises) (Raised ''timed out'')] \<and>
   git_tool calm_env (Push [] [] (Some ''--force'') None None False) [] =
     (''ok'', [Called (Execute ''cd /workspace && git push origin --force'' 300) (Replied 0 ''ok'' []),
       Audited ''git push origin --force (force=False)'' 0]) \<and>
   git_tool calm_env (Push [] [] (Some ''+main'') None None False) [] =
     (''ok'', [Called (Execute (''cd /workspace && git push origin '' @ quote ''+main'') 300) (Replied 0 ''ok'' []),
       Audited ''git push origin +main (force=False)'' 0])"
  by (intro conjI; code_simp)

end
