(* ===== verification/Tokens.thy ===== *)
theory Tokens
  imports Prelude
begin

text \<open>
  Who a request is from: the signed tokens of the control plane (\<open>security.py\<close>), API keys
  and the dependencies that turn a credential into an account (\<open>deps.py\<close>), the routes that
  mint and redeem the takeover, desktop, sandbox-creation and preview tokens
  (\<open>routers/sandboxes.py\<close>, \<open>routers/account.py\<close>, \<open>routers/api_keys.py\<close>) with their
  guards against reuse and their denylist. Signing and verifying (PyJWT) and SHA-256 are
  parameters. Times are microseconds; a request reads the clock twice.
\<close>

section \<open>Claims\<close>

datatype claim = ClStr string | ClNum int | ClBool bool | ClNull

type_synonym claim_set = "(string, claim) dict"

text \<open>\<open>jwt.encode\<close> and \<open>jwt.decode\<close> with the server's secret and algorithm; the latter
  takes the time and the audience that is asked for, if any.\<close>

record token_env =
  jwt_sign :: "claim_set \<Rightarrow> string"
  jwt_open :: "int \<Rightarrow> string option \<Rightarrow> string \<Rightarrow> claim_set option"
  sha256_hex :: "string \<Rightarrow> string"
  api_key_prefix :: string
  access_ttl_minutes :: int
  takeover_ttl_seconds :: int
  desktop_ttl_seconds :: int
  create_ttl_seconds :: int
  desktop_enabled :: bool

definition epoch_seconds :: "int \<Rightarrow> int" where
  "epoch_seconds t = t div 1000000"

definition after_seconds :: "int \<Rightarrow> int \<Rightarrow> int" where
  "after_seconds t s = t + s * 1000000"

definition opt_claim :: "string option \<Rightarrow> claim" where
  "opt_claim x = (case x of None \<Rightarrow> ClNull | Some s \<Rightarrow> ClStr s)"

definition times :: "int \<Rightarrow> int \<Rightarrow> int \<Rightarrow> claim_set" where
  "times ttl t1 t2 = [(''iat'', ClNum (epoch_seconds t2)), (''exp'', ClNum (epoch_seconds (after_seconds t1 ttl)))]"

definition access_claims :: "string \<Rightarrow> string \<Rightarrow> int \<Rightarrow> int \<Rightarrow> int \<Rightarrow> claim_set" where
  "access_claims account email ttl t1 t2 =
     [(''sub'', ClStr account), (''email'', ClStr email), (''type'', ClStr ''access'')] @ times ttl t1 t2"

definition preview_claims :: "string \<Rightarrow> int \<Rightarrow> string \<Rightarrow> int \<Rightarrow> int \<Rightarrow> int \<Rightarrow> claim_set" where
  "preview_claims session port jti ttl t1 t2 =
     [(''sid'', ClStr session), (''port'', ClNum port), (''type'', ClStr ''sandbox_preview''), (''jti'', ClStr jti)] @ times ttl t1 t2"

definition takeover_claims :: "string \<Rightarrow> string \<Rightarrow> bool \<Rightarrow> string option \<Rightarrow> string \<Rightarrow> int \<Rightarrow> int \<Rightarrow> int \<Rightarrow> claim_set" where
  "takeover_claims account session read_only key jti ttl t1 t2 =
     [(''type'', ClStr ''sandbox_takeover''), (''account_id'', ClStr account), (''session_id'', ClStr session),
      (''read_only'', ClBool read_only), (''api_key_id'', opt_claim key), (''jti'', ClStr jti)] @ times ttl t1 t2"

definition desktop_claims :: "string \<Rightarrow> string \<Rightarrow> string option \<Rightarrow> string \<Rightarrow> int \<Rightarrow> int \<Rightarrow> int \<Rightarrow> claim_set" where
  "desktop_claims account session key jti ttl t1 t2 =
     [(''type'', ClStr ''sandbox_desktop''), (''account_id'', ClStr account), (''session_id'', ClStr session),
      (''api_key_id'', opt_claim key), (''jti'', ClStr jti)] @ times ttl t1 t2"

definition demo_claims :: "string \<Rightarrow> int \<Rightarrow> int \<Rightarrow> int \<Rightarrow> claim_set" where
  "demo_claims session ttl t1 t2 = [(''sid'', ClStr session), (''type'', ClStr ''demo_session'')] @ times ttl t1 t2"

definition sandbox_create_claims :: "string \<Rightarrow> string \<Rightarrow> int \<Rightarrow> int \<Rightarrow> int \<Rightarrow> claim_set" where
  "sandbox_create_claims account jti ttl t1 t2 =
     [(''type'', ClStr ''sandbox_create''), (''account_id'', ClStr account), (''jti'', ClStr jti)] @ times ttl t1 t2"

definition mcp_access_claims :: "string \<Rightarrow> string \<Rightarrow> string \<Rightarrow> int \<Rightarrow> int \<Rightarrow> int \<Rightarrow> claim_set" where
  "mcp_access_claims account client audience ttl t1 t2 =
     [(''sub'', ClStr account), (''client_id'', ClStr client), (''aud'', ClStr audience), (''type'', ClStr ''mcp_access'')] @ times ttl t1 t2"

definition oauth_login_claims :: "string \<Rightarrow> int \<Rightarrow> int \<Rightarrow> int \<Rightarrow> claim_set" where
  "oauth_login_claims account ttl t1 t2 = [(''sub'', ClStr account), (''type'', ClStr ''oauth_login_session'')] @ times ttl t1 t2"

definition social_state_claims :: "string \<Rightarrow> string option \<Rightarrow> string option \<Rightarrow> string \<Rightarrow> int \<Rightarrow> int \<Rightarrow> claim_set" where
  "social_state_claims provider next_path link_account nonce t1 t2 =
     [(''provider'', ClStr provider), (''next'', opt_claim next_path), (''link_account_id'', opt_claim link_account),
      (''nonce'', ClStr nonce), (''type'', ClStr ''social_login_state'')] @ times 600 t1 t2"

definition link_intent_claims :: "string \<Rightarrow> string \<Rightarrow> int \<Rightarrow> int \<Rightarrow> claim_set" where
  "link_intent_claims account provider t1 t2 =
     [(''sub'', ClStr account), (''provider'', ClStr provider), (''type'', ClStr ''account_link_intent'')] @ times 600 t1 t2"

definition sso_state_claims :: "string \<Rightarrow> string option \<Rightarrow> string \<Rightarrow> int \<Rightarrow> int \<Rightarrow> int \<Rightarrow> claim_set" where
  "sso_state_claims connection next_path nonce ttl t1 t2 =
     [(''connection'', ClStr connection), (''next'', opt_claim next_path), (''nonce'', ClStr nonce),
      (''type'', ClStr ''enterprise_sso_state'')] @ times ttl t1 t2"

text \<open>The eleven decoders: the signature, expiry and audience, then the type.\<close>

definition open_typed :: "token_env \<Rightarrow> string option \<Rightarrow> string \<Rightarrow> int \<Rightarrow> string \<Rightarrow> claim_set option" where
  "open_typed env audience typ now token =
     (case jwt_open env now audience token of
        None \<Rightarrow> None
      | Some payload \<Rightarrow> if dict_get payload ''type'' \<noteq> Some (ClStr typ) then None else Some payload)"

definition decode_access_token :: "token_env \<Rightarrow> int \<Rightarrow> string \<Rightarrow> claim_set option" where
  "decode_access_token env = open_typed env None ''access''"

definition decode_preview_token :: "token_env \<Rightarrow> int \<Rightarrow> string \<Rightarrow> claim_set option" where
  "decode_preview_token env = open_typed env None ''sandbox_preview''"

definition decode_takeover_token :: "token_env \<Rightarrow> int \<Rightarrow> string \<Rightarrow> claim_set option" where
  "decode_takeover_token env = open_typed env None ''sandbox_takeover''"

definition decode_desktop_token :: "token_env \<Rightarrow> int \<Rightarrow> string \<Rightarrow> claim_set option" where
  "decode_desktop_token env = open_typed env None ''sandbox_desktop''"

definition decode_demo_session_token :: "token_env \<Rightarrow> int \<Rightarrow> string \<Rightarrow> claim_set option" where
  "decode_demo_session_token env = open_typed env None ''demo_session''"

definition decode_sandbox_create_token :: "token_env \<Rightarrow> int \<Rightarrow> string \<Rightarrow> claim_set option" where
  "decode_sandbox_create_token env = open_typed env None ''sandbox_create''"

definition decode_mcp_access_token :: "token_env \<Rightarrow> string \<Rightarrow> int \<Rightarrow> string \<Rightarrow> claim_set option" where
  "decode_mcp_access_token env audience = open_typed env (Some audience) ''mcp_access''"

definition decode_oauth_login_session_token :: "token_env \<Rightarrow> int \<Rightarrow> string \<Rightarrow> claim_set option" where
  "decode_oauth_login_session_token env = open_typed env None ''oauth_login_session''"

definition decode_social_login_state_token :: "token_env \<Rightarrow> int \<Rightarrow> string \<Rightarrow> claim_set option" where
  "decode_social_login_state_token env = open_typed env None ''social_login_state''"

definition decode_account_link_intent_token :: "token_env \<Rightarrow> int \<Rightarrow> string \<Rightarrow> claim_set option" where
  "decode_account_link_intent_token env = open_typed env None ''account_link_intent''"

definition decode_enterprise_sso_state_token :: "token_env \<Rightarrow> int \<Rightarrow> string \<Rightarrow> claim_set option" where
  "decode_enterprise_sso_state_token env = open_typed env None ''enterprise_sso_state''"

text \<open>\<open>payload.get(k)\<close> used as a string, and the expiry: a claim of another type counts as absent.\<close>

definition claim_str :: "claim_set \<Rightarrow> string \<Rightarrow> string" where
  "claim_str p k = (case dict_get p k of Some (ClStr s) \<Rightarrow> s | _ \<Rightarrow> [])"

definition claim_exp :: "claim_set \<Rightarrow> int option" where
  "claim_exp p = (case dict_get p ''exp'' of Some (ClNum n) \<Rightarrow> if n = 0 then None else Some n | _ \<Rightarrow> None)"

section \<open>Accounts, keys and sessions\<close>

record tenant =
  tn_id :: string
  tn_email :: string
  tn_admin :: bool
  tn_deactivated :: bool

record api_key =
  ak_id :: string
  ak_account :: string
  ak_name :: string
  ak_hash :: string
  ak_role :: string
  ak_revoked :: bool
  ak_last_used :: "int option"

record sandbox_row =
  sb_id :: string
  sb_account :: string
  sb_destroyed :: bool

record revoked_preview =
  rp_jti :: string
  rp_expires :: int

text \<open>The tables, and in the process the guards \<open>_takeover_jti_seen\<close>,
  \<open>_desktop_jti_seen\<close> and \<open>_sandbox_create_jti_seen\<close>.\<close>

record gate =
  tenants :: "tenant list"
  api_keys :: "api_key list"
  sandboxes :: "sandbox_row list"
  revoked_previews :: "revoked_preview list"
  takeover_seen :: "(string, int) dict"
  desktop_seen :: "(string, int) dict"
  create_seen :: "(string, int) dict"
  admin_log :: "(string \<times> string) list"

type_synonym api_error = "nat \<times> string"

definition tenant_by_id :: "gate \<Rightarrow> string \<Rightarrow> tenant option" where
  "tenant_by_id g i = find (\<lambda>a. tn_id a = i) (tenants g)"

definition key_active_by_hash :: "gate \<Rightarrow> string \<Rightarrow> api_key option" where
  "key_active_by_hash g h = find (\<lambda>k. ak_hash k = h \<and> \<not> ak_revoked k) (api_keys g)"

definition key_of_account :: "gate \<Rightarrow> string \<Rightarrow> string \<Rightarrow> api_key option" where
  "key_of_account g key account = find (\<lambda>k. ak_id k = key \<and> ak_account k = account) (api_keys g)"

definition touch_key :: "string \<Rightarrow> int \<Rightarrow> gate \<Rightarrow> gate" where
  "touch_key i now g = g\<lparr>api_keys := map (\<lambda>k. if ak_id k = i then k\<lparr>ak_last_used := Some now\<rparr> else k) (api_keys g)\<rparr>"

definition session_for_account :: "gate \<Rightarrow> string \<Rightarrow> string \<Rightarrow> sandbox_row option" where
  "session_for_account g session account = find (\<lambda>s. sb_id s = session \<and> sb_account s = account) (sandboxes g)"

definition active_session :: "gate \<Rightarrow> string \<Rightarrow> string \<Rightarrow> sandbox_row option" where
  "active_session g session account =
     (case session_for_account g session account of None \<Rightarrow> None | Some s \<Rightarrow> if sb_destroyed s then None else Some s)"

section \<open>Credentials\<close>

definition extract_bearer_token :: "string option \<Rightarrow> api_error + string" where
  "extract_bearer_token authorization =
     (case authorization of
        None \<Rightarrow> Inl (401, ''missing_credentials'')
      | Some a \<Rightarrow>
          (if a = [] \<or> \<not> py_startswith (py_lower a) ''bearer '' then Inl (401, ''missing_credentials'')
           else let token = py_strip (drop 7 a) in
             if token = [] then Inl (401, ''missing_credentials'') else Inr token))"

definition looks_like_api_key :: "token_env \<Rightarrow> string \<Rightarrow> bool" where
  "looks_like_api_key env value = (value \<noteq> [] \<and> py_startswith value (api_key_prefix env @ ''_''))"

definition resolve_key :: "token_env \<Rightarrow> int \<Rightarrow> string \<Rightarrow> gate \<Rightarrow> (api_error + tenant \<times> api_key) \<times> gate" where
  "resolve_key env now token g =
     (if \<not> looks_like_api_key env token then (Inl (401, ''wrong_credential_type''), g)
      else case key_active_by_hash g (sha256_hex env token) of
        None \<Rightarrow> (Inl (401, ''invalid_api_key''), g)
      | Some k \<Rightarrow>
          (let g1 = touch_key (ak_id k) now g in
           case tenant_by_id g1 (ak_account k) of
             None \<Rightarrow> (Inl (401, ''invalid_api_key''), g1)
           | Some a \<Rightarrow> (if tn_deactivated a then (Inl (401, ''account_deactivated''), g1) else (Inr (a, k), g1))))"

definition account_and_key :: "token_env \<Rightarrow> int \<Rightarrow> string option \<Rightarrow> gate \<Rightarrow> (api_error + tenant \<times> api_key) \<times> gate" where
  "account_and_key env now authorization g =
     (case extract_bearer_token authorization of
        Inl e \<Rightarrow> (Inl e, g)
      | Inr token \<Rightarrow> resolve_key env now token g)"

text \<open>The header or, for the two streaming routes, the \<open>api_key\<close> parameter.\<close>

definition account_via_key_or_query ::
    "token_env \<Rightarrow> int \<Rightarrow> string option \<Rightarrow> string option \<Rightarrow> gate \<Rightarrow> (api_error + tenant \<times> api_key) \<times> gate" where
  "account_via_key_or_query env now authorization query g =
     (if authorization \<noteq> None \<and> authorization \<noteq> Some [] then account_and_key env now authorization g
      else case query of
        None \<Rightarrow> (Inl (401, ''missing_credentials''), g)
      | Some q \<Rightarrow> if q = [] then (Inl (401, ''missing_credentials''), g) else resolve_key env now q g)"

definition current_user :: "token_env \<Rightarrow> int \<Rightarrow> string option \<Rightarrow> gate \<Rightarrow> api_error + tenant" where
  "current_user env now authorization g =
     (case extract_bearer_token authorization of
        Inl e \<Rightarrow> Inl e
      | Inr token \<Rightarrow>
          (if looks_like_api_key env token then Inl (401, ''wrong_credential_type'')
           else case decode_access_token env now token of
             None \<Rightarrow> Inl (401, ''invalid_token'')
           | Some payload \<Rightarrow>
               (case tenant_by_id g (claim_str payload ''sub'') of
                  None \<Rightarrow> Inl (401, ''invalid_token'')
                | Some a \<Rightarrow> if tn_deactivated a then Inl (401, ''account_deactivated'') else Inr a)))"

definition require_admin :: "string \<Rightarrow> tenant \<Rightarrow> gate \<Rightarrow> (api_error + tenant) \<times> gate" where
  "require_admin path a g =
     (if \<not> tn_admin a then (Inl (403, ''admin_required''), g) else (Inr a, g\<lparr>admin_log := admin_log g @ [(tn_id a, path)]\<rparr>))"

text \<open>The single-use guards: expired entries are dropped, then a known token is refused.\<close>

definition consume_jti :: "int \<Rightarrow> string \<Rightarrow> int option \<Rightarrow> (string, int) dict \<Rightarrow> bool \<times> (string, int) dict" where
  "consume_jti now jti expiry seen =
     (let live = filter (\<lambda>e. now < snd e) seen in
      if dict_get live jti \<noteq> None then (False, live)
      else (True, dict_put jti (case expiry of Some e \<Rightarrow> e * 1000000 | None \<Rightarrow> now + 60000000) live))"

section \<open>Takeover, desktop and creation tokens\<close>

type_synonym key_identity = "string option \<times> string option"

definition identity_of_token :: "gate \<Rightarrow> string \<Rightarrow> claim_set \<Rightarrow> key_identity" where
  "identity_of_token g account payload =
     (case dict_get payload ''api_key_id'' of
        Some (ClStr i) \<Rightarrow>
          (if i = [] then (Some i, None) else (Some i, map_option ak_name (key_of_account g i account)))
      | _ \<Rightarrow> (None, None))"

text \<open>The account of a redeemed token: it exists and is not deactivated.\<close>

definition live_tenant :: "string \<Rightarrow> string \<Rightarrow> gate \<Rightarrow> api_error + tenant" where
  "live_tenant code i g =
     (case tenant_by_id g i of
        None \<Rightarrow> Inl (401, code)
      | Some a \<Rightarrow> if tn_deactivated a then Inl (401, ''account_deactivated'') else Inr a)"

definition redeem_takeover ::
    "token_env \<Rightarrow> int \<Rightarrow> int \<Rightarrow> string \<Rightarrow> string \<Rightarrow> gate \<Rightarrow> (api_error + tenant \<times> bool \<times> key_identity) \<times> gate" where
  "redeem_takeover env t1 t2 token session g =
     (case decode_takeover_token env t1 token of
        None \<Rightarrow> (Inl (401, ''invalid_takeover_token''), g)
      | Some payload \<Rightarrow>
          (if dict_get payload ''session_id'' \<noteq> Some (ClStr session) then (Inl (401, ''invalid_takeover_token''), g)
           else if claim_str payload ''jti'' = [] then (Inl (401, ''invalid_takeover_token''), g)
           else let (fresh, seen) = consume_jti t2 (claim_str payload ''jti'') (claim_exp payload) (takeover_seen g);
                    g1 = g\<lparr>takeover_seen := seen\<rparr>
             in if \<not> fresh then (Inl (401, ''invalid_takeover_token''), g1)
                else case live_tenant ''invalid_takeover_token'' (claim_str payload ''account_id'') g1 of
                  Inl e \<Rightarrow> (Inl e, g1)
                | Inr a \<Rightarrow>
                    (Inr (a, dict_get payload ''read_only'' = Some (ClBool True), identity_of_token g1 (tn_id a) payload), g1)))"

definition redeem_desktop ::
    "token_env \<Rightarrow> int \<Rightarrow> int \<Rightarrow> string \<Rightarrow> string \<Rightarrow> gate \<Rightarrow> (api_error + tenant \<times> key_identity) \<times> gate" where
  "redeem_desktop env t1 t2 token session g =
     (case decode_desktop_token env t1 token of
        None \<Rightarrow> (Inl (401, ''invalid_desktop_token''), g)
      | Some payload \<Rightarrow>
          (if dict_get payload ''session_id'' \<noteq> Some (ClStr session) then (Inl (401, ''invalid_desktop_token''), g)
           else if claim_str payload ''jti'' = [] then (Inl (401, ''invalid_desktop_token''), g)
           else let (fresh, seen) = consume_jti t2 (claim_str payload ''jti'') (claim_exp payload) (desktop_seen g);
                    g1 = g\<lparr>desktop_seen := seen\<rparr>
             in if \<not> fresh then (Inl (401, ''invalid_desktop_token''), g1)
                else case live_tenant ''invalid_desktop_token'' (claim_str payload ''account_id'') g1 of
                  Inl e \<Rightarrow> (Inl e, g1)
                | Inr a \<Rightarrow> (Inr (a, identity_of_token g1 (tn_id a) payload), g1)))"

definition account_for_creation :: "token_env \<Rightarrow> int \<Rightarrow> int \<Rightarrow> string option \<Rightarrow> gate \<Rightarrow> (api_error + tenant) \<times> gate" where
  "account_for_creation env t1 t2 authorization g =
     (case extract_bearer_token authorization of
        Inl e \<Rightarrow> (Inl e, g)
      | Inr token \<Rightarrow>
          (if looks_like_api_key env token
           then (case resolve_key env t1 token g of (Inl e, g1) \<Rightarrow> (Inl e, g1) | (Inr (a, k), g1) \<Rightarrow> (Inr a, g1))
           else case decode_sandbox_create_token env t1 token of
             None \<Rightarrow> (Inl (401, ''invalid_token''), g)
           | Some payload \<Rightarrow>
               (if claim_str payload ''jti'' = [] then (Inl (401, ''invalid_token''), g)
                else let (fresh, seen) = consume_jti t2 (claim_str payload ''jti'') (claim_exp payload) (create_seen g);
                         g1 = g\<lparr>create_seen := seen\<rparr>
                  in if \<not> fresh then (Inl (401, ''invalid_token''), g1)
                     else (live_tenant ''invalid_token'' (claim_str payload ''account_id'') g1, g1))))"

section \<open>Routes\<close>

datatype gate_answer =
    Refused api_error
  | Closed nat
  | KeyCreated string
  | Token string string
  | TakeoverOpened tenant sandbox_row bool key_identity
  | DesktopOpened tenant sandbox_row key_identity
  | CreatesFor tenant
  | Proxied string int
  | Done

definition can_initiate_takeover :: "string \<Rightarrow> bool" where
  "can_initiate_takeover role = (role = ''admin'')"

definition create_api_key :: "token_env \<Rightarrow> int \<Rightarrow> string option \<Rightarrow> string \<Rightarrow> string \<Rightarrow> string \<Rightarrow> string \<Rightarrow> gate \<Rightarrow> gate_answer \<times> gate" where
  "create_api_key env now authorization name role new_id secret_part g =
     (case current_user env now authorization g of
        Inl e \<Rightarrow> (Refused e, g)
      | Inr a \<Rightarrow>
          (let full = api_key_prefix env @ ''_'' @ secret_part in
           (KeyCreated full,
            g\<lparr>api_keys := api_keys g @ [\<lparr>ak_id = new_id, ak_account = tn_id a, ak_name = name, ak_hash = sha256_hex env full,
               ak_role = role, ak_revoked = False, ak_last_used = None\<rparr>]\<rparr>)))"

definition revoke_api_key :: "token_env \<Rightarrow> int \<Rightarrow> string option \<Rightarrow> string \<Rightarrow> gate \<Rightarrow> gate_answer \<times> gate" where
  "revoke_api_key env now authorization key g =
     (case current_user env now authorization g of
        Inl e \<Rightarrow> (Refused e, g)
      | Inr a \<Rightarrow>
          (case key_of_account g key (tn_id a) of
             None \<Rightarrow> (Refused (404, ''not_found''), g)
           | Some k \<Rightarrow>
               (if ak_revoked k then (Refused (404, ''not_found''), g)
                else (Done, g\<lparr>api_keys := map (\<lambda>k. if ak_id k = key \<and> ak_account k = tn_id a then k\<lparr>ak_revoked := True\<rparr> else k) (api_keys g)\<rparr>))))"

definition mint_takeover ::
    "token_env \<Rightarrow> int \<Rightarrow> int \<Rightarrow> string option \<Rightarrow> string \<Rightarrow> bool \<Rightarrow> string \<Rightarrow> gate \<Rightarrow> gate_answer \<times> gate" where
  "mint_takeover env t1 t2 authorization session read_only jti g =
     (case account_and_key env t1 authorization g of
        (Inl e, g1) \<Rightarrow> (Refused e, g1)
      | (Inr (a, k), g1) \<Rightarrow>
          (if \<not> can_initiate_takeover (ak_role k) then (Refused (403, ''takeover_not_permitted''), g1)
           else case active_session g1 session (tn_id a) of
             None \<Rightarrow> (Refused (404, ''not_found''), g1)
           | Some s \<Rightarrow>
               (Token (jwt_sign env (takeover_claims (tn_id a) session read_only (Some (ak_id k)) jti (takeover_ttl_seconds env) t1 t2)) jti, g1)))"

definition mint_desktop :: "token_env \<Rightarrow> int \<Rightarrow> int \<Rightarrow> string option \<Rightarrow> string \<Rightarrow> string \<Rightarrow> gate \<Rightarrow> gate_answer \<times> gate" where
  "mint_desktop env t1 t2 authorization session jti g =
     (case account_and_key env t1 authorization g of
        (Inl e, g1) \<Rightarrow> (Refused e, g1)
      | (Inr (a, k), g1) \<Rightarrow>
          (if \<not> desktop_enabled env then (Refused (404, ''not_found''), g1)
           else if \<not> can_initiate_takeover (ak_role k) then (Refused (403, ''desktop_not_permitted''), g1)
           else case active_session g1 session (tn_id a) of
             None \<Rightarrow> (Refused (404, ''not_found''), g1)
           | Some s \<Rightarrow>
               (Token (jwt_sign env (desktop_claims (tn_id a) session (Some (ak_id k)) jti (desktop_ttl_seconds env) t1 t2)) jti, g1)))"

definition mint_sandbox_create :: "token_env \<Rightarrow> int \<Rightarrow> int \<Rightarrow> string option \<Rightarrow> string \<Rightarrow> gate \<Rightarrow> gate_answer \<times> gate" where
  "mint_sandbox_create env t1 t2 authorization jti g =
     (case current_user env t1 authorization g of
        Inl e \<Rightarrow> (Refused e, g)
      | Inr a \<Rightarrow> (Token (jwt_sign env (sandbox_create_claims (tn_id a) jti (create_ttl_seconds env) t1 t2)) jti, g))"

definition preview_min_ttl_seconds :: int where
  "preview_min_ttl_seconds = 30"

definition preview_max_ttl_seconds :: int where
  "preview_max_ttl_seconds = 24 * 3600"

text \<open>The schema of the request bounds the time to live; it is checked once the key has been accepted.\<close>

definition mint_preview ::
    "token_env \<Rightarrow> int \<Rightarrow> int \<Rightarrow> string option \<Rightarrow> string \<Rightarrow> int \<Rightarrow> int \<Rightarrow> string \<Rightarrow> gate \<Rightarrow> gate_answer \<times> gate" where
  "mint_preview env t1 t2 authorization session port ttl jti g =
     (case account_and_key env t1 authorization g of
        (Inl e, g1) \<Rightarrow> (Refused e, g1)
      | (Inr (a, k), g1) \<Rightarrow>
          (if ttl < preview_min_ttl_seconds \<or> preview_max_ttl_seconds < ttl then (Refused (422, ''validation_error''), g1)
           else case active_session g1 session (tn_id a) of
             None \<Rightarrow> (Refused (404, ''not_found''), g1)
           | Some s \<Rightarrow> (Token (jwt_sign env (preview_claims session port jti ttl t1 t2)) jti, g1)))"

definition revoke_jti :: "int \<Rightarrow> string \<Rightarrow> int \<Rightarrow> revoked_preview list \<Rightarrow> revoked_preview list" where
  "revoke_jti now jti expires rs =
     (let live = filter (\<lambda>r. \<not> rp_expires r < now) rs in
      if list_ex (\<lambda>r. rp_jti r = jti) live then live else live @ [\<lparr>rp_jti = jti, rp_expires = expires\<rparr>])"

definition revoke_preview ::
    "token_env \<Rightarrow> int \<Rightarrow> int \<Rightarrow> string option \<Rightarrow> string \<Rightarrow> int \<Rightarrow> string \<Rightarrow> gate \<Rightarrow> gate_answer \<times> gate" where
  "revoke_preview env t1 t2 authorization session port jti g =
     (case account_and_key env t1 authorization g of
        (Inl e, g1) \<Rightarrow> (Refused e, g1)
      | (Inr (a, k), g1) \<Rightarrow>
          (case active_session g1 session (tn_id a) of
             None \<Rightarrow> (Refused (404, ''not_found''), g1)
           | Some s \<Rightarrow>
               (Done, g1\<lparr>revoked_previews := revoke_jti t2 jti (after_seconds t1 preview_max_ttl_seconds) (revoked_previews g1)\<rparr>)))"

definition is_revoked :: "gate \<Rightarrow> string \<Rightarrow> bool" where
  "is_revoked g jti = (jti \<noteq> [] \<and> list_ex (\<lambda>r. rp_jti r = jti) (revoked_previews g))"

definition use_preview :: "token_env \<Rightarrow> int \<Rightarrow> string \<Rightarrow> int \<Rightarrow> string \<Rightarrow> gate \<Rightarrow> gate_answer" where
  "use_preview env now session port token g =
     (case decode_preview_token env now token of
        None \<Rightarrow> Refused (401, ''invalid_preview_token'')
      | Some payload \<Rightarrow>
          (if dict_get payload ''sid'' \<noteq> Some (ClStr session) \<or> dict_get payload ''port'' \<noteq> Some (ClNum port)
           then Refused (401, ''invalid_preview_token'')
           else if is_revoked g (claim_str payload ''jti'') then Refused (401, ''preview_token_revoked'')
           else case find (\<lambda>s. sb_id s = session) (sandboxes g) of
             None \<Rightarrow> Refused (404, ''not_found'')
           | Some s \<Rightarrow> if sb_destroyed s then Refused (404, ''not_found'') else Proxied session port))"

definition open_takeover ::
    "token_env \<Rightarrow> int \<Rightarrow> int \<Rightarrow> string option \<Rightarrow> string option \<Rightarrow> string \<Rightarrow> gate \<Rightarrow> gate_answer \<times> gate" where
  "open_takeover env t1 t2 authorization token session g =
     (let opened = (\<lambda>a ro ident g1. case active_session g1 session (tn_id a) of
            None \<Rightarrow> (Closed 4404, g1) | Some s \<Rightarrow> (TakeoverOpened a s ro ident, g1))
      in if authorization \<noteq> None \<and> authorization \<noteq> Some []
         then (case account_and_key env t1 authorization g of
                 (Inl e, g1) \<Rightarrow> (Closed 4401, g1)
               | (Inr (a, k), g1) \<Rightarrow>
                   (if \<not> can_initiate_takeover (ak_role k) then (Closed 4403, g1)
                    else opened a False (Some (ak_id k), Some (ak_name k)) g1))
         else case token of
           None \<Rightarrow> (Closed 4401, g)
         | Some t \<Rightarrow>
             (if t = [] then (Closed 4401, g)
              else case redeem_takeover env t1 t2 t session g of
                (Inl e, g1) \<Rightarrow> (Closed 4401, g1)
              | (Inr (a, ro, ident), g1) \<Rightarrow> opened a ro ident g1))"

definition open_desktop ::
    "token_env \<Rightarrow> int \<Rightarrow> int \<Rightarrow> string option \<Rightarrow> string option \<Rightarrow> string \<Rightarrow> gate \<Rightarrow> gate_answer \<times> gate" where
  "open_desktop env t1 t2 authorization token session g =
     (let opened = (\<lambda>a ident g1. case active_session g1 session (tn_id a) of
            None \<Rightarrow> (Closed 4404, g1) | Some s \<Rightarrow> (DesktopOpened a s ident, g1))
      in if \<not> desktop_enabled env then (Closed 4404, g)
         else if authorization \<noteq> None \<and> authorization \<noteq> Some []
         then (case account_and_key env t1 authorization g of
                 (Inl e, g1) \<Rightarrow> (Closed 4401, g1)
               | (Inr (a, k), g1) \<Rightarrow>
                   (if \<not> can_initiate_takeover (ak_role k) then (Closed 4403, g1)
                    else opened a (Some (ak_id k), Some (ak_name k)) g1))
         else case token of
           None \<Rightarrow> (Closed 4401, g)
         | Some t \<Rightarrow>
             (if t = [] then (Closed 4401, g)
              else case redeem_desktop env t1 t2 t session g of
                (Inl e, g1) \<Rightarrow> (Closed 4401, g1)
              | (Inr (a, ident), g1) \<Rightarrow> opened a ident g1))"

definition create_sandbox_auth :: "token_env \<Rightarrow> int \<Rightarrow> int \<Rightarrow> string option \<Rightarrow> gate \<Rightarrow> gate_answer \<times> gate" where
  "create_sandbox_auth env t1 t2 authorization g =
     (case account_for_creation env t1 t2 authorization g of
        (Inl e, g1) \<Rightarrow> (Refused e, g1)
      | (Inr a, g1) \<Rightarrow> (CreatesFor a, g1))"

text \<open>One request. \<open>Deactivate\<close>, \<open>Destroy\<close>, \<open>Launch\<close> and \<open>SignIn\<close> stand for what other
  routes do to the tables and for the login that mints an access token.\<close>

datatype gate_request =
    CreateKey "string option" string string string string
  | RevokeKey "string option" string
  | MintTakeover "string option" string bool string
  | MintDesktop "string option" string string
  | MintCreate "string option" string
  | MintPreview "string option" string int int string
  | RevokePreview "string option" string int string
  | UsePreview string int string
  | OpenTakeover "string option" "string option" string
  | OpenDesktop "string option" "string option" string
  | CreateSandbox "string option"
  | SignIn tenant
  | Deactivate string bool
  | Destroy string
  | Launch string string

fun gate_step :: "token_env \<Rightarrow> int \<Rightarrow> int \<Rightarrow> gate_request \<Rightarrow> gate \<Rightarrow> gate_answer \<times> gate" where
  "gate_step env t1 t2 (CreateKey auth name role i secret) g = create_api_key env t1 auth name role i secret g"
| "gate_step env t1 t2 (RevokeKey auth key) g = revoke_api_key env t1 auth key g"
| "gate_step env t1 t2 (MintTakeover auth session ro jti) g = mint_takeover env t1 t2 auth session ro jti g"
| "gate_step env t1 t2 (MintDesktop auth session jti) g = mint_desktop env t1 t2 auth session jti g"
| "gate_step env t1 t2 (MintCreate auth jti) g = mint_sandbox_create env t1 t2 auth jti g"
| "gate_step env t1 t2 (MintPreview auth session port ttl jti) g = mint_preview env t1 t2 auth session port ttl jti g"
| "gate_step env t1 t2 (RevokePreview auth session port jti) g = revoke_preview env t1 t2 auth session port jti g"
| "gate_step env t1 t2 (UsePreview session port token) g = (use_preview env t1 session port token g, g)"
| "gate_step env t1 t2 (OpenTakeover auth token session) g = open_takeover env t1 t2 auth token session g"
| "gate_step env t1 t2 (OpenDesktop auth token session) g = open_desktop env t1 t2 auth token session g"
| "gate_step env t1 t2 (CreateSandbox auth) g = create_sandbox_auth env t1 t2 auth g"
| "gate_step env t1 t2 (SignIn a) g =
     (Token (jwt_sign env (access_claims (tn_id a) (tn_email a) (access_ttl_minutes env * 60) t1 t2)) [], g)"
| "gate_step env t1 t2 (Deactivate i d) g =
     (Done, g\<lparr>tenants := map (\<lambda>a. if tn_id a = i then a\<lparr>tn_deactivated := d\<rparr> else a) (tenants g)\<rparr>)"
| "gate_step env t1 t2 (Destroy s) g =
     (Done, g\<lparr>sandboxes := map (\<lambda>r. if sb_id r = s then r\<lparr>sb_destroyed := True\<rparr> else r) (sandboxes g)\<rparr>)"
| "gate_step env t1 t2 (Launch s account) g =
     (Done, g\<lparr>sandboxes := sandboxes g @ [\<lparr>sb_id = s, sb_account = account, sb_destroyed = False\<rparr>]\<rparr>)"

end
