(* ===== verification/TokenSafety.thy ===== *)
theory TokenSafety
  imports Tokens
begin

text \<open>
  What the credentials guarantee: a token of one kind is never accepted as another; takeover,
  desktop and creation tokens are redeemed at most once; a takeover goes back to an admin
  key of the account that owns the session; a revoked preview link stays revoked.
\<close>

section \<open>The signature\<close>

text \<open>What the code relies on in PyJWT: opening what the server signed gives what was signed, a
  token has one content, and an expired token is refused.\<close>

definition jwt_laws :: "token_env \<Rightarrow> bool" where
  "jwt_laws env =
     ((\<forall>now aud c p. jwt_open env now aud (jwt_sign env c) = Some p \<longrightarrow> p = c) \<and>
      (\<forall>n n' aud aud' t p p'. jwt_open env n aud t = Some p \<and> jwt_open env n' aud' t = Some p' \<longrightarrow> p = p') \<and>
      (\<forall>now aud t p e. jwt_open env now aud t = Some p \<and> dict_get p ''exp'' = Some (ClNum e) \<longrightarrow> now < e * 1000000))"

lemma jwt_lawsD:
  assumes "jwt_laws env"
  shows "jwt_open env now aud (jwt_sign env c) = Some p \<Longrightarrow> p = c"
    "jwt_open env n aud t = Some p \<Longrightarrow> jwt_open env n' aud' t = Some p' \<Longrightarrow> p = p'"
    "jwt_open env now aud t = Some p \<Longrightarrow> dict_get p ''exp'' = Some (ClNum e) \<Longrightarrow> now < e * 1000000"
  using assms unfolding jwt_laws_def by blast+

lemma open_typed_Some:
  "open_typed env aud typ now t = Some p \<longleftrightarrow> jwt_open env now aud t = Some p \<and> dict_get p ''type'' = Some (ClStr typ)"
  by (auto simp: open_typed_def split: option.splits if_splits)

lemmas decoders = decode_access_token_def decode_preview_token_def decode_takeover_token_def decode_desktop_token_def
  decode_demo_session_token_def decode_sandbox_create_token_def decode_mcp_access_token_def decode_oauth_login_session_token_def
  decode_social_login_state_token_def decode_account_link_intent_token_def decode_enterprise_sso_state_token_def

text \<open>The kinds of tokens that the server signs, each with its type.\<close>

inductive signed_as :: "claim_set \<Rightarrow> string \<Rightarrow> bool" where
  "signed_as (access_claims account email ttl t1 t2) ''access''"
| "signed_as (preview_claims session port jti ttl t1 t2) ''sandbox_preview''"
| "signed_as (takeover_claims account session ro key jti ttl t1 t2) ''sandbox_takeover''"
| "signed_as (desktop_claims account session key jti ttl t1 t2) ''sandbox_desktop''"
| "signed_as (demo_claims session ttl t1 t2) ''demo_session''"
| "signed_as (sandbox_create_claims account jti ttl t1 t2) ''sandbox_create''"
| "signed_as (mcp_access_claims account client audience ttl t1 t2) ''mcp_access''"
| "signed_as (oauth_login_claims account ttl t1 t2) ''oauth_login_session''"
| "signed_as (social_state_claims provider next_path link nonce t1 t2) ''social_login_state''"
| "signed_as (link_intent_claims account provider t1 t2) ''account_link_intent''"
| "signed_as (sso_state_claims connection next_path nonce ttl t1 t2) ''enterprise_sso_state''"

lemma signed_type: "signed_as c typ \<Longrightarrow> dict_get c ''type'' = Some (ClStr typ)"
  by (induction rule: signed_as.induct)
     (simp_all add: access_claims_def preview_claims_def takeover_claims_def desktop_claims_def demo_claims_def
       sandbox_create_claims_def mcp_access_claims_def oauth_login_claims_def social_state_claims_def link_intent_claims_def
       sso_state_claims_def)

lemma kinds_apart:
  assumes "jwt_laws env" "signed_as c typ" "open_typed env aud typ' now (jwt_sign env c) = Some p"
  shows "typ' = typ \<and> p = c"
proof -
  have p: "jwt_open env now aud (jwt_sign env c) = Some p" "dict_get p ''type'' = Some (ClStr typ')"
    using assms(3) by (simp_all add: open_typed_Some)
  have "p = c" by (rule jwt_lawsD(1) [OF assms(1) p(1)])
  then show ?thesis using p(2) signed_type [OF assms(2)] by simp
qed

section \<open>Traces\<close>

type_synonym moment = "gate \<times> int \<times> int \<times> gate_request \<times> gate_answer"

fun gate_trace :: "token_env \<Rightarrow> gate \<Rightarrow> (int \<times> int \<times> gate_request) list \<Rightarrow> moment list" where
  "gate_trace env g [] = []"
| "gate_trace env g ((t1, t2, r) # rs) =
     (case gate_step env t1 t2 r g of (ans, g') \<Rightarrow> (g, t1, t2, r, ans) # gate_trace env g' rs)"

text \<open>The clock does not go backwards.\<close>

fun clock_runs :: "int \<Rightarrow> (int \<times> int \<times> gate_request) list \<Rightarrow> bool" where
  "clock_runs t [] = True"
| "clock_runs t ((t1, t2, r) # rs) = (t \<le> t1 \<and> t1 \<le> t2 \<and> clock_runs t2 rs)"

lemma clock_weaken: "clock_runs t rs \<Longrightarrow> s \<le> t \<Longrightarrow> clock_runs s rs"
  by (cases rs) auto

lemma clock_after: "clock_runs t rs \<Longrightarrow> (g', t1, t2, r, ans) \<in> set (gate_trace env g rs) \<Longrightarrow> t \<le> t1 \<and> t1 \<le> t2"
proof (induction rs arbitrary: t g)
  case (Cons x rs)
  obtain a b q where x: "x = (a, b, q)" by (cases x)
  then have "clock_runs t rs" using clock_weaken [of b rs t] Cons.prems(1) by auto
  then show ?case using Cons.IH [of t] Cons.prems x by (auto split: prod.splits)
qed simp

text \<open>Two moments of a trace are consecutive steps of two parts of it.\<close>

lemma trace_split:
  "gate_trace env g rs = past @ (g1, t1, t2, r, ans) # rest \<Longrightarrow>
     \<exists>before after g2. rs = before @ (t1, t2, r) # after \<and> past = gate_trace env g before \<and>
       gate_step env t1 t2 r g1 = (ans, g2) \<and> rest = gate_trace env g2 after"
proof (induction rs arbitrary: g past)
  case (Cons x rs)
  obtain a b q where x: "x = (a, b, q)" by (cases x)
  obtain ans' g' where s: "gate_step env a b q g = (ans', g')" by fastforce
  show ?case
  proof (cases past)
    case Nil
    then show ?thesis using Cons.prems x s by (intro exI [of _ "[]"] exI [of _ rs] exI [of _ g']) auto
  next
    case (Cons m past')
    then have m: "m = (g, a, b, q, ans')" "gate_trace env g' rs = past' @ (g1, t1, t2, r, ans) # rest"
      using Cons.prems x s by simp_all
    obtain before after g2 where "rs = before @ (t1, t2, r) # after" "past' = gate_trace env g' before"
        "gate_step env t1 t2 r g1 = (ans, g2)" "rest = gate_trace env g2 after"
      using Cons.IH [OF m(2)] by blast
    then show ?thesis using Cons m(1) x s
      by (intro exI [of _ "(a, b, q) # before"] exI [of _ after] exI [of _ g2]) auto
  qed
qed simp

lemma clock_append: "clock_runs t (before @ (t1, t2, r) # after) \<Longrightarrow> t1 \<le> t2 \<and> clock_runs t2 after"
  by (induction before arbitrary: t) auto

section \<open>The guards against reuse\<close>

lemma filter_get: "dict_get d k = Some v \<Longrightarrow> P (k, v) \<Longrightarrow> dict_get (filter P d) k = Some v"
  by (induction d) auto

lemma consume_keeps:
  "dict_get seen j = Some e \<Longrightarrow> now < e \<Longrightarrow> dict_get (snd (consume_jti now j' x seen)) j = Some e"
  using filter_get [of seen j e "\<lambda>e. now < snd e"] by (auto simp: consume_jti_def Let_def dict_get_put)

lemma consume_refuses: "dict_get seen j = Some e \<Longrightarrow> now < e \<Longrightarrow> consume_jti now j x seen \<noteq> (True, seen')"
  using filter_get [of seen j e "\<lambda>e. now < snd e"] by (auto simp: consume_jti_def Let_def)

lemma consume_records: "consume_jti now j (Some e) seen = (True, seen') \<Longrightarrow> dict_get seen' j = Some (e * 1000000)"
  by (auto simp: consume_jti_def Let_def dict_get_put split: if_splits)

text \<open>A table of used identifiers, and the requests that redeem a token against it.\<close>

locale jti_guard =
  fixes env :: token_env
    and seen :: "gate \<Rightarrow> (string, int) dict"
    and redeems :: "string \<Rightarrow> gate_request \<Rightarrow> gate_answer \<Rightarrow> bool"
  assumes keeps: "gate_step env t1 t2 r g = (ans, g') \<Longrightarrow>
      seen g' = seen g \<or> (\<exists>j x. seen g' = snd (consume_jti t2 j x (seen g)))"
    and redeemed: "gate_step env t1 t2 r g = (ans, g') \<Longrightarrow> redeems t r ans \<Longrightarrow>
      \<exists>p. jwt_open env t1 None t = Some p \<and> consume_jti t2 (claim_str p ''jti'') (claim_exp p) (seen g) = (True, seen g')"
begin

definition uses :: "string \<Rightarrow> moment \<Rightarrow> bool" where
  "uses t m = (case m of (g, t1, t2, r, ans) \<Rightarrow> redeems t r ans)"

lemma uses_moment [simp]: "uses t (g, t1, t2, r, ans) = redeems t r ans"
  by (simp add: uses_def)

text \<open>The clock has not passed the expiry of the token when it is looked up in the table.\<close>

definition on_time :: "string \<Rightarrow> moment \<Rightarrow> bool" where
  "on_time t m = (case m of (g, t1, t2, r, ans) \<Rightarrow> redeems t r ans \<longrightarrow>
     (\<forall>p. jwt_open env t1 None t = Some p \<longrightarrow> (\<exists>e. claim_exp p = Some e \<and> t2 < e * 1000000)))"

lemma not_again:
  assumes "jwt_laws env" "jwt_open env n None t = Some p" "claim_exp p = Some e"
    and "dict_get (seen g) (claim_str p ''jti'') = Some (e * 1000000)"
    and "clock_runs now rs" "list_all (on_time t) (gate_trace env g rs)"
  shows "\<not> list_ex (uses t) (gate_trace env g rs)"
  using assms(4-6)
proof (induction rs arbitrary: g now)
  case (Cons x rs)
  obtain t1 t2 r where x: "x = (t1, t2, r)" by (cases x)
  obtain ans g' where s: "gate_step env t1 t2 r g = (ans, g')" by fastforce
  have tr: "gate_trace env g (x # rs) = (g, t1, t2, r, ans) # gate_trace env g' rs" using x s by simp
  have no: "\<not> redeems t r ans"
  proof
    assume red: "redeems t r ans"
    then obtain p' where p': "jwt_open env t1 None t = Some p'"
        "consume_jti t2 (claim_str p' ''jti'') (claim_exp p') (seen g) = (True, seen g')"
      using redeemed [OF s] by blast
    then have "p' = p" using jwt_lawsD(2) [OF assms(1) p'(1) assms(2)] by simp
    moreover have "t2 < e * 1000000"
      using Cons.prems(3) red p'(1) assms(3) \<open>p' = p\<close> unfolding tr by (auto simp: on_time_def)
    ultimately show False using consume_refuses [OF Cons.prems(1)] p'(2) by blast
  qed
  show ?case
  proof (cases "t2 < e * 1000000")
    case True
    then have "dict_get (seen g') (claim_str p ''jti'') = Some (e * 1000000)"
      using keeps [OF s] consume_keeps [OF Cons.prems(1)] Cons.prems(1) by auto
    then have "\<not> list_ex (uses t) (gate_trace env g' rs)"
      using Cons.IH [of g' t2] Cons.prems(2,3) x unfolding tr by simp
    then show ?thesis using no unfolding tr by simp
  next
    case False
    have "\<not> uses t m" if mem: "m \<in> set (gate_trace env g' rs)" for m
    proof
      assume u: "uses t m"
      obtain g3 a b q an where m: "m = (g3, a, b, q, an)" by (cases m)
      obtain past rest where "gate_trace env g' rs = past @ (g3, a, b, q, an) # rest" 
        using split_list [OF mem] m by blast
      then obtain g4 where g4: "gate_step env a b q g3 = (an, g4)" using trace_split by blast
      have "redeems t q an" using u m by simp
      then obtain p' where p': "jwt_open env a None t = Some p'" using redeemed [OF g4] by blast
      then have "p' = p" using jwt_lawsD(2) [OF assms(1) p' assms(2)] by simp
      then have "a < e * 1000000"
        using jwt_lawsD(3) [OF assms(1) p'] assms(3) by (auto simp: claim_exp_def split: option.splits claim.splits if_splits)
      moreover have "t2 \<le> a" using clock_after [of t2 rs g3 a b q an env g'] Cons.prems(2) mem m x by simp
      ultimately show False using False by simp
    qed
    then show ?thesis using no unfolding tr by (auto simp: list_ex_iff)
  qed
qed simp

lemma at_most_once:
  assumes "jwt_laws env" "clock_runs now rs" "list_all (on_time t) (gate_trace env g rs)"
  shows "length (filter (uses t) (gate_trace env g rs)) \<le> 1"
  using assms(2,3)
proof (induction rs arbitrary: g now)
  case (Cons x rs)
  obtain t1 t2 r where x: "x = (t1, t2, r)" by (cases x)
  obtain ans g' where s: "gate_step env t1 t2 r g = (ans, g')" by fastforce
  have tr: "gate_trace env g (x # rs) = (g, t1, t2, r, ans) # gate_trace env g' rs" using x s by simp
  have rest: "clock_runs t2 rs" "list_all (on_time t) (gate_trace env g' rs)" using Cons.prems x unfolding tr by simp_all
  show ?case
  proof (cases "redeems t r ans")
    case True
    then obtain p where p: "jwt_open env t1 None t = Some p"
        "consume_jti t2 (claim_str p ''jti'') (claim_exp p) (seen g) = (True, seen g')"
      using redeemed [OF s] by blast
    obtain e where e: "claim_exp p = Some e" using Cons.prems(2) True p(1) unfolding tr by (auto simp: on_time_def)
    have "dict_get (seen g') (claim_str p ''jti'') = Some (e * 1000000)" using consume_records p(2) e by simp
    then have "\<not> list_ex (uses t) (gate_trace env g' rs)" by (rule not_again [OF assms(1) p(1) e _ rest])
    then have "filter (uses t) (gate_trace env g' rs) = []" by (simp add: filter_empty_conv list_ex_iff)
    then show ?thesis unfolding tr by simp
  next
    case False
    then show ?thesis using Cons.IH [OF rest] unfolding tr by simp
  qed
qed simp

end

section \<open>Redeeming a token\<close>

definition takeover_redeemed :: "string \<Rightarrow> gate_request \<Rightarrow> gate_answer \<Rightarrow> bool" where
  "takeover_redeemed t r ans =
     (case (r, ans) of
        (OpenTakeover auth token session, TakeoverOpened a s ro ident) \<Rightarrow> (auth = None \<or> auth = Some []) \<and> token = Some t
      | _ \<Rightarrow> False)"

definition desktop_redeemed :: "string \<Rightarrow> gate_request \<Rightarrow> gate_answer \<Rightarrow> bool" where
  "desktop_redeemed t r ans =
     (case (r, ans) of
        (OpenDesktop auth token session, DesktopOpened a s ident) \<Rightarrow> (auth = None \<or> auth = Some []) \<and> token = Some t
      | _ \<Rightarrow> False)"

definition create_redeemed :: "token_env \<Rightarrow> string \<Rightarrow> gate_request \<Rightarrow> gate_answer \<Rightarrow> bool" where
  "create_redeemed env t r ans =
     (case (r, ans) of
        (CreateSandbox auth, CreatesFor a) \<Rightarrow> extract_bearer_token auth = Inr t \<and> \<not> looks_like_api_key env t
      | _ \<Rightarrow> False)"

lemma redeemedD:
  "takeover_redeemed t r ans \<Longrightarrow> \<exists>auth session a s ro i. r = OpenTakeover auth (Some t) session \<and> ans = TakeoverOpened a s ro i \<and>
     (auth = None \<or> auth = Some [])"
  "desktop_redeemed t r ans \<Longrightarrow> \<exists>auth session a s i. r = OpenDesktop auth (Some t) session \<and> ans = DesktopOpened a s i \<and>
     (auth = None \<or> auth = Some [])"
  "create_redeemed env t r ans \<Longrightarrow> \<exists>auth a. r = CreateSandbox auth \<and> ans = CreatesFor a \<and>
     extract_bearer_token auth = Inr t \<and> \<not> looks_like_api_key env t"
  by (auto simp: takeover_redeemed_def desktop_redeemed_def create_redeemed_def split: gate_request.splits gate_answer.splits)

text \<open>What a request leaves alone.\<close>

lemma resolve_key_frame: "resolve_key env now t g = (x, g') \<Longrightarrow> \<exists>ks. g' = g\<lparr>api_keys := ks\<rparr>"
  by (auto simp: resolve_key_def touch_key_def Let_def split: option.splits if_splits intro: exI [of _ "api_keys g"])

lemma account_and_key_frame: "account_and_key env now auth g = (x, g') \<Longrightarrow> \<exists>ks. g' = g\<lparr>api_keys := ks\<rparr>"
  using resolve_key_frame by (auto simp: account_and_key_def split: sum.splits intro: exI [of _ "api_keys g"])

lemma redeem_takeover_cases:
  assumes "redeem_takeover env t1 t2 t session g = (x, g')"
  shows "(g' = g \<and> (\<exists>e. x = Inl e)) \<or>
    (\<exists>p. jwt_open env t1 None t = Some p \<and> dict_get p ''session_id'' = Some (ClStr session) \<and>
       dict_get p ''type'' = Some (ClStr ''sandbox_takeover'') \<and>
       g' = g\<lparr>takeover_seen := snd (consume_jti t2 (claim_str p ''jti'') (claim_exp p) (takeover_seen g))\<rparr> \<and>
       (\<forall>a ro i. x = Inr (a, ro, i) \<longrightarrow>
          fst (consume_jti t2 (claim_str p ''jti'') (claim_exp p) (takeover_seen g)) \<and>
          live_tenant ''invalid_takeover_token'' (claim_str p ''account_id'') g' = Inr a \<and>
          ro = (dict_get p ''read_only'' = Some (ClBool True)) \<and> i = identity_of_token g' (tn_id a) p))"
  using assms
  by (auto simp: redeem_takeover_def decode_takeover_token_def open_typed_Some Let_def split: option.splits if_splits prod.splits sum.splits)

lemma redeem_desktop_cases:
  assumes "redeem_desktop env t1 t2 t session g = (x, g')"
  shows "(g' = g \<and> (\<exists>e. x = Inl e)) \<or>
    (\<exists>p. jwt_open env t1 None t = Some p \<and> dict_get p ''session_id'' = Some (ClStr session) \<and>
       dict_get p ''type'' = Some (ClStr ''sandbox_desktop'') \<and>
       g' = g\<lparr>desktop_seen := snd (consume_jti t2 (claim_str p ''jti'') (claim_exp p) (desktop_seen g))\<rparr> \<and>
       (\<forall>a i. x = Inr (a, i) \<longrightarrow>
          fst (consume_jti t2 (claim_str p ''jti'') (claim_exp p) (desktop_seen g)) \<and>
          live_tenant ''invalid_desktop_token'' (claim_str p ''account_id'') g' = Inr a))"
  using assms
  by (auto simp: redeem_desktop_def decode_desktop_token_def open_typed_Some Let_def split: option.splits if_splits prod.splits sum.splits)

text \<open>Which requests touch which table of used identifiers.\<close>

lemma account_for_creation_cases:
  assumes "account_for_creation env t1 t2 auth g = (x, g')"
  shows "(\<exists>ks. g' = g\<lparr>api_keys := ks\<rparr>) \<and>
      (\<forall>t. extract_bearer_token auth = Inr t \<and> \<not> looks_like_api_key env t \<longrightarrow> (\<exists>e. x = Inl e)) \<or>
    (\<exists>t p. extract_bearer_token auth = Inr t \<and> \<not> looks_like_api_key env t \<and> jwt_open env t1 None t = Some p \<and>
       dict_get p ''type'' = Some (ClStr ''sandbox_create'') \<and>
       g' = g\<lparr>create_seen := snd (consume_jti t2 (claim_str p ''jti'') (claim_exp p) (create_seen g))\<rparr> \<and>
       (\<forall>a. x = Inr a \<longrightarrow>
          fst (consume_jti t2 (claim_str p ''jti'') (claim_exp p) (create_seen g)) \<and>
          live_tenant ''invalid_token'' (claim_str p ''account_id'') g' = Inr a))"
proof (cases "extract_bearer_token auth")
  case (Inr t)
  show ?thesis
  proof (cases "looks_like_api_key env t")
    case True
    then obtain y where "resolve_key env t1 t g = (y, g')"
      using assms Inr by (auto simp: account_for_creation_def split: prod.splits sum.splits)
    then show ?thesis using resolve_key_frame True Inr by auto
  next
    case False
    show ?thesis
    proof (cases "decode_sandbox_create_token env t1 t")
      case None
      then show ?thesis using assms Inr False by (auto simp: account_for_creation_def intro: exI [of _ "api_keys g"])
    next
      case (Some p)
      then have p: "jwt_open env t1 None t = Some p" "dict_get p ''type'' = Some (ClStr ''sandbox_create'')"
        unfolding decode_sandbox_create_token_def open_typed_Some by auto
      show ?thesis
      proof (cases "claim_str p ''jti'' = []")
        case True
        then show ?thesis using assms Inr False Some by (auto simp: account_for_creation_def intro: exI [of _ "api_keys g"])
      next
        case nonempty: False
        then show ?thesis using assms Inr False Some p
          by (auto simp: account_for_creation_def Let_def split: prod.splits if_splits)
      qed
    qed
  qed
qed (use assms in \<open>auto simp: account_for_creation_def intro: exI [of _ "api_keys g"]\<close>)

text \<open>A request that redeems nothing leaves the three tables alone.\<close>

definition same_seen :: "gate \<Rightarrow> gate \<Rightarrow> bool" where
  "same_seen g g' = (takeover_seen g' = takeover_seen g \<and> desktop_seen g' = desktop_seen g \<and> create_seen g' = create_seen g)"

lemma same_seen_api_keys [simp]: "same_seen g (g\<lparr>api_keys := ks\<rparr>)"
  by (simp add: same_seen_def)

lemma same_seen_refl [simp]: "same_seen g g"
  by (simp add: same_seen_def)

lemma account_and_key_seen: "account_and_key env now auth g = (x, g') \<Longrightarrow> same_seen g g'"
  using account_and_key_frame by fastforce

fun redeeming :: "gate_request \<Rightarrow> bool" where
  "redeeming (OpenTakeover auth token session) = True"
| "redeeming (OpenDesktop auth token session) = True"
| "redeeming (CreateSandbox auth) = True"
| "redeeming r = False"

lemma step_same_seen:
  assumes "gate_step env t1 t2 r g = (ans, g')" "\<not> redeeming r"
  shows "same_seen g g'"
proof (cases r)
  case (CreateKey auth name role i secret)
  then show ?thesis using assms(1) by (auto simp: create_api_key_def Let_def split: sum.splits)
next
  case (RevokeKey auth key)
  then show ?thesis using assms(1) by (auto simp: revoke_api_key_def split: sum.splits option.splits if_splits)
next
  case (MintTakeover auth session ro jti)
  then show ?thesis using assms(1)
    by (auto simp: mint_takeover_def dest: account_and_key_seen split: prod.splits sum.splits option.splits if_splits)
next
  case (MintDesktop auth session jti)
  then show ?thesis using assms(1)
    by (auto simp: mint_desktop_def dest: account_and_key_seen split: prod.splits sum.splits option.splits if_splits)
next
  case (MintCreate auth jti)
  then show ?thesis using assms(1) by (auto simp: mint_sandbox_create_def split: sum.splits)
next
  case (MintPreview auth session port ttl jti)
  then show ?thesis using assms(1)
    by (auto simp: mint_preview_def dest: account_and_key_seen split: prod.splits sum.splits option.splits if_splits)
next
  case (RevokePreview auth session port jti)
  then show ?thesis using assms(1)
    by (auto simp: revoke_preview_def same_seen_def dest!: account_and_key_seen split: prod.splits sum.splits option.splits if_splits)
qed (use assms in \<open>auto simp: same_seen_def\<close>)

definition header_given :: "string option \<Rightarrow> bool" where
  "header_given auth = (auth \<noteq> None \<and> auth \<noteq> Some [])"

lemma open_takeover_header:
  assumes "open_takeover env t1 t2 auth token session g = (ans, g')" "header_given auth"
  shows "\<exists>x. account_and_key env t1 auth g = (x, g') \<and>
    (\<forall>a s ro i. ans = TakeoverOpened a s ro i \<longrightarrow>
       (\<exists>k. x = Inr (a, k) \<and> can_initiate_takeover (ak_role k) \<and> active_session g' session (tn_id a) = Some s \<and> \<not> ro))"
  using assms by (auto simp: open_takeover_def header_given_def Let_def split: prod.splits sum.splits if_splits option.splits)

lemma open_takeover_token:
  assumes "open_takeover env t1 t2 auth token session g = (ans, g')" "\<not> header_given auth"
  shows "(g' = g \<and> ans = Closed 4401) \<or>
    (\<exists>t x. token = Some t \<and> redeem_takeover env t1 t2 t session g = (x, g') \<and>
      (\<forall>a s ro i. ans = TakeoverOpened a s ro i \<longrightarrow> x = Inr (a, ro, i) \<and> active_session g' session (tn_id a) = Some s))"
proof (cases token)
  case (Some t)
  obtain x g1 where x: "redeem_takeover env t1 t2 t session g = (x, g1)" by fastforce
  show ?thesis
  proof (cases "t = []")
    case False
    then show ?thesis using assms Some x
      by (cases x) (auto simp: open_takeover_def header_given_def Let_def split: option.splits)
  qed (use assms Some in \<open>auto simp: open_takeover_def header_given_def\<close>)
qed (use assms in \<open>auto simp: open_takeover_def header_given_def\<close>)

lemma open_desktop_header:
  assumes "open_desktop env t1 t2 auth token session g = (ans, g')" "header_given auth"
  shows "same_seen g g'"
  using assms
  by (auto simp: open_desktop_def header_given_def Let_def dest: account_and_key_seen
    split: prod.splits sum.splits if_splits option.splits)

lemma open_desktop_token:
  assumes "open_desktop env t1 t2 auth token session g = (ans, g')" "\<not> header_given auth"
  shows "(g' = g \<and> (\<exists>c. ans = Closed c)) \<or>
    (\<exists>t x. token = Some t \<and> redeem_desktop env t1 t2 t session g = (x, g') \<and>
      (\<forall>a s i. ans = DesktopOpened a s i \<longrightarrow> x = Inr (a, i) \<and> active_session g' session (tn_id a) = Some s))"
proof (cases token)
  case (Some t)
  obtain x g1 where x: "redeem_desktop env t1 t2 t session g = (x, g1)" by fastforce
  show ?thesis
  proof (cases "t = [] \<or> \<not> desktop_enabled env")
    case False
    then show ?thesis using assms Some x
      by (cases x) (auto simp: open_desktop_def header_given_def Let_def split: option.splits)
  qed (use assms Some in \<open>cases "desktop_enabled env"; auto simp: open_desktop_def header_given_def\<close>)
qed (use assms in \<open>auto simp: open_desktop_def header_given_def split: if_splits\<close>)

lemma consume_pair: "fst (consume_jti n j x s) \<Longrightarrow> s' = snd (consume_jti n j x s) \<Longrightarrow> consume_jti n j x s = (True, s')"
  by (cases "consume_jti n j x s") auto

text \<open>What the three redeeming requests do to the tables.\<close>

lemma redeem_takeover_seen:
  assumes "redeem_takeover env t1 t2 t session g = (x, g')"
  shows "\<exists>s. g' = g\<lparr>takeover_seen := s\<rparr> \<and> (s = takeover_seen g \<or> (\<exists>j e. s = snd (consume_jti t2 j e (takeover_seen g))))"
  using redeem_takeover_cases [OF assms]
proof (elim disjE exE conjE)
  assume "g' = g"
  then show ?thesis by (intro exI [of _ "takeover_seen g"]) simp
qed blast

lemma redeem_desktop_seen:
  assumes "redeem_desktop env t1 t2 t session g = (x, g')"
  shows "\<exists>s. g' = g\<lparr>desktop_seen := s\<rparr> \<and> (s = desktop_seen g \<or> (\<exists>j e. s = snd (consume_jti t2 j e (desktop_seen g))))"
  using redeem_desktop_cases [OF assms]
proof (elim disjE exE conjE)
  assume "g' = g"
  then show ?thesis by (intro exI [of _ "desktop_seen g"]) simp
qed blast

lemma takeover_step_seen:
  assumes "open_takeover env t1 t2 auth token session g = (ans, g')"
  shows "desktop_seen g' = desktop_seen g \<and> create_seen g' = create_seen g \<and>
    (takeover_seen g' = takeover_seen g \<or> (\<exists>j x. takeover_seen g' = snd (consume_jti t2 j x (takeover_seen g))))"
proof (cases "header_given auth")
  case True
  then obtain x where "account_and_key env t1 auth g = (x, g')" using open_takeover_header [OF assms] by blast
  then show ?thesis using account_and_key_seen unfolding same_seen_def by blast
next
  case False
  from open_takeover_token [OF assms False] consider "g' = g" | t x where "redeem_takeover env t1 t2 t session g = (x, g')" by blast
  then show ?thesis
  proof cases
    case 2
    then obtain s where "g' = g\<lparr>takeover_seen := s\<rparr>" "s = takeover_seen g \<or> (\<exists>j e. s = snd (consume_jti t2 j e (takeover_seen g)))"
      using redeem_takeover_seen by blast
    then show ?thesis by simp
  qed simp
qed

lemma desktop_step_seen:
  assumes "open_desktop env t1 t2 auth token session g = (ans, g')"
  shows "takeover_seen g' = takeover_seen g \<and> create_seen g' = create_seen g \<and>
    (desktop_seen g' = desktop_seen g \<or> (\<exists>j x. desktop_seen g' = snd (consume_jti t2 j x (desktop_seen g))))"
proof (cases "header_given auth")
  case True
  then show ?thesis using open_desktop_header [OF assms] unfolding same_seen_def by blast
next
  case False
  from open_desktop_token [OF assms False] consider "g' = g" | t x where "redeem_desktop env t1 t2 t session g = (x, g')" by blast
  then show ?thesis
  proof cases
    case 2
    then obtain s where "g' = g\<lparr>desktop_seen := s\<rparr>" "s = desktop_seen g \<or> (\<exists>j e. s = snd (consume_jti t2 j e (desktop_seen g)))"
      using redeem_desktop_seen by blast
    then show ?thesis by simp
  qed simp
qed

lemma create_step_seen:
  assumes "create_sandbox_auth env t1 t2 auth g = (ans, g')"
  shows "takeover_seen g' = takeover_seen g \<and> desktop_seen g' = desktop_seen g \<and>
    (create_seen g' = create_seen g \<or> (\<exists>j x. create_seen g' = snd (consume_jti t2 j x (create_seen g))))"
proof -
  obtain x where x: "account_for_creation env t1 t2 auth g = (x, g')"
    using assms by (auto simp: create_sandbox_auth_def split: prod.splits sum.splits)
  from account_for_creation_cases [OF x] consider ks where "g' = g\<lparr>api_keys := ks\<rparr>"
    | p where "g' = g\<lparr>create_seen := snd (consume_jti t2 (claim_str p ''jti'') (claim_exp p) (create_seen g))\<rparr>" by blast
  then show ?thesis by cases (simp, simp, blast)
qed

lemma step_seen:
  assumes "gate_step env t1 t2 r g = (ans, g')"
  shows "takeover_seen g' = takeover_seen g \<or> (\<exists>j x. takeover_seen g' = snd (consume_jti t2 j x (takeover_seen g)))"
    "desktop_seen g' = desktop_seen g \<or> (\<exists>j x. desktop_seen g' = snd (consume_jti t2 j x (desktop_seen g)))"
    "create_seen g' = create_seen g \<or> (\<exists>j x. create_seen g' = snd (consume_jti t2 j x (create_seen g)))"
  using assms step_same_seen [OF assms] takeover_step_seen desktop_step_seen create_step_seen
  by (cases r; (auto simp: same_seen_def; blast))+

lemma takeover_redeems:
  assumes "gate_step env t1 t2 r g = (ans, g')" "takeover_redeemed t r ans"
  shows "\<exists>p. jwt_open env t1 None t = Some p \<and> dict_get p ''type'' = Some (ClStr ''sandbox_takeover'') \<and>
    consume_jti t2 (claim_str p ''jti'') (claim_exp p) (takeover_seen g) = (True, takeover_seen g')"
proof -
  obtain auth session a s ro i where r: "r = OpenTakeover auth (Some t) session" "ans = TakeoverOpened a s ro i" "\<not> header_given auth"
    using redeemedD(1) [OF assms(2)] unfolding header_given_def by blast
  then have "open_takeover env t1 t2 auth (Some t) session g = (ans, g')" using assms(1) by simp
  from open_takeover_token [OF this r(3)] have x: "redeem_takeover env t1 t2 t session g = (Inr (a, ro, i), g')"
    using r(2) by (cases i) auto
  from redeem_takeover_cases [OF x] obtain p where "jwt_open env t1 None t = Some p" "dict_get p ''type'' = Some (ClStr ''sandbox_takeover'')"
      "fst (consume_jti t2 (claim_str p ''jti'') (claim_exp p) (takeover_seen g))"
      "g' = g\<lparr>takeover_seen := snd (consume_jti t2 (claim_str p ''jti'') (claim_exp p) (takeover_seen g))\<rparr>" by blast
  then show ?thesis by (intro exI [of _ p]) (auto intro: consume_pair)
qed

lemma desktop_redeems:
  assumes "gate_step env t1 t2 r g = (ans, g')" "desktop_redeemed t r ans"
  shows "\<exists>p. jwt_open env t1 None t = Some p \<and> dict_get p ''type'' = Some (ClStr ''sandbox_desktop'') \<and>
    consume_jti t2 (claim_str p ''jti'') (claim_exp p) (desktop_seen g) = (True, desktop_seen g')"
proof -
  obtain auth session a s i where r: "r = OpenDesktop auth (Some t) session" "ans = DesktopOpened a s i" "\<not> header_given auth"
    using redeemedD(2) [OF assms(2)] unfolding header_given_def by blast
  then have "open_desktop env t1 t2 auth (Some t) session g = (ans, g')" using assms(1) by simp
  from open_desktop_token [OF this r(3)] have x: "redeem_desktop env t1 t2 t session g = (Inr (a, i), g')"
    using r(2) by (cases i) auto
  from redeem_desktop_cases [OF x] obtain p where "jwt_open env t1 None t = Some p" "dict_get p ''type'' = Some (ClStr ''sandbox_desktop'')"
      "fst (consume_jti t2 (claim_str p ''jti'') (claim_exp p) (desktop_seen g))"
      "g' = g\<lparr>desktop_seen := snd (consume_jti t2 (claim_str p ''jti'') (claim_exp p) (desktop_seen g))\<rparr>" by blast
  then show ?thesis by (intro exI [of _ p]) (auto intro: consume_pair)
qed

lemma create_redeems:
  assumes "gate_step env t1 t2 r g = (ans, g')" "create_redeemed env t r ans"
  shows "\<exists>p. jwt_open env t1 None t = Some p \<and> dict_get p ''type'' = Some (ClStr ''sandbox_create'') \<and>
    consume_jti t2 (claim_str p ''jti'') (claim_exp p) (create_seen g) = (True, create_seen g')"
proof -
  obtain auth a where r: "r = CreateSandbox auth" "ans = CreatesFor a" "extract_bearer_token auth = Inr t" "\<not> looks_like_api_key env t"
    using redeemedD(3) [OF assms(2)] by blast
  then have x: "account_for_creation env t1 t2 auth g = (Inr a, g')"
    using assms(1) by (auto simp: create_sandbox_auth_def split: prod.splits sum.splits)
  from account_for_creation_cases [OF x] r(3,4) obtain p where "jwt_open env t1 None t = Some p" "dict_get p ''type'' = Some (ClStr ''sandbox_create'')"
      "fst (consume_jti t2 (claim_str p ''jti'') (claim_exp p) (create_seen g))"
      "g' = g\<lparr>create_seen := snd (consume_jti t2 (claim_str p ''jti'') (claim_exp p) (create_seen g))\<rparr>" by auto
  then show ?thesis by (intro exI [of _ p]) (auto intro: consume_pair)
qed

interpretation takeover_guard: jti_guard env takeover_seen takeover_redeemed for env
  by unfold_locales (use step_seen(1) takeover_redeems in blast)+

interpretation desktop_guard: jti_guard env desktop_seen desktop_redeemed for env
  by unfold_locales (use step_seen(2) desktop_redeems in blast)+

interpretation create_guard: jti_guard env create_seen "create_redeemed env" for env
  by unfold_locales (use step_seen(3) create_redeems in blast)+

text \<open>The three kinds together: one token, one redemption.\<close>

definition redeemed_by :: "token_env \<Rightarrow> string \<Rightarrow> moment \<Rightarrow> bool" where
  "redeemed_by env t m =
     (case m of (g, t1, t2, r, ans) \<Rightarrow> takeover_redeemed t r ans \<or> desktop_redeemed t r ans \<or> create_redeemed env t r ans)"

text \<open>The clock does not pass the expiry of the token between the two times a request reads it.\<close>

definition in_time :: "token_env \<Rightarrow> string \<Rightarrow> moment \<Rightarrow> bool" where
  "in_time env t m =
     (case m of (g, t1, t2, r, ans) \<Rightarrow>
        case jwt_open env t1 None t of
          None \<Rightarrow> True
        | Some p \<Rightarrow> (case claim_exp p of None \<Rightarrow> False | Some e \<Rightarrow> t2 < e * 1000000))"

lemma in_time_guards:
  "in_time env t m \<Longrightarrow> jti_guard.on_time env redeems t m" if "jti_guard env seen redeems"
  using that by (cases m) (auto simp: in_time_def jti_guard.on_time_def split: option.splits)

lemma once_each:
  assumes "jwt_laws env" "clock_runs now rs" "list_all (in_time env t) (gate_trace env g rs)"
  shows "length (filter (takeover_guard.uses t) (gate_trace env g rs)) \<le> 1"
    "length (filter (desktop_guard.uses t) (gate_trace env g rs)) \<le> 1"
    "length (filter (create_guard.uses env t) (gate_trace env g rs)) \<le> 1"
proof -
  have all: "list_all (jti_guard.on_time env redeems t) (gate_trace env g rs)" if "jti_guard env seen redeems" for seen redeems
    using assms(3) in_time_guards [OF that] by (auto simp: list_all_iff)
  show "length (filter (takeover_guard.uses t) (gate_trace env g rs)) \<le> 1"
    by (rule takeover_guard.at_most_once [OF assms(1,2) all [OF takeover_guard.jti_guard_axioms]])
  show "length (filter (desktop_guard.uses t) (gate_trace env g rs)) \<le> 1"
    by (rule desktop_guard.at_most_once [OF assms(1,2) all [OF desktop_guard.jti_guard_axioms]])
  show "length (filter (create_guard.uses env t) (gate_trace env g rs)) \<le> 1"
    by (rule create_guard.at_most_once [OF assms(1,2) all [OF create_guard.jti_guard_axioms]])
qed

lemma redeemed_type:
  assumes "(g', t1, t2, r, ans) \<in> set (gate_trace env g rs)"
  shows "takeover_redeemed t r ans \<Longrightarrow> \<exists>p. jwt_open env t1 None t = Some p \<and> dict_get p ''type'' = Some (ClStr ''sandbox_takeover'')"
    "desktop_redeemed t r ans \<Longrightarrow> \<exists>p. jwt_open env t1 None t = Some p \<and> dict_get p ''type'' = Some (ClStr ''sandbox_desktop'')"
    "create_redeemed env t r ans \<Longrightarrow> \<exists>p. jwt_open env t1 None t = Some p \<and> dict_get p ''type'' = Some (ClStr ''sandbox_create'')"
proof -
  obtain past rest where "gate_trace env g rs = past @ (g', t1, t2, r, ans) # rest" using split_list [OF assms] by blast
  then obtain g2 where s: "gate_step env t1 t2 r g' = (ans, g2)" using trace_split by blast
  show "takeover_redeemed t r ans \<Longrightarrow> \<exists>p. jwt_open env t1 None t = Some p \<and> dict_get p ''type'' = Some (ClStr ''sandbox_takeover'')"
    using takeover_redeems [OF s] by blast
  show "desktop_redeemed t r ans \<Longrightarrow> \<exists>p. jwt_open env t1 None t = Some p \<and> dict_get p ''type'' = Some (ClStr ''sandbox_desktop'')"
    using desktop_redeems [OF s] by blast
  show "create_redeemed env t r ans \<Longrightarrow> \<exists>p. jwt_open env t1 None t = Some p \<and> dict_get p ''type'' = Some (ClStr ''sandbox_create'')"
    using create_redeems [OF s] by blast
qed

definition token_kind :: "token_env \<Rightarrow> string \<Rightarrow> string \<Rightarrow> moment \<Rightarrow> bool" where
  "token_kind env t typ m =
     (case m of (g, t1, t2, r, ans) \<Rightarrow>
        typ = ''sandbox_takeover'' \<and> takeover_redeemed t r ans \<or> typ = ''sandbox_desktop'' \<and> desktop_redeemed t r ans \<or>
        typ = ''sandbox_create'' \<and> create_redeemed env t r ans)"

lemma redeemed_kind: "redeemed_by env t m \<Longrightarrow> \<exists>typ. token_kind env t typ m"
  unfolding redeemed_by_def token_kind_def by (cases m) (simp only: prod.case, blast)

lemma kind_redeemed: "token_kind env t typ m \<Longrightarrow> redeemed_by env t m"
  by (cases m) (auto simp: redeemed_by_def token_kind_def)

lemma kind_type:
  "m \<in> set (gate_trace env g rs) \<Longrightarrow> token_kind env t typ m \<Longrightarrow>
     \<exists>n p. jwt_open env n None t = Some p \<and> dict_get p ''type'' = Some (ClStr typ)"
  using redeemed_type by (cases m) (fastforce simp: token_kind_def)

lemma kind_unique:
  assumes "jwt_laws env" "m \<in> set (gate_trace env g rs)" "m' \<in> set (gate_trace env g rs)"
    and "token_kind env t typ m" "token_kind env t typ' m'"
  shows "typ' = typ"
  using kind_type [OF assms(2,4)] kind_type [OF assms(3,5)] jwt_lawsD(2) [OF assms(1)] by fastforce

lemma kind_uses:
  "token_kind env t ''sandbox_takeover'' = takeover_guard.uses t"
  "token_kind env t ''sandbox_desktop'' = desktop_guard.uses t"
  "token_kind env t ''sandbox_create'' = create_guard.uses env t"
  by (auto simp: fun_eq_iff token_kind_def)

lemma kind_names:
  "token_kind env t typ m \<Longrightarrow> typ = ''sandbox_takeover'' \<or> typ = ''sandbox_desktop'' \<or> typ = ''sandbox_create''"
  by (cases m) (auto simp: token_kind_def)

section \<open>Behind a takeover stands an admin key\<close>

text \<open>The presented key is an unrevoked admin key of the account.\<close>

definition admin_key :: "token_env \<Rightarrow> string option \<Rightarrow> string \<Rightarrow> gate \<Rightarrow> bool" where
  "admin_key env auth account g =
     (case extract_bearer_token auth of
        Inl e \<Rightarrow> False
      | Inr t \<Rightarrow>
          (case key_active_by_hash g (sha256_hex env t) of
             None \<Rightarrow> False
           | Some k \<Rightarrow> ak_role k = ''admin'' \<and> ak_account k = account))"

definition admin_request :: "token_env \<Rightarrow> string \<Rightarrow> string \<Rightarrow> bool \<Rightarrow> moment \<Rightarrow> bool" where
  "admin_request env account session ro m =
     (case m of (g, t1, t2, r, ans) \<Rightarrow>
        case r of
          MintTakeover auth s ro' jti \<Rightarrow> s = session \<and> ro' = ro \<and> admin_key env auth account g
        | OpenTakeover auth token s \<Rightarrow> s = session \<and> ro = False \<and> header_given auth \<and> admin_key env auth account g
        | _ \<Rightarrow> False)"

definition answered_token :: "string \<Rightarrow> moment \<Rightarrow> bool" where
  "answered_token t m = (case m of (g, t1, t2, r, ans) \<Rightarrow> \<exists>jti. ans = Token t jti)"

lemma tenant_by_id_touch [simp]: "tenant_by_id (touch_key i n g) a = tenant_by_id g a"
  by (simp add: tenant_by_id_def touch_key_def)

lemma tenant_by_idD: "tenant_by_id g i = Some a \<Longrightarrow> tn_id a = i"
  by (auto simp: tenant_by_id_def find_Some_iff)

lemma resolve_key_ok:
  "resolve_key env now t g = (Inr (a, k), g') \<Longrightarrow>
     key_active_by_hash g (sha256_hex env t) = Some k \<and> tn_id a = ak_account k \<and> \<not> tn_deactivated a"
  by (auto simp: resolve_key_def Let_def dest: tenant_by_idD split: option.splits if_splits)

lemma account_and_key_ok:
  "account_and_key env now auth g = (Inr (a, k), g') \<Longrightarrow>
     \<exists>t. extract_bearer_token auth = Inr t \<and> key_active_by_hash g (sha256_hex env t) = Some k \<and> tn_id a = ak_account k \<and>
       \<not> tn_deactivated a"
  by (auto simp: account_and_key_def dest: resolve_key_ok split: sum.splits)

lemma admin_keyI:
  "account_and_key env now auth g = (Inr (a, k), g') \<Longrightarrow> can_initiate_takeover (ak_role k) \<Longrightarrow> admin_key env auth (tn_id a) g"
  using account_and_key_ok by (fastforce simp: admin_key_def can_initiate_takeover_def)

lemma active_sessionD: "active_session g i a = Some s \<Longrightarrow> s \<in> set (sandboxes g) \<and> sb_id s = i \<and> sb_account s = a \<and> \<not> sb_destroyed s"
  by (auto simp: active_session_def session_for_account_def find_Some_iff split: option.splits if_splits)

lemma mint_takeover_token:
  assumes "mint_takeover env t1 t2 auth session ro jti g = (Token t j, g')"
  shows "\<exists>account key. admin_key env auth account g \<and>
    t = jwt_sign env (takeover_claims account session ro key jti (takeover_ttl_seconds env) t1 t2)"
proof -
  obtain a k where k: "account_and_key env t1 auth g = (Inr (a, k), g')" "can_initiate_takeover (ak_role k)"
      "t = jwt_sign env (takeover_claims (tn_id a) session ro (Some (ak_id k)) jti (takeover_ttl_seconds env) t1 t2)"
    using assms by (auto simp: mint_takeover_def split: prod.splits sum.splits if_splits option.splits)
  then show ?thesis using admin_keyI by blast
qed

text \<open>Which tokens a request answers: signed, with the type of their kind.\<close>

lemma token_answer:
  assumes "gate_step env t1 t2 r g = (Token t j, g')"
  shows "\<exists>c typ. t = jwt_sign env c \<and> signed_as c typ \<and>
    (typ = ''sandbox_takeover'' \<longrightarrow> (\<exists>auth session ro jti account key. r = MintTakeover auth session ro jti \<and> admin_key env auth account g \<and>
        c = takeover_claims account session ro key jti (takeover_ttl_seconds env) t1 t2))"
proof (cases r)
  case (MintTakeover auth session ro jti)
  then have "mint_takeover env t1 t2 auth session ro jti g = (Token t j, g')" using assms by simp
  from mint_takeover_token [OF this] show ?thesis using MintTakeover signed_as.intros(3) by blast
next
  case (MintDesktop auth session jti)
  then have "\<exists>a key. t = jwt_sign env (desktop_claims a session key jti (desktop_ttl_seconds env) t1 t2)"
    using assms by (auto simp: mint_desktop_def split: prod.splits sum.splits if_splits option.splits)
  then show ?thesis using signed_as.intros(4) by fastforce
next
  case (MintCreate auth jti)
  then have "\<exists>a. t = jwt_sign env (sandbox_create_claims a jti (create_ttl_seconds env) t1 t2)"
    using assms by (auto simp: mint_sandbox_create_def split: sum.splits)
  then show ?thesis using signed_as.intros(6) by fastforce
next
  case (MintPreview auth session port ttl jti)
  then have "t = jwt_sign env (preview_claims session port jti ttl t1 t2)"
    using assms by (auto simp: mint_preview_def split: prod.splits sum.splits if_splits option.splits)
  then show ?thesis using signed_as.intros(2) by fastforce
next
  case (SignIn a)
  then show ?thesis using assms signed_as.intros(1) by fastforce
qed (use assms in \<open>auto simp: create_api_key_def revoke_api_key_def revoke_preview_def use_preview_def open_takeover_def open_desktop_def
  create_sandbox_auth_def Let_def split: prod.splits sum.splits if_splits option.splits\<close>)

lemma token_behind_takeover:
  assumes laws: "jwt_laws env" and step: "gate_step env u1 u2 q g0 = (ans0, g0')" and ans: "answered_token t (g0, u1, u2, q, ans0)"
    and p: "jwt_open env n None t = Some p" "dict_get p ''type'' = Some (ClStr ''sandbox_takeover'')"
    and sid: "dict_get p ''session_id'' = Some (ClStr session)"
  shows "admin_request env (claim_str p ''account_id'') session (dict_get p ''read_only'' = Some (ClBool True)) (g0, u1, u2, q, ans0)"
proof -
  obtain j where "ans0 = Token t j" using ans by (auto simp: answered_token_def)
  then obtain c kind where c: "t = jwt_sign env c" "signed_as c kind"
      "kind = ''sandbox_takeover'' \<longrightarrow> (\<exists>auth session ro jti account key. q = MintTakeover auth session ro jti \<and>
         admin_key env auth account g0 \<and> c = takeover_claims account session ro key jti (takeover_ttl_seconds env) u1 u2)"
    using token_answer step by blast
  have "p = c" using jwt_lawsD(1) [OF laws] p(1) c(1) by blast
  then have "kind = ''sandbox_takeover''" using signed_type [OF c(2)] p(2) by simp
  then obtain auth session' ro jti account key where q: "q = MintTakeover auth session' ro jti" "admin_key env auth account g0"
      "c = takeover_claims account session' ro key jti (takeover_ttl_seconds env) u1 u2" using c(3) by blast
  then show ?thesis using sid \<open>p = c\<close> by (simp add: admin_request_def takeover_claims_def claim_str_def)
qed

lemma live_tenantD: "live_tenant code i g = Inr a \<Longrightarrow> tn_id a = i \<and> \<not> tn_deactivated a"
  by (auto simp: live_tenant_def dest: tenant_by_idD split: option.splits if_splits)

text \<open>C39: whenever a takeover of a sandbox is opened, the session is an active one of a live account, and an unrevoked
  admin key of that very account stands behind it: either the header of this request presents it, or
  an earlier request that presented it was answered with the token, for this session and with this
  access mode. It is assumed that tokens are not forged: a token that opens was given out before.\<close>

theorem takeover_needs_admin_key:
  assumes "jwt_laws env"
    and "gate_trace env g rs = past @ (g1, t1, t2, OpenTakeover auth token session, TakeoverOpened a s ro i) # rest"
    and "\<And>t. token = Some t \<Longrightarrow> jwt_open env t1 None t \<noteq> None \<Longrightarrow> list_ex (answered_token t) past"
  shows "s \<in> set (sandboxes g1) \<and> sb_id s = session \<and> sb_account s = tn_id a \<and> \<not> sb_destroyed s \<and> \<not> tn_deactivated a \<and>
    list_ex (admin_request env (tn_id a) session ro)
      (past @ [(g1, t1, t2, OpenTakeover auth token session, TakeoverOpened a s ro i)])"
proof -
  obtain g2 before where op: "open_takeover env t1 t2 auth token session g1 = (TakeoverOpened a s ro i, g2)"
      and before: "past = gate_trace env g before"
    using trace_split [OF assms(2)] by auto
  show ?thesis
  proof (cases "header_given auth")
    case True
    obtain k where k: "account_and_key env t1 auth g1 = (Inr (a, k), g2)" "can_initiate_takeover (ak_role k)"
        "active_session g2 session (tn_id a) = Some s" "\<not> ro"
      using open_takeover_header [OF op True] by (cases i) auto
    moreover have "sandboxes g2 = sandboxes g1" using account_and_key_frame [OF k(1)] by auto
    ultimately show ?thesis
      using active_sessionD [OF k(3)] account_and_key_ok [OF k(1)] admin_keyI [OF k(1,2)] True by (auto simp: admin_request_def)
  next
    case False
    then obtain t where t: "token = Some t" "redeem_takeover env t1 t2 t session g1 = (Inr (a, ro, i), g2)"
        "active_session g2 session (tn_id a) = Some s"
      using open_takeover_token [OF op False] by (cases i) auto
    from redeem_takeover_cases [OF t(2)] obtain p where p: "jwt_open env t1 None t = Some p"
        "dict_get p ''type'' = Some (ClStr ''sandbox_takeover'')" "dict_get p ''session_id'' = Some (ClStr session)"
        "live_tenant ''invalid_takeover_token'' (claim_str p ''account_id'') g2 = Inr a"
        "ro = (dict_get p ''read_only'' = Some (ClBool True))" "sandboxes g2 = sandboxes g1"
      by (cases i) auto
    obtain m where m: "m \<in> set past" "answered_token t m" using assms(3) [OF t(1)] p(1) by (auto simp: list_ex_iff)
    obtain g0 u1 u2 q ans0 where m_eq: "m = (g0, u1, u2, q, ans0)" by (cases m)
    obtain xs ys where "gate_trace env g before = xs @ (g0, u1, u2, q, ans0) # ys"
      using split_list [OF m(1)] unfolding before m_eq by blast
    then obtain g0' where "gate_step env u1 u2 q g0 = (ans0, g0')" using trace_split by blast
    from token_behind_takeover [OF assms(1) this _ p(1-3)] m(2) m_eq
    have "admin_request env (claim_str p ''account_id'') session ro m" by (simp add: p(5))
    then show ?thesis
      using m(1) active_sessionD [OF t(3)] live_tenantD [OF p(4)] p(6) by (auto simp: list_ex_iff)
  qed
qed

section \<open>Revoked preview links\<close>

text \<open>Every denylist row of the identifier outlives the given time, and there is one.\<close>

definition rows_until :: "int \<Rightarrow> string \<Rightarrow> revoked_preview list \<Rightarrow> bool" where
  "rows_until e jti rows = list_all (\<lambda>r. rp_jti r = jti \<longrightarrow> e \<le> rp_expires r) rows"

definition denied :: "string \<Rightarrow> revoked_preview list \<Rightarrow> bool" where
  "denied jti rows = list_ex (\<lambda>r. rp_jti r = jti) rows"

lemma denied_is_revoked: "denied jti (revoked_previews g) \<Longrightarrow> jti \<noteq> [] \<Longrightarrow> is_revoked g jti"
  by (simp add: denied_def is_revoked_def)

lemma revoke_jti_rows: "rows_until e jti rows \<Longrightarrow> e \<le> x \<Longrightarrow> rows_until e jti (revoke_jti now j x rows)"
  by (auto simp: rows_until_def revoke_jti_def Let_def list_all_iff)

lemma revoke_jti_denied:
  "rows_until e jti rows \<Longrightarrow> denied jti rows \<Longrightarrow> now \<le> e \<Longrightarrow> denied jti (revoke_jti now j x rows)"
  by (fastforce simp: rows_until_def denied_def revoke_jti_def Let_def list_all_iff list_ex_iff)

lemma revoke_jti_adds: "denied jti (revoke_jti now jti x rows)"
  by (auto simp: denied_def revoke_jti_def Let_def list_ex_iff)

lemma revoke_preview_cases:
  assumes "revoke_preview env t1 t2 auth session port jti g = (ans, g')"
  shows "(revoked_previews g' = revoked_previews g \<and> ans \<noteq> Done) \<or>
    revoked_previews g' = revoke_jti t2 jti (after_seconds t1 preview_max_ttl_seconds) (revoked_previews g)"
proof -
  obtain x g1 where k: "account_and_key env t1 auth g = (x, g1)" by fastforce
  then obtain ks where "g1 = g\<lparr>api_keys := ks\<rparr>" using account_and_key_frame by blast
  then show ?thesis using assms k
    by (cases x) (auto simp: revoke_preview_def split: option.splits)
qed

lemma step_revoked:
  assumes "gate_step env t1 t2 r g = (ans, g')"
  shows "revoked_previews g' = revoked_previews g \<or> (\<exists>auth session port jti. r = RevokePreview auth session port jti)"
proof (cases "\<exists>auth session port jti. r = RevokePreview auth session port jti")
  case other: False
  have key: "revoked_previews g2 = revoked_previews g" if "account_and_key env t1 auth g = (x, g2)" for auth x g2
    using account_and_key_frame [OF that] by auto
  have "revoked_previews g' = revoked_previews g"
  proof (cases r)
    case (OpenTakeover auth token session)
    then have op: "open_takeover env t1 t2 auth token session g = (ans, g')" using assms by simp
    show ?thesis
    proof (cases "header_given auth")
      case True
      then show ?thesis using open_takeover_header [OF op] key by blast
    next
      case False
      then show ?thesis using open_takeover_token [OF op] redeem_takeover_seen by fastforce
    qed
  next
    case (OpenDesktop auth token session)
    then have op: "open_desktop env t1 t2 auth token session g = (ans, g')" using assms by simp
    show ?thesis
    proof (cases "header_given auth")
      case True
      then show ?thesis using op
        by (auto simp: open_desktop_def header_given_def Let_def dest: key split: prod.splits sum.splits if_splits option.splits)
    next
      case False
      then show ?thesis using open_desktop_token [OF op] redeem_desktop_seen by fastforce
    qed
  next
    case (CreateSandbox auth)
    then obtain x where x: "account_for_creation env t1 t2 auth g = (x, g')"
      using assms by (auto simp: create_sandbox_auth_def split: prod.splits sum.splits)
    from account_for_creation_cases [OF x] show ?thesis by fastforce
  qed (use assms other in \<open>auto simp: create_api_key_def revoke_api_key_def mint_takeover_def mint_desktop_def mint_preview_def
    mint_sandbox_create_def Let_def dest: key split: prod.splits sum.splits if_splits option.splits\<close>)
  then show ?thesis by simp
qed simp

lemma step_rows:
  assumes "gate_step env t1 t2 r g = (ans, g')" "rows_until e jti (revoked_previews g)" "e \<le> after_seconds t1 preview_max_ttl_seconds"
  shows "rows_until e jti (revoked_previews g')"
  using step_revoked [OF assms(1)]
proof (elim disjE exE)
  fix auth session port j
  assume "r = RevokePreview auth session port j"
  then show ?thesis
    using revoke_preview_cases [of env t1 t2 auth session port j g ans g'] revoke_jti_rows [OF assms(2,3)] assms(1,2) by auto
qed (use assms(2) in simp)

lemma step_denied:
  assumes "gate_step env t1 t2 r g = (ans, g')" "rows_until e jti (revoked_previews g)" "denied jti (revoked_previews g)" "t2 \<le> e"
  shows "denied jti (revoked_previews g')"
  using step_revoked [OF assms(1)]
proof (elim disjE exE)
  fix auth session port j
  assume "r = RevokePreview auth session port j"
  then show ?thesis
    using revoke_preview_cases [of env t1 t2 auth session port j g ans g'] revoke_jti_denied [OF assms(2-4)] assms(1,3) by auto
qed (use assms(3) in simp)

lemma later_limit: "u \<le> t \<Longrightarrow> e \<le> after_seconds u s \<Longrightarrow> e \<le> after_seconds t s"
  by (simp add: after_seconds_def)

lemma rows_along:
  assumes "rows_until e jti (revoked_previews g)" "clock_runs u rs" "e \<le> after_seconds u preview_max_ttl_seconds"
    and "(g', t1, t2, r, ans) \<in> set (gate_trace env g rs)"
  shows "rows_until e jti (revoked_previews g')"
  using assms
proof (induction rs arbitrary: g u)
  case (Cons x rs)
  obtain a b q where x: "x = (a, b, q)" by (cases x)
  obtain ans' g1 where s: "gate_step env a b q g = (ans', g1)" by fastforce
  have "rows_until e jti (revoked_previews g1)" "clock_runs b rs" "e \<le> after_seconds b preview_max_ttl_seconds"
    using step_rows [OF s] Cons.prems x later_limit [of u a e] later_limit [of u b e] by auto
  then show ?case using Cons.IH [of g1 b] Cons.prems(1,4) x s by auto
qed simp

lemma denied_along:
  assumes "rows_until e jti (revoked_previews g)" "denied jti (revoked_previews g)" "clock_runs u rs"
    and "e \<le> after_seconds u preview_max_ttl_seconds" "(g', t1, t2, r, ans) \<in> set (gate_trace env g rs)" "t1 < e"
  shows "denied jti (revoked_previews g')"
  using assms(1-5)
proof (induction rs arbitrary: g u)
  case (Cons x rs)
  obtain a b q where x: "x = (a, b, q)" by (cases x)
  obtain ans' g1 where s: "gate_step env a b q g = (ans', g1)" by fastforce
  have k: "rows_until e jti (revoked_previews g1)" "clock_runs b rs" "e \<le> after_seconds b preview_max_ttl_seconds"
    using step_rows [OF s] Cons.prems x later_limit [of u a e] later_limit [of u b e] by auto
  show ?case
  proof (cases "(g', t1, t2, r, ans) = (g, a, b, q, ans')")
    case False
    then have mem: "(g', t1, t2, r, ans) \<in> set (gate_trace env g1 rs)" using Cons.prems(5) x s by auto
    then have "b \<le> t1" using clock_after [OF k(2)] by blast
    then have "denied jti (revoked_previews g1)" using step_denied [OF s Cons.prems(1,2)] assms(6) by simp
    then show ?thesis using Cons.IH [OF k(1) _ k(2,3) mem] by simp
  qed (use Cons.prems(2) in simp)
qed simp

definition proxies :: "string \<Rightarrow> moment \<Rightarrow> bool" where
  "proxies t m = (case m of (g, t1, t2, r, ans) \<Rightarrow>
     (case (r, ans) of (UsePreview session port t', Proxied s q) \<Rightarrow> t' = t | _ \<Rightarrow> False))"

lemma mint_preview_ok:
  assumes "mint_preview env u1 u2 auth session port ttl jti g = (Token t j, g')"
  shows "t = jwt_sign env (preview_claims session port jti ttl u1 u2)" "ttl \<le> preview_max_ttl_seconds"
    "revoked_previews g' = revoked_previews g"
proof -
  obtain a k where k: "account_and_key env u1 auth g = (Inr (a, k), g')"
      "t = jwt_sign env (preview_claims session port jti ttl u1 u2)" "ttl \<le> preview_max_ttl_seconds"
    using assms by (auto simp: mint_preview_def split: prod.splits sum.splits if_splits option.splits)
  then show "t = jwt_sign env (preview_claims session port jti ttl u1 u2)" "ttl \<le> preview_max_ttl_seconds"
    "revoked_previews g' = revoked_previews g"
    using account_and_key_frame [OF k(1)] by auto
qed

lemma proxied_fresh:
  assumes "jwt_laws env" "t = jwt_sign env (preview_claims session port jti ttl u1 u2)" "ttl \<le> preview_max_ttl_seconds" "jti \<noteq> []"
    and "use_preview env now s q t g = Proxied s' q'"
  shows "now < after_seconds u1 preview_max_ttl_seconds \<and> \<not> denied jti (revoked_previews g)"
proof -
  obtain p where p: "jwt_open env now None t = Some p" "\<not> is_revoked g (claim_str p ''jti'')"
    using assms(5) by (auto simp: use_preview_def decode_preview_token_def open_typed_Some split: option.splits if_splits)
  then have c: "p = preview_claims session port jti ttl u1 u2" using jwt_lawsD(1) [OF assms(1)] assms(2) by blast
  have "now < epoch_seconds (after_seconds u1 ttl) * 1000000"
    by (rule jwt_lawsD(3) [OF assms(1) p(1)]) (simp add: c preview_claims_def times_def)
  also have "\<dots> \<le> after_seconds u1 ttl" by (simp add: epoch_seconds_def)
  also have "\<dots> \<le> after_seconds u1 preview_max_ttl_seconds" using assms(3) by (simp add: after_seconds_def)
  finally show ?thesis using p(2) denied_is_revoked [of jti g] assms(4) by (auto simp: c preview_claims_def claim_str_def)
qed

text \<open>C40: once the owner of a session revokes a preview link, no later request through that link reaches the sandbox,
  for as long as the link would otherwise live: the denylist keeps its row, through every pruning of
  expired rows, at least until the token itself has expired. The identifier of the link is non-empty
  and was not on the denylist when the link was minted; the clock is monotone.\<close>

theorem revoked_previews_stay_revoked:
  assumes "jwt_laws env" "clock_runs now rs" "jti \<noteq> []"
    and "gate_trace env g rs = past @ (g0, u1, u2, MintPreview auth session port ttl jti, Token t jti) # between @
           (g1, v1, v2, RevokePreview auth' session' port' jti, Done) # rest"
    and "\<not> denied jti (revoked_previews g0)"
  shows "\<not> list_ex (proxies t) rest"
proof
  assume "list_ex (proxies t) rest"
  then obtain m where m: "m \<in> set rest" "proxies t m" by (auto simp: list_ex_iff)
  obtain before after g0' where mint: "rs = before @ (u1, u2, MintPreview auth session port ttl jti) # after"
      "mint_preview env u1 u2 auth session port ttl jti g0 = (Token t jti, g0')"
      "between @ (g1, v1, v2, RevokePreview auth' session' port' jti, Done) # rest = gate_trace env g0' after"
    using trace_split [OF assms(4)] by auto
  obtain b2 a2 g2 where rev: "after = b2 @ (v1, v2, RevokePreview auth' session' port' jti) # a2"
      "revoke_preview env v1 v2 auth' session' port' jti g1 = (Done, g2)" "rest = gate_trace env g2 a2"
    using trace_split [OF mint(3) [symmetric]] by auto
  define e where "e = after_seconds u1 preview_max_ttl_seconds"
  have clock: "u1 \<le> u2" "clock_runs u2 after" using clock_append assms(2) mint(1) by blast+
  have clock2: "v1 \<le> v2" "clock_runs v2 a2" using clock_append clock(2) rev(1) by blast+
  have lim: "e \<le> after_seconds u2 preview_max_ttl_seconds" using later_limit [OF clock(1)] e_def by simp
  have rev_mem: "(g1, v1, v2, RevokePreview auth' session' port' jti, Done) \<in> set (gate_trace env g0' after)"
    unfolding mint(3) [symmetric] by simp
  have "rows_until e jti (revoked_previews g0')"
    using assms(5) mint_preview_ok(3) [OF mint(2)] by (auto simp: rows_until_def denied_def list_all_iff list_ex_iff)
  then have "rows_until e jti (revoked_previews g1)" by (rule rows_along [OF _ clock(2) lim rev_mem])
  moreover have "u2 \<le> v1" using clock_after [OF clock(2) rev_mem] by simp
  ultimately have after: "rows_until e jti (revoked_previews g2)" "denied jti (revoked_previews g2)"
      "e \<le> after_seconds v2 preview_max_ttl_seconds"
    using revoke_preview_cases [OF rev(2)] revoke_jti_rows [of e jti] revoke_jti_adds [of jti] later_limit [OF _ lim, of v1]
      later_limit [OF _ lim, of v2] clock2(1) by auto
  obtain g3 w1 w2 s q s' q' where use: "m = (g3, w1, w2, UsePreview s q t, Proxied s' q')"
    using m(2) by (cases m) (auto simp: proxies_def split: gate_request.splits gate_answer.splits)
  then have mem: "(g3, w1, w2, UsePreview s q t, Proxied s' q') \<in> set (gate_trace env g2 a2)" using m(1) rev(3) by simp
  obtain xs ys where "gate_trace env g2 a2 = xs @ (g3, w1, w2, UsePreview s q t, Proxied s' q') # ys" using split_list [OF mem] by blast
  then obtain g4 where "gate_step env w1 w2 (UsePreview s q t) g3 = (Proxied s' q', g4)" using trace_split by blast
  then have "use_preview env w1 s q t g3 = Proxied s' q'" by auto
  from proxied_fresh [OF assms(1) mint_preview_ok(1,2) [OF mint(2)] assms(3) this]
  have "w1 < e \<and> \<not> denied jti (revoked_previews g3)" unfolding e_def .
  then show False using denied_along [OF after(1,2) clock2(2) after(3) mem] by simp
qed

text \<open>C38: a takeover, desktop or sandbox-creation token is redeemed at most once in any sequence of requests, and
  never as a token of another kind: whatever other requests run in between, at most one of the
  requests that present it opens a takeover, opens a desktop or creates a sandbox. The clock is
  monotone and does not pass the token's expiry between the two times a request reads it.\<close>

theorem redeemed_once:
  assumes "jwt_laws env" "clock_runs now rs" "list_all (in_time env t) (gate_trace env g rs)"
  shows "length (filter (redeemed_by env t) (gate_trace env g rs)) \<le> 1"
proof (cases "\<exists>m\<in>set (gate_trace env g rs). redeemed_by env t m")
  case True
  then obtain m kind where m: "m \<in> set (gate_trace env g rs)" "token_kind env t kind m" using redeemed_kind by blast
  then have "filter (redeemed_by env t) (gate_trace env g rs) = filter (token_kind env t kind) (gate_trace env g rs)"
    by (intro filter_cong refl) (metis kind_redeemed kind_unique [OF assms(1)] redeemed_kind)
  then show ?thesis using kind_names [OF m(2)] once_each [OF assms] by (auto simp: kind_uses)
next
  case False
  then have "filter (redeemed_by env t) (gate_trace env g rs) = []" by (simp add: filter_empty_conv)
  then show ?thesis by simp
qed

section \<open>Instances\<close>

text \<open>A server that has signed one takeover token and one preview link, at time 0.\<close>

definition sample_takeover :: claim_set where
  "sample_takeover = takeover_claims ''acct'' ''box'' False (Some ''key'') ''j1'' 60 0 0"

definition sample_preview :: claim_set where
  "sample_preview = preview_claims ''box'' 8080 ''j2'' 3600 0 0"

definition sample_env :: token_env where
  "sample_env = \<lparr>jwt_sign = (\<lambda>c. if c = sample_takeover then ''t1'' else if c = sample_preview then ''t2'' else []),
     jwt_open = (\<lambda>now aud t. if t = ''t1'' \<and> now < 60000000 then Some sample_takeover
       else if t = ''t2'' \<and> now < 3600000000 then Some sample_preview else None),
     sha256_hex = id, api_key_prefix = ''bxk'', access_ttl_minutes = 60, takeover_ttl_seconds = 60, desktop_ttl_seconds = 60,
     create_ttl_seconds = 60, desktop_enabled = True\<rparr>"

definition sample_gate :: gate where
  "sample_gate = \<lparr>tenants = [\<lparr>tn_id = ''acct'', tn_email = ''a@b'', tn_admin = False, tn_deactivated = False\<rparr>],
     api_keys = [\<lparr>ak_id = ''key'', ak_account = ''acct'', ak_name = ''ci'', ak_hash = ''bxk_s'', ak_role = ''admin'',
       ak_revoked = False, ak_last_used = None\<rparr>],
     sandboxes = [\<lparr>sb_id = ''box'', sb_account = ''acct'', sb_destroyed = False\<rparr>],
     revoked_previews = [], takeover_seen = [], desktop_seen = [], create_seen = [], admin_log = []\<rparr>"

lemma sample_laws: "jwt_laws sample_env"
proof -
  have ne: "sample_takeover \<noteq> sample_preview" by (simp add: sample_takeover_def sample_preview_def takeover_claims_def preview_claims_def)
  have e: "dict_get sample_takeover ''exp'' = Some (ClNum 60)" "dict_get sample_preview ''exp'' = Some (ClNum 3600)"
    by (simp_all add: sample_takeover_def sample_preview_def takeover_claims_def preview_claims_def times_def epoch_seconds_def after_seconds_def)
  show ?thesis unfolding jwt_laws_def using ne e by (auto simp: sample_env_def split: if_splits)
qed

definition bearer :: "string option" where
  "bearer = Some ''Bearer bxk_s''"

definition sample_requests :: "(int \<times> int \<times> gate_request) list" where
  "sample_requests = [(0, 0, MintTakeover bearer ''box'' False ''j1''),
     (10, 11, OpenTakeover None (Some ''t1'') ''box''),
     (20, 21, OpenTakeover None (Some ''t1'') ''box'')]"

definition sample_previews :: "(int \<times> int \<times> gate_request) list" where
  "sample_previews = [(0, 0, MintPreview bearer ''box'' 8080 3600 ''j2''),
     (10, 10, UsePreview ''box'' 8080 ''t2''),
     (20, 21, RevokePreview bearer ''box'' 8080 ''j2''),
     (30, 30, UsePreview ''box'' 8080 ''t2'')]"

definition in_box :: sandbox_row where
  "in_box = \<lparr>sb_id = ''box'', sb_account = ''acct'', sb_destroyed = False\<rparr>"

definition the_tenant :: tenant where
  "the_tenant = \<lparr>tn_id = ''acct'', tn_email = ''a@b'', tn_admin = False, tn_deactivated = False\<rparr>"

definition minted :: gate where
  "minted = snd (gate_step sample_env 0 0 (MintTakeover bearer ''box'' False ''j1'') sample_gate)"

definition opened :: moment where
  "opened = (minted, 10, 11, OpenTakeover None (Some ''t1'') ''box'', TakeoverOpened the_tenant in_box False (Some ''key'', Some ''ci''))"

lemma sample_takeover_trace:
  "gate_trace sample_env sample_gate (take 2 sample_requests) =
     [(sample_gate, 0, 0, MintTakeover bearer ''box'' False ''j1'', Token ''t1'' ''j1''), opened]"
  by code_simp

lemma sample_split:
  "gate_trace sample_env sample_gate (take 2 sample_requests) =
     [(sample_gate, 0, 0, MintTakeover bearer ''box'' False ''j1'', Token ''t1'' ''j1'')] @
     (minted, 10, 11, OpenTakeover None (Some ''t1'') ''box'', TakeoverOpened the_tenant in_box False (Some ''key'', Some ''ci'')) # []"
  using sample_takeover_trace unfolding opened_def append_Cons append_Nil .

lemma sample_answers:
  "map (\<lambda>(g, t1, t2, r, ans). ans) (gate_trace sample_env sample_gate sample_requests) =
     [Token ''t1'' ''j1'', TakeoverOpened the_tenant in_box False (Some ''key'', Some ''ci''), Closed 4401]"
  by code_simp

lemma sample_in_time: "list_all (in_time sample_env ''t1'') (gate_trace sample_env sample_gate sample_requests)"
  by code_simp

definition preview_trace :: "moment list" where
  "preview_trace = gate_trace sample_env sample_gate sample_previews"

lemma preview_split:
  "gate_trace sample_env sample_gate sample_previews =
     [] @ (sample_gate, 0, 0, MintPreview bearer ''box'' 8080 3600 ''j2'', Token ''t2'' ''j2'') # [preview_trace ! 1] @
     (fst (preview_trace ! 2), 20, 21, RevokePreview bearer ''box'' 8080 ''j2'', Done) # drop 3 preview_trace"
  by code_simp

theorem redeemed_once_witness:
  "length (filter (redeemed_by sample_env ''t1'') (gate_trace sample_env sample_gate sample_requests)) \<le> 1 \<and>
   list_ex (redeemed_by sample_env ''t1'') (gate_trace sample_env sample_gate sample_requests)"
proof
  have "clock_runs 0 sample_requests" by code_simp
  then show "length (filter (redeemed_by sample_env ''t1'') (gate_trace sample_env sample_gate sample_requests)) \<le> 1"
    by (rule redeemed_once [OF sample_laws _ sample_in_time])
qed code_simp

theorem takeover_needs_admin_key_witness:
  "tn_id the_tenant = sb_account in_box \<and>
   list_ex (admin_request sample_env ''acct'' ''box'' False)
     [(sample_gate, 0, 0, MintTakeover bearer ''box'' False ''j1'', Token ''t1'' ''j1''), opened]"
proof -
  have "list_ex (answered_token t) [(sample_gate, 0, 0, MintTakeover bearer ''box'' False ''j1'', Token ''t1'' ''j1'')]"
    if "Some ''t1'' = Some t" for t using that by (simp add: answered_token_def)
  from takeover_needs_admin_key [OF sample_laws sample_split] this
  show ?thesis by (simp add: opened_def the_tenant_def)
qed

theorem revoked_previews_stay_revoked_witness:
  "\<not> list_ex (proxies ''t2'') (drop 3 preview_trace) \<and> list_ex (proxies ''t2'') (take 3 preview_trace)"
proof
  have "clock_runs 0 sample_previews" "\<not> denied ''j2'' (revoked_previews sample_gate)" by code_simp+
  then show "\<not> list_ex (proxies ''t2'') (drop 3 preview_trace)"
    using revoked_previews_stay_revoked [OF sample_laws _ _ preview_split, of 0] by simp
qed code_simp

text \<open>Where the guards are weaker than their descriptions. A token whose second presentation is
  decoded just before its expiry and looked up just after it opens a second takeover; a token keeps
  opening takeovers after the key that minted it was revoked, and the audit record still names the
  key; and a preview link is revoked by the owner of any session whatever, not only of its own.\<close>

definition with_revoked_key :: "gate \<Rightarrow> gate" where
  "with_revoked_key g = g\<lparr>api_keys := map (\<lambda>k. k\<lparr>ak_revoked := True\<rparr>) (api_keys g)\<rparr>"

definition two_tenants :: gate where
  "two_tenants = sample_gate\<lparr>tenants := tenants sample_gate @ [the_tenant\<lparr>tn_id := ''other''\<rparr>],
     api_keys := api_keys sample_gate @ [\<lparr>ak_id = ''key2'', ak_account = ''other'', ak_name = ''x'', ak_hash = ''bxk_o'',
       ak_role = ''member'', ak_revoked = False, ak_last_used = None\<rparr>],
     sandboxes := sandboxes sample_gate @ [\<lparr>sb_id = ''box2'', sb_account = ''other'', sb_destroyed = False\<rparr>]\<rparr>"

lemma replay_at_expiry:
  "map (\<lambda>(g, t1, t2, r, ans). ans) (gate_trace sample_env sample_gate
     [(0, 0, MintTakeover bearer ''box'' False ''j1''), (10, 11, OpenTakeover None (Some ''t1'') ''box''),
      (59999999, 60000000, OpenTakeover None (Some ''t1'') ''box'')]) =
   [Token ''t1'' ''j1'', TakeoverOpened the_tenant in_box False (Some ''key'', Some ''ci''),
    TakeoverOpened the_tenant in_box False (Some ''key'', Some ''ci'')]"
  by code_simp

lemma revoked_key_opens:
  "fst (gate_step sample_env 10 11 (OpenTakeover None (Some ''t1'') ''box'') (with_revoked_key minted)) =
     TakeoverOpened the_tenant in_box False (Some ''key'', Some ''ci'')"
  by code_simp

lemma foreign_revocation:
  "map (\<lambda>(g, t1, t2, r, ans). ans) (gate_trace sample_env two_tenants
     [(0, 0, MintPreview bearer ''box'' 8080 3600 ''j2''),
      (10, 10, RevokePreview (Some ''Bearer bxk_o'') ''box2'' 8080 ''j2''),
      (20, 20, UsePreview ''box'' 8080 ''t2'')]) =
   [Token ''t2'' ''j2'', Done, Refused (401, ''preview_token_revoked'')]"
  by code_simp

end
