(* ===== verification/Auth.thy ===== *)
theory Auth
  imports Prelude
begin

text \<open>
  Dashboard authentication (\<open>routers/auth.py\<close> and its repositories): signup, login,
  rotation of refresh tokens, logout, password reset and email verification. Each request
  is a sequence of database transactions, one step each, and concurrent requests
  interleave. Password and token hashing, access tokens, identifiers and clocks are
  parameters; \<open>outbox\<close> records the calls to the email sender, whose failures the
  handlers swallow. Rate limiting is the subject of theory \<open>RateLimit\<close>. Within one
  session the second read of a token row may return the copy read first; this only moves
  the time of a revocation.
\<close>

section \<open>The tables\<close>

record account =
  da_id :: nat
  da_email :: string
  da_password :: "string option"
  da_deactivated :: bool
  da_verified :: "int option"

text \<open>One record for \<open>RefreshToken\<close>, \<open>PasswordResetToken\<close> and
  \<open>EmailVerificationToken\<close>: \<open>spent_at\<close> is \<open>revoked_at\<close> or \<open>used_at\<close>.\<close>

record secure_token =
  st_id :: nat
  st_account :: nat
  st_hash :: string
  st_expires :: int
  spent_at :: "int option"

datatype mail_kind = ResetMail | VerificationMail

record auth_db =
  accounts :: "account list"
  refresh_tokens :: "secure_token list"
  reset_tokens :: "secure_token list"
  verify_tokens :: "secure_token list"
  outbox :: "(mail_kind \<times> string \<times> string) list"

definition normalize_email :: "string \<Rightarrow> string" where
  "normalize_email email = py_lower (py_strip email)"

definition get_by_email :: "auth_db \<Rightarrow> string \<Rightarrow> account option" where
  "get_by_email db email = find (\<lambda>a. da_email a = normalize_email email) (accounts db)"

definition get_by_id :: "auth_db \<Rightarrow> nat \<Rightarrow> account option" where
  "get_by_id db i = find (\<lambda>a. da_id a = i) (accounts db)"

text \<open>The unique index on the email makes a second insertion raise.\<close>

definition create_account :: "nat \<Rightarrow> string \<Rightarrow> string \<Rightarrow> auth_db \<Rightarrow> auth_db option" where
  "create_account i email pw db =
     (if list_ex (\<lambda>a. da_email a = normalize_email email) (accounts db) then None
      else Some (db\<lparr>accounts := accounts db @
        [\<lparr>da_id = i, da_email = normalize_email email, da_password = Some pw, da_deactivated = False, da_verified = None\<rparr>]\<rparr>))"

definition update_password :: "nat \<Rightarrow> string \<Rightarrow> auth_db \<Rightarrow> auth_db" where
  "update_password i pw db =
     db\<lparr>accounts := map (\<lambda>a. if da_id a = i then a\<lparr>da_password := Some pw\<rparr> else a) (accounts db)\<rparr>"

definition mark_email_verified :: "int \<Rightarrow> nat \<Rightarrow> auth_db \<Rightarrow> auth_db" where
  "mark_email_verified now i db =
     db\<lparr>accounts := map (\<lambda>a. if da_id a = i \<and> da_verified a = None then a\<lparr>da_verified := Some now\<rparr> else a) (accounts db)\<rparr>"

definition token_by_hash :: "secure_token list \<Rightarrow> string \<Rightarrow> secure_token option" where
  "token_by_hash ts h = find (\<lambda>t. st_hash t = h) ts"

definition active_by_hash :: "int \<Rightarrow> secure_token list \<Rightarrow> string \<Rightarrow> secure_token option" where
  "active_by_hash now ts h = find (\<lambda>t. st_hash t = h \<and> spent_at t = None \<and> now < st_expires t) ts"

definition revoke_token :: "int \<Rightarrow> nat \<Rightarrow> secure_token list \<Rightarrow> secure_token list" where
  "revoke_token now i ts = map (\<lambda>t. if st_id t = i \<and> spent_at t = None then t\<lparr>spent_at := Some now\<rparr> else t) ts"

definition revoke_all_for_account :: "int \<Rightarrow> nat \<Rightarrow> secure_token list \<Rightarrow> secure_token list" where
  "revoke_all_for_account now acc ts =
     map (\<lambda>t. if st_account t = acc \<and> spent_at t = None then t\<lparr>spent_at := Some now\<rparr> else t) ts"

definition mark_used :: "int \<Rightarrow> nat \<Rightarrow> secure_token list \<Rightarrow> secure_token list" where
  "mark_used now i ts = map (\<lambda>t. if st_id t = i then t\<lparr>spent_at := Some now\<rparr> else t) ts"

definition invalidate_active_for_account :: "int \<Rightarrow> nat \<Rightarrow> secure_token list \<Rightarrow> secure_token list" where
  "invalidate_active_for_account now acc ts =
     map (\<lambda>t. if st_account t = acc \<and> spent_at t = None then t\<lparr>spent_at := Some now\<rparr> else t) ts"

definition create_token :: "nat \<Rightarrow> nat \<Rightarrow> string \<Rightarrow> int \<Rightarrow> secure_token list \<Rightarrow> secure_token list" where
  "create_token i acc h expires ts =
     ts @ [\<lparr>st_id = i, st_account = acc, st_hash = h, st_expires = expires, spent_at = None\<rparr>]"

section \<open>Requests\<close>

record auth_env =
  token_hash :: "string \<Rightarrow> string"
  hash_password :: "string \<Rightarrow> string \<Rightarrow> string"
  verify_password :: "string \<Rightarrow> string \<Rightarrow> bool"
  create_access_token :: "nat \<Rightarrow> string \<Rightarrow> int \<Rightarrow> string"
  refresh_enabled :: bool
  reset_enabled :: bool
  verification_enabled :: bool
  refresh_ttl :: int
  reset_ttl :: int
  verification_ttl :: int

datatype auth_answer =
    AuthError nat string
  | TokenResponse string "string option" nat
  | NoContent
  | Message string
  | ServerError

text \<open>What follows the verification mail: signup goes on to its tokens, a resend answers.\<close>

datatype after_mail = ThenTokens | ThenSent

datatype auth_phase =
    Signup string string
  | SignupCreate string string
  | MailInvalidate account after_mail
  | MailCreate account after_mail
  | Login string string
  | IssueTokens account
  | Refresh string
  | RefreshReused nat
  | RefreshRotate secure_token
  | RefreshAccount secure_token
  | Logout string
  | LogoutRevoke secure_token
  | ResetRequest string
  | ResetInvalidate account
  | ResetCreate account
  | ResetConfirm string string
  | ConfirmPassword secure_token string
  | ConfirmUsed secure_token
  | ConfirmInvalidate secure_token
  | ConfirmRevoke secure_token
  | VerifyEmail string
  | VerifyMark secure_token
  | VerifyUsed secure_token
  | VerifyInvalidate secure_token
  | Resend nat
  | Done auth_answer

record auth_input =
  ai_now :: int
  ai_id :: nat
  ai_raw :: string

definition feature_disabled :: auth_answer where
  "feature_disabled = AuthError 404 ''feature_disabled''"

definition reset_sent :: auth_answer where
  "reset_sent = Message ''If an account with that email exists, a password reset link has been sent.''"

definition reset_done :: auth_answer where
  "reset_done = Message ''Password has been reset. Please log in with your new password.''"

definition email_verified :: auth_answer where
  "email_verified = Message ''Email verified.''"

definition is_expired :: "int \<Rightarrow> int \<Rightarrow> bool" where
  "is_expired now expires_at = (expires_at \<le> now)"

text \<open>\<open>_reject_if_scim_deactivated\<close>, then the tokens.\<close>

definition tokens_unless_deactivated :: "account \<Rightarrow> auth_phase" where
  "tokens_unless_deactivated a = (if da_deactivated a then Done (AuthError 403 ''account_deactivated'') else IssueTokens a)"

definition login_step :: "auth_env \<Rightarrow> string \<Rightarrow> string \<Rightarrow> auth_db \<Rightarrow> auth_phase" where
  "login_step env email pw db =
     (case get_by_email db email of
        None \<Rightarrow> Done (AuthError 401 ''invalid_credentials'')
      | Some a \<Rightarrow> (case da_password a of
          None \<Rightarrow> Done (AuthError 401 ''no_password_set'')
        | Some h \<Rightarrow> if \<not> verify_password env pw h then Done (AuthError 401 ''invalid_credentials'')
                    else tokens_unless_deactivated a))"

definition refresh_step :: "auth_env \<Rightarrow> int \<Rightarrow> string \<Rightarrow> auth_db \<Rightarrow> auth_phase" where
  "refresh_step env now raw db =
     (if \<not> refresh_enabled env then Done feature_disabled
      else case token_by_hash (refresh_tokens db) (token_hash env raw) of
        None \<Rightarrow> Done (AuthError 401 ''invalid_refresh_token'')
      | Some t \<Rightarrow>
          (if is_expired now (st_expires t) then Done (AuthError 401 ''invalid_refresh_token'')
           else if spent_at t \<noteq> None then RefreshReused (st_account t)
           else RefreshRotate t))"

definition issue_token_response :: "auth_env \<Rightarrow> auth_input \<Rightarrow> account \<Rightarrow> auth_db \<Rightarrow> auth_answer \<times> auth_db" where
  "issue_token_response env inp a db =
     (let access = create_access_token env (da_id a) (da_email a) (ai_now inp) in
      if refresh_enabled env
      then (TokenResponse access (Some (ai_raw inp)) (da_id a),
            db\<lparr>refresh_tokens := create_token (ai_id inp) (da_id a) (token_hash env (ai_raw inp))
                 (ai_now inp + refresh_ttl env) (refresh_tokens db)\<rparr>)
      else (TokenResponse access None (da_id a), db))"

definition after_signup :: "auth_env \<Rightarrow> account \<Rightarrow> auth_phase" where
  "after_signup env a = (if verification_enabled env then MailInvalidate a ThenTokens else IssueTokens a)"

fun auth_step :: "auth_env \<Rightarrow> auth_input \<Rightarrow> auth_phase \<Rightarrow> auth_db \<Rightarrow> auth_phase \<times> auth_db" where
  "auth_step env inp (Signup email pw) db =
     ((if get_by_email db email \<noteq> None then Done (AuthError 409 ''email_taken'') else SignupCreate email pw), db)"
| "auth_step env inp (SignupCreate email pw) db =
     (case create_account (ai_id inp) email (hash_password env pw (ai_raw inp)) db of
        None \<Rightarrow> (Done ServerError, db)
      | Some db' \<Rightarrow> (after_signup env (last (accounts db')), db'))"
| "auth_step env inp (MailInvalidate a next) db =
     (MailCreate a next, db\<lparr>verify_tokens := invalidate_active_for_account (ai_now inp) (da_id a) (verify_tokens db)\<rparr>)"
| "auth_step env inp (MailCreate a next) db =
     ((case next of ThenTokens \<Rightarrow> IssueTokens a | ThenSent \<Rightarrow> Done (Message ''Verification email sent.'')),
      db\<lparr>verify_tokens := create_token (ai_id inp) (da_id a) (token_hash env (ai_raw inp))
           (ai_now inp + verification_ttl env) (verify_tokens db),
         outbox := outbox db @ [(VerificationMail, da_email a, ai_raw inp)]\<rparr>)"
| "auth_step env inp (Login email pw) db = (login_step env email pw db, db)"
| "auth_step env inp (IssueTokens a) db =
     (case issue_token_response env inp a db of (r, db') \<Rightarrow> (Done r, db'))"
| "auth_step env inp (Refresh raw) db = (refresh_step env (ai_now inp) raw db, db)"
| "auth_step env inp (RefreshReused acc) db =
     (Done (AuthError 401 ''refresh_token_reused''),
      db\<lparr>refresh_tokens := revoke_all_for_account (ai_now inp) acc (refresh_tokens db)\<rparr>)"
| "auth_step env inp (RefreshRotate t) db =
     (RefreshAccount t, db\<lparr>refresh_tokens := revoke_token (ai_now inp) (st_id t) (refresh_tokens db)\<rparr>)"
| "auth_step env inp (RefreshAccount t) db =
     ((case get_by_id db (st_account t) of
         None \<Rightarrow> Done (AuthError 401 ''invalid_refresh_token'')
       | Some a \<Rightarrow> tokens_unless_deactivated a), db)"
| "auth_step env inp (Logout raw) db =
     ((if \<not> refresh_enabled env then Done feature_disabled
       else case token_by_hash (refresh_tokens db) (token_hash env raw) of
         None \<Rightarrow> Done NoContent
       | Some t \<Rightarrow> if spent_at t = None then LogoutRevoke t else Done NoContent), db)"
| "auth_step env inp (LogoutRevoke t) db =
     (Done NoContent, db\<lparr>refresh_tokens := revoke_token (ai_now inp) (st_id t) (refresh_tokens db)\<rparr>)"
| "auth_step env inp (ResetRequest email) db =
     ((if \<not> reset_enabled env then Done feature_disabled
       else case get_by_email db email of None \<Rightarrow> Done reset_sent | Some a \<Rightarrow> ResetInvalidate a), db)"
| "auth_step env inp (ResetInvalidate a) db =
     (ResetCreate a, db\<lparr>reset_tokens := invalidate_active_for_account (ai_now inp) (da_id a) (reset_tokens db)\<rparr>)"
| "auth_step env inp (ResetCreate a) db =
     (Done reset_sent,
      db\<lparr>reset_tokens := create_token (ai_id inp) (da_id a) (token_hash env (ai_raw inp))
           (ai_now inp + reset_ttl env) (reset_tokens db),
         outbox := outbox db @ [(ResetMail, da_email a, ai_raw inp)]\<rparr>)"
| "auth_step env inp (ResetConfirm raw pw) db =
     ((if \<not> reset_enabled env then Done feature_disabled
       else case active_by_hash (ai_now inp) (reset_tokens db) (token_hash env raw) of
         None \<Rightarrow> Done (AuthError 400 ''invalid_or_expired_token'')
       | Some t \<Rightarrow> ConfirmPassword t pw), db)"
| "auth_step env inp (ConfirmPassword t pw) db =
     (ConfirmUsed t, update_password (st_account t) (hash_password env pw (ai_raw inp)) db)"
| "auth_step env inp (ConfirmUsed t) db =
     (ConfirmInvalidate t, db\<lparr>reset_tokens := mark_used (ai_now inp) (st_id t) (reset_tokens db)\<rparr>)"
| "auth_step env inp (ConfirmInvalidate t) db =
     ((if refresh_enabled env then ConfirmRevoke t else Done reset_done),
      db\<lparr>reset_tokens := invalidate_active_for_account (ai_now inp) (st_account t) (reset_tokens db)\<rparr>)"
| "auth_step env inp (ConfirmRevoke t) db =
     (Done reset_done,
      db\<lparr>refresh_tokens := revoke_all_for_account (ai_now inp) (st_account t) (refresh_tokens db)\<rparr>)"
| "auth_step env inp (VerifyEmail raw) db =
     ((if \<not> verification_enabled env then Done feature_disabled
       else case active_by_hash (ai_now inp) (verify_tokens db) (token_hash env raw) of
         None \<Rightarrow> Done (AuthError 400 ''invalid_or_expired_token'')
       | Some t \<Rightarrow> VerifyMark t), db)"
| "auth_step env inp (VerifyMark t) db = (VerifyUsed t, mark_email_verified (ai_now inp) (st_account t) db)"
| "auth_step env inp (VerifyUsed t) db =
     (VerifyInvalidate t, db\<lparr>verify_tokens := mark_used (ai_now inp) (st_id t) (verify_tokens db)\<rparr>)"
| "auth_step env inp (VerifyInvalidate t) db =
     (Done email_verified,
      db\<lparr>verify_tokens := invalidate_active_for_account (ai_now inp) (st_account t) (verify_tokens db)\<rparr>)"
| "auth_step env inp (Resend acc) db =
     ((if \<not> verification_enabled env then Done feature_disabled
       else case get_by_id db acc of
         None \<Rightarrow> Done (AuthError 401 ''unauthorized'')
       | Some a \<Rightarrow> if da_verified a \<noteq> None then Done (Message ''Email is already verified.'')
                   else MailInvalidate a ThenSent), db)"
| "auth_step env inp (Done r) db = (Done r, db)"

text \<open>A run names at each step the request that moves.\<close>

fun auth_event_step :: "auth_env \<Rightarrow> nat \<times> auth_input \<Rightarrow> auth_phase list \<times> auth_db \<Rightarrow> auth_phase list \<times> auth_db" where
  "auth_event_step env (i, inp) (ps, db) =
     (if i < length ps then (case auth_step env inp (ps ! i) db of (p, db') \<Rightarrow> (ps[i := p], db')) else (ps, db))"

definition auth_run :: "auth_env \<Rightarrow> (nat \<times> auth_input) list \<Rightarrow> auth_phase list \<times> auth_db \<Rightarrow> auth_phase list \<times> auth_db" where
  "auth_run env evs s = fold (auth_event_step env) evs s"

end
