(* ===== verification/AuthSafety.thy ===== *)
theory AuthSafety
  imports Auth
begin

text \<open>
  What dashboard authentication guarantees: under any interleaving a password comes from the
  account's own signup or from a reset link drawn for its email; a rotated refresh token that
  is presented again costs the account all its tokens; and where concurrent requests get
  round the single use of refresh tokens and reset links.
\<close>

section \<open>Where passwords come from\<close>

definition identities :: "auth_db \<Rightarrow> (nat \<times> string) set" where
  "identities db = set (map (\<lambda>a. (da_id a, da_email a)) (accounts db))"

definition initial_phase :: "auth_phase \<Rightarrow> bool" where
  "initial_phase p =
     (case p of Signup _ _ \<Rightarrow> True | Login _ _ \<Rightarrow> True | Refresh _ \<Rightarrow> True | Logout _ \<Rightarrow> True
      | ResetRequest _ \<Rightarrow> True | ResetConfirm _ _ \<Rightarrow> True | VerifyEmail _ \<Rightarrow> True | Resend _ \<Rightarrow> True | _ \<Rightarrow> False)"

text \<open>\<open>ps0\<close> is the requests of a run, \<open>K\<close> the identities at its end and \<open>B\<close> the mails
  it has sent by then.\<close>

definition link_mailed :: "auth_env \<Rightarrow> (nat \<times> string) set \<Rightarrow> (mail_kind \<times> string \<times> string) set \<Rightarrow> nat \<Rightarrow> string \<Rightarrow> bool" where
  "link_mailed env K B i h = (\<exists>to raw. (ResetMail, to, raw) \<in> B \<and> token_hash env raw = h \<and> (i, to) \<in> K)"

definition password_backed ::
    "auth_env \<Rightarrow> auth_phase list \<Rightarrow> (nat \<times> string) set \<Rightarrow> (mail_kind \<times> string \<times> string) set \<Rightarrow> auth_db \<Rightarrow> nat \<Rightarrow> string \<Rightarrow> bool" where
  "password_backed env ps0 K B db0 i h =
     ((\<exists>b \<in> set (accounts db0). da_id b = i \<and> da_password b = Some h) \<or>
      (\<exists>j email pw salt. j < length ps0 \<and> ps0 ! j = Signup email pw \<and> h = hash_password env pw salt \<and>
         (i, normalize_email email) \<in> K) \<or>
      (\<exists>j raw pw salt. j < length ps0 \<and> ps0 ! j = ResetConfirm raw pw \<and> h = hash_password env pw salt \<and>
         link_mailed env K B i (token_hash env raw)))"

definition phase_backed ::
    "auth_env \<Rightarrow> auth_phase list \<Rightarrow> (nat \<times> string) set \<Rightarrow> (mail_kind \<times> string \<times> string) set \<Rightarrow> auth_phase \<Rightarrow> auth_phase \<Rightarrow> bool" where
  "phase_backed env ps0 K B p0 p =
     (case p of
        Signup e pw \<Rightarrow> p0 = Signup e pw
      | SignupCreate e pw \<Rightarrow> p0 = Signup e pw
      | ResetInvalidate a \<Rightarrow> (da_id a, da_email a) \<in> K
      | ResetCreate a \<Rightarrow> (da_id a, da_email a) \<in> K
      | ResetConfirm raw pw \<Rightarrow> p0 = ResetConfirm raw pw
      | ConfirmPassword t pw \<Rightarrow>
          (\<exists>raw. p0 = ResetConfirm raw pw \<and> st_hash t = token_hash env raw \<and>
             link_mailed env K B (st_account t) (st_hash t))
      | _ \<Rightarrow> True)"

definition db_backed ::
    "auth_env \<Rightarrow> auth_phase list \<Rightarrow> (nat \<times> string) set \<Rightarrow> (mail_kind \<times> string \<times> string) set \<Rightarrow> auth_db \<Rightarrow> auth_db \<Rightarrow> bool" where
  "db_backed env ps0 K B db0 db =
     ((\<forall>t \<in> set (reset_tokens db). link_mailed env K B (st_account t) (st_hash t)) \<and>
      (\<forall>a \<in> set (accounts db). \<forall>h. da_password a = Some h \<longrightarrow> password_backed env ps0 K B db0 (da_id a) h))"

lemma identities_kept [simp]:
  "identities (update_password i h db) = identities db"
  "identities (mark_email_verified now i db) = identities db"
  unfolding identities_def update_password_def mark_email_verified_def
  by (rule arg_cong [of _ _ set], simp)+

lemma identities_accounts: "accounts db' = accounts db \<Longrightarrow> identities db' = identities db"
  by (simp add: identities_def)

lemma identities_created: "create_account i email h db = Some db' \<Longrightarrow> identities db \<subseteq> identities db'"
  by (auto simp: create_account_def identities_def split: if_splits)

lemma identities_step: "auth_step env inp p db = (p', db') \<Longrightarrow> identities db \<subseteq> identities db'"
  by (cases p)
     (auto simp: issue_token_response_def Let_def split: option.splits if_splits prod.splits
       dest: identities_created simp: identities_accounts [of "db\<lparr>refresh_tokens := _\<rparr>" db]
         identities_accounts [of "db\<lparr>reset_tokens := _\<rparr>" db] identities_accounts [of "db\<lparr>verify_tokens := _\<rparr>" db]
         identities_accounts [of "db\<lparr>reset_tokens := _, outbox := _\<rparr>" db]
         identities_accounts [of "db\<lparr>verify_tokens := _, outbox := _\<rparr>" db])

lemma outbox_kept [simp]:
  "outbox (update_password i h db) = outbox db" "outbox (mark_email_verified now i db) = outbox db"
  by (simp_all add: update_password_def mark_email_verified_def)

lemma outbox_step: "auth_step env inp p db = (p', db') \<Longrightarrow> set (outbox db) \<subseteq> set (outbox db')"
  by (cases p)
     (auto simp: issue_token_response_def create_account_def Let_def split: option.splits if_splits prod.splits)

definition grows :: "auth_db \<Rightarrow> auth_db \<Rightarrow> bool" where
  "grows db db' = (identities db \<subseteq> identities db' \<and> set (outbox db) \<subseteq> set (outbox db'))"

lemma grows_trans: "grows a b \<Longrightarrow> grows b c \<Longrightarrow> grows a c"
  by (auto simp: grows_def)

lemma grows_event: "auth_event_step env e (ps, db) = (ps', db') \<Longrightarrow> grows db db'"
  using identities_step outbox_step by (cases e) (simp add: grows_def split: if_splits prod.splits)

lemma grows_run: "auth_run env evs (ps, db) = (ps', db') \<Longrightarrow> grows db db'"
  unfolding auth_run_def
proof (induction evs arbitrary: ps db)
  case (Cons e evs)
  obtain qs d where "auth_event_step env e (ps, db) = (qs, d)" by fastforce
  then show ?case using Cons.IH [of qs d] Cons.prems grows_event [of env e ps db qs d] grows_trans by auto
qed (simp add: grows_def)

lemma spent_tokens_account:
  "t \<in> set (invalidate_active_for_account now acc ts) \<Longrightarrow> \<exists>u \<in> set ts. st_account t = st_account u \<and> st_hash t = st_hash u"
  "t \<in> set (mark_used now i ts) \<Longrightarrow> \<exists>u \<in> set ts. st_account t = st_account u \<and> st_hash t = st_hash u"
  by (auto simp: invalidate_active_for_account_def mark_used_def)

lemma verified_accounts:
  "a \<in> set (accounts (mark_email_verified now i db)) \<Longrightarrow>
     \<exists>b \<in> set (accounts db). da_id a = da_id b \<and> da_password a = da_password b"
  by (auto simp: mark_email_verified_def)

lemma verified_tokens [simp]: "reset_tokens (mark_email_verified now i db) = reset_tokens db"
  by (simp add: mark_email_verified_def)

lemma get_by_email_known:
  "get_by_email db e = Some a \<Longrightarrow> (da_id a, da_email a) \<in> identities db"
  by (auto simp: get_by_email_def identities_def find_Some_iff)

lemma step_phase_backed:
  assumes "auth_step env inp p db = (p', db')" "phase_backed env ps0 K B p0 p" "db_backed env ps0 K B db0 db"
    and "identities db \<subseteq> K"
  shows "phase_backed env ps0 K B p0 p'"
proof (cases p)
  case (ResetRequest e)
  then show ?thesis
    using assms(1,2,4) get_by_email_known [of db e] by (auto simp: phase_backed_def split: option.splits)
next
  case (ResetConfirm raw pw)
  then show ?thesis
    using assms(1-3)
    by (auto simp: phase_backed_def db_backed_def active_by_hash_def find_Some_iff split: option.splits) (metis nth_mem)
qed (use assms(1,2) in \<open>auto simp: phase_backed_def login_step_def refresh_step_def tokens_unless_deactivated_def
       after_signup_def issue_token_response_def Let_def split: option.splits if_splits prod.splits after_mail.splits\<close>)

lemma step_db_backed:
  assumes st: "auth_step env inp (ps ! i) db = (p', db')" and i: "i < length ps0"
    and p: "phase_backed env ps0 K B (ps0 ! i) (ps ! i)" and d: "db_backed env ps0 K B db0 db"
    and K: "identities db' \<subseteq> K" and B: "set (outbox db') \<subseteq> B"
  shows "db_backed env ps0 K B db0 db'"
proof (cases "ps ! i")
  case (SignupCreate e pw)
  show ?thesis
  proof (cases "create_account (ai_id inp) e (hash_password env pw (ai_raw inp)) db")
    case None
    then show ?thesis using st SignupCreate d by simp
  next
    case (Some d')
    then have "db' = d'" using st SignupCreate by simp
    have "(ai_id inp, normalize_email e) \<in> K"
      using Some K \<open>db' = d'\<close> by (auto simp: create_account_def identities_def split: if_splits)
    then have "password_backed env ps0 K B db0 (ai_id inp) (hash_password env pw (ai_raw inp))"
      using p i SignupCreate unfolding password_backed_def phase_backed_def by auto
    then show ?thesis
      using Some d \<open>db' = d'\<close> by (auto simp: db_backed_def create_account_def split: if_splits)
  qed
next
  case (ResetCreate a)
  then have "link_mailed env K B (da_id a) (token_hash env (ai_raw inp))"
    using p B st ResetCreate unfolding link_mailed_def phase_backed_def by (intro exI [of _ "da_email a"] exI [of _ "ai_raw inp"]) auto
  then show ?thesis using st ResetCreate d by (auto simp: db_backed_def create_token_def)
next
  case (ConfirmPassword t pw)
  then have "password_backed env ps0 K B db0 (st_account t) (hash_password env pw (ai_raw inp))"
    using p i unfolding password_backed_def phase_backed_def by simp metis
  then show ?thesis using st ConfirmPassword d by (auto simp: db_backed_def update_password_def)
qed (use st d in \<open>auto simp: db_backed_def issue_token_response_def Let_def
        dest!: spent_tokens_account verified_accounts split: option.splits if_splits prod.splits\<close>)

lemma run_db_backed:
  assumes "list_all2 (phase_backed env ps0 K B) ps0 ps" "db_backed env ps0 K B db0 db"
    and "auth_run env evs (ps, db) = (ps', db')" "identities db' \<subseteq> K" "set (outbox db') \<subseteq> B"
  shows "db_backed env ps0 K B db0 db'"
  using assms
proof (induction evs arbitrary: ps db)
  case (Cons e evs)
  obtain i inp where e: "e = (i, inp)" by fastforce
  obtain qs d where st: "auth_event_step env e (ps, db) = (qs, d)" by fastforce
  have rest: "auth_run env evs (qs, d) = (ps', db')" using Cons.prems(3) st by (simp add: auth_run_def)
  have K: "identities d \<subseteq> K" "set (outbox d) \<subseteq> B"
    using grows_run [OF rest] Cons.prems(4,5) by (auto simp: grows_def)
  have "list_all2 (phase_backed env ps0 K B) ps0 qs \<and> db_backed env ps0 K B db0 d"
  proof (cases "i < length ps")
    case True
    obtain p' d' where t: "auth_step env inp (ps ! i) db = (p', d')" by fastforce
    then have q: "qs = ps[i := p']" "d = d'" using st e True by simp_all
    have len: "length ps0 = length ps" and b: "phase_backed env ps0 K B (ps0 ! i) (ps ! i)"
      using Cons.prems(1) True by (auto simp: list_all2_conv_all_nth)
    have "identities db \<subseteq> K" using identities_step [OF t] K(1) q(2) by blast
    then have "phase_backed env ps0 K B (ps0 ! i) p'" by (rule step_phase_backed [OF t b Cons.prems(2)])
    then have "list_all2 (phase_backed env ps0 K B) ps0 qs"
      using Cons.prems(1) True q(1) by (auto simp: list_all2_conv_all_nth nth_list_update)
    moreover have "db_backed env ps0 K B db0 d"
      using step_db_backed [OF t _ b Cons.prems(2)] K q(2) True len by auto
    ultimately show ?thesis ..
  qed (use st e Cons.prems(1,2) in auto)
  then show ?case using Cons.IH [of qs d] Cons.prems(4,5) rest by simp
qed (simp add: auth_run_def)

lemma initial_backed: "initial_phase p \<Longrightarrow> phase_backed env ps0 K B p p"
  by (cases p) (simp_all add: initial_phase_def phase_backed_def)

section \<open>Undisturbed requests\<close>

text \<open>One request alone: its steps until it is done, at most one for each input.\<close>

fun auth_alone :: "auth_env \<Rightarrow> auth_input list \<Rightarrow> auth_phase \<Rightarrow> auth_db \<Rightarrow> auth_phase \<times> auth_db" where
  "auth_alone env [] p db = (p, db)"
| "auth_alone env (inp # inps) p db = (case auth_step env inp p db of (p', db') \<Rightarrow> auth_alone env inps p' db')"

definition live_tokens :: "nat \<Rightarrow> secure_token list \<Rightarrow> nat list" where
  "live_tokens acc ts = map st_id (filter (\<lambda>t. st_account t = acc \<and> spent_at t = None) ts)"

lemma live_none [simp]:
  "live_tokens acc (revoke_all_for_account now acc ts) = []"
  "live_tokens acc (invalidate_active_for_account now acc ts) = []"
  by (induction ts) (auto simp: live_tokens_def revoke_all_for_account_def invalidate_active_for_account_def)

lemma find_map_keep: "(\<And>t. P (f t) = P t) \<Longrightarrow> find P (map f ts) = map_option f (find P ts)"
  by (induction ts) auto

lemma find_append_Some: "find P ts = Some t \<Longrightarrow> find P (ts @ us) = Some t"
  by (induction ts) (auto split: if_splits)

lemma by_hash_revoke:
  "token_by_hash (revoke_token now i ts) h =
     map_option (\<lambda>t. if st_id t = i \<and> spent_at t = None then t\<lparr>spent_at := Some now\<rparr> else t) (token_by_hash ts h)"
  unfolding token_by_hash_def revoke_token_def by (rule find_map_keep) simp

lemma by_hash_create: "token_by_hash ts h = Some t \<Longrightarrow> token_by_hash (create_token i acc k x ts) h = Some t"
  by (simp add: token_by_hash_def create_token_def find_append_Some)

section \<open>Properties\<close>

text \<open>The deployment of the examples: hashes put a letter in front, salts are ignored.\<close>

definition demo_auth :: auth_env where
  "demo_auth = \<lparr>token_hash = (\<lambda>s. CHR ''h'' # s), hash_password = (\<lambda>pw salt. CHR ''p'' # pw),
     verify_password = (\<lambda>pw h. h = CHR ''p'' # pw), create_access_token = (\<lambda>i email now. email),
     refresh_enabled = True, reset_enabled = True, verification_enabled = True,
     refresh_ttl = 100, reset_ttl = 10, verification_ttl = 50\<rparr>"

definition demo_account :: account where
  "demo_account = \<lparr>da_id = 7, da_email = ''a@b'', da_password = Some ''pold'', da_deactivated = False, da_verified = None\<rparr>"

definition live_token :: "nat \<Rightarrow> string \<Rightarrow> secure_token" where
  "live_token i h = \<lparr>st_id = i, st_account = 7, st_hash = h, st_expires = 100, spent_at = None\<rparr>"

definition demo_tables :: auth_db where
  "demo_tables = \<lparr>accounts = [demo_account], refresh_tokens = [live_token 1 ''hr''], reset_tokens = [],
     verify_tokens = [], outbox = []\<rparr>"

definition reset_tables :: auth_db where
  "reset_tables = demo_tables\<lparr>reset_tokens := [live_token 1 ''hl'']\<rparr>"

definition inp :: "nat \<Rightarrow> string \<Rightarrow> auth_input" where
  "inp i raw = \<lparr>ai_now = 5, ai_id = i, ai_raw = raw\<rparr>"

text \<open>C31: Under any interleaving of requests a password that an account did not have at the start
  comes from a signup with the account's email, or from the confirmation of a reset whose
  token has the hash of one mailed to the account's own address.\<close>

theorem passwords_come_from_owner:
  assumes "list_all initial_phase ps" "reset_tokens db = []" "auth_run env evs (ps, db) = (ps', db')"
    and "distinct (map da_id (accounts db'))" "a \<in> set (accounts db')" "da_password a = Some h"
    and "(da_id a, Some h) \<notin> (\<lambda>b. (da_id b, da_password b)) ` set (accounts db)"
  shows "(\<exists>j email pw salt. ps ! j = Signup email pw \<and> h = hash_password env pw salt \<and>
            da_email a = normalize_email email) \<or>
         (\<exists>j raw pw salt raw'. ps ! j = ResetConfirm raw pw \<and> h = hash_password env pw salt \<and>
            (ResetMail, da_email a, raw') \<in> set (outbox db') \<and> token_hash env raw' = token_hash env raw)"
proof -
  let ?K = "identities db'" and ?B = "set (outbox db')"
  have own: "e = da_email a" if "(da_id a, e) \<in> ?K" for e
    using that assms(4,5) by (auto simp: identities_def distinct_map dest: inj_onD)
  have "db_backed env ps ?K ?B db db"
    using assms(2) by (auto simp: db_backed_def password_backed_def)
  moreover have "list_all2 (phase_backed env ps ?K ?B) ps ps"
    using assms(1) initial_backed by (auto simp: list_all2_conv_all_nth list_all_length)
  ultimately have "password_backed env ps ?K ?B db (da_id a) h"
    using run_db_backed [OF _ _ assms(3), of ps ?K ?B db] assms(5,6) by (auto simp: db_backed_def)
  then consider b where "b \<in> set (accounts db)" "da_id b = da_id a" "da_password b = Some h"
    | j email pw salt where "ps ! j = Signup email pw" "h = hash_password env pw salt" "(da_id a, normalize_email email) \<in> ?K"
    | j raw pw salt where "ps ! j = ResetConfirm raw pw" "h = hash_password env pw salt"
        "link_mailed env ?K ?B (da_id a) (token_hash env raw)"
    unfolding password_backed_def by blast
  then show ?thesis
  proof cases
    case (1 b)
    have "(da_id a, Some h) \<in> (\<lambda>b. (da_id b, da_password b)) ` set (accounts db)"
      by (rule image_eqI [OF _ 1(1)]) (simp add: 1(2,3))
    then show ?thesis using assms(7) by blast
  next
    case 2
    then show ?thesis using own by metis
  next
    case 3
    then show ?thesis using own unfolding link_mailed_def by metis
  qed
qed

definition reset_run :: "(nat \<times> auth_input) list" where
  "reset_run = [(0, inp 1 ''a''), (0, inp 2 ''b''), (0, inp 3 ''l''), (1, inp 4 ''c''), (1, inp 5 ''d''),
     (1, inp 6 ''e''), (1, inp 7 ''f''), (1, inp 8 ''g'')]"

theorem passwords_come_from_owner_witness:
  "(\<exists>j email pw salt. [ResetRequest ''A@b'', ResetConfirm ''l'' ''new''] ! j = Signup email pw \<and>
       ''pnew'' = hash_password demo_auth pw salt \<and> ''a@b'' = normalize_email email) \<or>
   (\<exists>j raw pw salt raw'. [ResetRequest ''A@b'', ResetConfirm ''l'' ''new''] ! j = ResetConfirm raw pw \<and>
       ''pnew'' = hash_password demo_auth pw salt \<and> (ResetMail, ''a@b'', raw') \<in> {(ResetMail, ''a@b'', ''l'')} \<and>
       token_hash demo_auth raw' = token_hash demo_auth raw)"
proof -
  let ?run = "auth_run demo_auth reset_run ([ResetRequest ''A@b'', ResetConfirm ''l'' ''new''], demo_tables)"
  have run: "accounts (snd ?run) = [demo_account\<lparr>da_password := Some ''pnew''\<rparr>]"
    "outbox (snd ?run) = [(ResetMail, ''a@b'', ''l'')]"
    by code_simp+
  show ?thesis
    using passwords_come_from_owner [of "[ResetRequest ''A@b'', ResetConfirm ''l'' ''new'']" demo_tables demo_auth reset_run
        "fst ?run" "snd ?run" "demo_account\<lparr>da_password := Some ''pnew''\<rparr>" "''pnew''"]
    by (simp add: run) (simp add: initial_phase_def demo_tables_def demo_account_def)
qed

text \<open>C32: Reuse of a rotated refresh token: after an undisturbed rotation the same token presented
  again is answered with \<open>refresh_token_reused\<close> and no refresh token of the account, the
  one from the rotation included, is live any more.\<close>

theorem reused_token_revokes_account:
  assumes "refresh_enabled env" "token_by_hash (refresh_tokens db) (token_hash env raw) = Some t"
    and "spent_at t = None" "ai_now i1 < st_expires t" "ai_now i5 < st_expires t"
    and "get_by_id db (st_account t) = Some a" "\<not> da_deactivated a"
    and "auth_alone env [i1, i2, i3, i4] (Refresh raw) db = (p, db')"
    and "auth_alone env [i5, i6] (Refresh raw) db' = (p', db'')"
  shows "p = Done (TokenResponse (create_access_token env (da_id a) (da_email a) (ai_now i4)) (Some (ai_raw i4)) (da_id a)) \<and>
    ai_id i4 \<in> set (live_tokens (st_account t) (refresh_tokens db')) \<and>
    p' = Done (AuthError 401 ''refresh_token_reused'') \<and> live_tokens (st_account t) (refresh_tokens db'') = []"
proof -
  have acc: "da_id a = st_account t" using assms(6) by (auto simp: get_by_id_def find_Some_iff)
  let ?rot = "revoke_token (ai_now i2) (st_id t) (refresh_tokens db)"
  let ?new = "create_token (ai_id i4) (da_id a) (token_hash env (ai_raw i4)) (ai_now i4 + refresh_ttl env) ?rot"
  have p: "p = Done (TokenResponse (create_access_token env (da_id a) (da_email a) (ai_now i4)) (Some (ai_raw i4)) (da_id a))"
    "db' = db\<lparr>refresh_tokens := ?new\<rparr>"
    using assms(1-8)
    by (auto simp: refresh_step_def is_expired_def get_by_id_def tokens_unless_deactivated_def issue_token_response_def Let_def)
  have "token_by_hash ?new (token_hash env raw) = Some (t\<lparr>spent_at := Some (ai_now i2)\<rparr>)"
    using assms(2,3) by (intro by_hash_create) (simp add: by_hash_revoke)
  then have "auth_step env i5 (Refresh raw) db' = (RefreshReused (st_account t), db')"
    using assms(1,5) p(2) by (simp add: refresh_step_def is_expired_def)
  then have "p' = Done (AuthError 401 ''refresh_token_reused'')"
    "refresh_tokens db'' = revoke_all_for_account (ai_now i6) (st_account t) (refresh_tokens db')"
    using assms(9) by auto
  then have "live_tokens (st_account t) (refresh_tokens db'') = []" by simp
  moreover have "ai_id i4 \<in> set (live_tokens (st_account t) (refresh_tokens db'))"
    using p(2) acc by (simp add: live_tokens_def create_token_def)
  ultimately show ?thesis using p(1) \<open>p' = _\<close> by blast
qed

theorem reused_token_revokes_account_witness:
  "case auth_alone demo_auth [inp 2 ''x'', inp 3 ''x'', inp 4 ''x'', inp 5 ''s''] (Refresh ''r'') demo_tables of (p, db') \<Rightarrow>
   case auth_alone demo_auth [inp 6 ''x'', inp 7 ''x''] (Refresh ''r'') db' of (p', db'') \<Rightarrow>
     5 \<in> set (live_tokens 7 (refresh_tokens db')) \<and>
     p' = Done (AuthError 401 ''refresh_token_reused'') \<and> live_tokens 7 (refresh_tokens db'') = []"
  using reused_token_revokes_account [of demo_auth demo_tables "''r''" "live_token 1 ''hr''" "inp 2 ''x''" "inp 6 ''x''"
      demo_account "inp 3 ''x''" "inp 4 ''x''" "inp 5 ''s''" _ _ "inp 7 ''x''"]
  by (simp add: demo_auth_def demo_tables_def live_token_def demo_account_def inp_def token_by_hash_def get_by_id_def
      split: prod.splits)

text \<open>After an undisturbed confirmation of a password reset the account has the new password,
  no reset link of the account is usable and none of its refresh tokens is live, and the
  link is refused when it is presented again.\<close>

theorem reset_confirm_spends_link:
  assumes "reset_enabled env" "refresh_enabled env"
    and "active_by_hash (ai_now i1) (reset_tokens db) (token_hash env raw) = Some t"
    and "distinct (map st_hash (reset_tokens db))" "get_by_id db (st_account t) = Some a"
    and "auth_alone env [i1, i2, i3, i4, i5] (ResetConfirm raw pw) db = (p, db')"
    and "auth_alone env [i6] (ResetConfirm raw pw') db' = (p', db'')"
  shows "p = Done reset_done \<and>
    get_by_id db' (st_account t) = Some (a\<lparr>da_password := Some (hash_password env pw (ai_raw i2))\<rparr>) \<and>
    live_tokens (st_account t) (reset_tokens db') = [] \<and> live_tokens (st_account t) (refresh_tokens db') = [] \<and>
    p' = Done (AuthError 400 ''invalid_or_expired_token'') \<and> db'' = db'"
proof -
  let ?res = "invalidate_active_for_account (ai_now i4) (st_account t) (mark_used (ai_now i3) (st_id t) (reset_tokens db))"
  let ?db1 = "update_password (st_account t) (hash_password env pw (ai_raw i2)) db"
  have run: "p = Done reset_done" "db' = ?db1\<lparr>reset_tokens := ?res,
      refresh_tokens := revoke_all_for_account (ai_now i5) (st_account t) (refresh_tokens db)\<rparr>"
    using assms(1-3,6) by (auto simp: update_password_def)
  have "spent_at u \<noteq> None" if used: "u \<in> set (mark_used (ai_now i3) (st_id t) (reset_tokens db))" and hash: "st_hash u = token_hash env raw" for u
  proof -
    obtain v where v: "v \<in> set (reset_tokens db)" "u = (if st_id v = st_id t then v\<lparr>spent_at := Some (ai_now i3)\<rparr> else v)"
      using used unfolding mark_used_def set_map by blast
    have "t \<in> set (reset_tokens db)" "st_hash t = token_hash env raw"
      using assms(3) by (auto simp: active_by_hash_def find_Some_iff)
    moreover have "st_hash v = token_hash env raw" using v(2) hash by (simp split: if_splits)
    ultimately have "v = t"
      using v(1) assms(4) inj_onD [of st_hash "set (reset_tokens db)" v t] by (simp add: distinct_map)
    then show ?thesis using v by simp
  qed
  then have "active_by_hash (ai_now i6) ?res (token_hash env raw) = None"
    by (auto simp: active_by_hash_def find_None_iff invalidate_active_for_account_def)
  then have "p' = Done (AuthError 400 ''invalid_or_expired_token'') \<and> db'' = db'"
    using assms(1,7) run(2) by simp
  moreover have "get_by_id ?db1 (st_account t) = Some (a\<lparr>da_password := Some (hash_password env pw (ai_raw i2))\<rparr>)"
    using assms(5) unfolding get_by_id_def update_password_def
    by (simp add: find_map_keep) (auto simp: find_Some_iff)
  ultimately show ?thesis using run by (simp add: get_by_id_def)
qed

theorem reset_confirm_spends_link_witness:
  "case auth_alone demo_auth [inp 2 ''x'', inp 3 ''x'', inp 4 ''x'', inp 5 ''x'', inp 6 ''x''] (ResetConfirm ''l'' ''new'') reset_tables of
     (p, db') \<Rightarrow> p = Done reset_done \<and> live_tokens 7 (refresh_tokens db') = [] \<and>
       fst (auth_alone demo_auth [inp 7 ''x''] (ResetConfirm ''l'' ''other'') db') =
         Done (AuthError 400 ''invalid_or_expired_token'')"
  using reset_confirm_spends_link [of demo_auth "inp 2 ''x''" reset_tables "''l''" "live_token 1 ''hl''" demo_account
      "inp 3 ''x''" "inp 4 ''x''" "inp 5 ''x''" "inp 6 ''x''" "''new''" _ _ "inp 7 ''x''" "''other''"]
  by (simp add: demo_auth_def reset_tables_def demo_tables_def live_token_def demo_account_def inp_def active_by_hash_def
      get_by_id_def split: prod.splits)

text \<open>Concurrent requests get round the single use: two refreshes with one token that both
  read it before either revokes it are both answered with tokens and nothing is reported as
  reuse, and two confirmations of one reset link both succeed, the later password winning.\<close>

theorem single_use_is_raced:
  "(case auth_run demo_auth [(0, inp 2 ''x''), (1, inp 3 ''x''), (0, inp 4 ''x''), (1, inp 5 ''x''), (0, inp 6 ''x''),
         (1, inp 7 ''x''), (0, inp 8 ''s''), (1, inp 9 ''t'')] ([Refresh ''r'', Refresh ''r''], demo_tables) of (ps, db) \<Rightarrow>
     ps = [Done (TokenResponse ''a@b'' (Some ''s'') 7), Done (TokenResponse ''a@b'' (Some ''t'') 7)] \<and>
     live_tokens 7 (refresh_tokens db) = [8, 9]) \<and>
   (case auth_run demo_auth [(0, inp 2 ''x''), (1, inp 3 ''x''), (0, inp 4 ''x''), (0, inp 5 ''x''), (0, inp 6 ''x''),
         (0, inp 7 ''x''), (1, inp 8 ''x''), (1, inp 9 ''x''), (1, inp 10 ''x''), (1, inp 11 ''x'')]
       ([ResetConfirm ''l'' ''mine'', ResetConfirm ''l'' ''yours''], reset_tables) of (ps, db) \<Rightarrow>
     ps = [Done reset_done, Done reset_done] \<and> map da_password (accounts db) = [Some ''pyours''])"
  by (rule conjI; code_simp)

end
