(* ===== verification/Spec2Isabelle.thy ===== *)
theory Spec2Isabelle
  imports WhitelistSafety HostSafety SecretsEgress CapabilityPolicy PoolSafety ExecBudget Scratch
    ProcessSafety SecretsBroker RateLimit Idempotency AuditSafety SessionSafety WebhookSafety
    SearchSafety OAuthSafety SyncSafety GitSafety TokenSafety AuthSafety
begin

text \<open>
  boxxkite runs untrusted agent code in sandboxes. Three programs make it up. The
  \<^emph>\<open>control plane\<close> (\<open>src/control-plane/src/control_plane\<close>) is the tenants'
  HTTP service: it authenticates, limits and records, keeps the session, secret, webhook
  and audit tables, and asks the sandbox manager for pods. The \<^emph>\<open>manager library\<close>
  (\<open>src/src/boxxkite\<close>) claims warm pods, sizes the pool, creates network
  policies and holds the agent tools, among them the allowlist of the shell tool. The
  \<^emph>\<open>sidecar\<close> (\<open>src/sidecar\<close>) runs beside each sandbox container: it
  executes commands under a budget, keeps background processes, files and scratch
  memory, and is the only holder of secret values. A session starts in the control
  plane (\<open>Sessions\<close>), which mints a capability token listing the granted secrets
  (\<open>SecretCapability\<close>); the manager claims a pod (\<open>WarmPool\<close>) and opens
  egress to the granted hosts only (\<open>SecretsEgress\<close>); the sidecar trades the token
  for values when a request is sent (\<open>SecretsBroker\<close>), serves the agent's file requests
  (\<open>SidecarFiles\<close>) and copies the outputs to storage (\<open>SidecarSync\<close>); teardown or
  the reaper ends the session, and its events leave as webhooks (\<open>Webhooks\<close>). Who may do
  all this is decided by passwords, refresh tokens and OAuth grants (\<open>Auth\<close>,
  \<open>OAuth\<close>) and, at each request, by API keys and signed tokens (\<open>Tokens\<close>).

  \<^bold>\<open>Theories.\<close> Each component has a theory with its data and operations, named as in
  the source, and where its proofs are long a second one with its lemmas and properties.

  \<^item> \<open>Prelude\<close>: Python strings, insertion-ordered dictionaries, shared lemmas;
    \<open>Json\<close>: values and the sorted-keys printer of \<open>json.dumps\<close>, shown injective.
  \<^item> \<open>Shlex\<close>, \<open>CommandWhitelist\<close>, \<open>WhitelistSafety\<close>:
    \<open>command_whitelist.py\<close> and the lexer it runs on. Lemmas relate the token scan to
    the documented split of a command line, and acceptance to the rules of the list.
  \<^item> \<open>IpAddress\<close>, \<open>HostSafety\<close>: the parts of \<open>ipaddress\<close> the
    source uses and the three deny-lists of destinations (\<open>host_safety.py\<close>,
    \<open>sidecar_secrets.py\<close>, \<open>secrets_network_policy.py\<close>), shown to deny
    internal ranges; \<open>SecretsEgress\<close>: the NetworkPolicy built from the grants.
  \<^item> \<open>CapabilityPolicy\<close>: \<open>capability_policy.py\<close>, its validity characterised.
  \<^item> \<open>PoolSizing\<close>, \<open>WarmPool\<close>, \<open>PoolSafety\<close>:
    \<open>warm_pool_sizing.py\<close> and \<open>warm_pool.py\<close>: claims, scans, replenishment,
    recycling and idle reaping of warm pods against a Kubernetes API that answers with
    the pods it has or with errors.
  \<^item> \<open>Admission\<close>: counters that admit up to a limit, the locale the limits share;
    \<open>ExecBudget\<close>, \<open>Scratch\<close>, \<open>Processes\<close> with
    \<open>ProcessSafety\<close>, \<open>SecretsBroker\<close>: the sidecar's exec budget and
    authentication, scratch memory, background processes and preview proxy, and the
    secrets broker (substitution, guarded requests, scrubbing of responses).
  \<^item> \<open>RateLimit\<close>, \<open>Idempotency\<close>: the two request limiters and the
    Idempotency-Key middleware, as interleavings of requests.
  \<^item> \<open>AuditChain\<close>, \<open>AuditSafety\<close>: the two hash-chained logs and their
    verification; the locale \<open>chained_log\<close> states the contract of a chained log and
    is interpreted on both.
  \<^item> \<open>SecretCapability\<close>: capability tokens, grants and the resolve endpoint.
  \<^item> \<open>Sessions\<close>, \<open>SessionSafety\<close>: the session table, creation and teardown
    as steps between awaits, the quota locks, and the reaper; the locale \<open>capped\<close>
    is interpreted on the global and on the per-account cap.
  \<^item> \<open>Webhooks\<close>, \<open>WebhookSafety\<close>: registration, fan-out, signing, retries.
  \<^item> \<open>FileSystem\<close>: a directory tree with symbolic links and the kernel's path
    walk; \<open>SidecarPaths\<close>, \<open>SidecarFiles\<close>, \<open>SidecarSearch\<close>: the sidecar's
    containment checks, file routes, grep and watch, as sequences of system calls between which
    the sandbox may act; \<open>FileSafety\<close>, \<open>SearchSafety\<close>: where such calls can
    reach, and what the routes return when the sandbox is quiet.
  \<^item> \<open>SidecarSync\<close>, \<open>SyncSafety\<close>: discovery and flush of changed files to the
    object store, against a sandbox that writes meanwhile and a store that fails.
  \<^item> \<open>OAuth\<close>, \<open>OAuthSafety\<close>: the OAuth server of the hosted MCP endpoint
    (registration, consent, codes, refresh-token rotation and families), with its database steps
    interleaved; the locale \<open>single_use\<close> of a row that is consumed once is interpreted on
    codes and refresh tokens. \<open>Auth\<close>, \<open>AuthSafety\<close>: passwords, resets and
    dashboard refresh tokens.
  \<^item> \<open>Tokens\<close>, \<open>TokenSafety\<close>: the signed tokens of \<open>security.py\<close>, the
    credential dependencies of \<open>deps.py\<close> and the routes that mint, redeem and revoke
    them; the locale \<open>jti_guard\<close> of a table of used identifiers is interpreted on the
    three tables.
  \<^item> \<open>GitTools\<close>, \<open>GitSafety\<close>: the agent's git tools and the shell commands they
    build, read back by \<open>Shlex\<close>.

  \<^bold>\<open>Conventions.\<close> Strings are lists of Latin-1 characters. Times are integers of
  microseconds (or reals where the code compares float clocks), hours and rates are
  reals. Python ints are \<open>int\<close> or \<open>nat\<close>; addresses of \<open>ipaddress\<close> are
  naturals below the powers of two of their width. Rows that compare equal under
  an ORDER BY keep their table order. Loops are structural or terminate by a measure, with two
  exceptions: the path walk counts down the kernel's own allowance of 40 links, so running out
  is the kernel's error and not a bound of the model, and the walk over a family of refresh
  tokens is a \<open>partial_function\<close>, proved to return on every reachable table. What is not in the repository is an argument of the definitions
  that use it: DNS, URL parsing, regular expressions, digests, HMAC, JWT and KMS,
  Kubernetes and sandbox-manager answers, clocks and identifiers.

  \<^bold>\<open>Not modelled.\<close> HTTP transport and request validation by the web framework,
  the text of log lines and most error messages, the SDKs and command line clients, the
  evaluation packages, and the components the project's manifest lists with the reason.
  In the modelled parts: the Kubernetes Secret that carries a warm pod's TLS certificate
  is not part of the claim's record of calls; the secrets broker reads
  its clock once per request; the timer loops around reaper, pool and webhook passes. Of the
  sidecar's files: images, presented files, glob and the materialisation of skills, NUL bytes in
  paths, modification times in the file routes; writing a temporary file and renaming it is one
  step. Of the OAuth server: the state parameter, the HTML pages and the login cookie. Of the sync:
  prefetching a session's files. Of the git tools: the session and organisation
  fields of audit records, log lines and the LangChain wrappers. Of the credentials: the demo,
  social-login and single-sign-on routes whose tokens are modelled, rate limits and exec log rows.
\<close>

end
